(* ===== verification/Prelude.thy ===== *)
theory Prelude
  imports Main "HOL-Library.Word"
begin

text \<open>
  Shared vocabulary of the development: the integer conventions, the slice operations of
  Rust's \<open>Vec\<close>, UTF-8 as \<open>char::encode_utf8\<close> and \<open>str::from_utf8\<close> implement it, and the
  generic lemmas about them that the component theories use.

  Integers.  A \<open>u8\<close> byte is a \<open>byte\<close> (an 8-bit word).  The wider unsigned types
  (\<open>u16\<close>, \<open>u32\<close>, \<open>u64\<close>, \<open>usize\<close>) are \<open>nat\<close>, with each saturating operation of the source
  written out by \<open>sat_add\<close> and \<open>sat_mul\<close> at the width's maximum; \<open>saturating_sub\<close> is
  subtraction on \<open>nat\<close>.  A \<open>char\<close> is its code point, a \<open>nat\<close> that satisfies \<open>is_scalar\<close>.
\<close>

type_synonym byte = "8 word"
type_synonym scalar = nat

abbreviation u8_max :: nat where "u8_max \<equiv> 255"
abbreviation u16_max :: nat where "u16_max \<equiv> 65535"
abbreviation u32_max :: nat where "u32_max \<equiv> 4294967295"
abbreviation u64_max :: nat where "u64_max \<equiv> 18446744073709551615"

named_theorems slice_simps \<open>lengths and elements of slices, fills and moves\<close>
named_theorems keeps \<open>an operation keeps an invariant\<close>

subsection \<open>Saturating arithmetic\<close>

definition sat_add :: "nat \<Rightarrow> nat \<Rightarrow> nat \<Rightarrow> nat" where
  "sat_add mx a b = min (a + b) mx"

definition sat_mul :: "nat \<Rightarrow> nat \<Rightarrow> nat \<Rightarrow> nat" where
  "sat_mul mx a b = min (a * b) mx"

definition checked_add :: "nat \<Rightarrow> nat \<Rightarrow> nat \<Rightarrow> nat option" where
  "checked_add mx a b = (if a + b \<le> mx then Some (a + b) else None)"

lemma sat_add_le [simp]: "sat_add mx a b \<le> mx"
  by (simp add: sat_add_def)

lemma sat_add_exact: "a + b \<le> mx \<Longrightarrow> sat_add mx a b = a + b"
  by (simp add: sat_add_def)

lemma sat_mul_le [simp]: "sat_mul mx a b \<le> mx"
  by (simp add: sat_mul_def)

subsection \<open>Slices\<close>

text \<open>
  \<open>xs[a..b]\<close>, \<open>xs[a..b].fill(v)\<close> and \<open>xs.copy_within(a..b, d)\<close>.  Out of range the source
  panics; the components prove that their ranges are inside the vector.
\<close>

definition slice :: "nat \<Rightarrow> nat \<Rightarrow> 'a list \<Rightarrow> 'a list" where
  "slice a b xs = take (b - a) (drop a xs)"

definition fill_range :: "nat \<Rightarrow> nat \<Rightarrow> 'a \<Rightarrow> 'a list \<Rightarrow> 'a list" where
  "fill_range a b v xs = take a xs @ replicate (b - a) v @ drop b xs"

definition copy_within :: "nat \<Rightarrow> nat \<Rightarrow> nat \<Rightarrow> 'a list \<Rightarrow> 'a list" where
  "copy_within a b d xs = take d xs @ slice a b xs @ drop (d + (b - a)) xs"

lemma length_slice [slice_simps]: "b \<le> length xs \<Longrightarrow> length (slice a b xs) = b - a"
  by (simp add: slice_def)

lemma nth_slice [slice_simps]:
  "\<lbrakk>b \<le> length xs; i < b - a\<rbrakk> \<Longrightarrow> slice a b xs ! i = xs ! (a + i)"
  by (simp add: slice_def)

lemma set_slice_subset: "set (slice a b xs) \<subseteq> set xs"
  unfolding slice_def by (meson order_trans set_drop_subset set_take_subset)

lemma length_fill_range [slice_simps]:
  "\<lbrakk>a \<le> b; b \<le> length xs\<rbrakk> \<Longrightarrow> length (fill_range a b v xs) = length xs"
  by (simp add: fill_range_def)

lemma nth_fill_range [slice_simps]:
  assumes "a \<le> b" "b \<le> length xs" "i < length xs"
  shows "fill_range a b v xs ! i = (if a \<le> i \<and> i < b then v else xs ! i)"
  using assms by (auto simp: fill_range_def nth_append min_def)

lemma length_copy_within [slice_simps]:
  "\<lbrakk>a \<le> b; b \<le> length xs; d + (b - a) \<le> length xs\<rbrakk>
    \<Longrightarrow> length (copy_within a b d xs) = length xs"
  by (simp add: copy_within_def slice_def)

lemma nth_copy_within [slice_simps]:
  assumes "a \<le> b" "b \<le> length xs" "d + (b - a) \<le> length xs" "i < length xs"
  shows "copy_within a b d xs ! i =
    (if d \<le> i \<and> i < d + (b - a) then xs ! (a + (i - d)) else xs ! i)"
proof -
  have "length (slice a b xs) = b - a" using assms by (simp add: slice_simps)
  then show ?thesis
    using assms by (auto simp: copy_within_def nth_append nth_slice min_def)
qed

lemma set_fill_range_subset: "set (fill_range a b v xs) \<subseteq> insert v (set xs)"
  unfolding fill_range_def
  by (auto dest: in_set_takeD in_set_dropD split: if_splits)

lemma set_copy_within_subset: "set (copy_within a b d xs) \<subseteq> set xs"
  unfolding copy_within_def
  using set_slice_subset by (fastforce dest: in_set_takeD in_set_dropD)

subsection \<open>\<open>partition_point\<close>\<close>

text \<open>
  The standard library's binary search for the length of the longest prefix on which a
  monotone predicate holds.  On a partitioned slice it is the length of that prefix.
\<close>

definition partition_point :: "('a \<Rightarrow> bool) \<Rightarrow> 'a list \<Rightarrow> nat" where
  "partition_point P xs = length (takeWhile P xs)"

lemma partition_point_le: "partition_point P xs \<le> length xs"
  by (simp add: partition_point_def length_takeWhile_le)

lemma partition_point_before: "i < partition_point P xs \<Longrightarrow> P (xs ! i)"
  unfolding partition_point_def
  by (metis nth_mem set_takeWhileD takeWhile_nth)

lemma partition_point_at: "partition_point P xs < length xs \<Longrightarrow> \<not> P (xs ! partition_point P xs)"
  unfolding partition_point_def by (rule nth_length_takeWhile)

subsection \<open>UTF-8\<close>

definition is_scalar :: "scalar \<Rightarrow> bool" where
  "is_scalar c \<longleftrightarrow> c < 0xD800 \<or> (0xE000 \<le> c \<and> c \<le> 0x10FFFF)"

text \<open>\<open>char::encode_utf8\<close> and \<open>char::len_utf8\<close>.\<close>

definition byte_of :: "nat \<Rightarrow> byte" where
  "byte_of n = word_of_nat n"

definition utf8_encode :: "scalar \<Rightarrow> byte list" where
  "utf8_encode c =
    (if c < 0x80 then [byte_of c]
     else if c < 0x800 then
       [byte_of (0xC0 + c div 64), byte_of (0x80 + c mod 64)]
     else if c < 0x10000 then
       [byte_of (0xE0 + c div 4096), byte_of (0x80 + c div 64 mod 64),
        byte_of (0x80 + c mod 64)]
     else
       [byte_of (0xF0 + c div 262144), byte_of (0x80 + c div 4096 mod 64),
        byte_of (0x80 + c div 64 mod 64), byte_of (0x80 + c mod 64)])"

definition len_utf8 :: "scalar \<Rightarrow> nat" where
  "len_utf8 c = (if c < 0x80 then 1 else if c < 0x800 then 2 else if c < 0x10000 then 3 else 4)"

definition is_cont :: "nat \<Rightarrow> bool" where
  "is_cont n \<longleftrightarrow> 0x80 \<le> n \<and> n \<le> 0xBF"

text \<open>
  \<open>str::from_utf8\<close>: the well-formed byte sequences of Unicode table 3-7, decoded to their
  code points; \<open>None\<close> is \<open>Err\<close>.
\<close>

fun from_utf8_nat :: "nat list \<Rightarrow> scalar list option" where
  "from_utf8_nat [] = Some []"
| "from_utf8_nat (a # xs) =
    (if a < 0x80 then map_option ((#) a) (from_utf8_nat xs)
     else if 0xC2 \<le> a \<and> a \<le> 0xDF then
       (case xs of
          b # ys \<Rightarrow> if is_cont b
            then map_option ((#) ((a - 0xC0) * 64 + (b - 0x80))) (from_utf8_nat ys) else None
        | [] \<Rightarrow> None)
     else if 0xE0 \<le> a \<and> a \<le> 0xEF then
       (case xs of
          b # c # ys \<Rightarrow>
            if is_cont b \<and> is_cont c \<and> (a = 0xE0 \<longrightarrow> 0xA0 \<le> b) \<and> (a = 0xED \<longrightarrow> b \<le> 0x9F)
            then map_option ((#) ((a - 0xE0) * 4096 + (b - 0x80) * 64 + (c - 0x80)))
                   (from_utf8_nat ys) else None
        | _ \<Rightarrow> None)
     else if 0xF0 \<le> a \<and> a \<le> 0xF4 then
       (case xs of
          b # c # d # ys \<Rightarrow>
            if is_cont b \<and> is_cont c \<and> is_cont d \<and> (a = 0xF0 \<longrightarrow> 0x90 \<le> b)
               \<and> (a = 0xF4 \<longrightarrow> b \<le> 0x8F)
            then map_option ((#) ((a - 0xF0) * 262144 + (b - 0x80) * 4096 + (c - 0x80) * 64
                   + (d - 0x80))) (from_utf8_nat ys) else None
        | _ \<Rightarrow> None)
     else None)"

definition from_utf8 :: "byte list \<Rightarrow> scalar list option" where
  "from_utf8 bs = from_utf8_nat (map unat bs)"

text \<open>
  \<open>String::from_utf8_lossy\<close>: each maximal ill-formed prefix becomes one U+FFFD.
\<close>

definition second_ok :: "nat \<Rightarrow> nat \<Rightarrow> bool" where
  "second_ok a b \<longleftrightarrow> is_cont b \<and> (a = 0xE0 \<longrightarrow> 0xA0 \<le> b) \<and> (a = 0xED \<longrightarrow> b \<le> 0x9F)
     \<and> (a = 0xF0 \<longrightarrow> 0x90 \<le> b) \<and> (a = 0xF4 \<longrightarrow> b \<le> 0x8F)"

fun utf8_lossy_nat :: "nat list \<Rightarrow> scalar list" where
  "utf8_lossy_nat [] = []"
| "utf8_lossy_nat (a # xs) =
    (if a < 0x80 then a # utf8_lossy_nat xs
     else if 0xC2 \<le> a \<and> a \<le> 0xDF then
       (case xs of
          [] \<Rightarrow> [0xFFFD]
        | b # ys \<Rightarrow> if is_cont b then ((a - 0xC0) * 64 + (b - 0x80)) # utf8_lossy_nat ys
                    else 0xFFFD # utf8_lossy_nat xs)
     else if 0xE0 \<le> a \<and> a \<le> 0xEF then
       (case xs of
          [] \<Rightarrow> [0xFFFD]
        | b # ys \<Rightarrow>
            if \<not> second_ok a b then 0xFFFD # utf8_lossy_nat xs
            else (case ys of
                    [] \<Rightarrow> [0xFFFD]
                  | c # zs \<Rightarrow>
                      if is_cont c
                      then ((a - 0xE0) * 4096 + (b - 0x80) * 64 + (c - 0x80)) # utf8_lossy_nat zs
                      else 0xFFFD # utf8_lossy_nat ys))
     else if 0xF0 \<le> a \<and> a \<le> 0xF4 then
       (case xs of
          [] \<Rightarrow> [0xFFFD]
        | b # ys \<Rightarrow>
            if \<not> second_ok a b then 0xFFFD # utf8_lossy_nat xs
            else (case ys of
                    [] \<Rightarrow> [0xFFFD]
                  | c # zs \<Rightarrow>
                      if \<not> is_cont c then 0xFFFD # utf8_lossy_nat ys
                      else (case zs of
                              [] \<Rightarrow> [0xFFFD]
                            | d # ds \<Rightarrow>
                                if is_cont d
                                then ((a - 0xF0) * 262144 + (b - 0x80) * 4096 + (c - 0x80) * 64
                                       + (d - 0x80)) # utf8_lossy_nat ds
                                else 0xFFFD # utf8_lossy_nat zs)))
     else 0xFFFD # utf8_lossy_nat xs)"

definition from_utf8_lossy :: "byte list \<Rightarrow> scalar list" where
  "from_utf8_lossy bs = utf8_lossy_nat (map unat bs)"

definition string_bytes :: "scalar list \<Rightarrow> byte list" where
  "string_bytes cs = concat (map utf8_encode cs)"

lemma unat_byte_of [simp]: "n < 256 \<Longrightarrow> unat (byte_of n) = n"
  by (simp add: byte_of_def unat_of_nat)

lemma byte_of_unat [simp]: "byte_of (unat b) = b"
  by (simp add: byte_of_def)

lemma length_utf8_encode: "length (utf8_encode c) = len_utf8 c"
  by (simp add: utf8_encode_def len_utf8_def)

lemma map_unat_utf8_encode:
  assumes "is_scalar c"
  shows "map unat (utf8_encode c) =
    (if c < 0x80 then [c]
     else if c < 0x800 then [0xC0 + c div 64, 0x80 + c mod 64]
     else if c < 0x10000 then
       [0xE0 + c div 4096, 0x80 + c div 64 mod 64, 0x80 + c mod 64]
     else [0xF0 + c div 262144, 0x80 + c div 4096 mod 64, 0x80 + c div 64 mod 64,
           0x80 + c mod 64])"
proof -
  have m: "(x::nat) mod 64 < 64" for x by simp
  have "0xC0 + c div 64 < 256" if "c < 0x800" using that by auto
  moreover have "0xE0 + c div 4096 < 256" if "c < 0x10000" using that by auto
  moreover have "0xF0 + c div 262144 < 256" using assms by (auto simp: is_scalar_def)
  moreover have "0x80 + x mod 64 < 256" for x :: nat using m [of x] by linarith
  ultimately show ?thesis by (simp add: utf8_encode_def)
qed

lemma utf8_parts:
  fixes c :: nat
  shows "c div 64 * 64 + c mod 64 = c"
    and "c div 4096 * 4096 + c div 64 mod 64 * 64 + c mod 64 = c"
    and "c div 262144 * 262144 + c div 4096 mod 64 * 4096 + c div 64 mod 64 * 64 + c mod 64 = c"
proof -
  have a: "c div 64 div 64 = c div 4096" and b: "c div 4096 div 64 = c div 262144"
    by (simp_all add: div_mult2_eq [symmetric])
  have 1: "c div 64 * 64 + c mod 64 = c" by simp
  have 2: "c div 4096 * 64 + c div 64 mod 64 = c div 64" using a by (metis div_mult_mod_eq)
  have 3: "c div 262144 * 64 + c div 4096 mod 64 = c div 4096" using b by (metis div_mult_mod_eq)
  show "c div 64 * 64 + c mod 64 = c" by simp
  show "c div 4096 * 4096 + c div 64 mod 64 * 64 + c mod 64 = c" using 1 2 by linarith
  show "c div 262144 * 262144 + c div 4096 mod 64 * 4096 + c div 64 mod 64 * 64 + c mod 64 = c"
    using 1 2 3 by linarith
qed

lemma is_cont_low [simp]: "is_cont (128 + x mod 64)"
proof -
  have "x mod 64 < 64" by simp
  then have "128 + x mod 64 \<le> 191" by linarith
  then show ?thesis by (simp add: is_cont_def)
qed

text \<open>Decoding an encoded scalar gives it back, whatever follows.\<close>

lemma from_utf8_encode_append:
  assumes "is_scalar c"
  shows "from_utf8 (utf8_encode c @ bs) = map_option ((#) c) (from_utf8 bs)"
proof -
  consider "c < 0x80" | "0x80 \<le> c" "c < 0x800" | "0x800 \<le> c" "c < 0x10000" | "0x10000 \<le> c"
    by linarith
  then show ?thesis
  proof cases
    case 1
    then show ?thesis using assms by (simp add: from_utf8_def map_unat_utf8_encode)
  next
    case 2
    then have lo: "2 \<le> c div 64" and hi: "(c div 64 \<le> 31) = True" by auto
    show ?thesis using 2 assms lo utf8_parts(1) [of c]
      by (simp add: from_utf8_def map_unat_utf8_encode hi)
  next
    case 3
    then have d: "c div 4096 < 16" by auto
    have lo: "32 \<le> c div 64 mod 64" if "c div 4096 = 0"
    proof -
      have "c div 64 div 64 = 0" using that by (simp add: div_mult2_eq [symmetric])
      then have "c div 64 mod 64 = c div 64" by simp
      moreover have "32 \<le> c div 64" using 3 by auto
      ultimately show ?thesis by simp
    qed
    have hi: "c div 64 mod 64 \<le> 31" if "c div 4096 = 13"
    proof -
      have "c < 0xD800" using assms that by (auto simp: is_scalar_def)
      then have "c div 64 < 0x360" by auto
      moreover have "c div 64 = 13 * 64 + c div 64 mod 64"
        using that div_mult_mod_eq [of "c div 64" 64] by (simp add: div_mult2_eq [symmetric])
      ultimately show ?thesis by linarith
    qed
    show ?thesis using 3 assms d lo hi utf8_parts(2) [of c]
      by (simp add: from_utf8_def map_unat_utf8_encode)
  next
    case 4
    then have d: "c div 262144 \<le> 4" using assms by (auto simp: is_scalar_def)
    have e: "c div 4096 = c div 262144 * 64 + c div 4096 mod 64"
      using div_mult_mod_eq [of "c div 4096" 64] by (simp add: div_mult2_eq [symmetric])
    have "16 \<le> c div 4096" "c div 4096 \<le> 0x10F" using 4 assms by (auto simp: is_scalar_def)
    then have "16 \<le> c div 4096 mod 64" if "c div 262144 = 0" using e that by linarith
    moreover have "c div 4096 mod 64 \<le> 15" if "c div 262144 = 4"
      using e that \<open>c div 4096 \<le> 0x10F\<close> by linarith
    ultimately show ?thesis using 4 assms d utf8_parts(3) [of c]
      by (simp add: from_utf8_def map_unat_utf8_encode)
  qed
qed

lemma from_utf8_string_bytes:
  "list_all is_scalar cs \<Longrightarrow> from_utf8 (string_bytes cs) = Some cs"
  by (induction cs)
    (simp_all add: string_bytes_def from_utf8_encode_append, simp add: from_utf8_def)

text \<open>Decoding only yields scalar values.\<close>

lemma decode2_scalar:
  "\<lbrakk>a \<le> 0xDF; is_cont b\<rbrakk> \<Longrightarrow> is_scalar ((a - 0xC0) * 64 + (b - 0x80))"
  by (auto simp: is_scalar_def is_cont_def)

lemma decode3_scalar:
  assumes "a \<le> 0xEF" "is_cont b" "is_cont c" "a = 0xED \<longrightarrow> b \<le> 0x9F"
  shows "is_scalar ((a - 0xE0) * 4096 + (b - 0x80) * 64 + (c - 0x80))"
proof -
  consider "a = 0xED" | "a < 0xED" | "0xED < a" by linarith
  then show ?thesis
    using assms by cases (simp_all add: is_scalar_def is_cont_def, linarith+)
qed

lemma decode4_scalar:
  assumes "0xF0 \<le> a" "a \<le> 0xF4" "is_cont b" "is_cont c" "is_cont d" "a = 0xF0 \<longrightarrow> 0x90 \<le> b"
    "a = 0xF4 \<longrightarrow> b \<le> 0x8F"
  shows "is_scalar ((a - 0xF0) * 262144 + (b - 0x80) * 4096 + (c - 0x80) * 64 + (d - 0x80))"
proof -
  consider "a = 0xF0" | "a = 0xF4" | "0xF0 < a" "a < 0xF4" using assms(1,2) by linarith
  then show ?thesis
    using assms by cases (simp_all add: is_scalar_def is_cont_def, linarith+)
qed

lemma from_utf8_nat_scalar: "from_utf8_nat xs = Some cs \<Longrightarrow> list_all is_scalar cs"
proof (induction xs arbitrary: cs rule: from_utf8_nat.induct)
  case (2 a xs)
  consider "a < 0x80" | "0xC2 \<le> a" "a \<le> 0xDF" | "0xE0 \<le> a" "a \<le> 0xEF" | "0xF0 \<le> a" "a \<le> 0xF4"
    using "2.prems" by (auto split: if_splits)
  then show ?case
  proof cases
    case 1
    then have "is_scalar a" by (simp add: is_scalar_def)
    then show ?thesis using 1 "2.prems" "2.IH"(1) by auto
  next
    case 2
    then show ?thesis
      using "2.prems" "2.IH"(2) decode2_scalar
      by (auto simp del: One_nat_def split: list.splits if_splits)
  next
    case 3
    then show ?thesis
      using "2.prems" "2.IH"(3) decode3_scalar
      by (auto simp del: One_nat_def split: list.splits if_splits)
  next
    case 4
    then show ?thesis
      using "2.prems" "2.IH"(4) decode4_scalar
      by (auto simp del: One_nat_def split: list.splits if_splits)
  qed
qed simp

declare utf8_lossy_nat.simps(2) [simp del]

lemma utf8_lossy_nat_step:
  "a < 0x80 \<Longrightarrow> utf8_lossy_nat (a # ys) = a # utf8_lossy_nat ys"
  "\<lbrakk>0xC2 \<le> a; a \<le> 0xDF; is_cont b\<rbrakk> \<Longrightarrow>
     utf8_lossy_nat (a # b # ys) = ((a - 0xC0) * 64 + (b - 0x80)) # utf8_lossy_nat ys"
  "\<lbrakk>0xE0 \<le> a; a \<le> 0xEF; second_ok a b; is_cont c\<rbrakk> \<Longrightarrow>
     utf8_lossy_nat (a # b # c # ys)
       = ((a - 0xE0) * 4096 + (b - 0x80) * 64 + (c - 0x80)) # utf8_lossy_nat ys"
  "\<lbrakk>0xF0 \<le> a; a \<le> 0xF4; second_ok a b; is_cont c; is_cont d\<rbrakk> \<Longrightarrow>
     utf8_lossy_nat (a # b # c # d # ys)
       = ((a - 0xF0) * 262144 + (b - 0x80) * 4096 + (c - 0x80) * 64 + (d - 0x80)) # utf8_lossy_nat ys"
  by (subst utf8_lossy_nat.simps(2); simp)+

lemma utf8_lossy_nat_valid: "from_utf8_nat xs = Some cs \<Longrightarrow> utf8_lossy_nat xs = cs"
proof (induction xs arbitrary: cs rule: from_utf8_nat.induct)
  case (2 a xs)
  consider "a < 0x80" | "0xC2 \<le> a" "a \<le> 0xDF" | "0xE0 \<le> a" "a \<le> 0xEF" | "0xF0 \<le> a" "a \<le> 0xF4"
    using "2.prems" by (auto split: if_splits)
  then show ?case
  proof cases
    case 1
    then show ?thesis using "2.prems" "2.IH"(1) by (auto simp: utf8_lossy_nat_step)
  next
    case 2
    then show ?thesis using "2.prems" "2.IH"(2)
      by (auto simp: utf8_lossy_nat_step split: list.splits if_splits)
  next
    case 3
    then show ?thesis using "2.prems" "2.IH"(3)
      by (auto simp: utf8_lossy_nat_step second_ok_def split: list.splits if_splits)
  next
    case 4
    then show ?thesis using "2.prems" "2.IH"(4)
      by (auto simp: utf8_lossy_nat_step second_ok_def split: list.splits if_splits)
  qed
qed simp

lemma from_utf8_lossy_valid: "from_utf8 bs = Some cs \<Longrightarrow> from_utf8_lossy bs = cs"
  by (simp add: from_utf8_def from_utf8_lossy_def utf8_lossy_nat_valid)

end
