(* ===== verification/Vt_Parser.thy ===== *)
theory Vt_Parser
  imports Prelude
begin

text \<open>
  The incremental VT parser, \<open>crates/seyal-terminal/src/parser.rs\<close>: the state record, one
  definition per method, and the loop of \<open>feed\<close>.  The methods of the trait \<open>Actions\<close> return
  nothing to the parser, so a call is the emission of an \<open>action\<close>: each method returns the
  new parser and the calls it made, in order.  The fixed arrays \<open>params\<close>, \<open>utf8\<close> and \<open>osc\<close>
  are only ever read up to their length field, so each is the list of its first \<open>len\<close>
  elements; their capacities stay as guards.

  Shown: the loop of \<open>feed\<close> ends, and the result does not depend on how the byte stream is
  cut into chunks; the buffers stay within their capacities and every emitted action within
  its bounds; printable text in UTF-8 is printed back scalar by scalar; two CAN bytes bring
  every state back to the ground state.
\<close>

abbreviation MAX_PARAMS :: nat where "MAX_PARAMS \<equiv> 32"
abbreviation MAX_UTF8 :: nat where "MAX_UTF8 \<equiv> 4"
abbreviation MAX_OSC_BYTES :: nat where "MAX_OSC_BYTES \<equiv> 4096"

datatype action =
    Print scalar
  | Execute byte
  | Csi_dispatch "nat list" "byte option" bool byte
  | Esc_dispatch byte bool
  | Osc_dispatch "byte list" bool
  | Deferred_string
  | Malformed

datatype pstate =
    Ground
  | Escape
  | EscapeIntermediate
  | Csi
  | Osc
  | OscEscape
  | IgnoredString
  | IgnoredStringEscape

record parser =
  pst :: pstate
  params :: "nat list"
  param_acc :: nat
  has_param_acc :: bool
  private_marker :: "byte option"
  ignored :: bool
  utf8 :: "byte list"
  utf8_needed :: nat
  putback :: "byte option"
  osc_buf :: "byte list"
  osc_truncated :: bool

definition new_parser :: parser where
  "new_parser = \<lparr>pst = Ground, params = [], param_acc = 0, has_param_acc = False,
    private_marker = None, ignored = False, utf8 = [], utf8_needed = 0, putback = None,
    osc_buf = [], osc_truncated = False\<rparr>"

definition reset_sequence :: "parser \<Rightarrow> parser" where
  "reset_sequence p = p\<lparr>params := [], param_acc := 0, has_param_acc := False,
    private_marker := None, ignored := False\<rparr>"

definition reset_osc :: "parser \<Rightarrow> parser" where
  "reset_osc p = p\<lparr>osc_buf := [], osc_truncated := False\<rparr>"

definition push_osc :: "parser \<Rightarrow> byte \<Rightarrow> parser" where
  "push_osc p b = (if length (osc_buf p) < MAX_OSC_BYTES
    then p\<lparr>osc_buf := osc_buf p @ [b]\<rparr> else p\<lparr>osc_truncated := True\<rparr>)"

definition start_utf8 :: "parser \<Rightarrow> byte \<Rightarrow> nat \<Rightarrow> parser" where
  "start_utf8 p lead needed = p\<lparr>utf8 := [lead], utf8_needed := needed\<rparr>"

definition replacement :: "action list" where
  "replacement = [Malformed, Print 0xFFFD]"

definition abort_utf8 :: "parser \<Rightarrow> parser \<times> action list" where
  "abort_utf8 p = (p\<lparr>utf8 := [], utf8_needed := 0\<rparr>, replacement)"

definition finish_utf8 :: "parser \<Rightarrow> parser \<times> action list" where
  "finish_utf8 p =
    (let len = utf8_needed p;
         decoded = (case from_utf8 (take len (utf8 p)) of
             Some (c # _) \<Rightarrow> Some c | _ \<Rightarrow> None);
         p' = p\<lparr>utf8 := [], utf8_needed := 0\<rparr>
     in (p', case decoded of Some c \<Rightarrow> [Print c] | None \<Rightarrow> replacement))"

definition push_digit :: "parser \<Rightarrow> nat \<Rightarrow> parser" where
  "push_digit p d =
    (let acc = sat_add u32_max (sat_mul u32_max (param_acc p) 10) d
     in p\<lparr>has_param_acc := True, param_acc := acc,
          ignored := (ignored p \<or> acc > u16_max)\<rparr>)"

definition finish_param :: "parser \<Rightarrow> parser" where
  "finish_param p =
    (if length (params p) = MAX_PARAMS
     then p\<lparr>ignored := True, param_acc := 0, has_param_acc := False\<rparr>
     else p\<lparr>params := params p @ [min (param_acc p) u16_max], param_acc := 0,
            has_param_acc := False\<rparr>)"

text \<open>The C0 controls that every escape state executes without leaving it.\<close>

definition c0_execute :: "byte \<Rightarrow> bool" where
  "c0_execute b \<longleftrightarrow> b \<le> 0x17 \<or> b = 0x19 \<or> (0x1c \<le> b \<and> b \<le> 0x1f)"

definition ground :: "parser \<Rightarrow> byte \<Rightarrow> parser \<times> action list" where
  "ground p b =
    (if utf8_needed p \<noteq> 0 then
       (if 0x80 \<le> b \<and> b \<le> 0xbf then
          (let p' = p\<lparr>utf8 := utf8 p @ [b]\<rparr>
           in if length (utf8 p') = utf8_needed p' then finish_utf8 p' else (p', []))
        else (case abort_utf8 p of (p', as) \<Rightarrow> (p'\<lparr>putback := Some b\<rparr>, as)))
     else if c0_execute b then (p, [Execute b])
     else if b = 0x18 \<or> b = 0x1a then (p, [Execute b])
     else if b = 0x1b then ((reset_sequence p)\<lparr>pst := Escape\<rparr>, [])
     else if 0x20 \<le> b \<and> b \<le> 0x7e then (p, [Print (unat b)])
     else if b = 0x7f then (p, [])
     else if 0xc2 \<le> b \<and> b \<le> 0xdf then (start_utf8 p b 2, [])
     else if 0xe0 \<le> b \<and> b \<le> 0xef then (start_utf8 p b 3, [])
     else if 0xf0 \<le> b \<and> b \<le> 0xf4 then (start_utf8 p b 4, [])
     else (p, replacement))"

definition escape :: "parser \<Rightarrow> byte \<Rightarrow> parser \<times> action list" where
  "escape p b =
    (if c0_execute b then (p, [Execute b])
     else if b = 0x18 \<or> b = 0x1a then (p\<lparr>pst := Ground\<rparr>, [Execute b])
     else if b = 0x1b then (reset_sequence p, [])
     else if b = 0x5b then ((reset_sequence p)\<lparr>pst := Csi\<rparr>, [])
     else if b = 0x5d then ((reset_osc (reset_sequence p))\<lparr>pst := Osc\<rparr>, [])
     else if b = 0x50 \<or> b = 0x58 \<or> b = 0x5e \<or> b = 0x5f
       then ((reset_sequence p)\<lparr>pst := IgnoredString\<rparr>, [])
     else if 0x20 \<le> b \<and> b \<le> 0x2f then (p\<lparr>pst := EscapeIntermediate\<rparr>, [])
     else if 0x30 \<le> b \<and> b \<le> 0x7e
       then (reset_sequence (p\<lparr>pst := Ground\<rparr>), [Esc_dispatch b False])
     else (reset_sequence (p\<lparr>pst := Ground\<rparr>), [Malformed]))"

definition escape_intermediate :: "parser \<Rightarrow> byte \<Rightarrow> parser \<times> action list" where
  "escape_intermediate p b =
    (if c0_execute b then (p, [Execute b])
     else if b = 0x18 \<or> b = 0x1a then (p\<lparr>pst := Ground\<rparr>, [Execute b])
     else if b = 0x1b then ((reset_sequence p)\<lparr>pst := Escape\<rparr>, [])
     else if 0x20 \<le> b \<and> b \<le> 0x2f then (p, [])
     else if 0x30 \<le> b \<and> b \<le> 0x7e
       then (reset_sequence (p\<lparr>pst := Ground\<rparr>), [Esc_dispatch b True])
     else (reset_sequence (p\<lparr>pst := Ground\<rparr>), [Malformed]))"

definition csi_byte :: "parser \<Rightarrow> byte \<Rightarrow> parser \<times> action list" where
  "csi_byte p b =
    (if c0_execute b then (p, [Execute b])
     else if b = 0x18 \<or> b = 0x1a then (reset_sequence (p\<lparr>pst := Ground\<rparr>), [Execute b])
     else if b = 0x1b then ((reset_sequence p)\<lparr>pst := Escape\<rparr>, [])
     else if 0x30 \<le> b \<and> b \<le> 0x39 then (push_digit p (unat b - 0x30), [])
     else if b = 0x3b then (finish_param p, [])
     else if b = 0x3a then (p\<lparr>ignored := True\<rparr>, [])
     else if 0x3c \<le> b \<and> b \<le> 0x3f \<and> params p = [] \<and> \<not> has_param_acc p
             \<and> private_marker p = None
       then (p\<lparr>private_marker := Some b\<rparr>, [])
     else if (0x20 \<le> b \<and> b \<le> 0x2f) \<or> (0x3c \<le> b \<and> b \<le> 0x3f) then (p\<lparr>ignored := True\<rparr>, [])
     else if 0x40 \<le> b \<and> b \<le> 0x7e then
       (let p' = (if has_param_acc p \<or> params p \<noteq> [] then finish_param p else p)
        in (reset_sequence (p'\<lparr>pst := Ground\<rparr>),
            [Csi_dispatch (params p') (private_marker p') (ignored p') b]))
     else if b = 0x7f then (p, [])
     else (p\<lparr>ignored := True\<rparr>, []))"

definition osc_byte :: "parser \<Rightarrow> byte \<Rightarrow> parser \<times> action list" where
  "osc_byte p b =
    (if b = 0x07 then
       (reset_osc (p\<lparr>pst := Ground\<rparr>), [Osc_dispatch (osc_buf p) (osc_truncated p)])
     else if b = 0x18 \<or> b = 0x1a then (p\<lparr>pst := Ground\<rparr>, [Execute b])
     else if b = 0x1b then (p\<lparr>pst := OscEscape\<rparr>, [])
     else (push_osc p b, []))"

definition osc_escape :: "parser \<Rightarrow> byte \<Rightarrow> parser \<times> action list" where
  "osc_escape p b =
    (if b = 0x5c then
       (reset_osc (p\<lparr>pst := Ground\<rparr>), [Osc_dispatch (osc_buf p) (osc_truncated p)])
     else ((reset_sequence (p\<lparr>pst := Escape\<rparr>))\<lparr>putback := Some b\<rparr>, []))"

definition ignored_string :: "parser \<Rightarrow> byte \<Rightarrow> parser \<times> action list" where
  "ignored_string p b =
    (if b = 0x18 \<or> b = 0x1a then (p\<lparr>pst := Ground\<rparr>, [Execute b])
     else if b = 0x1b then (p\<lparr>pst := IgnoredStringEscape\<rparr>, [])
     else (p, []))"

definition ignored_string_escape :: "parser \<Rightarrow> byte \<Rightarrow> parser \<times> action list" where
  "ignored_string_escape p b =
    (if b = 0x5c then (p\<lparr>pst := Ground\<rparr>, [Deferred_string])
     else if b = 0x1b then (p\<lparr>pst := IgnoredStringEscape\<rparr>, [])
     else (p\<lparr>pst := IgnoredString\<rparr>, []))"

definition step :: "parser \<Rightarrow> byte \<Rightarrow> parser \<times> action list" where
  "step p b =
    (case pst p of
       Ground \<Rightarrow> ground p b
     | Escape \<Rightarrow> escape p b
     | EscapeIntermediate \<Rightarrow> escape_intermediate p b
     | Csi \<Rightarrow> csi_byte p b
     | Osc \<Rightarrow> osc_byte p b
     | OscEscape \<Rightarrow> osc_escape p b
     | IgnoredString \<Rightarrow> ignored_string p b
     | IgnoredStringEscape \<Rightarrow> ignored_string_escape p b)"

lemmas parser_helper_defs =
  reset_sequence_def reset_osc_def push_osc_def start_utf8_def abort_utf8_def finish_utf8_def
  push_digit_def finish_param_def

lemmas parser_state_defs =
  ground_def escape_def escape_intermediate_def csi_byte_def osc_byte_def osc_escape_def
  ignored_string_def ignored_string_escape_def

text \<open>
  Only two states put their byte back: the ground state in the middle of a UTF-8 sequence,
  and \<open>OscEscape\<close>.  Neither leads to the other, so a byte is put back at most once and the
  loop of \<open>feed\<close> ends.
\<close>

definition may_put_back :: "parser \<Rightarrow> bool" where
  "may_put_back p \<longleftrightarrow> (pst p = Ground \<and> utf8_needed p \<noteq> 0) \<or> pst p = OscEscape"

lemma step_putback:
  assumes "putback p = None" "putback (fst (step p b)) \<noteq> None"
  shows "may_put_back p \<and> \<not> may_put_back (fst (step p b)) \<and> putback (fst (step p b)) = Some b"
proof (cases "pst p")
  case Ground
  then show ?thesis using assms
    by (auto simp: step_def may_put_back_def ground_def parser_helper_defs Let_def
        split: if_splits)
next
  case OscEscape
  then show ?thesis using assms
    by (auto simp: step_def may_put_back_def osc_escape_def parser_helper_defs split: if_splits)
qed (use assms in \<open>auto simp: step_def parser_state_defs parser_helper_defs Let_def
       split: if_splits\<close>)

function feed :: "parser \<Rightarrow> byte list \<Rightarrow> parser \<times> action list" where
  "feed p bytes =
    (case putback p of
       Some b \<Rightarrow>
         (case step (p\<lparr>putback := None\<rparr>) b of (p', as) \<Rightarrow>
            (case feed p' bytes of (q, bs) \<Rightarrow> (q, as @ bs)))
     | None \<Rightarrow>
         (case bytes of
            [] \<Rightarrow> (p, [])
          | b # rest \<Rightarrow>
              (case step p b of (p', as) \<Rightarrow>
                 (case feed p' rest of (q, bs) \<Rightarrow> (q, as @ bs)))))"
  by pat_completeness auto
termination
proof (relation "measure (\<lambda>(p, bytes). 4 * length bytes
    + (if putback p = None then 0 else if may_put_back p then 3 else 2))", goal_cases)
  case 1
  then show ?case by simp
next
  case 2
  then show ?case by auto
next
  case (3 p bytes b p' as)
  then have pb: "putback p = Some b" and s: "fst (step (p\<lparr>putback := None\<rparr>) b) = p'"
    by (auto simp: fst_def split: prod.splits)
  have mp: "may_put_back (p\<lparr>putback := None\<rparr>) = may_put_back p"
    by (simp add: may_put_back_def)
  show ?case
    using pb step_putback [of "p\<lparr>putback := None\<rparr>" b] by (simp add: s mp)
qed

declare feed.simps [simp del]

definition finish :: "parser \<Rightarrow> parser \<times> action list" where
  "finish p =
    (let (p1, as1) = (if utf8_needed p \<noteq> 0 then abort_utf8 p else (p, []));
         as2 = (if pst p1 \<noteq> Ground then [Malformed] else [])
     in (reset_sequence (p1\<lparr>pst := Ground, putback := None\<rparr>), as1 @ as2))"

subsection \<open>Invariant\<close>

text \<open>
  What every method keeps of the parser state: the buffers are within their capacities and a
  UTF-8 sequence is only pending in the ground state.
\<close>

definition parser_ok :: "parser \<Rightarrow> bool" where
  "parser_ok p \<longleftrightarrow>
    length (params p) \<le> MAX_PARAMS \<and> (\<forall>x \<in> set (params p). x \<le> u16_max)
    \<and> param_acc p \<le> u32_max \<and> length (osc_buf p) \<le> MAX_OSC_BYTES
    \<and> (utf8_needed p = 0 \<and> utf8 p = []
       \<or> pst p = Ground \<and> utf8_needed p \<le> MAX_UTF8 \<and> utf8 p \<noteq> []
         \<and> length (utf8 p) < utf8_needed p)
    \<and> (\<forall>b. private_marker p = Some b \<longrightarrow> 0x3c \<le> b \<and> b \<le> 0x3f)"

text \<open>What every emitted action satisfies.\<close>

fun action_ok :: "action \<Rightarrow> bool" where
  "action_ok (Print c) = is_scalar c"
| "action_ok (Execute b) = (b < 0x20)"
| "action_ok (Csi_dispatch ps pm ig b) =
    (length ps \<le> MAX_PARAMS \<and> (\<forall>x \<in> set ps. x \<le> u16_max)
     \<and> (\<forall>m. pm = Some m \<longrightarrow> 0x3c \<le> m \<and> m \<le> 0x3f) \<and> 0x40 \<le> b \<and> b \<le> 0x7e)"
| "action_ok (Esc_dispatch b _) = (0x30 \<le> b \<and> b \<le> 0x7e)"
| "action_ok (Osc_dispatch bs _) = (length bs \<le> MAX_OSC_BYTES)"
| "action_ok Deferred_string = True"
| "action_ok Malformed = True"

lemma finish_utf8_ok:
  "list_all action_ok (snd (finish_utf8 p))"
  by (auto simp: finish_utf8_def Let_def replacement_def is_scalar_def from_utf8_def
      split: option.splits list.splits dest!: from_utf8_nat_scalar)

lemma new_parser_ok: "parser_ok new_parser"
  by (simp add: parser_ok_def new_parser_def)

lemma c0_execute_less: "c0_execute b \<Longrightarrow> b < 0x20"
  by (auto simp: c0_execute_def word_le_nat_alt word_less_nat_alt)

lemma can_sub_less: "b = 0x18 \<or> b = 0x1a \<Longrightarrow> b < (0x20 :: byte)"
  by auto

lemma unat_le_byte: "(b :: byte) \<le> c \<Longrightarrow> unat b \<le> unat c"
  by (simp add: word_le_nat_alt)

definition res_ok :: "parser \<times> action list \<Rightarrow> bool" where
  "res_ok r \<longleftrightarrow> parser_ok (fst r) \<and> list_all action_ok (snd r)"

lemma res_ok_pair [simp]: "res_ok (p, as) \<longleftrightarrow> parser_ok p \<and> list_all action_ok as"
  by (simp add: res_ok_def)

lemma res_ok_if: "\<lbrakk>c \<Longrightarrow> res_ok x; \<not> c \<Longrightarrow> res_ok y\<rbrakk> \<Longrightarrow> res_ok (if c then x else y)"
  by simp

lemma push_digit_ok: "parser_ok p \<Longrightarrow> parser_ok (push_digit p d)"
  by (simp add: parser_ok_def push_digit_def Let_def)

lemma finish_param_ok: "parser_ok p \<Longrightarrow> parser_ok (finish_param p)"
  by (auto simp: parser_ok_def finish_param_def)

lemma pst_finish_param [simp]: "pst (finish_param p) = pst p"
  by (simp add: finish_param_def)

lemma parser_ok_pst: "\<lbrakk>parser_ok p; pst p \<noteq> Ground\<rbrakk> \<Longrightarrow> parser_ok (p\<lparr>pst := s\<rparr>)"
  by (simp add: parser_ok_def)

lemma parser_ok_reset: "parser_ok p \<Longrightarrow> parser_ok (reset_sequence p)"
  by (simp add: parser_ok_def reset_sequence_def)

lemma parser_ok_putback [simp]: "parser_ok (p\<lparr>putback := x\<rparr>) = parser_ok p"
  by (simp add: parser_ok_def)

lemma parser_ok_ignored [simp]: "parser_ok (p\<lparr>ignored := x\<rparr>) = parser_ok p"
  by (simp add: parser_ok_def)

lemma parser_ok_csi_action:
  assumes "parser_ok p" "0x40 \<le> b" "b \<le> 0x7e"
  shows "action_ok (Csi_dispatch (params p) (private_marker p) ig b)"
  using assms by (simp add: parser_ok_def)

lemma parser_ok_private:
  "\<lbrakk>parser_ok p; 0x3c \<le> b; b \<le> 0x3f\<rbrakk> \<Longrightarrow> parser_ok (p\<lparr>private_marker := Some b\<rparr>)"
  by (simp add: parser_ok_def)

lemma csi_byte_ok:
  assumes ok: "parser_ok p" and pst: "pst p = Csi"
  shows "res_ok (csi_byte p b)"
proof -
  define q where "q = (if has_param_acc p \<or> params p \<noteq> [] then finish_param p else p)"
  have q: "parser_ok q" "pst q \<noteq> Ground"
    using ok pst by (simp_all add: q_def finish_param_ok)
  have r: "parser_ok (reset_sequence (q\<lparr>pst := Ground\<rparr>))"
    "parser_ok (reset_sequence (p\<lparr>pst := Ground\<rparr>))"
    "parser_ok ((reset_sequence p)\<lparr>pst := Escape\<rparr>)"
    using q ok pst by (simp_all add: parser_ok_reset parser_ok_pst)
      (simp add: parser_ok_def reset_sequence_def)
  show ?thesis
    unfolding csi_byte_def Let_def q_def [symmetric]
    by (intro res_ok_if) (simp_all add: ok pst q r push_digit_ok finish_param_ok
        parser_ok_private c0_execute_less can_sub_less parser_ok_csi_action del: action_ok.simps(3))
qed

lemma finish_utf8_res: "parser_ok (p\<lparr>utf8 := [], utf8_needed := 0\<rparr>) \<Longrightarrow> res_ok (finish_utf8 p)"
  using finish_utf8_ok [of p] by (simp add: res_ok_def) (simp add: finish_utf8_def Let_def)

lemma ground_ok:
  assumes ok: "parser_ok p" and pst: "pst p = Ground"
  shows "res_ok (ground p b)"
proof (cases "utf8_needed p = 0")
  case True
  have b: "unat b < 256" using unsigned_less [of b] by simp
  have "parser_ok (start_utf8 p b n)" if "n \<in> {2, 3, 4}" for n
    using ok pst True that by (auto simp: parser_ok_def start_utf8_def)
  moreover have "parser_ok ((reset_sequence p)\<lparr>pst := Escape\<rparr>)"
    using ok pst True by (simp add: parser_ok_def reset_sequence_def)
  ultimately show ?thesis
    unfolding ground_def using True b
    by (simp only: True simp_thms if_False, intro res_ok_if)
      (simp_all add: ok c0_execute_less can_sub_less replacement_def is_scalar_def)
next
  case False
  have c: "parser_ok (p\<lparr>utf8 := [], utf8_needed := 0\<rparr>)"
    using ok by (simp add: parser_ok_def)
  have "length (utf8 p) < utf8_needed p" using ok False by (simp add: parser_ok_def)
  then have d: "parser_ok (p\<lparr>utf8 := utf8 p @ [b]\<rparr>)" if "Suc (length (utf8 p)) \<noteq> utf8_needed p"
    using ok pst False that by (simp add: parser_ok_def)
  have "res_ok (finish_utf8 (p\<lparr>utf8 := utf8 p @ [b]\<rparr>))"
    by (rule finish_utf8_res) (use c in \<open>simp add: parser_ok_def\<close>)
  then show ?thesis
    unfolding ground_def using False c d
    by (simp add: Let_def abort_utf8_def replacement_def is_scalar_def)
qed

lemma step_ok:
  assumes ok: "parser_ok p"
  shows "res_ok (step p b)"
proof (cases "pst p")
  case Ground
  then show ?thesis using ok ground_ok by (simp add: step_def)
next
  case Csi
  then show ?thesis using ok csi_byte_ok by (simp add: step_def)
next
  case Osc
  then have "parser_ok (p\<lparr>pst := s\<rparr>)" "parser_ok (reset_osc (p\<lparr>pst := s\<rparr>))"
    "parser_ok (push_osc p b)" for s
    using ok by (simp_all add: parser_ok_def reset_osc_def push_osc_def)
  then show ?thesis
    unfolding step_def osc_byte_def Osc pstate.case
    by (intro res_ok_if) (use ok in \<open>auto simp: parser_ok_def\<close>)
next
  case OscEscape
  then have "parser_ok (reset_osc (p\<lparr>pst := Ground\<rparr>))"
    "parser_ok (reset_sequence (p\<lparr>pst := s\<rparr>)\<lparr>putback := x\<rparr>)" for s x
    using ok by (simp_all add: parser_ok_def reset_osc_def reset_sequence_def)
  then show ?thesis
    unfolding step_def osc_escape_def OscEscape pstate.case
    by (intro res_ok_if) (use ok in \<open>simp_all add: parser_ok_def\<close>)
next
  case Escape
  then have "parser_ok ((reset_sequence p)\<lparr>pst := s\<rparr>)" "parser_ok (p\<lparr>pst := s\<rparr>)"
    "parser_ok (reset_sequence (p\<lparr>pst := s\<rparr>))"
    "parser_ok ((reset_osc (reset_sequence p))\<lparr>pst := s\<rparr>)" "parser_ok (reset_sequence p)" for s
    using ok by (simp_all add: parser_ok_def reset_osc_def reset_sequence_def)
  then show ?thesis
    unfolding step_def escape_def Escape pstate.case
    by (intro res_ok_if) (simp_all add: ok c0_execute_less can_sub_less)
next
  case EscapeIntermediate
  then have "parser_ok ((reset_sequence p)\<lparr>pst := s\<rparr>)" "parser_ok (p\<lparr>pst := s\<rparr>)"
    "parser_ok (reset_sequence (p\<lparr>pst := s\<rparr>))" for s
    using ok by (simp_all add: parser_ok_def reset_sequence_def)
  then show ?thesis
    unfolding step_def escape_intermediate_def EscapeIntermediate pstate.case
    by (intro res_ok_if) (simp_all add: ok c0_execute_less can_sub_less)
next
  case IgnoredString
  with ok have "parser_ok (p\<lparr>pst := s\<rparr>)" for s by (simp add: parser_ok_pst)
  then show ?thesis
    unfolding step_def ignored_string_def IgnoredString pstate.case
    by (intro res_ok_if) (use ok in auto)
next
  case IgnoredStringEscape
  with ok have "parser_ok (p\<lparr>pst := s\<rparr>)" for s by (simp add: parser_ok_pst)
  then show ?thesis
    unfolding step_def ignored_string_escape_def IgnoredStringEscape pstate.case
    by (intro res_ok_if) (use ok in auto)
qed

subsection \<open>The loop of \<open>feed\<close>\<close>

lemma feed_Nil: "putback p = None \<Longrightarrow> feed p [] = (p, [])"
  by (subst feed.simps) simp

lemma feed_Cons:
  "putback p = None \<Longrightarrow> feed p (b # bs) =
    (fst (feed (fst (step p b)) bs), snd (step p b) @ snd (feed (fst (step p b)) bs))"
  by (subst feed.simps) (simp split: prod.splits)

lemma feed_putback_Some:
  "putback p = Some b \<Longrightarrow> feed p bs =
    (fst (feed (fst (step (p\<lparr>putback := None\<rparr>) b)) bs),
     snd (step (p\<lparr>putback := None\<rparr>) b) @ snd (feed (fst (step (p\<lparr>putback := None\<rparr>) b)) bs))"
  by (subst feed.simps) (simp split: prod.splits)

lemmas feed_unfold = feed_Nil feed_Cons feed_putback_Some

lemma feed_induct [case_names putback Nil Cons]:
  assumes "\<And>p b bs. \<lbrakk>putback p = Some b; P (fst (step (p\<lparr>putback := None\<rparr>) b)) bs\<rbrakk> \<Longrightarrow> P p bs"
    and "\<And>p. putback p = None \<Longrightarrow> P p []"
    and "\<And>p b bs. \<lbrakk>putback p = None; P (fst (step p b)) bs\<rbrakk> \<Longrightarrow> P p (b # bs)"
  shows "P p bs"
proof (induction p bs rule: feed.induct)
  case (1 p bs)
  show ?case
  proof (cases "putback p")
    case None
    show ?thesis
    proof (cases bs)
      case Nil
      with None assms(2) show ?thesis by simp
    next
      case (Cons b rest)
      with 1(1) [OF None Cons surjective_pairing [symmetric]] None assms(3) show ?thesis by simp
    qed
  next
    case (Some b)
    with 1(2) [OF Some surjective_pairing [symmetric]] assms(1) show ?thesis by simp
  qed
qed

lemma feed_ok: "parser_ok p \<Longrightarrow> res_ok (feed p bytes)"
proof (induction p bytes rule: feed_induct)
  case (putback p b bs)
  then show ?case using step_ok [of "p\<lparr>putback := None\<rparr>" b]
    by (simp add: feed_unfold res_ok_def)
next
  case (Cons p b bs)
  then show ?case using step_ok [of p b] by (simp add: feed_unfold res_ok_def)
qed (simp add: feed_unfold)

lemma feed_putback: "putback (fst (feed p bytes)) = None"
  by (induction p bytes rule: feed_induct) (simp_all add: feed_unfold)

text \<open>
  Feeding two chunks is feeding their concatenation: the parser's state carries everything
  that spans a chunk boundary.
\<close>

lemma feed_append:
  "feed p (xs @ ys) =
    (fst (feed (fst (feed p xs)) ys), snd (feed p xs) @ snd (feed (fst (feed p xs)) ys))"
  by (induction p xs rule: feed_induct) (simp_all add: feed_unfold)

subsection \<open>Printable text\<close>

definition idle :: "parser \<Rightarrow> bool" where
  "idle p \<longleftrightarrow> pst p = Ground \<and> utf8_needed p = 0 \<and> utf8 p = [] \<and> putback p = None"

definition printable :: "scalar \<Rightarrow> bool" where
  "printable c \<longleftrightarrow> is_scalar c \<and> 0x20 \<le> c \<and> c \<noteq> 0x7f"

lemma idle_utf8_reset: "idle p \<Longrightarrow> p\<lparr>utf8 := [], utf8_needed := 0\<rparr> = p"
  by (cases p) (simp add: idle_def)

lemma step_lead:
  assumes "idle p"
  shows "0xc2 \<le> b \<Longrightarrow> b \<le> 0xdf \<Longrightarrow> step p b = (start_utf8 p b 2, [])"
    and "0xe0 \<le> b \<Longrightarrow> b \<le> 0xef \<Longrightarrow> step p b = (start_utf8 p b 3, [])"
    and "0xf0 \<le> b \<Longrightarrow> b \<le> 0xf4 \<Longrightarrow> step p b = (start_utf8 p b 4, [])"
  using assms
  by (auto simp: step_def ground_def idle_def c0_execute_def word_le_nat_alt)

lemma step_ascii:
  assumes "idle p" "0x20 \<le> b" "b \<le> 0x7e"
  shows "step p b = (p, [Print (unat b)])"
  using assms
  by (auto simp: step_def ground_def idle_def c0_execute_def word_le_nat_alt)

text \<open>The continuation bytes of a sequence, up to the last.\<close>

lemma step_cont:
  assumes "pst p = Ground" "0x80 \<le> b" "b \<le> 0xbf" "utf8_needed p \<noteq> 0"
  shows "step p b = (if Suc (length (utf8 p)) = utf8_needed p
    then finish_utf8 (p\<lparr>utf8 := utf8 p @ [b]\<rparr>) else (p\<lparr>utf8 := utf8 p @ [b]\<rparr>, []))"
  using assms by (simp add: step_def ground_def Let_def)

lemma finish_utf8_encoded:
  assumes "is_scalar c" "utf8 p = utf8_encode c" "utf8_needed p = len_utf8 c"
  shows "finish_utf8 p = (p\<lparr>utf8 := [], utf8_needed := 0\<rparr>, [Print c])"
proof -
  have "from_utf8 (utf8_encode c) = Some [c]"
    using from_utf8_encode_append [OF assms(1), of "[]"] by (simp add: from_utf8_def)
  moreover have "take (utf8_needed p) (utf8 p) = utf8_encode c"
    by (simp add: assms length_utf8_encode)
  ultimately show ?thesis by (simp add: finish_utf8_def Let_def)
qed

lemma feed_conts:
  assumes "pst p = Ground" "putback p = None" "utf8_needed p = len_utf8 c" "is_scalar c"
    "utf8 p @ bs = utf8_encode c" "bs \<noteq> []"
    "\<And>b. b \<in> set bs \<Longrightarrow> 0x80 \<le> b \<and> b \<le> 0xbf"
  shows "feed p bs = (p\<lparr>utf8 := [], utf8_needed := 0\<rparr>, [Print c])"
  using assms
proof (induction bs arbitrary: p)
  case (Cons b bs)
  have n: "utf8_needed p \<noteq> 0" using Cons.prems(3) by (simp add: len_utf8_def)
  have len: "Suc (length (utf8 p) + length bs) = utf8_needed p"
    using arg_cong [OF Cons.prems(5), of length] by (simp add: length_utf8_encode Cons.prems(3))
  have b: "0x80 \<le> b" "b \<le> 0xbf" using Cons.prems(7) by auto
  show ?case
  proof (cases "bs = []")
    case True
    then show ?thesis
      using len step_cont [OF Cons.prems(1) b n] Cons.prems
        finish_utf8_encoded [OF Cons.prems(4), of "p\<lparr>utf8 := utf8 p @ [b]\<rparr>"]
      by (simp add: feed_unfold)
  next
    case False
    then have "Suc (length (utf8 p)) \<noteq> utf8_needed p" using len by (cases bs) auto
    then have s: "step p b = (p\<lparr>utf8 := utf8 p @ [b]\<rparr>, [])"
      using len step_cont [OF Cons.prems(1) b n] by simp
    have "feed (p\<lparr>utf8 := utf8 p @ [b]\<rparr>) bs
        = ((p\<lparr>utf8 := utf8 p @ [b]\<rparr>)\<lparr>utf8 := [], utf8_needed := 0\<rparr>, [Print c])"
      by (rule Cons.IH) (use Cons.prems False in auto)
    then show ?thesis using Cons.prems(2) by (simp add: feed_unfold s)
  qed
qed simp

lemma utf8_encode_tail:
  assumes "is_scalar c" "b \<in> set (tl (utf8_encode c))"
  shows "0x80 \<le> b \<and> b \<le> 0xbf"
proof -
  have "unat b \<in> set (map unat (tl (utf8_encode c)))" using assms(2) by auto
  then have "unat b \<in> set (tl (map unat (utf8_encode c)))" by (simp add: map_tl)
  then have "\<exists>x. unat b = 128 + x mod 64"
    unfolding map_unat_utf8_encode [OF assms(1)] by (auto split: if_splits)
  then have "is_cont (unat b)" using is_cont_low by metis
  then show ?thesis by (simp add: is_cont_def word_le_nat_alt)
qed

lemma step_encode_head:
  assumes "idle p" "is_scalar c" "0x80 \<le> c"
  shows "step p (hd (utf8_encode c)) = (start_utf8 p (hd (utf8_encode c)) (len_utf8 c), [])"
proof -
  have h: "unat (hd (utf8_encode c)) = hd (map unat (utf8_encode c))"
    by (simp add: hd_map utf8_encode_def)
  consider "c < 0x800" | "0x800 \<le> c" "c < 0x10000" | "0x10000 \<le> c" by linarith
  then show ?thesis
  proof cases
    case 1
    then have "2 \<le> c div 64" "c div 64 \<le> 31" using assms by auto
    then have "0xc2 \<le> hd (utf8_encode c)" "hd (utf8_encode c) \<le> 0xdf"
      unfolding word_le_nat_alt h map_unat_utf8_encode [OF assms(2)] using 1 assms(3) by auto
    then show ?thesis using step_lead(1) [OF assms(1)] 1 assms(3) by (simp add: len_utf8_def)
  next
    case 2
    then have "c div 4096 \<le> 15" by auto
    then have "0xe0 \<le> hd (utf8_encode c)" "hd (utf8_encode c) \<le> 0xef"
      unfolding word_le_nat_alt h map_unat_utf8_encode [OF assms(2)] using 2 by auto
    then show ?thesis using step_lead(2) [OF assms(1)] 2 by (simp add: len_utf8_def)
  next
    case 3
    then have "c div 262144 \<le> 4" using assms by (auto simp: is_scalar_def)
    then have "0xf0 \<le> hd (utf8_encode c)" "hd (utf8_encode c) \<le> 0xf4"
      unfolding word_le_nat_alt h map_unat_utf8_encode [OF assms(2)] using 3 by auto
    then show ?thesis using step_lead(3) [OF assms(1)] 3 by (simp add: len_utf8_def)
  qed
qed

lemma feed_scalar:
  assumes "idle p" "printable c"
  shows "feed p (utf8_encode c) = (p, [Print c])"
proof (cases "c < 0x80")
  case True
  then have "c < 256" by simp
  with True assms step_ascii [OF assms(1), of "byte_of c"] show ?thesis
    by (simp add: utf8_encode_def word_le_nat_alt printable_def feed_unfold idle_def)
next
  case False
  let ?h = "hd (utf8_encode c)" and ?t = "tl (utf8_encode c)"
  have c: "is_scalar c" using assms(2) by (simp add: printable_def)
  have e: "utf8_encode c = ?h # ?t" and t: "?t \<noteq> []" using False by (auto simp: utf8_encode_def)
  have "feed (start_utf8 p ?h (len_utf8 c)) ?t
      = ((start_utf8 p ?h (len_utf8 c))\<lparr>utf8 := [], utf8_needed := 0\<rparr>, [Print c])"
    by (rule feed_conts) (use assms c t e utf8_encode_tail [OF c] in
        \<open>auto simp: start_utf8_def idle_def\<close>)
  then have "feed p (?h # ?t) = (p, [Print c])"
    using step_encode_head [OF assms(1) c] False assms(1) idle_utf8_reset [OF assms(1)]
    by (simp add: feed_unfold idle_def) (simp add: start_utf8_def)
  then show ?thesis using e by simp
qed

lemma feed_text:
  "\<lbrakk>idle p; list_all printable cs\<rbrakk> \<Longrightarrow> feed p (string_bytes cs) = (p, map Print cs)"
proof (induction cs)
  case Nil
  then show ?case by (simp add: string_bytes_def feed_unfold idle_def)
next
  case (Cons c cs)
  then show ?case by (simp add: string_bytes_def feed_append feed_scalar)
qed


subsection \<open>Resynchronisation\<close>

lemma step_can:
  assumes "parser_ok p"
  shows "pst p = Ground \<Longrightarrow> utf8_needed p = 0 \<Longrightarrow> step p 0x18 = (p, [Execute 0x18])"
    and "pst p = Ground \<Longrightarrow> utf8_needed p \<noteq> 0 \<Longrightarrow>
      step p 0x18 = (p\<lparr>utf8 := [], utf8_needed := 0, putback := Some 0x18\<rparr>, replacement)"
    and "pst p \<in> {Escape, EscapeIntermediate, Osc, IgnoredString} \<Longrightarrow>
      step p 0x18 = (p\<lparr>pst := Ground\<rparr>, [Execute 0x18])"
    and "pst p = Csi \<Longrightarrow> step p 0x18 = (reset_sequence (p\<lparr>pst := Ground\<rparr>), [Execute 0x18])"
    and "pst p = OscEscape \<Longrightarrow>
      step p 0x18 = ((reset_sequence (p\<lparr>pst := Escape\<rparr>))\<lparr>putback := Some 0x18\<rparr>, [])"
    and "pst p = IgnoredStringEscape \<Longrightarrow> step p 0x18 = (p\<lparr>pst := IgnoredString\<rparr>, [])"
  by (auto simp: step_def parser_state_defs abort_utf8_def c0_execute_def)

lemma parser_ok_utf8: "\<lbrakk>parser_ok p; pst p \<noteq> Ground\<rbrakk> \<Longrightarrow> utf8_needed p = 0 \<and> utf8 p = []"
  by (auto simp: parser_ok_def)

lemma parser_ok_utf8_Nil: "\<lbrakk>parser_ok p; utf8_needed p = 0\<rbrakk> \<Longrightarrow> utf8 p = []"
  by (auto simp: parser_ok_def)

text \<open>One CAN reaches the ground state from everywhere but the escape of an ignored string.\<close>

lemma feed_can:
  assumes ok: "parser_ok p" and pb: "putback p = None"
  shows "idle (fst (feed p [0x18])) \<or>
    (pst (fst (feed p [0x18])) = IgnoredString \<and> pst p = IgnoredStringEscape)"
proof (cases "pst p = Ground")
  case True
  show ?thesis
  proof (cases "utf8_needed p = 0")
    case t: True
    then show ?thesis
      using step_can(1) [OF ok True t] pb True parser_ok_utf8_Nil [OF ok t]
      by (simp add: feed_unfold idle_def)
  next
    case False
    let ?q = "p\<lparr>utf8 := [], utf8_needed := 0\<rparr>"
    have q: "parser_ok (?q\<lparr>putback := None\<rparr>)" using ok by (simp add: parser_ok_def)
    have "step (?q\<lparr>putback := None\<rparr>) 0x18 = (?q\<lparr>putback := None\<rparr>, [Execute 0x18])"
      by (rule step_can(1) [OF q]) (simp_all add: True)
    then show ?thesis
      using step_can(2) [OF ok True False] pb True by (simp add: feed_unfold idle_def)
  qed
next
  case False
  note u = parser_ok_utf8 [OF ok False]
  show ?thesis
  proof (cases "pst p = OscEscape")
    case True
    let ?q = "reset_sequence (p\<lparr>pst := Escape\<rparr>)"
    have q: "parser_ok (?q\<lparr>putback := None\<rparr>)"
      using ok u by (simp add: parser_ok_def reset_sequence_def)
    have "step (?q\<lparr>putback := None\<rparr>) 0x18 = ((?q\<lparr>putback := None\<rparr>)\<lparr>pst := Ground\<rparr>, [Execute 0x18])"
      by (rule step_can(3) [OF q]) (simp add: reset_sequence_def)
    then show ?thesis
      using step_can(5) [OF ok True] pb u by (simp add: feed_unfold idle_def reset_sequence_def)
  next
    case ne: False
    have "pst p \<in> {Escape, EscapeIntermediate, Osc, IgnoredString} \<or> pst p = Csi
        \<or> pst p = IgnoredStringEscape"
      using False ne by (cases "pst p") auto
    then show ?thesis
      using step_can(3,4,6) [OF ok] pb u
      by (elim disjE) (simp_all add: feed_unfold idle_def reset_sequence_def)
  qed
qed

lemma feed_two_cans:
  assumes "parser_ok p" "putback p = None"
  shows "idle (fst (feed p [0x18, 0x18]))"
proof -
  let ?q = "fst (feed p [0x18])"
  have q: "parser_ok ?q" "putback ?q = None"
    using feed_ok [OF assms(1)] feed_putback by (simp_all add: res_ok_def)
  have "idle (fst (feed ?q [0x18]))"
    using feed_can [OF assms] feed_can [OF q] by (auto simp: idle_def)
  then show ?thesis using feed_append [of p "[0x18]" "[0x18]"] by simp
qed

subsection \<open>OSC strings\<close>

definition osc_plain :: "byte \<Rightarrow> bool" where
  "osc_plain b \<longleftrightarrow> b \<notin> {0x07, 0x18, 0x1a, 0x1b}"

lemma feed_osc_payload:
  assumes "pst p = Osc" "putback p = None" "list_all osc_plain bs" "length (osc_buf p) \<le> MAX_OSC_BYTES"
  shows "feed p bs = (p\<lparr>osc_buf := take MAX_OSC_BYTES (osc_buf p @ bs),
    osc_truncated := osc_truncated p \<or> MAX_OSC_BYTES < length (osc_buf p) + length bs\<rparr>, [])"
  using assms
proof (induction bs arbitrary: p)
  case Nil
  then show ?case by (simp add: feed_unfold)
next
  case (Cons b bs)
  have s: "step p b = (push_osc p b, [])"
    using Cons.prems by (simp add: step_def osc_byte_def osc_plain_def)
  have "feed (push_osc p b) bs = ((push_osc p b)\<lparr>
      osc_buf := take MAX_OSC_BYTES (osc_buf (push_osc p b) @ bs),
      osc_truncated := osc_truncated (push_osc p b)
        \<or> MAX_OSC_BYTES < length (osc_buf (push_osc p b)) + length bs\<rparr>, [])"
    by (rule Cons.IH) (use Cons.prems in \<open>auto simp: push_osc_def\<close>)
  then show ?case
    using Cons.prems by (simp add: feed_unfold s) (auto simp: push_osc_def take_Cons')
qed

lemma feed_osc:
  assumes "idle p" "list_all osc_plain bs"
  shows "snd (feed p ([0x1b, 0x5d] @ bs @ [0x07]))
      = [Osc_dispatch (take MAX_OSC_BYTES bs) (MAX_OSC_BYTES < length bs)]"
    and "idle (fst (feed p ([0x1b, 0x5d] @ bs @ [0x07])))"
proof -
  define q where "q = (reset_osc (reset_sequence ((reset_sequence p)\<lparr>pst := Escape\<rparr>)))\<lparr>pst := Osc\<rparr>"
  have a: "feed p [0x1b, 0x5d] = (q, [])"
    using assms(1)
    by (simp add: feed_unfold idle_def step_def ground_def escape_def c0_execute_def q_def
        reset_sequence_def reset_osc_def)
  have q: "pst q = Osc" "putback q = None" "osc_buf q = []" "\<not> osc_truncated q"
    "utf8_needed q = 0" "utf8 q = []"
    using assms(1) by (simp_all add: q_def idle_def reset_osc_def reset_sequence_def)
  let ?r = "q\<lparr>osc_buf := take MAX_OSC_BYTES bs, osc_truncated := MAX_OSC_BYTES < length bs\<rparr>"
  have b: "feed q bs = (?r, [])"
    using feed_osc_payload [OF q(1,2) assms(2)] q by simp
  have c: "feed ?r [0x07] = (reset_osc (?r\<lparr>pst := Ground\<rparr>),
      [Osc_dispatch (take MAX_OSC_BYTES bs) (MAX_OSC_BYTES < length bs)])"
    using q by (simp add: feed_unfold step_def osc_byte_def reset_osc_def)
  show "snd (feed p ([0x1b, 0x5d] @ bs @ [0x07]))
      = [Osc_dispatch (take MAX_OSC_BYTES bs) (MAX_OSC_BYTES < length bs)]"
    by (simp only: feed_append a b c fst_conv snd_conv append_Nil append_Nil2)
  show "idle (fst (feed p ([0x1b, 0x5d] @ bs @ [0x07])))"
    using q by (simp only: feed_append a b c fst_conv snd_conv) (simp add: idle_def reset_osc_def)
qed

subsection \<open>Properties\<close>

fun feed_chunks :: "parser \<Rightarrow> byte list list \<Rightarrow> parser \<times> action list" where
  "feed_chunks p [] = (p, [])"
| "feed_chunks p (c # cs) =
    (case feed p c of (p', as) \<Rightarrow> case feed_chunks p' cs of (q, bs) \<Rightarrow> (q, as @ bs))"

lemma feed_chunks_concat: "putback p = None \<Longrightarrow> feed_chunks p cs = feed p (concat cs)"
proof (induction cs arbitrary: p)
  case Nil
  then show ?case by (simp add: feed_unfold)
next
  case (Cons c cs)
  then show ?case using Cons.IH [OF feed_putback, of p c]
    by (simp add: feed_append case_prod_beta)
qed

text \<open>
  C6 (parser_chunk_independence): however a PTY byte stream is cut into reads, calling
  \<open>feed\<close> once per read leaves the same parser state and performs the same actions in the same
  order as one call with the whole stream.  Escape sequences and UTF-8 sequences may span
  reads.
\<close>

theorem parser_chunk_independence:
  "feed_chunks new_parser chunks = feed new_parser (concat chunks)"
  by (rule feed_chunks_concat) (simp add: new_parser_def)

text \<open>
  C8 (parser_bounds): for every byte stream the parser's buffers stay within \<open>MAX_PARAMS\<close>,
  \<open>MAX_UTF8\<close> and \<open>MAX_OSC_BYTES\<close>, and every action it performs is in range: printed
  characters are Unicode scalar values, CSI parameters are at most 32 values of 16 bits with
  a final byte in 0x40..0x7e, OSC payloads are at most 4096 bytes.
\<close>

theorem parser_bounds:
  "parser_ok (fst (feed new_parser bytes)) \<and> list_all action_ok (snd (feed new_parser bytes))"
  using feed_ok [OF new_parser_ok] by (simp add: res_ok_def)

text \<open>
  C7 (parser_prints_utf8_text): in the ground state, the UTF-8 encoding of any printable
  text prints exactly that text, one \<open>print\<close> per scalar, and leaves the parser unchanged.
\<close>

theorem parser_prints_utf8_text:
  assumes "idle p" and "list_all printable cs"
  shows "feed p (string_bytes cs) = (p, map Print cs)"
  using assms by (rule feed_text)

theorem parser_prints_utf8_text_witness:
  "idle new_parser \<and> list_all printable [0x41, 0xE9, 0x20AC, 0x1F600] \<and>
   feed new_parser (string_bytes [0x41, 0xE9, 0x20AC, 0x1F600])
     = (new_parser, [Print 0x41, Print 0xE9, Print 0x20AC, Print 0x1F600])"
proof -
  have i: "idle new_parser" by (simp add: idle_def new_parser_def)
  have l: "list_all printable [0x41, 0xE9, 0x20AC, 0x1F600]"
    by (simp add: printable_def is_scalar_def)
  show ?thesis using i l parser_prints_utf8_text [OF i l] by simp
qed

text \<open>
  C9 (parser_resynchronises): after any byte stream, two CAN bytes (0x18) bring the parser
  to the ground state with no pending UTF-8 sequence, so malformed or hostile input cannot
  capture the parser.  One CAN is not enough: in the escape of an ignored string (DCS, SOS,
  PM, APC) it is swallowed.
\<close>

theorem parser_resynchronises:
  "idle (fst (feed new_parser (bytes @ [0x18, 0x18])))"
proof -
  have "parser_ok (fst (feed new_parser bytes))"
    using feed_ok [OF new_parser_ok] by (simp add: res_ok_def)
  then show ?thesis
    using feed_two_cans [OF _ feed_putback] by (simp add: feed_append)
qed

text \<open>
  C10 (parser_osc_payload): an OSC string terminated by BEL is delivered in one action with
  its first 4096 payload bytes, and is flagged as truncated exactly when it was longer.
\<close>

theorem parser_osc_payload:
  assumes "idle p" and "list_all osc_plain bs"
  shows "snd (feed p ([0x1b, 0x5d] @ bs @ [0x07]))
      = [Osc_dispatch (take MAX_OSC_BYTES bs) (MAX_OSC_BYTES < length bs)]
    \<and> idle (fst (feed p ([0x1b, 0x5d] @ bs @ [0x07])))"
  using feed_osc [OF assms] by simp

theorem parser_osc_payload_witness:
  "idle new_parser \<and> list_all osc_plain [0x30, 0x3b, 0x41] \<and>
   snd (feed new_parser [0x1b, 0x5d, 0x30, 0x3b, 0x41, 0x07])
     = [Osc_dispatch [0x30, 0x3b, 0x41] False]"
proof -
  have i: "idle new_parser" by (simp add: idle_def new_parser_def)
  have l: "list_all osc_plain [0x30, 0x3b, 0x41]" by (simp add: osc_plain_def)
  show ?thesis using i l parser_osc_payload [OF i l] by simp
qed

end
