(* ===== verification/Damage.thy ===== *)
theory Damage
  imports Prelude
begin

text \<open>
  Damage tracking, \<open>crates/seyal-terminal/src/damage.rs\<close>: the row interval a mutation
  touched (\<open>Mutation\<close>), and the tracker that accumulates mutations until the host takes the
  published damage.

  The contract a damage tracker owes the renderer is the locale \<open>damage_tracking\<close>: rows are
  abstracted to sets, and no committed row is lost before it is taken.  The interpretation
  \<open>tracker\<close> discharges it for the definitions of this theory.
\<close>

record mutation =
  m_full :: bool
  m_first_row :: "nat option"
  m_last_row :: nat

record damage =
  d_generation :: nat
  d_full :: bool
  d_first_row :: nat
  d_last_row :: nat

definition mutation_none :: mutation where
  "mutation_none = \<lparr>m_full = False, m_first_row = None, m_last_row = 0\<rparr>"

definition mutation_row :: "nat \<Rightarrow> mutation" where
  "mutation_row row = \<lparr>m_full = False, m_first_row = Some row, m_last_row = row\<rparr>"

definition mutation_rows :: "nat \<Rightarrow> nat \<Rightarrow> mutation" where
  "mutation_rows first_row last_row =
    \<lparr>m_full = False, m_first_row = Some (min first_row last_row),
     m_last_row = max first_row last_row\<rparr>"

definition mutation_full :: "nat \<Rightarrow> mutation" where
  "mutation_full rows = \<lparr>m_full = True, m_first_row = Some 0, m_last_row = rows - 1\<rparr>"

definition merge :: "mutation \<Rightarrow> mutation \<Rightarrow> mutation" where
  "merge a b =
    (case (m_first_row a, m_first_row b) of
       (None, _) \<Rightarrow> b
     | (_, None) \<Rightarrow> a
     | (Some x, Some y) \<Rightarrow>
         \<lparr>m_full = (m_full a \<or> m_full b), m_first_row = Some (min x y),
          m_last_row = max (m_last_row a) (m_last_row b)\<rparr>)"

record damage_tracker =
  t_generation :: nat
  dirty :: mutation
  published :: "damage option"

definition new_tracker :: damage_tracker where
  "new_tracker = \<lparr>t_generation = 0, dirty = mutation_none, published = None\<rparr>"

definition mark :: "damage_tracker \<Rightarrow> mutation \<Rightarrow> damage_tracker" where
  "mark t m = t\<lparr>dirty := merge (dirty t) m\<rparr>"

definition commit :: "damage_tracker \<Rightarrow> damage_tracker" where
  "commit t =
    (case m_first_row (dirty t) of
       None \<Rightarrow> t
     | Some first_row \<Rightarrow>
         (let g = sat_add u64_max (t_generation t) 1;
              nxt = \<lparr>d_generation = g, d_full = m_full (dirty t), d_first_row = first_row,
                     d_last_row = m_last_row (dirty t)\<rparr>
          in t\<lparr>t_generation := g, dirty := mutation_none,
               published := Some (case published t of
                   None \<Rightarrow> nxt
                 | Some prev \<Rightarrow>
                     \<lparr>d_generation = d_generation nxt, d_full = (d_full prev \<or> d_full nxt),
                      d_first_row = min (d_first_row prev) (d_first_row nxt),
                      d_last_row = max (d_last_row prev) (d_last_row nxt)\<rparr>)\<rparr>))"

definition take_damage :: "damage_tracker \<Rightarrow> damage_tracker \<times> damage option" where
  "take_damage t = (t\<lparr>published := None\<rparr>, published t)"

subsection \<open>The rows a mutation covers\<close>

definition mutation_rows_of :: "mutation \<Rightarrow> nat set" where
  "mutation_rows_of m = (case m_first_row m of None \<Rightarrow> {} | Some f \<Rightarrow> {f..m_last_row m})"

definition damage_rows_of :: "damage option \<Rightarrow> nat set" where
  "damage_rows_of d = (case d of None \<Rightarrow> {} | Some d \<Rightarrow> {d_first_row d..d_last_row d})"

text \<open>A mutation that touches no row carries no damage; an interval is not empty.\<close>

definition mutation_ok :: "mutation \<Rightarrow> bool" where
  "mutation_ok m \<longleftrightarrow> (case m_first_row m of
      None \<Rightarrow> \<not> m_full m | Some f \<Rightarrow> f \<le> m_last_row m)"

lemma mutation_ok_simps [simp]:
  "mutation_ok mutation_none" "mutation_ok (mutation_row r)" "mutation_ok (mutation_rows a b)"
  "mutation_ok (mutation_full n)"
  by (simp_all add: mutation_ok_def mutation_none_def mutation_row_def mutation_rows_def
      mutation_full_def)

lemma merge_ok [simp]: "\<lbrakk>mutation_ok a; mutation_ok b\<rbrakk> \<Longrightarrow> mutation_ok (merge a b)"
  by (auto simp: mutation_ok_def merge_def split: option.splits)

lemma rows_of_simps [simp]:
  "mutation_rows_of mutation_none = {}" "mutation_rows_of (mutation_row r) = {r}"
  "mutation_rows_of (mutation_rows a b) = {min a b..max a b}"
  "mutation_rows_of (mutation_full n) = {0..n - 1}"
  by (simp_all add: mutation_rows_of_def mutation_none_def mutation_row_def mutation_rows_def
      mutation_full_def)

lemma merge_rows: "mutation_rows_of a \<union> mutation_rows_of b \<subseteq> mutation_rows_of (merge a b)"
  by (auto simp: mutation_rows_of_def merge_def split: option.splits)

lemma merge_full: "\<lbrakk>mutation_ok a; mutation_ok b\<rbrakk> \<Longrightarrow> m_full (merge a b) = (m_full a \<or> m_full b)"
  by (auto simp: mutation_ok_def merge_def split: option.splits)

lemma merge_assoc: "merge (merge a b) c = merge a (merge b c)"
  by (auto simp: merge_def split: option.splits)

lemma merge_none [simp]: "merge mutation_none a = a"
  by (auto simp: merge_def mutation_none_def split: option.splits)

subsection \<open>The contract\<close>

text \<open>
  What a client relies on: \<open>pending\<close> are the rows marked since the last commit and \<open>visible\<close>
  the rows the next take returns.
\<close>

locale damage_tracking =
  fixes t_mark :: "'t \<Rightarrow> 'm \<Rightarrow> 't"
    and t_commit :: "'t \<Rightarrow> 't"
    and t_take :: "'t \<Rightarrow> 't \<times> 'd"
    and rows_m :: "'m \<Rightarrow> nat set"
    and rows_d :: "'d \<Rightarrow> nat set"
    and pending :: "'t \<Rightarrow> nat set"
    and visible :: "'t \<Rightarrow> nat set"
  assumes mark_pending: "pending t \<union> rows_m m \<subseteq> pending (t_mark t m)"
    and mark_visible: "visible (t_mark t m) = visible t"
    and commit_visible: "visible t \<union> pending t \<subseteq> visible (t_commit t)"
    and take_result: "rows_d (snd (t_take t)) = visible t"
    and take_pending: "pending (fst (t_take t)) = pending t"
begin

definition mark_all :: "'t \<Rightarrow> 'm list \<Rightarrow> 't" where
  "mark_all t ms = fold (\<lambda>m s. t_mark s m) ms t"

lemma mark_all_pending: "pending t \<union> (\<Union>m \<in> set ms. rows_m m) \<subseteq> pending (mark_all t ms)"
proof (induction ms arbitrary: t)
  case (Cons m ms)
  from Cons [of "t_mark t m"] mark_pending [of t m] show ?case
    by (simp add: mark_all_def) blast
qed (simp add: mark_all_def)

lemma mark_all_visible: "visible (mark_all t ms) = visible t"
  by (induction ms arbitrary: t) (simp_all add: mark_all_def mark_visible)

text \<open>A frame: some mutations are marked, then committed.\<close>

definition frame :: "'t \<Rightarrow> 'm list \<Rightarrow> 't" where
  "frame t ms = t_commit (mark_all t ms)"

lemma frame_visible: "visible t \<union> (\<Union>m \<in> set ms. rows_m m) \<subseteq> visible (frame t ms)"
  using mark_all_pending [of t ms] mark_all_visible [of t ms] commit_visible [of "mark_all t ms"]
  unfolding frame_def by blast

definition frames :: "'t \<Rightarrow> 'm list list \<Rightarrow> 't" where
  "frames t fs = fold (\<lambda>ms s. frame s ms) fs t"

lemma frames_visible: "visible t \<union> (\<Union>ms \<in> set fs. \<Union>m \<in> set ms. rows_m m) \<subseteq> visible (frames t fs)"
proof (induction fs arbitrary: t)
  case (Cons ms fs)
  from Cons [of "frame t ms"] frame_visible [of t ms] show ?case
    by (simp add: frames_def) blast
qed (simp add: frames_def)

lemma taken_covers_frames:
  "(\<Union>ms \<in> set fs. \<Union>m \<in> set ms. rows_m m) \<subseteq> rows_d (snd (t_take (frames t fs)))"
  using frames_visible [of t fs] take_result [of "frames t fs"] by auto

end

interpretation tracker: damage_tracking mark commit take_damage mutation_rows_of damage_rows_of
  "\<lambda>t. mutation_rows_of (dirty t)" "\<lambda>t. damage_rows_of (published t)"
proof
  fix t :: damage_tracker and m :: mutation
  show "mutation_rows_of (dirty t) \<union> mutation_rows_of m \<subseteq> mutation_rows_of (dirty (mark t m))"
    using merge_rows by (simp add: mark_def)
  show "damage_rows_of (published t) \<union> mutation_rows_of (dirty t)
      \<subseteq> damage_rows_of (published (commit t))"
    by (auto simp: commit_def damage_rows_of_def mutation_rows_of_def Let_def
        split: option.splits)
qed (simp_all add: mark_def take_damage_def)

subsection \<open>Properties\<close>

fun apply_frames :: "damage_tracker \<Rightarrow> mutation list list \<Rightarrow> damage_tracker" where
  "apply_frames t [] = t"
| "apply_frames t (ms # fs) = apply_frames (commit (foldl mark t ms)) fs"

lemma apply_frames_eq: "apply_frames t fs = tracker.frames t fs"
proof (induction fs arbitrary: t)
  case (Cons ms fs)
  then show ?case
    by (simp add: tracker.frames_def tracker.frame_def tracker.mark_all_def foldl_conv_fold)
qed (simp add: tracker.frames_def)

text \<open>
  However many feeds mark and commit damage between two calls of
  \<open>take_damage\<close>, the damage taken covers every row any of them touched: no repaint is lost.
\<close>

lemma damage_covers_frames:
  "(\<Union>ms \<in> set fs. \<Union>m \<in> set ms. mutation_rows_of m)
     \<subseteq> damage_rows_of (snd (take_damage (apply_frames t fs)))"
  unfolding apply_frames_eq by (rule tracker.taken_covers_frames)

end
