(* ===== verification/Line_Ids.thy ===== *)
theory Line_Ids
  imports Prelude
begin

text \<open>
  Line identities, \<open>crates/seyal-terminal/src/line.rs\<close> and the error type of
  \<open>crates/seyal-terminal/src/error.rs\<close>.  An identity is a \<open>u64\<close>; the allocator hands out
  each once and fails instead of wrapping around.

  The contract is the locale \<open>fresh_ids\<close>: what was allocated is fresh, and enough capacity
  means that a batch of allocations succeeds.
\<close>

datatype terminal_error = InvalidSize | LineIdentityExhausted

type_synonym 'a res = "terminal_error + 'a"

datatype line_id = LineId (line_no: nat)

text \<open>\<open>#[derive(PartialOrd, Ord)]\<close> on \<open>LineId\<close>.\<close>

instantiation line_id :: linorder
begin

definition less_eq_line_id :: "line_id \<Rightarrow> line_id \<Rightarrow> bool" where
  "less_eq_line_id a b \<longleftrightarrow> line_no a \<le> line_no b"

definition less_line_id :: "line_id \<Rightarrow> line_id \<Rightarrow> bool" where
  "less_line_id a b \<longleftrightarrow> line_no a < line_no b"

instance
  by standard (auto simp: less_eq_line_id_def less_line_id_def line_id.expand)

end

record line_id_allocator =
  next_id :: "nat option"

definition new_allocator :: line_id_allocator where
  "new_allocator = \<lparr>next_id = Some 1\<rparr>"

definition can_allocate :: "line_id_allocator \<Rightarrow> nat \<Rightarrow> bool" where
  "can_allocate a count =
    (if count = 0 then True
     else case next_id a of
            None \<Rightarrow> False
          | Some n \<Rightarrow>
              (if u64_max < count - 1 then False
               else checked_add u64_max n (count - 1) \<noteq> None))"

definition allocate :: "line_id_allocator \<Rightarrow> line_id_allocator \<times> line_id res" where
  "allocate a =
    (case next_id a of
       None \<Rightarrow> (a, Inl LineIdentityExhausted)
     | Some current \<Rightarrow>
         (a\<lparr>next_id := checked_add u64_max current 1\<rparr>, Inr (LineId current)))"

subsection \<open>Batches\<close>

text \<open>\<open>n\<close> allocations in a row, stopping at the first failure as \<open>?\<close> does.\<close>

fun allocate_n :: "nat \<Rightarrow> line_id_allocator \<Rightarrow> line_id_allocator \<times> line_id list res" where
  "allocate_n 0 a = (a, Inr [])"
| "allocate_n (Suc n) a =
    (case allocate a of
       (a', Inl e) \<Rightarrow> (a', Inl e)
     | (a', Inr i) \<Rightarrow>
         (case allocate_n n a' of
            (a'', Inl e) \<Rightarrow> (a'', Inl e)
          | (a'', Inr is) \<Rightarrow> (a'', Inr (i # is))))"

text \<open>
  An identity is used up once it is below the next one; after exhaustion all are.
\<close>

definition used_up :: "line_id_allocator \<Rightarrow> line_id \<Rightarrow> bool" where
  "used_up a i \<longleftrightarrow> (case next_id a of None \<Rightarrow> True | Some n \<Rightarrow> line_no i < n)"

definition allocator_ok :: "line_id_allocator \<Rightarrow> bool" where
  "allocator_ok a \<longleftrightarrow> (case next_id a of None \<Rightarrow> True | Some n \<Rightarrow> n \<le> u64_max)"

lemma new_allocator_ok: "allocator_ok new_allocator"
  by (simp add: allocator_ok_def new_allocator_def)

lemma allocate_ok: "allocator_ok a \<Longrightarrow> allocator_ok (fst (allocate a))"
  by (simp add: allocator_ok_def allocate_def checked_add_def split: option.splits if_splits)

lemma allocate_fresh:
  "allocate a = (a', Inr i) \<Longrightarrow> \<not> used_up a i \<and> used_up a' i \<and> (\<forall>j. used_up a j \<longrightarrow> used_up a' j)"
  by (auto simp: allocate_def used_up_def checked_add_def split: option.splits if_splits)

lemma allocate_used_up_mono: "used_up a j \<Longrightarrow> used_up (fst (allocate a)) j"
  by (auto simp: allocate_def used_up_def checked_add_def split: option.splits if_splits)

lemma can_allocate_Suc:
  assumes "allocator_ok a"
  shows "can_allocate a (Suc n) \<longleftrightarrow>
    (\<exists>a' i. allocate a = (a', Inr i) \<and> can_allocate a' n)"
proof (cases "next_id a")
  case None
  then show ?thesis by (simp add: can_allocate_def allocate_def)
next
  case (Some k)
  with assms have k: "k \<le> u64_max" by (simp add: allocator_ok_def)
  show ?thesis
  proof (cases n)
    case 0
    with Some k show ?thesis by (simp add: can_allocate_def allocate_def checked_add_def)
  next
    case (Suc m)
    with Some k show ?thesis by (auto simp: can_allocate_def allocate_def checked_add_def)
  qed
qed

subsection \<open>The contract\<close>

locale fresh_ids =
  fixes alloc :: "'a \<Rightarrow> 'a \<times> ('e + 'i)"
    and can :: "'a \<Rightarrow> nat \<Rightarrow> bool"
    and used :: "'a \<Rightarrow> 'i \<Rightarrow> bool"
    and inv :: "'a \<Rightarrow> bool"
  assumes alloc_fresh: "alloc a = (a', Inr i) \<Longrightarrow> \<not> used a i \<and> used a' i"
    and alloc_mono: "used a j \<Longrightarrow> used (fst (alloc a)) j"
    and alloc_inv: "inv a \<Longrightarrow> inv (fst (alloc a))"
    and can_step: "inv a \<Longrightarrow> can a (Suc n) \<longleftrightarrow> (\<exists>a' i. alloc a = (a', Inr i) \<and> can a' n)"
    and can_zero: "can a 0"
begin

fun batch :: "nat \<Rightarrow> 'a \<Rightarrow> 'a \<times> ('e + 'i list)" where
  "batch 0 a = (a, Inr [])"
| "batch (Suc n) a =
    (case alloc a of
       (a', Inl e) \<Rightarrow> (a', Inl e)
     | (a', Inr i) \<Rightarrow>
         (case batch n a' of
            (a'', Inl e) \<Rightarrow> (a'', Inl e)
          | (a'', Inr is) \<Rightarrow> (a'', Inr (i # is))))"

lemma batch_succeeds: "inv a \<Longrightarrow> (\<exists>a' is. batch n a = (a', Inr is)) = can a n"
proof (induction n arbitrary: a)
  case (Suc n)
  obtain a' r where r: "alloc a = (a', r)" by fastforce
  have inv': "inv a'" using alloc_inv [OF Suc.prems] r by simp
  show ?case
  proof (cases r)
    case (Inl e)
    with r can_step [OF Suc.prems] show ?thesis by simp
  next
    case (Inr i)
    have "(\<exists>a'' is. batch (Suc n) a = (a'', Inr is)) = (\<exists>a'' is. batch n a' = (a'', Inr is))"
      using r Inr by (auto split: prod.splits sum.splits)
    then show ?thesis
      using Suc.IH [OF inv'] can_step [OF Suc.prems] r Inr by simp
  qed
qed (simp add: can_zero)

lemma batch_fresh:
  "batch n a = (a', Inr is) \<Longrightarrow> length is = n \<and> distinct is \<and> (\<forall>i \<in> set is. \<not> used a i \<and> used a' i)
     \<and> (\<forall>j. used a j \<longrightarrow> used a' j)"
proof (induction n arbitrary: a "is")
  case (Suc n)
  then obtain a1 i rest where a1: "alloc a = (a1, Inr i)" and b: "batch n a1 = (a', Inr rest)"
    and is_eq: "is = i # rest"
    by (auto split: prod.splits sum.splits)
  have mono: "used a j \<Longrightarrow> used a1 j" for j using alloc_mono [of a j] a1 by simp
  have fresh: "\<not> used a i" "used a1 i" using alloc_fresh [OF a1] by auto
  show ?case using Suc.IH [OF b] mono fresh is_eq by auto
qed simp

end

interpretation ids: fresh_ids allocate can_allocate used_up allocator_ok
proof
  show "allocator_ok a \<Longrightarrow> can_allocate a (Suc n) \<longleftrightarrow>
      (\<exists>a' i. allocate a = (a', Inr i) \<and> can_allocate a' n)" for a n
    by (rule can_allocate_Suc)
qed (use allocate_fresh allocate_used_up_mono allocate_ok in \<open>auto simp: can_allocate_def\<close>)

lemma allocate_n_batch: "allocate_n n a = ids.batch n a"
  by (induction n arbitrary: a) (simp_all split: prod.splits sum.splits)

subsection \<open>Properties\<close>

text \<open>
  \<open>can_allocate\<close> is exactly the condition under which a batch of
  allocations succeeds, and the identities of a batch are distinct, were never handed out
  before and will never be handed out again, up to the last \<open>u64\<close>.
\<close>

lemma line_ids_fresh_batch:
  assumes "allocator_ok a"
  shows "(\<exists>a' is. allocate_n n a = (a', Inr is)) = can_allocate a n \<and>
    (\<forall>a' is. allocate_n n a = (a', Inr is) \<longrightarrow>
      length is = n \<and> distinct is \<and> (\<forall>i \<in> set is. \<not> used_up a i \<and> used_up a' i))"
  using ids.batch_succeeds [OF assms, of n] ids.batch_fresh [of n a]
  unfolding allocate_n_batch by auto

end
