(* ===== verification/Grapheme_Store.thy ===== *)
theory Grapheme_Store
  imports Prelude
begin

text \<open>
  The bounded store of variable-length grapheme payloads,
  \<open>crates/seyal-terminal/src/grapheme_store.rs\<close>: a slot vector with a free stack, a byte
  budget and two saturating counters.

  The contract is the locale \<open>payload_store\<close>: to its clients the store is a finite map from
  identities to payloads in which an insertion takes an identity that is not live.
\<close>

definition MAX_ACTIVE_GRAPHEME_BYTES :: nat where "MAX_ACTIVE_GRAPHEME_BYTES = 8192"

definition MAX_LIVE_VARIABLE_BYTES :: nat where "MAX_LIVE_VARIABLE_BYTES = 2097152"

definition INLINE_STORE_ID :: nat where "INLINE_STORE_ID = u32_max"

record grapheme_store =
  entries :: "byte list option list"
  free :: "nat list"
  live_bytes :: nat
  payload_overflow_count :: nat
  capacity_fallback_count :: nat

datatype store_admit = Inline | Stored nat | OverflowSentinel

definition new_store :: grapheme_store where
  "new_store = \<lparr>entries = [], free = [], live_bytes = 0,
     payload_overflow_count = 0, capacity_fallback_count = 0\<rparr>"

definition get_payload :: "grapheme_store \<Rightarrow> nat \<Rightarrow> byte list option" where
  "get_payload s i =
    (if i = INLINE_STORE_ID then None
     else if i < length (entries s) then entries s ! i else None)"

definition release :: "nat \<Rightarrow> grapheme_store \<Rightarrow> grapheme_store" where
  "release i s =
    (if i = INLINE_STORE_ID then s
     else if i < length (entries s) then
       (case entries s ! i of
          None \<Rightarrow> s
        | Some bytes \<Rightarrow>
            s\<lparr>entries := (entries s)[i := None],
              live_bytes := live_bytes s - length bytes,
              free := free s @ [i]\<rparr>)
     else s)"

definition reclaim :: "nat option \<Rightarrow> grapheme_store \<Rightarrow> grapheme_store" where
  "reclaim release_first s = (case release_first of Some i \<Rightarrow> release i s | None \<Rightarrow> s)"

text \<open>
  \<open>free.pop()\<close> takes the last element; the new slot's identity is truncated to \<open>u32\<close> as the
  code's \<open>as u32\<close> does.
\<close>

definition insert_replacing ::
  "byte list \<Rightarrow> nat option \<Rightarrow> grapheme_store \<Rightarrow> grapheme_store \<times> store_admit"
where
  "insert_replacing payload release_first s0 =
    (let s = reclaim release_first s0 in
     if payload = [] then (s, Inline)
     else if length payload > MAX_ACTIVE_GRAPHEME_BYTES then
       (s\<lparr>payload_overflow_count := sat_add u64_max (payload_overflow_count s) 1\<rparr>, OverflowSentinel)
     else if sat_add u64_max (live_bytes s) (length payload) > MAX_LIVE_VARIABLE_BYTES then
       (s\<lparr>capacity_fallback_count := sat_add u64_max (capacity_fallback_count s) 1\<rparr>, OverflowSentinel)
     else
       let (i, s1) =
         (if free s \<noteq> [] then
            (last (free s), s\<lparr>free := butlast (free s), entries := (entries s)[last (free s) := Some payload]\<rparr>)
          else
            (length (entries s) mod 2 ^ 32, s\<lparr>entries := entries s @ [Some payload]\<rparr>))
       in (s1\<lparr>live_bytes := sat_add u64_max (live_bytes s1) (length payload)\<rparr>, Stored i))"

subsection \<open>Invariant\<close>

definition slot_bytes :: "byte list option list \<Rightarrow> nat" where
  "slot_bytes es = sum_list (map (\<lambda>e. case e of None \<Rightarrow> 0 | Some b \<Rightarrow> length b) es)"

definition store_ok :: "grapheme_store \<Rightarrow> bool" where
  "store_ok s \<longleftrightarrow>
     distinct (free s) \<and>
     set (free s) = {i. i < length (entries s) \<and> entries s ! i = None} \<and>
     live_bytes s = slot_bytes (entries s) \<and>
     live_bytes s \<le> MAX_LIVE_VARIABLE_BYTES \<and>
     length (entries s) \<le> MAX_LIVE_VARIABLE_BYTES \<and>
     (\<forall>b. Some b \<in> set (entries s) \<longrightarrow> b \<noteq> [] \<and> length b \<le> MAX_ACTIVE_GRAPHEME_BYTES)"

lemma slot_bytes_append [simp]: "slot_bytes (es @ fs) = slot_bytes es + slot_bytes fs"
  by (simp add: slot_bytes_def)

lemma slot_bytes_simps [simp]:
  "slot_bytes [] = 0" "slot_bytes [Some b] = length b" "slot_bytes [None] = 0"
  by (simp_all add: slot_bytes_def)

lemma slot_bytes_split:
  assumes "i < length es"
  shows "slot_bytes es = slot_bytes (take i es) + slot_bytes [es ! i] + slot_bytes (drop (Suc i) es)"
  by (metis assms id_take_nth_drop slot_bytes_append append_Cons append_Nil add.assoc)

lemma slot_bytes_update:
  assumes "i < length es"
  shows "slot_bytes (es[i := e]) + slot_bytes [es ! i] = slot_bytes es + slot_bytes [e]"
  using slot_bytes_split [OF assms] slot_bytes_split [of i "es[i := e]"] assms by simp

lemma length_le_slot_bytes:
  assumes "\<And>e. e \<in> set es \<Longrightarrow> \<exists>b. e = Some b \<and> b \<noteq> []"
  shows "length es \<le> slot_bytes es"
  using assms
proof (induction es)
  case (Cons e es)
  obtain b where "e = Some b" "b \<noteq> []" using Cons.prems by fastforce
  moreover have "length es \<le> slot_bytes es" using Cons by simp
  ultimately show ?case by (cases b) (auto simp: slot_bytes_def)
qed simp

lemma new_store_ok: "store_ok new_store"
  by (simp add: store_ok_def new_store_def MAX_LIVE_VARIABLE_BYTES_def)

lemma release_ok [keeps]:
  assumes "store_ok s"
  shows "store_ok (release i s)"
proof (cases "i < length (entries s) \<and> i \<noteq> INLINE_STORE_ID \<and> entries s ! i \<noteq> None")
  case True
  then obtain b where b: "entries s ! i = Some b" by auto
  have "slot_bytes ((entries s)[i := None]) + length b = slot_bytes (entries s)"
    using slot_bytes_update [of i "entries s" None] True b by simp
  moreover have "set (free s @ [i]) = {j. j < length (entries s) \<and> (entries s)[i := None] ! j = None}"
    using assms True by (auto simp: store_ok_def nth_list_update)
  moreover have "i \<notin> set (free s)" using assms b by (simp add: store_ok_def)
  moreover have "Some c \<in> set ((entries s)[i := None]) \<Longrightarrow> Some c \<in> set (entries s)" for c
    using set_update_subset_insert [of "entries s" i None] by auto
  ultimately show ?thesis using assms True b by (auto simp: store_ok_def release_def)
qed (use assms in \<open>auto simp: release_def split: option.splits\<close>)

text \<open>The accounting of an admitted insertion, for a reused and for a new slot.\<close>

lemma reuse_slot_ok:
  assumes ok: "store_ok s" and ne: "free s \<noteq> []" and p: "payload \<noteq> []"
    and len: "length payload \<le> MAX_ACTIVE_GRAPHEME_BYTES"
    and fits: "live_bytes s + length payload \<le> MAX_LIVE_VARIABLE_BYTES"
  shows "store_ok (s\<lparr>free := butlast (free s), entries := (entries s)[last (free s) := Some payload],
      live_bytes := live_bytes s + length payload\<rparr>)"
proof -
  let ?i = "last (free s)"
  have i: "?i \<in> set (free s)" using ne by simp
  with ok have lt: "?i < length (entries s)" and none: "entries s ! ?i = None"
    by (auto simp: store_ok_def)
  have d: "distinct (butlast (free s) @ [?i])" using ok ne by (simp add: store_ok_def)
  have "set (free s) = set (butlast (free s) @ [?i])" using ne by simp
  then have "set (butlast (free s)) = set (free s) - {?i}" using d by auto
  then have "set (butlast (free s)) =
      {j. j < length (entries s) \<and> (entries s)[?i := Some payload] ! j = None}"
    using ok lt by (auto simp: store_ok_def nth_list_update)
  moreover have "slot_bytes ((entries s)[?i := Some payload]) = slot_bytes (entries s) + length payload"
    using slot_bytes_update [OF lt, of "Some payload"] none by simp
  moreover have "Some c \<in> set ((entries s)[?i := Some payload]) \<Longrightarrow> c = payload \<or> Some c \<in> set (entries s)" for c
    using set_update_subset_insert [of "entries s" ?i "Some payload"] by auto
  ultimately show ?thesis using ok p len fits d by (auto simp: store_ok_def)
qed

lemma new_slot_bound:
  assumes ok: "store_ok s" and "free s = []" and "payload \<noteq> []"
    and "live_bytes s + length payload \<le> MAX_LIVE_VARIABLE_BYTES"
  shows "length (entries s) < MAX_LIVE_VARIABLE_BYTES"
proof -
  have "length (entries s) \<le> slot_bytes (entries s)"
  proof (rule length_le_slot_bytes)
    fix e assume e: "e \<in> set (entries s)"
    then obtain j where "j < length (entries s)" "e = entries s ! j" by (auto simp: in_set_conv_nth)
    then have "e \<noteq> None" using assms(1,2) by (auto simp: store_ok_def)
    then show "\<exists>b. e = Some b \<and> b \<noteq> []" using ok e by (auto simp: store_ok_def)
  qed
  moreover have "0 < length payload" using assms(3) by simp
  ultimately show ?thesis using ok assms(4) unfolding store_ok_def by linarith
qed

lemma new_slot_ok:
  assumes ok: "store_ok s" and ne: "free s = []" and p: "payload \<noteq> []"
    and len: "length payload \<le> MAX_ACTIVE_GRAPHEME_BYTES"
    and fits: "live_bytes s + length payload \<le> MAX_LIVE_VARIABLE_BYTES"
  shows "store_ok (s\<lparr>entries := entries s @ [Some payload], live_bytes := live_bytes s + length payload\<rparr>)"
  using new_slot_bound [OF ok ne p fits] assms
  by (auto simp: store_ok_def nth_append less_Suc_eq)

text \<open>
  What \<open>insert_replacing\<close> does after the reclaim, on every branch.
\<close>

lemma insert_cases:
  assumes ok: "store_ok s0" and s_def: "s = reclaim r s0"
  shows "store_ok s"
    and "payload = [] \<Longrightarrow> insert_replacing payload r s0 = (s, Inline)"
    and "length payload > MAX_ACTIVE_GRAPHEME_BYTES \<Longrightarrow> insert_replacing payload r s0
      = (s\<lparr>payload_overflow_count := sat_add u64_max (payload_overflow_count s) 1\<rparr>, OverflowSentinel)"
    and "payload \<noteq> [] \<Longrightarrow> length payload \<le> MAX_ACTIVE_GRAPHEME_BYTES \<Longrightarrow>
      live_bytes s + length payload > MAX_LIVE_VARIABLE_BYTES \<Longrightarrow> insert_replacing payload r s0
      = (s\<lparr>capacity_fallback_count := sat_add u64_max (capacity_fallback_count s) 1\<rparr>, OverflowSentinel)"
    and "payload \<noteq> [] \<Longrightarrow> length payload \<le> MAX_ACTIVE_GRAPHEME_BYTES \<Longrightarrow>
      live_bytes s + length payload \<le> MAX_LIVE_VARIABLE_BYTES \<Longrightarrow> free s \<noteq> [] \<Longrightarrow>
      insert_replacing payload r s0
      = (s\<lparr>free := butlast (free s), entries := (entries s)[last (free s) := Some payload],
           live_bytes := live_bytes s + length payload\<rparr>, Stored (last (free s)))"
    and "payload \<noteq> [] \<Longrightarrow> length payload \<le> MAX_ACTIVE_GRAPHEME_BYTES \<Longrightarrow>
      live_bytes s + length payload \<le> MAX_LIVE_VARIABLE_BYTES \<Longrightarrow> free s = [] \<Longrightarrow>
      insert_replacing payload r s0
      = (s\<lparr>entries := entries s @ [Some payload], live_bytes := live_bytes s + length payload\<rparr>,
         Stored (length (entries s)))"
proof -
  show ok': "store_ok s" using ok by (simp add: s_def reclaim_def release_ok split: option.split)
  have sat: "length payload \<le> MAX_ACTIVE_GRAPHEME_BYTES \<Longrightarrow>
      sat_add u64_max (live_bytes s) (length payload) = live_bytes s + length payload"
    using ok' by (intro sat_add_exact)
      (simp add: store_ok_def MAX_ACTIVE_GRAPHEME_BYTES_def MAX_LIVE_VARIABLE_BYTES_def)
  note defs = insert_replacing_def Let_def s_def [symmetric] sat
  show "payload = [] \<Longrightarrow> insert_replacing payload r s0 = (s, Inline)" by (simp add: defs)
  show "length payload > MAX_ACTIVE_GRAPHEME_BYTES \<Longrightarrow> insert_replacing payload r s0
      = (s\<lparr>payload_overflow_count := sat_add u64_max (payload_overflow_count s) 1\<rparr>, OverflowSentinel)"
    by (auto simp: defs)
  show "payload \<noteq> [] \<Longrightarrow> length payload \<le> MAX_ACTIVE_GRAPHEME_BYTES \<Longrightarrow>
      live_bytes s + length payload > MAX_LIVE_VARIABLE_BYTES \<Longrightarrow> insert_replacing payload r s0
      = (s\<lparr>capacity_fallback_count := sat_add u64_max (capacity_fallback_count s) 1\<rparr>, OverflowSentinel)"
    by (auto simp: defs)
  show "payload \<noteq> [] \<Longrightarrow> length payload \<le> MAX_ACTIVE_GRAPHEME_BYTES \<Longrightarrow>
      live_bytes s + length payload \<le> MAX_LIVE_VARIABLE_BYTES \<Longrightarrow> free s \<noteq> [] \<Longrightarrow>
      insert_replacing payload r s0
      = (s\<lparr>free := butlast (free s), entries := (entries s)[last (free s) := Some payload],
           live_bytes := live_bytes s + length payload\<rparr>, Stored (last (free s)))"
    by (auto simp: defs)
  assume p: "payload \<noteq> []" "length payload \<le> MAX_ACTIVE_GRAPHEME_BYTES"
      "live_bytes s + length payload \<le> MAX_LIVE_VARIABLE_BYTES" "free s = []"
  have "length (entries s) mod 2 ^ 32 = length (entries s)"
    using new_slot_bound [OF ok' p(4,1,3)] by (simp add: MAX_LIVE_VARIABLE_BYTES_def)
  with p show "insert_replacing payload r s0
      = (s\<lparr>entries := entries s @ [Some payload], live_bytes := live_bytes s + length payload\<rparr>,
         Stored (length (entries s)))"
    by (auto simp: defs)
qed

lemma store_ok_counts [simp]:
  "store_ok (s\<lparr>payload_overflow_count := n\<rparr>) = store_ok s"
  "store_ok (s\<lparr>capacity_fallback_count := n\<rparr>) = store_ok s"
  by (simp_all add: store_ok_def)

lemma get_payload_counts [simp]:
  "get_payload (s\<lparr>payload_overflow_count := n\<rparr>) = get_payload s"
  "get_payload (s\<lparr>capacity_fallback_count := n\<rparr>) = get_payload s"
  by (simp_all add: get_payload_def fun_eq_iff)

lemma insert_ok [keeps]:
  assumes ok: "store_ok s0"
  shows "store_ok (fst (insert_replacing payload r s0))"
proof -
  define s where "s = reclaim r s0"
  note c = insert_cases [OF ok s_def]
  consider "payload = []" | "length payload > MAX_ACTIVE_GRAPHEME_BYTES"
    | "payload \<noteq> []" "length payload \<le> MAX_ACTIVE_GRAPHEME_BYTES"
      "live_bytes s + length payload > MAX_LIVE_VARIABLE_BYTES"
    | "payload \<noteq> []" "length payload \<le> MAX_ACTIVE_GRAPHEME_BYTES"
      "live_bytes s + length payload \<le> MAX_LIVE_VARIABLE_BYTES" by linarith
  then show ?thesis
  proof cases
    case 4
    show ?thesis
      using c(1) 4 c(5) [OF 4] c(6) [OF 4] reuse_slot_ok [OF c(1) _ 4] new_slot_ok [OF c(1) _ 4]
      by (cases "free s = []") simp_all
  qed (use c in simp_all)
qed

subsection \<open>The contract\<close>

lemma get_release:
  "store_ok s \<Longrightarrow> get_payload (release i s) = (get_payload s)(i := None)"
  by (auto simp: get_payload_def release_def fun_eq_iff split: option.splits)

lemma insert_stored:
  assumes ok: "store_ok s0" and ins: "insert_replacing payload r s0 = (s', Stored i)"
    and m_def: "m = (case r of Some j \<Rightarrow> (get_payload s0)(j := None) | None \<Rightarrow> get_payload s0)"
  shows "m i = None \<and> get_payload s' = m(i \<mapsto> payload) \<and> i < MAX_LIVE_VARIABLE_BYTES"
proof -
  define s where "s = reclaim r s0"
  note c = insert_cases [OF ok s_def]
  have m: "m = get_payload s"
    using get_release [OF ok] by (simp add: m_def s_def reclaim_def split: option.split)
  have p1: "payload \<noteq> []" using ins c(2) by auto
  have p2: "length payload \<le> MAX_ACTIVE_GRAPHEME_BYTES" using ins c(3) [of payload] by force
  have p3: "live_bytes s + length payload \<le> MAX_LIVE_VARIABLE_BYTES"
    using ins c(4) [OF p1 p2] by force
  note p = p1 p2 p3
  have bound: "length (entries s) \<le> MAX_LIVE_VARIABLE_BYTES" using c(1) by (simp add: store_ok_def)
  show ?thesis
  proof (cases "free s = []")
    case True
    have lt: "length (entries s) < MAX_LIVE_VARIABLE_BYTES" by (rule new_slot_bound [OF c(1) True p(1,3)])
    then show ?thesis using c(6) [OF p True] ins m
      by (auto simp: get_payload_def fun_eq_iff nth_append INLINE_STORE_ID_def MAX_LIVE_VARIABLE_BYTES_def)
  next
    case False
    then have "last (free s) \<in> set (free s)" by simp
    then have "last (free s) < length (entries s)" "entries s ! last (free s) = None"
      using c(1) by (auto simp: store_ok_def)
    then show ?thesis using c(5) [OF p False] ins m bound
      by (auto simp: get_payload_def fun_eq_iff INLINE_STORE_ID_def MAX_LIVE_VARIABLE_BYTES_def)
  qed
qed

lemma insert_not_stored:
  assumes ok: "store_ok s0" and ins: "insert_replacing payload r s0 = (s', a)" and "\<forall>i. a \<noteq> Stored i"
  shows "get_payload s' = (case r of Some j \<Rightarrow> (get_payload s0)(j := None) | None \<Rightarrow> get_payload s0)"
proof -
  define s where "s = reclaim r s0"
  note c = insert_cases [OF ok s_def]
  have no: "\<not> (payload \<noteq> [] \<and> length payload \<le> MAX_ACTIVE_GRAPHEME_BYTES \<and>
      live_bytes s + length payload \<le> MAX_LIVE_VARIABLE_BYTES)"
    using c(5,6) [of payload] ins assms(3) by (metis prod.inject)
  consider "payload = []" | "length payload > MAX_ACTIVE_GRAPHEME_BYTES"
    | "payload \<noteq> []" "length payload \<le> MAX_ACTIVE_GRAPHEME_BYTES"
      "live_bytes s + length payload > MAX_LIVE_VARIABLE_BYTES" using no by linarith
  then have "get_payload s' = get_payload s"
  proof cases
    case 1 then show ?thesis using c(2) ins by simp
  next
    case 2 then show ?thesis using c(3) [OF 2] ins by force
  next
    case 3 then show ?thesis using c(4) [OF 3] ins by force
  qed
  then show ?thesis using get_release [OF ok] by (simp add: s_def reclaim_def split: option.split)
qed

text \<open>A client's view: operations on the store and the map they stand for.\<close>

datatype store_op = Release nat | Insert "byte list" "nat option"

fun apply_op :: "store_op \<Rightarrow> grapheme_store \<Rightarrow> grapheme_store" where
  "apply_op (Release i) s = release i s"
| "apply_op (Insert p r) s = fst (insert_replacing p r s)"

locale payload_store =
  fixes get :: "'s \<Rightarrow> 'i \<Rightarrow> 'p option"
    and rel :: "'i \<Rightarrow> 's \<Rightarrow> 's"
    and ins :: "'p \<Rightarrow> 'i option \<Rightarrow> 's \<Rightarrow> 's \<times> 'r"
    and admitted :: "'r \<Rightarrow> 'i option"
    and inv :: "'s \<Rightarrow> bool"
  assumes rel_inv: "inv s \<Longrightarrow> inv (rel i s)"
    and ins_inv: "inv s \<Longrightarrow> inv (fst (ins p r s))"
    and get_rel: "inv s \<Longrightarrow> get (rel i s) = (get s)(i := None)"
    and ins_admitted: "\<lbrakk>inv s; ins p r s = (s', a); admitted a = Some i;
        m = (case r of Some j \<Rightarrow> (get s)(j := None) | None \<Rightarrow> get s)\<rbrakk>
      \<Longrightarrow> m i = None \<and> get s' = m(i \<mapsto> p)"
    and ins_refused: "\<lbrakk>inv s; ins p r s = (s', a); admitted a = None\<rbrakk>
      \<Longrightarrow> get s' = (case r of Some j \<Rightarrow> (get s)(j := None) | None \<Rightarrow> get s)"
begin

text \<open>An insertion changes no live identity but the one it reclaims.\<close>

lemma ins_frame:
  assumes "inv s" "get s j = Some q" "r \<noteq> Some j"
  shows "get (fst (ins p r s)) j = Some q"
proof -
  obtain s' a where sa: "ins p r s = (s', a)" by fastforce
  define m where "m = (case r of Some j \<Rightarrow> (get s)(j := None) | None \<Rightarrow> get s)"
  have mj: "m j = Some q" using assms(2,3) by (simp add: m_def split: option.split)
  show ?thesis
  proof (cases "admitted a")
    case None
    then show ?thesis using ins_refused [OF assms(1) sa None] mj sa by (simp add: m_def)
  next
    case (Some i)
    have "m i = None \<and> get s' = m(i \<mapsto> p)" by (rule ins_admitted [OF assms(1) sa Some m_def])
    then show ?thesis using mj sa by auto
  qed
qed

lemma ins_gets: "\<lbrakk>inv s; ins p r s = (s', a); admitted a = Some i\<rbrakk> \<Longrightarrow> get s' i = Some p"
  using ins_admitted by fastforce

lemma rel_frame: "inv s \<Longrightarrow> i \<noteq> j \<Longrightarrow> get (rel i s) j = get s j"
  by (simp add: get_rel)

end

fun admitted_id :: "store_admit \<Rightarrow> nat option" where
  "admitted_id (Stored i) = Some i"
| "admitted_id _ = None"

interpretation gstore: payload_store get_payload release insert_replacing admitted_id store_ok
proof
  fix s p r s' a i m
  assume "store_ok s" "insert_replacing p r s = (s', a)" "admitted_id a = Some i"
    "m = (case r of Some j \<Rightarrow> (get_payload s)(j := None) | None \<Rightarrow> get_payload s)"
  then show "m i = None \<and> get_payload s' = m(i \<mapsto> p)"
    using insert_stored [of s p r s' i m] by (cases a) auto
next
  fix s p r s' a
  assume "store_ok s" "insert_replacing p r s = (s', a)" "admitted_id a = None"
  then show "get_payload s' = (case r of Some j \<Rightarrow> (get_payload s)(j := None) | None \<Rightarrow> get_payload s)"
    using insert_not_stored [of s p r s' a] by (cases a) auto
qed (simp_all add: release_ok insert_ok get_release)

lemma apply_ops_ok: "store_ok s \<Longrightarrow> store_ok (fold apply_op ops s)"
proof (induction ops arbitrary: s)
  case (Cons op ops)
  have "store_ok (apply_op op s)" using Cons.prems by (cases op) (simp_all add: keeps)
  then show ?case using Cons.IH by simp
qed simp

lemma store_okD:
  assumes "store_ok s"
  shows "live_bytes s = slot_bytes (entries s) \<and> live_bytes s \<le> MAX_LIVE_VARIABLE_BYTES \<and>
    length (entries s) \<le> MAX_LIVE_VARIABLE_BYTES \<and>
    (\<forall>i p. get_payload s i = Some p \<longrightarrow> length p \<le> MAX_ACTIVE_GRAPHEME_BYTES)"
  using assms by (auto simp: store_ok_def get_payload_def split: if_splits) (metis nth_mem)

subsection \<open>Properties\<close>

text \<open>
  C16 (grapheme_store_bounded): after any sequence of insertions and releases on a new store the
  byte counter is exactly the number of payload bytes held, never more than the 2 MiB budget;
  no payload is longer than 8192 bytes, and the slot vector never outgrows the \<open>u32\<close> identities
  (so the truncating cast of a slot index loses nothing and no identity collides with the inline
  sentinel).
\<close>

theorem grapheme_store_bounded:
  "let s = fold apply_op ops new_store in
     live_bytes s = slot_bytes (entries s) \<and> live_bytes s \<le> MAX_LIVE_VARIABLE_BYTES \<and>
     length (entries s) \<le> MAX_LIVE_VARIABLE_BYTES \<and> MAX_LIVE_VARIABLE_BYTES < INLINE_STORE_ID \<and>
     (\<forall>i p. get_payload s i = Some p \<longrightarrow> length p \<le> MAX_ACTIVE_GRAPHEME_BYTES)"
  using store_okD [OF apply_ops_ok [OF new_store_ok, of ops]]
  by (simp add: Let_def MAX_LIVE_VARIABLE_BYTES_def INLINE_STORE_ID_def)

theorem grapheme_store_bounded_witness:
  "let s = fold apply_op [Insert [0x61, 0x62] None, Insert [0x63] None, Release 0, Insert [0x64] (Some 7)] new_store
   in live_bytes s = 2 \<and> entries s = [Some [0x64], Some [0x63]] \<and> live_bytes s \<le> MAX_LIVE_VARIABLE_BYTES"
  using grapheme_store_bounded [of "[Insert [0x61, 0x62] None, Insert [0x63] None, Release 0, Insert [0x64] (Some 7)]"]
  by (simp add: Let_def new_store_def insert_replacing_def reclaim_def release_def sat_add_def
      MAX_LIVE_VARIABLE_BYTES_def MAX_ACTIVE_GRAPHEME_BYTES_def INLINE_STORE_ID_def)

text \<open>
  C17 (grapheme_store_insert_lookup): in every reachable store an admitted payload is read back
  under the identity returned, that identity was not live (nobody else's payload is replaced),
  and every other live identity but the one reclaimed keeps its payload.
\<close>

theorem grapheme_store_insert_lookup:
  assumes "s = fold apply_op ops new_store" and "insert_replacing p r s = (s', Stored i)"
  shows "get_payload s' i = Some p \<and> (r \<noteq> Some i \<longrightarrow> get_payload s i = None) \<and>
    (\<forall>j q. get_payload s j = Some q \<longrightarrow> r \<noteq> Some j \<longrightarrow> get_payload s' j = Some q)"
proof -
  have ok: "store_ok s" using apply_ops_ok [OF new_store_ok] assms(1) by simp
  have "get_payload s' i = Some p" using gstore.ins_gets [OF ok assms(2)] by simp
  moreover have "r \<noteq> Some i \<longrightarrow> get_payload s i = None"
    using insert_stored [OF ok assms(2) refl] by (simp split: option.splits if_splits)
  moreover have "get_payload s j = Some q \<Longrightarrow> r \<noteq> Some j \<Longrightarrow> get_payload s' j = Some q" for j q
    using gstore.ins_frame [OF ok, of j q r p] assms(2) by simp
  ultimately show ?thesis by blast
qed

theorem grapheme_store_insert_lookup_witness:
  "get_payload (fst (insert_replacing [0x62] (Some 0) (fst (insert_replacing [0x61] None new_store)))) 0 = Some [0x62]"
proof -
  let ?s = "fold apply_op [Insert [0x61] None] new_store"
  have "insert_replacing [0x62] (Some 0) ?s = (fst (insert_replacing [0x62] (Some 0) ?s), Stored 0)"
    by (simp add: Let_def new_store_def insert_replacing_def reclaim_def release_def sat_add_def
      MAX_LIVE_VARIABLE_BYTES_def MAX_ACTIVE_GRAPHEME_BYTES_def INLINE_STORE_ID_def)
  from grapheme_store_insert_lookup [OF refl this] show ?thesis by simp
qed

end
