(* ===== verification/Cells.thy ===== *)
theory Cells
  imports Grapheme_Store
begin

text \<open>
  The values the grid is made of: colours (\<open>color.rs\<close>), styles (\<open>style.rs\<close>), cells
  (\<open>cell.rs\<close>), the cursor (\<open>cursor.rs\<close>), the terminal modes (\<open>modes.rs\<close>), the width policy
  (\<open>width.rs\<close>) and the active grapheme (\<open>active_grapheme.rs\<close>), all of
  \<open>crates/seyal-terminal/src\<close>.

  A \<open>char\<close> is a \<open>scalar\<close> and a \<open>String\<close> a list of scalars.  The Unicode tables of the crates
  unicode-width and unicode-segmentation are the record \<open>unicode_env\<close>, a parameter of every
  definition that consults them.
\<close>

section \<open>Colours, styles, cells\<close>

datatype color = DefaultColor | Indexed nat | Rgb nat nat nat

record style =
  fg :: color
  bg :: color
  bold :: bool
  underline :: bool
  inverse_video :: bool

definition default_style :: style where
  "default_style = \<lparr>fg = DefaultColor, bg = DefaultColor, bold = False, underline = False,
     inverse_video = False\<rparr>"

datatype cell_role = Empty | Lead | Continuation

record cell =
  character :: scalar
  cell_style :: style
  role :: cell_role
  cell_width :: nat
  store_id :: nat
  cell_overflow :: bool

abbreviation REPLACEMENT :: scalar where "REPLACEMENT \<equiv> 0xfffd"

abbreviation SPACE :: scalar where "SPACE \<equiv> 0x20"

definition blank :: "color \<Rightarrow> cell" where
  "blank background = \<lparr>character = SPACE, cell_style = default_style\<lparr>bg := background\<rparr>,
     role = Empty, cell_width = 0, store_id = INLINE_STORE_ID, cell_overflow = False\<rparr>"

definition default_cell :: cell where
  "default_cell = blank DefaultColor"

definition lead_inline :: "scalar \<Rightarrow> nat \<Rightarrow> style \<Rightarrow> cell" where
  "lead_inline ch width st = \<lparr>character = ch, cell_style = st, role = Lead, cell_width = width,
     store_id = INLINE_STORE_ID, cell_overflow = False\<rparr>"

fun lead_from_admit :: "scalar \<Rightarrow> nat \<Rightarrow> style \<Rightarrow> store_admit \<Rightarrow> cell" where
  "lead_from_admit first width st Inline = lead_inline first width st"
| "lead_from_admit first width st (Stored i) =
     \<lparr>character = first, cell_style = st, role = Lead, cell_width = width, store_id = i,
      cell_overflow = False\<rparr>"
| "lead_from_admit first width st OverflowSentinel =
     \<lparr>character = REPLACEMENT, cell_style = st, role = Lead, cell_width = width,
      store_id = INLINE_STORE_ID, cell_overflow = True\<rparr>"

definition continuation :: cell where
  "continuation = \<lparr>character = SPACE, cell_style = default_style, role = Continuation,
     cell_width = 0, store_id = INLINE_STORE_ID, cell_overflow = False\<rparr>"

definition is_continuation :: "cell \<Rightarrow> bool" where
  "is_continuation c \<longleftrightarrow> role c = Continuation"

definition is_lead :: "cell \<Rightarrow> bool" where
  "is_lead c \<longleftrightarrow> role c = Lead"

definition canonical_scalar :: "cell \<Rightarrow> scalar" where
  "canonical_scalar c =
    (if cell_overflow c then REPLACEMENT
     else case role c of Lead \<Rightarrow> character c | Empty \<Rightarrow> SPACE | Continuation \<Rightarrow> SPACE)"

text \<open>
  The documented cell discipline: a lead occupies one or two cells, the other roles none; only
  a lead owns a stored payload or carries the overflow mark.
\<close>

definition cell_ok :: "cell \<Rightarrow> bool" where
  "cell_ok c \<longleftrightarrow>
     (case role c of
        Lead \<Rightarrow> cell_width c \<in> {1, 2} \<and> (cell_overflow c \<longrightarrow> store_id c = INLINE_STORE_ID)
      | _ \<Rightarrow> cell_width c = 0 \<and> store_id c = INLINE_STORE_ID \<and> \<not> cell_overflow c \<and> character c = SPACE)"

lemma cell_ok_blank [simp]: "cell_ok (blank b)"
  by (simp add: cell_ok_def blank_def)

lemma cell_ok_default [simp]: "cell_ok default_cell"
  by (simp add: default_cell_def)

lemma cell_ok_continuation [simp]: "cell_ok continuation"
  by (simp add: cell_ok_def continuation_def)

lemma cell_ok_lead_inline [simp]: "cell_ok (lead_inline c w st) \<longleftrightarrow> w \<in> {1, 2}"
  by (simp add: cell_ok_def lead_inline_def)

lemma cell_ok_lead_from_admit [simp]: "cell_ok (lead_from_admit c w st a) \<longleftrightarrow> w \<in> {1, 2}"
  by (cases a) (simp_all add: cell_ok_def lead_inline_def)

lemma role_simps [simp]:
  "role (blank b) = Empty" "role (lead_inline c w st) = Lead"
  "role (lead_from_admit c w st a) = Lead" "role continuation = Continuation"
  "role default_cell = Empty"
  by (simp_all add: blank_def lead_inline_def continuation_def default_cell_def) (cases a; simp add: lead_inline_def)

lemma store_id_simps [simp]:
  "store_id (blank b) = INLINE_STORE_ID" "store_id (lead_inline c w st) = INLINE_STORE_ID"
  "store_id continuation = INLINE_STORE_ID"
  by (simp_all add: blank_def lead_inline_def continuation_def)

lemma cell_width_simps [simp]:
  "cell_width (blank b) = 0" "cell_width (lead_inline c w st) = w"
  "cell_width (lead_from_admit c w st a) = w" "cell_width continuation = 0"
  by (simp_all add: blank_def lead_inline_def continuation_def) (cases a; simp add: lead_inline_def)

section \<open>Cursor and modes\<close>

record cursor =
  cur_col :: nat
  cur_row :: nat
  pending_wrap :: bool

record cursor_state =
  cs_col :: nat
  cs_row :: nat
  cs_visible :: bool

definition default_cursor :: cursor where
  "default_cursor = \<lparr>cur_col = 0, cur_row = 0, pending_wrap = False\<rparr>"

definition clamp :: "nat \<Rightarrow> nat \<Rightarrow> cursor \<Rightarrow> cursor" where
  "clamp cols rows c = \<lparr>cur_col = min (cur_col c) (cols - 1), cur_row = min (cur_row c) (rows - 1),
     pending_wrap = False\<rparr>"

datatype mouse_reporting = MouseOff | MouseButtonOnly | MouseButtonDrag | MouseAny

record mode_state =
  alternate_screen :: bool
  cursor_visible :: bool
  unicode_core :: bool
  wraparound :: bool
  bracketed_paste :: bool
  application_cursor :: bool
  application_keypad :: bool
  keyboard_flags :: byte
  reporting :: mouse_reporting
  mouse_sgr :: bool

definition default_modes :: mode_state where
  "default_modes = \<lparr>alternate_screen = False, cursor_visible = True, unicode_core = True,
     wraparound = True, bracketed_paste = False, application_cursor = False,
     application_keypad = False, keyboard_flags = 0, reporting = MouseOff, mouse_sgr = False\<rparr>"

section \<open>Widths\<close>

record unicode_env =
  uwidth :: "scalar \<Rightarrow> nat option"
  uwidth_cjk :: "scalar \<Rightarrow> nat option"
  grapheme_count :: "scalar list \<Rightarrow> nat"

datatype ambiguous_width_policy = Narrow | Wide

definition extends_active_grapheme :: "unicode_env \<Rightarrow> scalar list \<Rightarrow> scalar \<Rightarrow> bool" where
  "extends_active_grapheme env existing next_ch =
    (if existing = [] then False else grapheme_count env (existing @ [next_ch]) = 1)"

definition is_nonspacing_mark_or_format :: "unicode_env \<Rightarrow> scalar \<Rightarrow> bool" where
  "is_nonspacing_mark_or_format env ch \<longleftrightarrow>
     ch = 0xfe0e \<or> ch = 0xfe0f \<or> ch = 0x200d \<or> ch = 0x20e3 \<or> (0xfe00 \<le> ch \<and> ch \<le> 0xfe0d)
     \<or> uwidth env ch = Some 0"

definition scalar_width :: "unicode_env \<Rightarrow> ambiguous_width_policy \<Rightarrow> scalar \<Rightarrow> nat" where
  "scalar_width env ambiguous ch =
    (case (case ambiguous of Narrow \<Rightarrow> uwidth env ch | Wide \<Rightarrow> uwidth_cjk env ch) of
       Some w \<Rightarrow> w | None \<Rightarrow> 1)"

fun width_loop :: "unicode_env \<Rightarrow> ambiguous_width_policy \<Rightarrow> scalar list \<Rightarrow> nat \<Rightarrow> nat" where
  "width_loop env ambiguous [] width = width"
| "width_loop env ambiguous (ch # chs) width =
    (if is_nonspacing_mark_or_format env ch then width_loop env ambiguous chs width
     else width_loop env ambiguous chs
            (sat_add u32_max width (scalar_width env ambiguous ch mod 2 ^ 32)))"

definition grapheme_terminal_width ::
  "unicode_env \<Rightarrow> scalar list \<Rightarrow> ambiguous_width_policy \<Rightarrow> nat"
where
  "grapheme_terminal_width env text ambiguous =
    (if text = [] then 0
     else if (\<exists>c \<in> set text. c = 0xfe0f) \<and> (\<exists>c \<in> set text. \<not> is_nonspacing_mark_or_format env c) then 2
     else let width = width_loop env ambiguous text 0 in
          if width = 0 then 0 else if width = 1 then 1 else 2)"

lemma grapheme_terminal_width_le: "grapheme_terminal_width env text ambiguous \<le> 2"
  by (simp add: grapheme_terminal_width_def Let_def)

section \<open>The active grapheme\<close>

record active_grapheme =
  ag_col :: nat
  ag_row :: nat
  ag_utf8 :: "scalar list"
  ag_width :: nat
  ag_style :: style
  ag_store_id :: nat
  ag_overflow :: bool

text \<open>\<open>String::len\<close>, the length in bytes.\<close>

definition str_len :: "scalar list \<Rightarrow> nat" where
  "str_len cs = sum_list (map len_utf8 cs)"

datatype edge_decision = Place | IgnoreUnit | RejectExtension

definition edge_decision_new_unit :: "nat \<Rightarrow> nat \<Rightarrow> nat \<Rightarrow> bool \<Rightarrow> edge_decision" where
  "edge_decision_new_unit col cols width wrap =
    (if width < 2 then Place
     else if width > cols then IgnoreUnit
     else if col + 1 < cols then Place
     else if wrap then Place else IgnoreUnit)"

definition edge_decision_late_widen :: "nat \<Rightarrow> nat \<Rightarrow> nat \<Rightarrow> bool \<Rightarrow> edge_decision" where
  "edge_decision_late_widen col cols new_width wrap =
    (if new_width < 2 then Place
     else if new_width > cols then RejectExtension
     else if col + 1 < cols then Place
     else if col = cols - 1 then (if wrap then Place else RejectExtension)
     else Place)"

definition try_append_scalar :: "unicode_env \<Rightarrow> active_grapheme \<Rightarrow> scalar \<Rightarrow> bool \<Rightarrow> bool" where
  "try_append_scalar env active next_ch unicode_core_mode =
    (if \<not> unicode_core_mode then False
     else if ag_overflow active then extends_active_grapheme env (ag_utf8 active) next_ch
     else extends_active_grapheme env (ag_utf8 active) next_ch)"

record append_result =
  ar_width :: nat
  ar_width_changed :: bool

definition append_payload ::
  "unicode_env \<Rightarrow> active_grapheme \<Rightarrow> scalar \<Rightarrow> grapheme_store \<Rightarrow> ambiguous_width_policy
     \<Rightarrow> active_grapheme \<times> grapheme_store \<times> append_result"
where
  "append_payload env active next_ch store ambiguous =
    (if ag_overflow active then
       (active, store, \<lparr>ar_width = ag_width active, ar_width_changed = False\<rparr>)
     else if sat_add u64_max (str_len (ag_utf8 active)) (len_utf8 next_ch) > MAX_ACTIVE_GRAPHEME_BYTES then
       let store1 = store\<lparr>payload_overflow_count := sat_add u64_max (payload_overflow_count store) 1\<rparr>;
           active1 = active\<lparr>ag_overflow := True\<rparr>;
           (active2, store2) =
             (if ag_store_id active1 \<noteq> INLINE_STORE_ID
              then (active1\<lparr>ag_store_id := INLINE_STORE_ID\<rparr>, release (ag_store_id active1) store1)
              else (active1, store1))
       in (active2, store2, \<lparr>ar_width = ag_width active2, ar_width_changed = False\<rparr>)
     else
       let active1 = active\<lparr>ag_utf8 := ag_utf8 active @ [next_ch]\<rparr>;
           new_width = grapheme_terminal_width env (ag_utf8 active1) ambiguous
       in (active1, store, \<lparr>ar_width = new_width, ar_width_changed = (new_width \<noteq> ag_width active1)\<rparr>))"

text \<open>
  In \<open>build_lead_cell\<close> the overflow branch neither stores nor reclaims; a text of one scalar is
  kept inline after the old payload is reclaimed; anything longer goes to the store.
\<close>

definition build_lead_cell ::
  "scalar list \<Rightarrow> nat \<Rightarrow> style \<Rightarrow> bool \<Rightarrow> grapheme_store \<Rightarrow> nat option \<Rightarrow> grapheme_store \<times> cell"
where
  "build_lead_cell text width st overflow store release_first =
    (if overflow then (store, lead_from_admit REPLACEMENT (max width 1) st OverflowSentinel)
     else
       let first = (case text of [] \<Rightarrow> REPLACEMENT | c # _ \<Rightarrow> c);
           multi = ((case text of _ # _ # _ \<Rightarrow> True | _ \<Rightarrow> False) \<or> str_len text > len_utf8 first)
       in
       if \<not> multi then
         (fst (insert_replacing [] release_first store), lead_inline first (max width 1) st)
       else
         let (store', admit) = insert_replacing (string_bytes text) release_first store
         in (store', lead_from_admit first (max width 1) st admit))"

lemma str_len_string_bytes: "length (string_bytes cs) = str_len cs"
  by (simp add: string_bytes_def str_len_def length_concat length_utf8_encode comp_def)

lemma len_utf8_pos [simp]: "0 < len_utf8 c"
  by (simp add: len_utf8_def)

lemma str_len_simps [simp]: "str_len [] = 0" "str_len (c # cs) = len_utf8 c + str_len cs"
  by (simp_all add: str_len_def)

lemma str_len_append [simp]: "str_len (cs @ ds) = str_len cs + str_len ds"
  by (simp add: str_len_def)

lemma len_utf8_bounds: "1 \<le> len_utf8 c" "len_utf8 c \<le> 4"
  by (simp_all add: len_utf8_def)

lemma append_payload_ok [keeps]:
  "store_ok s \<Longrightarrow> store_ok (fst (snd (append_payload env a c s pol)))"
  by (simp add: append_payload_def Let_def release_ok case_prod_beta)

lemma build_lead_cell_ok [keeps]:
  "store_ok s \<Longrightarrow> store_ok (fst (build_lead_cell t w st ov s r))"
  by (simp add: build_lead_cell_def Let_def insert_ok case_prod_beta)

lemma build_lead_cell_lead:
  "w \<le> 2 \<Longrightarrow> cell_ok (snd (build_lead_cell t w st ov s r)) \<and>
     role (snd (build_lead_cell t w st ov s r)) = Lead \<and>
     cell_width (snd (build_lead_cell t w st ov s r)) = max w 1"
  by (auto simp: build_lead_cell_def Let_def case_prod_beta simp del: lead_from_admit.simps)

text \<open>The text a lead cell stands for: the stored payload, the inline scalar or U+FFFD.\<close>

definition cell_text :: "grapheme_store \<Rightarrow> cell \<Rightarrow> byte list" where
  "cell_text store c =
    (if cell_overflow c then utf8_encode REPLACEMENT
     else case get_payload store (store_id c) of
            Some b \<Rightarrow> b | None \<Rightarrow> utf8_encode (character c))"

subsection \<open>Properties\<close>

text \<open>
  Building a lead cell for a non-empty text either gives a cell from which
  exactly that text is read back through the store, or the marked overflow cell that reads as
  U+FFFD; it is never a cell with truncated text, and the second case only arises when the text
  is too long or does not fit the live budget.
\<close>

lemma lead_cell_text:
  assumes ok: "store_ok s" and ne: "t \<noteq> []" and b: "build_lead_cell t w st False s r = (s', c)"
  shows "(if cell_overflow c
          then cell_text s' c = utf8_encode REPLACEMENT \<and>
            (str_len t > MAX_ACTIVE_GRAPHEME_BYTES \<or>
             live_bytes (reclaim r s) + str_len t > MAX_LIVE_VARIABLE_BYTES)
          else cell_text s' c = string_bytes t) \<and> store_ok s'"
proof -
  obtain ch rest where t: "t = ch # rest" using ne by (cases t) auto
  have ok': "store_ok s'" using build_lead_cell_ok [OF ok, of t w st False r] b by simp
  show ?thesis
  proof (cases rest)
    case Nil
    then have "c = lead_inline ch (max w 1) st" using b t by (auto simp: build_lead_cell_def)
    then show ?thesis using ok' t Nil
      by (simp add: cell_text_def get_payload_def lead_inline_def string_bytes_def)
  next
    case (Cons d ds)
    obtain s1 a where ins: "insert_replacing (string_bytes t) r s = (s1, a)" by fastforce
    have c: "c = lead_from_admit ch (max w 1) st a" "s' = s1"
      using b ins t Cons by (auto simp: build_lead_cell_def)
    have nonempty: "string_bytes t \<noteq> []"
      using str_len_string_bytes [of t] t len_utf8_pos [of ch] by (metis add_is_0 length_0_conv less_numeral_extra(3) str_len_simps(2))
    note ic = insert_cases(3-6) [OF ok refl, of "string_bytes t" r, unfolded str_len_string_bytes]
    show ?thesis
    proof (cases a)
      case Inline
      then show ?thesis using ic nonempty ins
        by (cases "str_len t > MAX_ACTIVE_GRAPHEME_BYTES";
            cases "live_bytes (reclaim r s) + str_len t > MAX_LIVE_VARIABLE_BYTES";
            cases "free (reclaim r s) = []") force+
    next
      case (Stored i)
      have "get_payload s1 i = Some (string_bytes t)" using gstore.ins_gets [OF ok ins] Stored by simp
      then show ?thesis using c Stored ok' by (simp add: cell_text_def)
    next
      case OverflowSentinel
      have "str_len t > MAX_ACTIVE_GRAPHEME_BYTES \<or>
          live_bytes (reclaim r s) + str_len t > MAX_LIVE_VARIABLE_BYTES"
      proof (rule ccontr)
        assume "\<not> ?thesis"
        then show False using ic(3,4) nonempty ins OverflowSentinel by (cases "free (reclaim r s) = []") auto
      qed
      then show ?thesis using c OverflowSentinel ok' by (simp add: cell_text_def)
    qed
  qed
qed

text \<open>
  The two edge rules admit a unit in the same situations (they differ
  only in how they refuse it), and an admitted unit either fits at the cursor column or has a
  whole row to wrap to; a unit wider than the grid is never placed.
\<close>

lemma edge_decisions_agree:
  assumes "col < cols" and "w \<le> 2"
  shows "(edge_decision_new_unit col cols w wrap = Place) = (edge_decision_late_widen col cols w wrap = Place) \<and>
    (edge_decision_new_unit col cols w wrap = Place \<longrightarrow>
       col + w \<le> cols \<or> w \<le> cols \<and> wrap \<and> col + 1 = cols \<or> w \<le> 1)"
  using assms by (auto simp: edge_decision_new_unit_def edge_decision_late_widen_def)

end
