(* ===== verification/History_Types.thy ===== *)
theory History_Types
  imports Line_Ids Cells
begin

text \<open>
  The value types of retained history, \<open>crates/seyal-terminal/src/history/types.rs\<close>: anchors,
  source units and lines, and sealed segments, which keep the units of many lines in three flat
  arrays addressed by \<open>u32\<close> offsets.

  Allocation sizes depend on the compiler's layout and on the growth policy of \<open>Vec\<close>; both are
  the record \<open>layout\<close>, a parameter of the byte accounting.
\<close>

definition HISTORY_SEGMENT_PAYLOAD_TARGET :: nat where
  "HISTORY_SEGMENT_PAYLOAD_TARGET = 16 * 1024"

definition HISTORY_TAIL_PAYLOAD_LIMIT :: nat where
  "HISTORY_TAIL_PAYLOAD_LIMIT = 2 * HISTORY_SEGMENT_PAYLOAD_TARGET"

definition HISTORY_PER_EXECUTION_BYTE_CAP :: nat where
  "HISTORY_PER_EXECUTION_BYTE_CAP = 32 * 1024 * 1024"

definition HISTORY_PER_EXECUTION_DERIVED_INDEX_CAP :: nat where
  "HISTORY_PER_EXECUTION_DERIVED_INDEX_CAP = 4 * 1024 * 1024"

definition HISTORY_SELECTION_UNIT_CAP :: nat where
  "HISTORY_SELECTION_UNIT_CAP = 64 * 1024"

text \<open>
  \<open>vec_cap n\<close> is the capacity of a vector built in one go with \<open>n\<close> elements; \<open>vec_grow c\<close> the
  capacity a full vector of capacity \<open>c\<close> grows to on a push.
\<close>

record layout =
  size_history_unit :: nat
  size_history_line :: nat
  size_segment_line :: nat
  size_segment_unit :: nat
  size_segment :: nat
  size_history_store :: nat
  size_evicted_range :: nat
  size_evicted_bitmap :: nat
  size_wrap_chain :: nat
  size_wrap_fragment :: nat
  size_run :: nat
  size_reflow_row :: nat
  size_wire_cell :: nat
  size_anchor :: nat
  size_vec :: nat
  vec_cap :: "nat \<Rightarrow> nat"
  vec_grow :: "nat \<Rightarrow> nat"

text \<open>A layout with plausible 64-bit sizes, exact capacities and doubling, for concrete examples.\<close>

definition layout64 :: layout where
  "layout64 = \<lparr>size_history_unit = 40, size_history_line = 48, size_segment_line = 24, size_segment_unit = 20,
     size_segment = 64, size_history_store = 512, size_evicted_range = 16, size_evicted_bitmap = 40,
     size_wrap_chain = 136, size_wrap_fragment = 24, size_run = 8, size_reflow_row = 72, size_wire_cell = 40,
     size_anchor = 16, size_vec = 24, vec_cap = (\<lambda>n. n), vec_grow = (\<lambda>c. max 4 (2 * c))\<rparr>"

text \<open>The capacity of a vector of length \<open>n\<close> and capacity \<open>c\<close> after a push.\<close>

definition push_cap :: "layout \<Rightarrow> nat \<Rightarrow> nat \<Rightarrow> nat" where
  "push_cap lay n c = (if n < c then c else vec_grow lay c)"

datatype history_break_after = HardBreak | SoftWrap

record history_anchor =
  anchor_line :: line_id
  unit_offset :: nat

text \<open>\<open>#[derive(Ord)]\<close> on \<open>HistoryAnchor\<close>: lexicographic.\<close>

definition anchor_less :: "history_anchor \<Rightarrow> history_anchor \<Rightarrow> bool" where
  "anchor_less a b \<longleftrightarrow> anchor_line a < anchor_line b
     \<or> anchor_line a = anchor_line b \<and> unit_offset a < unit_offset b"

definition anchor_le :: "history_anchor \<Rightarrow> history_anchor \<Rightarrow> bool" where
  "anchor_le a b \<longleftrightarrow> \<not> anchor_less b a"

record history_match =
  match_start :: history_anchor
  match_end :: history_anchor

datatype history_range_error = Stale | Unrepresentable

datatype history_anchor_resolution = Resolved "scalar list" nat style | Unavailable | Invalid

record history_unit_view =
  view_anchor :: history_anchor
  view_text :: "scalar list"
  view_width :: nat
  view_style :: style
  view_break :: history_break_after

record history_wire_cell =
  wire_text :: "scalar list"
  wire_width :: nat
  wire_style :: style
  wire_continuation :: bool

definition continuation_placeholder :: "style \<Rightarrow> history_wire_cell" where
  "continuation_placeholder st = \<lparr>wire_text = [], wire_width = 0, wire_style = st, wire_continuation = True\<rparr>"

record history_unit =
  hu_utf8 :: "byte list"
  hu_width :: nat
  hu_style :: style

definition unit_allocated_bytes :: "layout \<Rightarrow> history_unit \<Rightarrow> nat" where
  "unit_allocated_bytes lay u = vec_cap lay (length (hu_utf8 u))"

record history_line =
  hl_id :: line_id
  hl_units :: "history_unit list"
  hl_break :: history_break_after
  hl_start :: nat

text \<open>\<open>rposition(..).map_or(0, |i| i + 1)\<close>: one past the last element satisfying the test.\<close>

fun content_end :: "('a \<Rightarrow> bool) \<Rightarrow> 'a list \<Rightarrow> nat" where
  "content_end P [] = 0"
| "content_end P (x # xs) =
    (let e = content_end P xs in if e > 0 then Suc e else if P x then 1 else 0)"

definition unit_of_cell :: "grapheme_store \<Rightarrow> cell \<Rightarrow> history_unit option" where
  "unit_of_cell store c =
    (case role c of
       Continuation \<Rightarrow> None
     | Empty \<Rightarrow> Some \<lparr>hu_utf8 = [0x20], hu_width = 1, hu_style = cell_style c\<rparr>
     | Lead \<Rightarrow>
         Some \<lparr>hu_utf8 = (if cell_overflow c then [0xef, 0xbf, 0xbd]
                          else case get_payload store (store_id c) of
                                 Some b \<Rightarrow> b | None \<Rightarrow> utf8_encode (character c)),
               hu_width = max (cell_width c) 1, hu_style = cell_style c\<rparr>)"

definition from_cells ::
  "line_id \<Rightarrow> history_break_after \<Rightarrow> cell list \<Rightarrow> grapheme_store \<Rightarrow> history_line"
where
  "from_cells lid brk cells store =
    \<lparr>hl_id = lid,
     hl_units = List.map_filter (unit_of_cell store) (take (content_end (\<lambda>c. role c \<noteq> Empty) cells) cells),
     hl_break = brk, hl_start = 0\<rparr>"

definition canonical_payload_len :: "history_line \<Rightarrow> nat" where
  "canonical_payload_len l = sum_list (map (length \<circ> hu_utf8) (hl_units l))"

definition line_allocated_bytes :: "layout \<Rightarrow> history_line \<Rightarrow> nat" where
  "line_allocated_bytes lay l =
    sat_add u64_max (sat_mul u64_max (vec_cap lay (length (hl_units l))) (size_history_unit lay))
      (sum_list (map (unit_allocated_bytes lay) (hl_units l)))"

text \<open>\<open>u32::try_from(n).unwrap_or(u32::MAX)\<close>.\<close>

definition u32_of :: "nat \<Rightarrow> nat" where
  "u32_of n = min n u32_max"

definition range_entirely_before :: "line_id \<Rightarrow> nat \<Rightarrow> nat \<Rightarrow> history_anchor \<Rightarrow> bool" where
  "range_entirely_before lid start_offset unit_len from =
    (if lid < anchor_line from then True
     else if anchor_line from < lid then False
     else start_offset < unit_offset from \<and> sat_add u32_max start_offset unit_len \<le> unit_offset from)"

definition line_entirely_before :: "history_line \<Rightarrow> history_anchor \<Rightarrow> bool" where
  "line_entirely_before l from =
    range_entirely_before (hl_id l) (hl_start l) (u32_of (length (hl_units l))) from"

section \<open>Segments\<close>

record segment_line =
  sl_id :: line_id
  sl_unit_start :: nat
  sl_unit_len :: nat
  sl_start :: nat
  sl_break :: history_break_after

record segment_unit =
  su_payload_start :: nat
  su_payload_len :: nat
  su_width :: nat
  su_style :: style

record segment =
  seg_lines :: "segment_line list"
  seg_units :: "segment_unit list"
  seg_payload :: "byte list"
  seg_age :: nat
  seg_resident :: nat

datatype history_line_ref = Sealed segment segment_line | Tail history_line

text \<open>\<open>HistoryUnitRef\<close>, as the values its accessors give: bytes, width and style.\<close>

definition sealed_unit :: "segment \<Rightarrow> segment_unit \<Rightarrow> history_unit" where
  "sealed_unit seg u =
    \<lparr>hu_utf8 = (let start = su_payload_start u; ending = sat_add u64_max start (su_payload_len u) in
       if ending \<le> length (seg_payload seg) then slice start ending (seg_payload seg) else []),
     hu_width = su_width u, hu_style = su_style u\<rparr>"

fun ref_line_id :: "history_line_ref \<Rightarrow> line_id" where
  "ref_line_id (Sealed _ l) = sl_id l"
| "ref_line_id (Tail l) = hl_id l"

fun ref_start_offset :: "history_line_ref \<Rightarrow> nat" where
  "ref_start_offset (Sealed _ l) = sl_start l"
| "ref_start_offset (Tail l) = hl_start l"

fun ref_break_after :: "history_line_ref \<Rightarrow> history_break_after" where
  "ref_break_after (Sealed _ l) = sl_break l"
| "ref_break_after (Tail l) = hl_break l"

fun ref_unit_len :: "history_line_ref \<Rightarrow> nat" where
  "ref_unit_len (Sealed _ l) = sl_unit_len l"
| "ref_unit_len (Tail l) = u32_of (length (hl_units l))"

fun ref_units :: "history_line_ref \<Rightarrow> history_unit list" where
  "ref_units (Sealed seg l) =
    map (sealed_unit seg)
      (slice (sl_unit_start l) (sat_add u64_max (sl_unit_start l) (sl_unit_len l)) (seg_units seg))"
| "ref_units (Tail l) = hl_units l"

definition first_scalar :: "history_unit \<Rightarrow> scalar" where
  "first_scalar u = (case from_utf8 (hu_utf8 u) of Some (c # _) \<Rightarrow> c | _ \<Rightarrow> REPLACEMENT)"

definition presentation_cell :: "history_unit \<Rightarrow> cell" where
  "presentation_cell u = lead_inline (first_scalar u) (max (hu_width u) 1) (hu_style u)"

definition to_owned_line :: "history_line_ref \<Rightarrow> history_line" where
  "to_owned_line r = \<lparr>hl_id = ref_line_id r, hl_units = ref_units r, hl_break = ref_break_after r,
     hl_start = ref_start_offset r\<rparr>"

definition presentation_cells :: "history_line_ref \<Rightarrow> cell list" where
  "presentation_cells r =
    concat (map (\<lambda>u. presentation_cell u # (if hu_width u \<ge> 2 then [continuation] else [])) (ref_units r))"

definition reflow_wire_cell :: "history_unit \<Rightarrow> history_wire_cell" where
  "reflow_wire_cell u = \<lparr>wire_text = from_utf8_lossy (hu_utf8 u), wire_width = hu_width u,
     wire_style = hu_style u, wire_continuation = False\<rparr>"

definition wire_cells :: "history_line_ref \<Rightarrow> history_wire_cell list" where
  "wire_cells r =
    concat (map (\<lambda>u. reflow_wire_cell u #
      (if hu_width u \<ge> 2 then [continuation_placeholder (hu_style u)] else [])) (ref_units r))"

text \<open>
  Two small facts on the order of anchors and on the last content cell.
\<close>

lemma anchor_less_trans: "anchor_less a b \<Longrightarrow> anchor_less b c \<Longrightarrow> anchor_less a c"
  by (auto simp: anchor_less_def)

lemma anchor_le_refl [simp]: "anchor_le a a"
  by (simp add: anchor_le_def anchor_less_def)

lemma content_end_le: "content_end P xs \<le> length xs"
  by (induction xs) (auto simp: Let_def)

lemma content_end_all_after:
  "content_end P xs \<le> i \<Longrightarrow> i < length xs \<Longrightarrow> \<not> P (xs ! i)"
proof (induction xs arbitrary: i)
  case (Cons x xs)
  then show ?case by (cases i) (auto simp: Let_def split: if_splits)
qed simp

lemma content_end_last: "content_end P xs = Suc n \<Longrightarrow> P (xs ! n)"
proof (induction xs arbitrary: n)
  case (Cons x xs)
  then show ?case by (cases n) (auto simp: Let_def split: if_splits)
qed simp

end
