(* ===== verification/Wrap.thy ===== *)
theory Wrap
  imports History_Types
begin

text \<open>
  The soft-wrap index, \<open>crates/seyal-terminal/src/history/wrap.rs\<close>: the display column reached
  after laying out a run-length encoded sequence of unit widths, with cycle skipping, a closed
  form for repeating patterns and a per-run spine for aperiodic chains, and the maintenance of
  the chains as lines are appended and trimmed.

  The scratch vectors \<open>seen\<close> and \<open>scratch\<close> are refilled before use, so the model builds them
  where the code clears them.  The lazily built \<open>spine\<close> is an ordinary field; operations that
  may build it return the chain.  Binary searches are the partition points they compute on
  sorted vectors.
\<close>

section \<open>Chains\<close>

type_synonym run = "nat \<times> nat"

record wrap_fragment =
  wf_line :: line_id
  wf_start :: nat
  wf_count :: nat
  wf_prefix :: nat

record wrap_occupancy_spine =
  sp_cols :: nat
  sp_run_len :: nat
  sp_after_run :: "nat list"
  sp_units_after :: "nat list"

record wrap_chain =
  fragments :: "wrap_fragment list"
  runs :: "run list"
  pattern_len :: nat
  pattern_phase :: nat
  chain_open :: bool
  spine :: "wrap_occupancy_spine option"

definition WRAP_PATTERN_MAX :: nat where "WRAP_PATTERN_MAX = 8"

definition APERIODIC_INLINE_RUN_BOUND :: nat where "APERIODIC_INLINE_RUN_BOUND = 64"

definition APERIODIC_EXTEND_CELL_FACTOR :: nat where "APERIODIC_EXTEND_CELL_FACTOR = 8"

definition default_chain :: wrap_chain where
  "default_chain = \<lparr>fragments = [], runs = [], pattern_len = 0, pattern_phase = 0,
     chain_open = False, spine = None\<rparr>"

definition invalidate_spine :: "wrap_chain \<Rightarrow> wrap_chain" where
  "invalidate_spine c = c\<lparr>spine := None\<rparr>"

text \<open>The lexicographic key order of fragments against an anchor.\<close>

definition fragment_before :: "history_anchor \<Rightarrow> wrap_fragment \<Rightarrow> bool" where
  "fragment_before from f \<longleftrightarrow> wf_line f < anchor_line from
     \<or> wf_line f = anchor_line from \<and> wf_start f < unit_offset from"

definition fragment_at :: "history_anchor \<Rightarrow> wrap_fragment \<Rightarrow> bool" where
  "fragment_at from f \<longleftrightarrow> wf_line f = anchor_line from \<and> wf_start f = unit_offset from"

definition units_before :: "wrap_chain \<Rightarrow> history_anchor \<Rightarrow> nat" where
  "units_before c from =
    (let index = partition_point (fragment_before from) (fragments c) in
     if index < length (fragments c) \<and> fragment_at from (fragments c ! index)
     then wf_prefix (fragments c ! index)
     else if index = 0 then 0
     else
       let previous = fragments c ! (index - 1) in
       if wf_line previous = anchor_line from \<and> unit_offset from > wf_start previous then
         sat_add u32_max (wf_prefix previous) (min (unit_offset from - wf_start previous) (wf_count previous))
       else if wf_line previous < anchor_line from then
         sat_add u32_max (wf_prefix previous) (wf_count previous)
       else 0)"

section \<open>Patterns\<close>

definition wrap_runs_unit_sum :: "run list \<Rightarrow> nat" where
  "wrap_runs_unit_sum rs = fold (\<lambda>(w, n) acc. sat_add u32_max acc n) rs 0"

definition wrap_chain_pattern :: "wrap_chain \<Rightarrow> run list option" where
  "wrap_chain_pattern c =
    (if pattern_len c \<ge> 2 \<and> length (runs c) \<ge> pattern_len c
     then Some (take (pattern_len c) (runs c)) else None)"

definition wrap_pattern_period_units :: "wrap_chain \<Rightarrow> nat" where
  "wrap_pattern_period_units c =
    (case wrap_chain_pattern c of None \<Rightarrow> 0 | Some pattern \<Rightarrow> wrap_runs_unit_sum pattern)"

definition wrap_chain_is_compacted :: "wrap_chain \<Rightarrow> nat \<Rightarrow> nat \<Rightarrow> bool" where
  "wrap_chain_is_compacted c run_units virtual_units \<longleftrightarrow>
     pattern_len c \<ge> 2 \<and> pattern_len c > 0 \<and> length (runs c) \<le> pattern_len c \<and> run_units < virtual_units"

definition compact_repeating_wrap_runs :: "wrap_chain \<Rightarrow> wrap_chain" where
  "compact_repeating_wrap_runs c =
    (if pattern_len c \<ge> 2 \<and> length (runs c) > pattern_len c
     then (invalidate_spine c)\<lparr>runs := take (pattern_len c) (runs c)\<rparr> else c)"

fun width_at_loop :: "run list \<Rightarrow> nat \<Rightarrow> nat option" where
  "width_at_loop [] index = None"
| "width_at_loop ((w, n) # rs) index = (if index < n then Some w else width_at_loop rs (index - n))"

definition wrap_pattern_width_at :: "run list \<Rightarrow> nat \<Rightarrow> nat option" where
  "wrap_pattern_width_at pattern index =
    (let period = wrap_runs_unit_sum pattern in
     if period = 0 then None else width_at_loop pattern (index mod period))"

text \<open>
  Appending to a run-length list: \<open>last_mut\<close> with the same width grows, anything else is pushed.
\<close>

definition push_run :: "nat \<Rightarrow> nat \<Rightarrow> run list \<Rightarrow> run list" where
  "push_run w n rs =
    (if rs \<noteq> [] \<and> fst (last rs) = w
     then butlast rs @ [(w, sat_add u32_max (snd (last rs)) n)] else rs @ [(w, n)])"

text \<open>One pass of \<open>wrap_pattern_slice\<close> over the pattern: offset, remaining, runs.\<close>

fun slice_pass :: "run list \<Rightarrow> nat \<Rightarrow> nat \<Rightarrow> nat \<Rightarrow> run list \<Rightarrow> nat \<times> nat \<times> run list" where
  "slice_pass [] idx offset remaining out = (offset, remaining, out)"
| "slice_pass ((w, n) # rs) idx offset remaining out =
    (if remaining = 0 then (offset, remaining, out)
     else
       let run_end = sat_add u32_max idx n in
       if offset \<ge> run_end then slice_pass rs run_end offset remaining out
       else
         let skip = offset - idx; tk = min (n - skip) remaining in
         if tk > 0 then slice_pass rs run_end 0 (remaining - tk) (push_run w tk out)
         else slice_pass rs run_end offset remaining out)"

lemma slice_pass_remaining: "fst (snd (slice_pass rs idx offset remaining out)) \<le> remaining"
proof (induction rs idx offset remaining out rule: slice_pass.induct)
  case (2 w n rs idx offset remaining out)
  then show ?case by (simp add: Let_def) (meson diff_le_self le_trans)
qed simp

lemma slice_pass_remaining_eq:
  "(offset', remaining', out') = slice_pass rs idx offset remaining out \<Longrightarrow> remaining' \<le> remaining"
  using slice_pass_remaining [of rs idx offset remaining out] by (metis fst_conv snd_conv)

function slice_loop :: "run list \<Rightarrow> nat \<Rightarrow> nat \<Rightarrow> run list \<Rightarrow> run list" where
  "slice_loop pattern offset remaining out =
    (if remaining = 0 then out
     else
       case slice_pass pattern 0 offset remaining out of
         (offset', remaining', out') \<Rightarrow>
           if remaining' = remaining then out' else slice_loop pattern offset' remaining' out')"
  by pat_completeness auto
termination
  by (relation "measure (\<lambda>(p, off, r, out). r)")
    (simp, metis case_prod_conv in_measure slice_pass_remaining_eq le_neq_implies_less)

declare slice_loop.simps [simp del]

definition wrap_pattern_slice :: "run list \<Rightarrow> nat \<Rightarrow> nat \<Rightarrow> run list" where
  "wrap_pattern_slice pattern start count =
    (let period = wrap_runs_unit_sum pattern in
     if period = 0 \<or> count = 0 then [] else slice_loop pattern (start mod period) count [])"

text \<open>The units of a line enter only through their widths.\<close>

fun append_compacted_loop :: "wrap_chain \<Rightarrow> nat list \<Rightarrow> nat \<Rightarrow> nat \<Rightarrow> wrap_chain" where
  "append_compacted_loop c [] prefix_units index = c"
| "append_compacted_loop c (u # us) prefix_units index =
    (let unit_index = sat_add u32_max (sat_add u32_max (pattern_phase c) prefix_units) (index mod 2 ^ 32) in
     if wrap_pattern_width_at (runs c) unit_index = Some (max u 1)
     then append_compacted_loop c us prefix_units (index + 1)
     else
       let sliced = wrap_pattern_slice (runs c) (pattern_phase c) (sat_add u32_max prefix_units (index mod 2 ^ 32))
       in (invalidate_spine c)\<lparr>runs := fold (\<lambda>w. push_run (max w 1) 1) (u # us) sliced,
            pattern_phase := 0, pattern_len := 0\<rparr>)"

definition append_compacted_wrap_runs :: "wrap_chain \<Rightarrow> nat list \<Rightarrow> nat \<Rightarrow> wrap_chain" where
  "append_compacted_wrap_runs c widths prefix_units = append_compacted_loop c widths prefix_units 0"

section \<open>Occupancy\<close>

text \<open>
  After the first two tests \<open>used + unit_width\<close> is at most \<open>cols\<close>, so the code's saturating
  addition is the plain one.
\<close>

definition wrap_advance :: "nat \<Rightarrow> nat \<Rightarrow> nat \<Rightarrow> nat" where
  "wrap_advance used cols unit_width =
    (let w = max unit_width 1;
         used1 = (if used > 0 \<and> used + w > cols then 0 else used)
     in if w > cols then 0
        else let used2 = used1 + w in if used2 \<ge> cols then 0 else used2)"

text \<open>
  The loop of \<open>wrap_occupancy_run\<close>; \<open>seen\<close> is the vector of \<open>cols + 1\<close> slots, read and written
  only at indices up to \<open>cols\<close>.
\<close>

function run_loop :: "nat \<Rightarrow> nat \<Rightarrow> nat \<Rightarrow> nat \<Rightarrow> (nat \<Rightarrow> nat option) \<Rightarrow> nat" where
  "run_loop used cols unit_width remaining seen =
    (if remaining = 0 then min used cols
     else case (if used \<le> cols then seen used else None) of
       Some remaining_then \<Rightarrow>
         let cycle = remaining_then - remaining in
         if cycle > 0 then
           (if remaining mod cycle = 0 then min used cols
            else run_loop used cols unit_width (remaining mod cycle) (\<lambda>_. None))
         else run_loop (wrap_advance used cols unit_width) cols unit_width (remaining - 1) seen
     | None \<Rightarrow>
         run_loop (wrap_advance used cols unit_width) cols unit_width (remaining - 1)
           (if used \<le> cols then seen(used \<mapsto> remaining) else seen))"
  by pat_completeness auto
termination
  by (relation "measure (\<lambda>(used, cols, w, remaining, seen).
    2 * remaining + (if used \<le> cols \<and> seen used \<noteq> None then 1 else 0))")
    (auto simp: less_Suc_eq_le split: if_splits)

declare run_loop.simps [simp del]

definition wrap_occupancy_run :: "nat \<Rightarrow> nat \<Rightarrow> nat \<Rightarrow> nat \<Rightarrow> nat" where
  "wrap_occupancy_run used cols unit_width count =
    (if cols = 0 then 0 else if count = 0 then min used cols
     else run_loop used cols unit_width count (\<lambda>_. None))"

fun occupancy_runs_loop :: "run list \<Rightarrow> nat \<Rightarrow> nat \<Rightarrow> nat \<Rightarrow> nat" where
  "occupancy_runs_loop [] cols left used = used"
| "occupancy_runs_loop ((w, n) # rs) cols left used =
    (if left = 0 then used
     else let tk = min n left in
       occupancy_runs_loop rs cols (left - tk) (wrap_occupancy_run used cols w tk))"

definition wrap_occupancy_runs :: "run list \<Rightarrow> nat \<Rightarrow> nat \<Rightarrow> nat" where
  "wrap_occupancy_runs rs cols unit_limit = min (occupancy_runs_loop rs cols unit_limit 0) cols"

definition wrap_occupancy_pattern_once :: "nat \<Rightarrow> run list \<Rightarrow> nat \<Rightarrow> nat \<Rightarrow> nat" where
  "wrap_occupancy_pattern_once used pattern cols unit_limit =
    min (occupancy_runs_loop pattern cols unit_limit used) cols"

function repeating_loop ::
  "run list \<Rightarrow> nat \<Rightarrow> nat \<Rightarrow> nat \<Rightarrow> nat \<Rightarrow> (nat \<Rightarrow> nat option) \<Rightarrow> nat"
where
  "repeating_loop pattern cols pattern_units used remaining seen =
    (if remaining = 0 \<or> pattern_units = 0 then min used cols
     else case (if used \<le> cols then seen used else None) of
       Some remaining_then \<Rightarrow>
         let cycle = remaining_then - remaining in
         if cycle > 0 then
           repeating_loop pattern cols pattern_units used (remaining mod cycle) (\<lambda>_. None)
         else
           let tk = min remaining pattern_units in
           repeating_loop pattern cols pattern_units
             (wrap_occupancy_pattern_once used pattern cols tk) (remaining - tk) seen
     | None \<Rightarrow>
         let tk = min remaining pattern_units in
         repeating_loop pattern cols pattern_units
           (wrap_occupancy_pattern_once used pattern cols tk) (remaining - tk)
           (if used \<le> cols then seen(used \<mapsto> remaining) else seen))"
  by pat_completeness auto
termination
  by (relation "measure (\<lambda>(pattern, cols, pu, used, remaining, seen).
    2 * remaining + (if used \<le> cols \<and> seen used \<noteq> None then 1 else 0))")
    (auto simp: less_Suc_eq_le split: if_splits)

declare repeating_loop.simps [simp del]

definition wrap_occupancy_repeating :: "run list \<Rightarrow> nat \<Rightarrow> nat \<Rightarrow> nat" where
  "wrap_occupancy_repeating pattern cols unit_limit =
    (let pattern_units = wrap_runs_unit_sum pattern in
     if cols = 0 \<or> pattern_units = 0 \<or> unit_limit = 0 then 0
     else repeating_loop pattern cols pattern_units 0 unit_limit (\<lambda>_. None))"

definition wrap_occupancy_repeating_from :: "run list \<Rightarrow> nat \<Rightarrow> nat \<Rightarrow> nat \<Rightarrow> nat" where
  "wrap_occupancy_repeating_from pattern phase cols units =
    (let period = wrap_runs_unit_sum pattern in
     if period = 0 then 0
     else let ph = phase mod period in
       if ph = 0 then wrap_occupancy_repeating pattern cols units
       else wrap_occupancy_repeating (wrap_pattern_slice pattern ph period) cols units)"

text \<open>
  The loop of \<open>ensure_aperiodic_spine\<close> and of the ephemeral spine: per run, the column reached
  stored as a \<open>u8\<close> (\<open>unwrap_or(u8::MAX)\<close>), and the units consumed.
\<close>

fun spine_loop :: "run list \<Rightarrow> nat \<Rightarrow> nat \<Rightarrow> nat \<Rightarrow> nat list \<times> nat list" where
  "spine_loop [] cols used units_so_far = ([], [])"
| "spine_loop ((w, n) # rs) cols used units_so_far =
    (let used' = wrap_occupancy_run used cols w n;
         units_so_far' = sat_add u32_max units_so_far n;
         (after, units) = spine_loop rs cols used' units_so_far'
     in (min (min used' cols) u8_max # after, units_so_far' # units))"

definition ensure_aperiodic_spine :: "wrap_chain \<Rightarrow> nat \<Rightarrow> wrap_chain" where
  "ensure_aperiodic_spine c cols =
    (case spine c of
       Some existing \<Rightarrow>
         if sp_cols existing = cols \<and> sp_run_len existing = length (runs c) then c
         else c\<lparr>spine := (let (after, units) = spine_loop (runs c) cols 0 0 in
           Some \<lparr>sp_cols = cols, sp_run_len = length (runs c), sp_after_run = after, sp_units_after = units\<rparr>)\<rparr>
     | None \<Rightarrow>
         c\<lparr>spine := (let (after, units) = spine_loop (runs c) cols 0 0 in
           Some \<lparr>sp_cols = cols, sp_run_len = length (runs c), sp_after_run = after, sp_units_after = units\<rparr>)\<rparr>)"

definition spine_occupancy :: "wrap_occupancy_spine \<Rightarrow> run list \<Rightarrow> nat \<Rightarrow> nat \<Rightarrow> nat" where
  "spine_occupancy sp rs cols unit_limit =
    (if unit_limit = 0 \<or> cols = 0 then 0
     else
       let fully = partition_point (\<lambda>units. units \<le> unit_limit) (sp_units_after sp);
           (used, consumed) =
             (if fully = 0 then (0, 0)
              else (sp_after_run sp ! (fully - 1), sp_units_after sp ! (fully - 1)))
       in if consumed \<ge> unit_limit then min used cols
          else if fully < length rs then
            (let (w, n) = rs ! fully; tk = min n (unit_limit - consumed)
             in min (wrap_occupancy_run used cols w tk) cols)
          else min used cols)"

definition u16_of :: "nat \<Rightarrow> nat" where
  "u16_of n = min n u16_max"

definition wrap_occupancy_with_ephemeral_spine :: "run list \<Rightarrow> nat \<Rightarrow> nat \<Rightarrow> nat" where
  "wrap_occupancy_with_ephemeral_spine rs cols unit_limit =
    (if cols = 0 \<or> unit_limit = 0 \<or> rs = [] then 0
     else let (after, units) = spine_loop rs cols 0 0 in
       spine_occupancy \<lparr>sp_cols = u16_of cols, sp_run_len = length rs, sp_after_run = after,
         sp_units_after = units\<rparr> rs cols unit_limit)"

fun match_period_from :: "run list \<Rightarrow> nat \<Rightarrow> nat \<Rightarrow> run list \<Rightarrow> bool" where
  "match_period_from all k index [] = True"
| "match_period_from all k index ((w, n) # rs) =
    (let template = all ! (index mod k) in
     if w \<noteq> fst template then False
     else if rs = [] then n \<le> snd template \<and> match_period_from all k (index + 1) rs
     else n = snd template \<and> match_period_from all k (index + 1) rs)"

definition wrap_runs_match_period :: "run list \<Rightarrow> nat \<Rightarrow> bool" where
  "wrap_runs_match_period rs k =
    (if k < 2 \<or> length rs < k then False else match_period_from rs k k (drop k rs))"

definition wrap_repeating_period :: "run list \<Rightarrow> nat option" where
  "wrap_repeating_period rs =
    (let n = length rs in
     if n < 2 then None
     else List.find (\<lambda>k. n > k \<and> wrap_runs_match_period rs k) [2..<Suc (min n WRAP_PATTERN_MAX)])"

definition wrap_occupancy_for_runs :: "run list \<Rightarrow> nat \<Rightarrow> nat \<Rightarrow> nat" where
  "wrap_occupancy_for_runs rs cols unit_limit =
    (case wrap_repeating_period rs of
       Some k \<Rightarrow> wrap_occupancy_repeating (take k rs) cols unit_limit
     | None \<Rightarrow>
         if length rs > APERIODIC_INLINE_RUN_BOUND
         then wrap_occupancy_with_ephemeral_spine rs cols unit_limit
         else wrap_occupancy_runs rs cols unit_limit)"

definition wrap_occupancy_aperiodic :: "wrap_chain \<Rightarrow> nat \<Rightarrow> nat \<Rightarrow> wrap_chain \<times> nat" where
  "wrap_occupancy_aperiodic c cols units =
    (if cols = 0 \<or> units = 0 \<or> runs c = [] then (c, 0)
     else if length (runs c) > APERIODIC_INLINE_RUN_BOUND then
       let c' = ensure_aperiodic_spine c (u16_of cols) in
       (case spine c' of
          Some sp \<Rightarrow> (c', spine_occupancy sp (runs c') cols units)
        | None \<Rightarrow> (c', wrap_occupancy_for_runs (runs c') cols units))
     else (c, wrap_occupancy_for_runs (runs c) cols units))"

definition wrap_occupancy_indexed :: "wrap_chain \<Rightarrow> nat \<Rightarrow> nat \<Rightarrow> wrap_chain \<times> nat" where
  "wrap_occupancy_indexed c cols units =
    (case wrap_chain_pattern c of
       Some pattern \<Rightarrow> (c, wrap_occupancy_repeating_from pattern (pattern_phase c) cols units)
     | None \<Rightarrow> wrap_occupancy_aperiodic c cols units)"

section \<open>Maintenance\<close>

definition wrap_run_extends_pattern :: "wrap_chain \<Rightarrow> nat \<Rightarrow> bool \<Rightarrow> bool" where
  "wrap_run_extends_pattern c k pushed_new =
    (let n = length (runs c) in
     if k = 0 \<or> n \<le> k then True
     else if pushed_new \<and> runs c ! (n - 2) \<noteq> runs c ! ((n - 2) mod k) then False
     else
       let template = runs c ! ((n - 1) mod k); run = runs c ! (n - 1)
       in fst run = fst template \<and> snd run \<le> snd template)"

definition note_appended_wrap_run :: "wrap_chain \<Rightarrow> bool \<Rightarrow> wrap_chain" where
  "note_appended_wrap_run c0 pushed_new =
    (let c = invalidate_spine c0; n = length (runs c) in
     if n \<le> 1 then c\<lparr>pattern_len := n\<rparr>
     else if pattern_len c \<ge> 2 then
       (if n \<le> pattern_len c then c
        else if wrap_run_extends_pattern c (pattern_len c) pushed_new then c
        else if n \<le> WRAP_PATTERN_MAX then c\<lparr>pattern_len := n\<rparr>
        else c\<lparr>pattern_len := 0\<rparr>)
     else if n \<le> WRAP_PATTERN_MAX then c\<lparr>pattern_len := n\<rparr>
     else c)"

definition note_pattern_after_suffix_trim :: "wrap_chain \<Rightarrow> wrap_chain" where
  "note_pattern_after_suffix_trim c =
    (let n = length (runs c) in
     if n \<le> 1 then c\<lparr>pattern_len := n\<rparr>
     else if pattern_len c \<ge> 2 then
       (let k = pattern_len c in
        if n \<le> k then c\<lparr>pattern_len := n\<rparr>
        else
          let template = runs c ! ((n - 1) mod k); run = runs c ! (n - 1) in
          if fst run \<noteq> fst template \<or> snd run > snd template
          then c\<lparr>pattern_len := (if n \<le> WRAP_PATTERN_MAX then n else 0)\<rparr>
          else c)
     else if n \<le> WRAP_PATTERN_MAX then c\<lparr>pattern_len := n\<rparr>
     else c)"

definition note_pattern_after_prefix_trim :: "wrap_chain \<Rightarrow> nat \<Rightarrow> nat \<Rightarrow> wrap_chain" where
  "note_pattern_after_prefix_trim c drop_units period_units =
    (let n = length (runs c) in
     if n \<le> 1 then c\<lparr>pattern_len := n\<rparr>
     else if n \<le> WRAP_PATTERN_MAX \<and> n \<le> pattern_len c then c\<lparr>pattern_len := n\<rparr>
     else if pattern_len c \<ge> 2 \<and> period_units > 0 \<and> drop_units mod period_units = 0 then c
     else c\<lparr>pattern_len := 0\<rparr>)"

text \<open>The two trimming loops; the suffix loop works on the reversed list.\<close>

fun drop_runs_rev :: "run list \<Rightarrow> nat \<Rightarrow> run list" where
  "drop_runs_rev [] remaining = []"
| "drop_runs_rev ((w, n) # rs) remaining =
    (if remaining = 0 then (w, n) # rs
     else if n \<le> remaining then drop_runs_rev rs (remaining - n)
     else (w, n - remaining) # rs)"

definition drop_suffix_wrap_runs :: "run list \<Rightarrow> nat \<Rightarrow> run list" where
  "drop_suffix_wrap_runs rs drop_units = rev (drop_runs_rev (rev rs) drop_units)"

definition drop_prefix_wrap_runs :: "run list \<Rightarrow> nat \<Rightarrow> run list" where
  "drop_prefix_wrap_runs rs drop_units = drop_runs_rev rs drop_units"

definition wrap_chain_index :: "wrap_chain list \<Rightarrow> history_anchor \<Rightarrow> nat option" where
  "wrap_chain_index wcs from =
    (let index = partition_point
        (\<lambda>c. case fragments c of [] \<Rightarrow> False | f # _ \<Rightarrow> fragment_before from f) wcs
     in if index = 0 then None else if index - 1 < length wcs then Some (index - 1) else None)"

definition wrap_chain_containing :: "wrap_chain list \<Rightarrow> history_anchor \<Rightarrow> wrap_chain option" where
  "wrap_chain_containing wcs from = map_option (nth wcs) (wrap_chain_index wcs from)"

definition wrap_index_allocated_bytes :: "layout \<Rightarrow> wrap_chain list \<Rightarrow> nat" where
  "wrap_index_allocated_bytes lay wcs =
    sat_add u64_max (sat_mul u64_max (vec_cap lay (length wcs)) (size_wrap_chain lay))
      (sum_list (map (\<lambda>c.
         let spine_bytes = (case spine c of None \<Rightarrow> 0
           | Some sp \<Rightarrow> sat_add u64_max (vec_cap lay (length (sp_after_run sp)))
               (sat_mul u64_max (vec_cap lay (length (sp_units_after sp))) 4))
         in sat_add u64_max (sat_add u64_max
              (sat_mul u64_max (vec_cap lay (length (fragments c))) (size_wrap_fragment lay))
              (sat_mul u64_max (vec_cap lay (length (runs c))) (size_run lay))) spine_bytes) wcs))"

fun drop_closed_chains :: "layout \<Rightarrow> wrap_chain list \<Rightarrow> wrap_chain list" where
  "drop_closed_chains lay [] = []"
| "drop_closed_chains lay (c # cs) =
    (if wrap_index_allocated_bytes lay (c # cs) > HISTORY_PER_EXECUTION_DERIVED_INDEX_CAP \<and> cs \<noteq> []
     then (if chain_open c then c # cs else drop_closed_chains lay cs)
     else c # cs)"

definition enforce_wrap_index_cap :: "layout \<Rightarrow> wrap_chain list \<Rightarrow> wrap_chain list" where
  "enforce_wrap_index_cap lay wcs =
    (let kept = drop_closed_chains lay (map compact_repeating_wrap_runs wcs) in
     if wrap_index_allocated_bytes lay kept > HISTORY_PER_EXECUTION_DERIVED_INDEX_CAP then [] else kept)"

fun append_wrap_units :: "wrap_chain \<Rightarrow> nat list \<Rightarrow> wrap_chain" where
  "append_wrap_units c [] = c"
| "append_wrap_units c (u # us) =
    (let w = max u 1;
         pushed_new = \<not> (runs c \<noteq> [] \<and> fst (last (runs c)) = w)
     in append_wrap_units (note_appended_wrap_run (c\<lparr>runs := push_run w 1 (runs c)\<rparr>) pushed_new) us)"

definition chain_total :: "wrap_chain \<Rightarrow> nat" where
  "chain_total c =
    (if fragments c = [] then 0
     else sat_add u32_max (wf_prefix (last (fragments c))) (wf_count (last (fragments c))))"

definition extend_chain :: "wrap_chain \<Rightarrow> history_line \<Rightarrow> wrap_chain" where
  "extend_chain c line =
    (let widths = map hu_width (hl_units line);
         prefix_units = chain_total c;
         c1 = c\<lparr>fragments := fragments c @
           [\<lparr>wf_line = hl_id line, wf_start = hl_start line, wf_count = u32_of (length widths),
             wf_prefix = prefix_units\<rparr>]\<rparr>;
         c2 = (if wrap_chain_is_compacted c1 (wrap_runs_unit_sum (runs c1)) prefix_units
               then append_compacted_wrap_runs c1 widths prefix_units
               else compact_repeating_wrap_runs (append_wrap_units c1 widths))
     in c2\<lparr>chain_open := (hl_break line = SoftWrap)\<rparr>)"

definition extend_wrap_line :: "layout \<Rightarrow> history_line \<Rightarrow> wrap_chain list \<Rightarrow> wrap_chain list" where
  "extend_wrap_line lay line wcs =
    (let continue_chain = (wcs \<noteq> [] \<and> chain_open (last wcs)) in
     if \<not> continue_chain \<and> hl_break line = HardBreak then wcs
     else if hl_units line = [] then
       (if continue_chain \<and> hl_break line = HardBreak
        then butlast wcs @ [(last wcs)\<lparr>chain_open := False\<rparr>] else wcs)
     else
       let wcs1 = (if continue_chain then wcs else wcs @ [default_chain])
       in enforce_wrap_index_cap lay (butlast wcs1 @ [extend_chain (last wcs1) line]))"

text \<open>The chains are dropped from the back while they start at or after the cut.\<close>

fun pop_chains_rev :: "history_anchor \<Rightarrow> wrap_chain list \<Rightarrow> wrap_chain list" where
  "pop_chains_rev from [] = []"
| "pop_chains_rev from (c # cs) =
    (case fragments c of
       [] \<Rightarrow> pop_chains_rev from cs
     | first # _ \<Rightarrow> if fragment_before from first then c # cs else pop_chains_rev from cs)"

definition trim_chain_suffix :: "history_anchor \<Rightarrow> wrap_chain \<Rightarrow> wrap_chain" where
  "trim_chain_suffix from c =
    (let keep_units = units_before c from; units = chain_total c in
     if keep_units \<ge> units then c
     else
       let kept = take (partition_point (fragment_before from) (fragments c)) (fragments c);
           kept' = (if kept \<noteq> [] \<and> wf_line (last kept) = anchor_line from \<and> wf_start (last kept) < unit_offset from
             then butlast kept @ [(last kept)\<lparr>wf_count :=
               min (unit_offset from - wf_start (last kept)) (wf_count (last kept))\<rparr>]
             else kept);
           c1 = c\<lparr>fragments := kept'\<rparr>;
           c2 = (if wrap_chain_is_compacted c1 (wrap_runs_unit_sum (runs c1)) units then
                   (if keep_units = 0
                    then invalidate_spine (c1\<lparr>runs := [], pattern_len := 0, pattern_phase := 0\<rparr>) else c1)
                 else invalidate_spine (note_pattern_after_suffix_trim
                        (c1\<lparr>runs := drop_suffix_wrap_runs (runs c1) (units - keep_units)\<rparr>)))
       in c2\<lparr>chain_open := True\<rparr>)"

definition trim_wrap_suffix_from :: "history_anchor \<Rightarrow> wrap_chain list \<Rightarrow> wrap_chain list" where
  "trim_wrap_suffix_from from wcs =
    (let kept = rev (pop_chains_rev from (rev wcs)) in
     if kept = [] then [] else butlast kept @ [trim_chain_suffix from (last kept)])"

fun pop_chains_front :: "history_anchor \<Rightarrow> wrap_chain list \<Rightarrow> wrap_chain list" where
  "pop_chains_front keep [] = []"
| "pop_chains_front keep (c # cs) =
    (if fragments c = [] then pop_chains_front keep cs
     else
       let f = last (fragments c) in
       if wf_line f < anchor_line keep \<or>
          wf_line f = anchor_line keep \<and> sat_add u32_max (wf_start f) (wf_count f) \<le> unit_offset keep
       then pop_chains_front keep cs else c # cs)"

fun reprefix :: "nat \<Rightarrow> wrap_fragment list \<Rightarrow> nat \<times> wrap_fragment list" where
  "reprefix prefix [] = (prefix, [])"
| "reprefix prefix (f # fs) =
    (let (p, fs') = reprefix (sat_add u32_max prefix (wf_count f)) fs in (p, f\<lparr>wf_prefix := prefix\<rparr> # fs'))"

definition trim_chain_prefix :: "history_anchor \<Rightarrow> wrap_chain \<Rightarrow> wrap_chain" where
  "trim_chain_prefix keep c =
    (let drop_units = units_before c keep;
         (prefix, kept) = reprefix 0 (drop (partition_point (fragment_before keep) (fragments c)) (fragments c));
         c1 = c\<lparr>fragments := kept\<rparr>
     in if wrap_chain_is_compacted c1 (wrap_runs_unit_sum (runs c1)) (sat_add u32_max drop_units prefix) then
          invalidate_spine
            (if prefix = 0 then c1\<lparr>runs := [], pattern_len := 0, pattern_phase := 0\<rparr>
             else c1\<lparr>pattern_phase := sat_add u32_max (pattern_phase c1) drop_units\<rparr>)
        else
          let period_units = wrap_pattern_period_units c1
          in invalidate_spine (note_pattern_after_prefix_trim
               (c1\<lparr>runs := drop_prefix_wrap_runs (runs c1) drop_units\<rparr>) drop_units period_units))"

text \<open>\<open>first\<close> is the first retained entry's position, \<open>None\<close> when nothing is retained.\<close>

definition trim_wrap_before_retained :: "history_anchor option \<Rightarrow> wrap_chain list \<Rightarrow> wrap_chain list" where
  "trim_wrap_before_retained first wcs =
    (case first of
       None \<Rightarrow> []
     | Some keep \<Rightarrow>
         (case pop_chains_front keep wcs of
            [] \<Rightarrow> []
          | c # cs \<Rightarrow> trim_chain_prefix keep c # cs))"

end
