(* ===== verification/Wrap_Occupancy.thy ===== *)
theory Wrap_Occupancy
  imports Wrap "HOL-Library.Sublist"
begin

text \<open>
  Correctness of the occupancy computations of \<open>history/wrap.rs\<close> against the layout of the unit
  widths one by one.  The two cycle-skipping loops are instances of the locale \<open>chunked_walk\<close>.
\<close>

section \<open>Reference semantics\<close>

text \<open>
  The specification: unit widths laid out one by one.  \<open>expand\<close> undoes the run-length encoding,
  \<open>cyclic\<close> repeats a list of widths.
\<close>

definition occupancy :: "nat \<Rightarrow> nat list \<Rightarrow> nat \<Rightarrow> nat" where
  "occupancy cols ws used = fold (\<lambda>w u. wrap_advance u cols w) ws used"

definition expand :: "run list \<Rightarrow> nat list" where
  "expand rs = concat (map (\<lambda>(w, n). replicate n w) rs)"

definition cyclic :: "nat list \<Rightarrow> nat \<Rightarrow> nat list" where
  "cyclic ws k = map (\<lambda>i. ws ! (i mod length ws)) [0..<k]"

lemma occupancy_simps [simp]:
  "occupancy cols [] u = u"
  "occupancy cols (w # ws) u = occupancy cols ws (wrap_advance u cols w)"
  "occupancy cols (ws @ vs) u = occupancy cols vs (occupancy cols ws u)"
  by (simp_all add: occupancy_def)

lemma expand_simps [simp]:
  "expand [] = []" "expand ((w, n) # rs) = replicate n w @ expand rs" "expand (rs @ qs) = expand rs @ expand qs"
  by (simp_all add: expand_def)

lemma wrap_advance_less: "0 < cols \<Longrightarrow> wrap_advance u cols w < cols"
  by (simp add: wrap_advance_def Let_def)

lemma occupancy_le: "u \<le> cols \<Longrightarrow> occupancy cols ws u \<le> cols"
proof (induction ws arbitrary: u)
  case (Cons w ws)
  have "wrap_advance u cols w \<le> cols" by (simp add: wrap_advance_def Let_def)
  then show ?case using Cons.IH by simp
qed simp

lemma occupancy_less: "u < cols \<Longrightarrow> occupancy cols ws u < cols"
proof (induction ws arbitrary: u)
  case (Cons w ws)
  then show ?case using Cons.IH wrap_advance_less [of cols u w] by simp
qed simp

lemma length_cyclic [simp]: "length (cyclic ws k) = k"
  by (simp add: cyclic_def)

lemma cyclic_0 [simp]: "cyclic ws 0 = []"
  by (simp add: cyclic_def)

lemma cyclic_nth: "i < k \<Longrightarrow> cyclic ws k ! i = ws ! (i mod length ws)"
  by (simp add: cyclic_def)

lemma cyclic_take: "k \<le> length ws \<Longrightarrow> cyclic ws k = take k ws"
  by (rule nth_equalityI) (simp_all add: cyclic_nth)

lemma cyclic_period: "cyclic ws (length ws + k) = ws @ cyclic ws k"
  by (rule nth_equalityI) (auto simp: cyclic_nth nth_append mod_if)

section \<open>Cycle skipping\<close>

text \<open>
  Both loops walk in chunks of \<open>P\<close> units, remember at which remaining count a column was seen,
  and drop whole cycles.  The locale states what makes that sound.
\<close>

locale chunked_walk =
  fixes walk :: "nat \<Rightarrow> nat \<Rightarrow> nat"
    and P :: nat
  assumes walk_0: "walk u 0 = u"
    and walk_chunk: "walk u (P + k) = walk (walk u P) k"
begin

lemma walk_chunks: "walk u (P * a + k) = walk (walk u (P * a)) k"
proof (induction a arbitrary: u)
  case (Suc a)
  have "walk u (P * Suc a + k) = walk (walk u P) (P * a + k)"
    using walk_chunk [of u "P * a + k"] by (simp add: algebra_simps)
  also have "\<dots> = walk (walk (walk u P) (P * a)) k" by (rule Suc)
  also have "\<dots> = walk (walk u (P * Suc a)) k" using walk_chunk [of u "P * a"] by simp
  finally show ?case .
qed (simp add: walk_0)

definition seen_ok :: "(nat \<Rightarrow> nat option) \<Rightarrow> nat \<Rightarrow> nat \<Rightarrow> bool" where
  "seen_ok seen used remaining \<longleftrightarrow>
     (\<forall>u r. seen u = Some r \<longrightarrow> remaining \<le> r \<and> P dvd (r - remaining) \<and> walk u (r - remaining) = used)"

lemma seen_ok_empty: "seen_ok (\<lambda>_. None) used remaining"
  by (simp add: seen_ok_def)

lemma cycle_mod:
  assumes "P dvd c" "walk u c = u"
  shows "walk u n = walk u (n mod c)"
proof -
  obtain a where c: "c = P * a" using assms(1) by auto
  have "walk u (c * q + k) = walk u k" for q k
  proof (induction q)
    case (Suc q)
    have "walk u (c * Suc q + k) = walk (walk u (P * a)) (c * q + k)"
      using walk_chunks [of u a "c * q + k"] c by (simp add: algebra_simps)
    then show ?case using Suc assms(2) c by simp
  qed simp
  from this [of "n div c" "n mod c"] show ?thesis by (simp add: mult.commute)
qed

lemma seen_cycle:
  assumes "seen_ok seen used remaining" "seen used = Some r"
  shows "walk used remaining = walk used (remaining mod (r - remaining))"
  using assms by (intro cycle_mod) (auto simp: seen_ok_def)

lemma seen_ok_advance:
  assumes ok: "seen_ok seen used remaining" and le: "P \<le> remaining"
  shows "seen_ok seen (walk used P) (remaining - P)"
    and "seen_ok (seen(used \<mapsto> remaining)) (walk used P) (remaining - P)"
proof -
  have "walk u (r - (remaining - P)) = walk used P \<and> P dvd (r - (remaining - P)) \<and> remaining - P \<le> r"
    if s: "seen u = Some r" for u r
  proof -
    have r: "remaining \<le> r" "P dvd (r - remaining)" "walk u (r - remaining) = used"
      using ok s by (auto simp: seen_ok_def)
    then obtain a where a: "r - remaining = P * a" by auto
    have eq: "r - (remaining - P) = P * a + P" using r(1) le a by simp
    show ?thesis using walk_chunks [of u a P] r a le unfolding eq by simp
  qed
  then show "seen_ok seen (walk used P) (remaining - P)"
    "seen_ok (seen(used \<mapsto> remaining)) (walk used P) (remaining - P)"
    using le by (auto simp: seen_ok_def)
qed

end

interpretation units: chunked_walk "\<lambda>u n. occupancy cols (replicate n w) u" 1 for cols w
  by standard simp_all

lemma run_loop_correct:
  assumes "units.seen_ok cols w seen used remaining"
  shows "run_loop used cols w remaining seen = min (occupancy cols (replicate remaining w) used) cols"
  using assms
proof (induction used cols w remaining seen rule: run_loop.induct)
  case (1 used cols w remaining seen)
  note IH = 1
  show ?case
  proof (cases "remaining = 0")
    case True
    then show ?thesis by (simp add: run_loop.simps)
  next
    case False
    have occ: "occupancy cols (replicate remaining w) used
        = occupancy cols (replicate (remaining - 1) w) (wrap_advance used cols w)"
      using False by (cases remaining) simp_all
    show ?thesis
    proof (cases "if used \<le> cols then seen used else None")
      case None
      have "units.seen_ok cols w (if used \<le> cols then seen(used \<mapsto> remaining) else seen)
          (wrap_advance used cols w) (remaining - 1)"
        using units.seen_ok_advance [OF IH(4)] False by (simp split: if_splits)
      then show ?thesis using IH(1) [OF False None] occ None False
        by (subst run_loop.simps) (simp split: if_splits)
    next
      case (Some r)
      then have seen: "seen used = Some r" by (simp split: if_splits)
      show ?thesis
      proof (cases "r - remaining > 0")
        case True
        have eq: "occupancy cols (replicate remaining w) used
            = occupancy cols (replicate (remaining mod (r - remaining)) w) used"
          by (rule units.seen_cycle [OF IH(4) seen])
        show ?thesis
          using IH(2) [OF False Some refl True _ units.seen_ok_empty] eq Some False True
          by (subst run_loop.simps) (auto simp: Let_def)
      next
        case not: False
        then show ?thesis
          using IH(3) [OF False Some refl not] units.seen_ok_advance(1) [OF IH(4)] occ Some False
          by (subst run_loop.simps) (simp add: Let_def)
      qed
    qed
  qed
qed

lemma wrap_occupancy_run_eq:
  "0 < cols \<Longrightarrow> wrap_occupancy_run used cols w n = min (occupancy cols (replicate n w) used) cols"
  by (simp add: wrap_occupancy_run_def run_loop_correct [OF units.seen_ok_empty])

lemma occupancy_runs_loop_eq:
  assumes "0 < cols" "used \<le> cols"
  shows "occupancy_runs_loop rs cols left used = occupancy cols (take left (expand rs)) used"
  using assms(2)
proof (induction rs arbitrary: left used)
  case (Cons r rs)
  obtain w n where r: "r = (w, n)" by (cases r)
  let ?u = "occupancy cols (replicate (min n left) w) used"
  have u: "?u \<le> cols" using Cons.prems by (rule occupancy_le)
  have "left - min n left = left - n" by simp
  then show ?case using Cons.IH [OF u] r assms(1) u
    by (simp add: wrap_occupancy_run_eq Let_def min.commute min_absorb1)
qed simp

lemma wrap_occupancy_runs_eq:
  "0 < cols \<Longrightarrow> wrap_occupancy_runs rs cols n = occupancy cols (take n (expand rs)) 0"
  using occupancy_le [of 0 cols] by (simp add: wrap_occupancy_runs_def occupancy_runs_loop_eq min_absorb1)

lemma unit_sum_fold:
  "acc \<le> u32_max \<Longrightarrow> fold (\<lambda>(w, n) acc. sat_add u32_max acc n) rs acc = min (acc + length (expand rs)) u32_max"
proof (induction rs arbitrary: acc)
  case (Cons r rs)
  obtain w n where r: "r = (w, n)" by (cases r)
  show ?case using Cons.IH [of "sat_add u32_max acc n"] r by (simp add: sat_add_def)
qed (simp add: min_def)

lemma wrap_runs_unit_sum_eq: "wrap_runs_unit_sum rs = min (length (expand rs)) u32_max"
  by (simp add: wrap_runs_unit_sum_def unit_sum_fold)

interpretation pattern: chunked_walk "\<lambda>u n. occupancy cols (cyclic ws n) u" "length ws" for cols ws
  by standard (simp_all add: cyclic_period cyclic_take)

lemma repeating_loop_correct:
  assumes "0 < cols" "P = length (expand T)" "0 < P" "used \<le> cols"
    "pattern.seen_ok cols (expand T) seen used remaining"
  shows "repeating_loop T cols P used remaining seen = occupancy cols (cyclic (expand T) remaining) used"
  using assms
proof (induction T cols P used remaining seen rule: repeating_loop.induct)
  case (1 T cols P used remaining seen)
  note IH = "1.IH" and prems = "1.prems"
  let ?W = "expand T"
  let ?tk = "min remaining P"
  have once: "wrap_occupancy_pattern_once used T cols ?tk = occupancy cols (take ?tk ?W) used"
    using occupancy_runs_loop_eq [OF prems(1,4)] occupancy_le [OF prems(4)]
    by (simp add: wrap_occupancy_pattern_once_def min_absorb1)
  have once_le: "wrap_occupancy_pattern_once used T cols ?tk \<le> cols"
    using occupancy_le [OF prems(4)] by (simp add: once)
  show ?case
  proof (cases "remaining = 0")
    case True
    then show ?thesis using prems by (simp add: repeating_loop.simps min_absorb1)
  next
    case False
    then have nz: "\<not> (remaining = 0 \<or> P = 0)" using prems by simp
    have step: "repeating_loop T cols P (wrap_occupancy_pattern_once used T cols ?tk) (remaining - ?tk) seen'
        = occupancy cols (cyclic ?W remaining) used"
      if hyp: "P \<le> remaining \<Longrightarrow> repeating_loop T cols P (wrap_occupancy_pattern_once used T cols ?tk) (remaining - ?tk) seen'
        = occupancy cols (cyclic ?W (remaining - ?tk)) (wrap_occupancy_pattern_once used T cols ?tk)" for seen'
    proof (cases "P \<le> remaining")
      case True
      have "cyclic ?W remaining = ?W @ cyclic ?W (remaining - P)"
        using cyclic_period [of ?W "remaining - P"] True prems(2) by simp
      then show ?thesis using hyp [OF True] True once prems(2) by (simp add: min_absorb2)
    next
      case False
      then show ?thesis using once once_le prems(2) by (simp add: repeating_loop.simps min_absorb1 cyclic_take)
    qed
    show ?thesis
    proof (cases "if used \<le> cols then seen used else None")
      case None
      have "repeating_loop T cols P (wrap_occupancy_pattern_once used T cols ?tk) (remaining - ?tk)
          (if used \<le> cols then seen(used \<mapsto> remaining) else seen) = occupancy cols (cyclic ?W remaining) used"
      proof (rule step)
        assume le: "P \<le> remaining"
        have "pattern.seen_ok cols ?W (if used \<le> cols then seen(used \<mapsto> remaining) else seen)
            (wrap_occupancy_pattern_once used T cols ?tk) (remaining - ?tk)"
          using pattern.seen_ok_advance [OF prems(5)] le prems(2,4) once
          by (simp add: cyclic_take min_absorb2)
        then show "repeating_loop T cols P (wrap_occupancy_pattern_once used T cols ?tk) (remaining - ?tk)
            (if used \<le> cols then seen(used \<mapsto> remaining) else seen)
            = occupancy cols (cyclic ?W (remaining - ?tk)) (wrap_occupancy_pattern_once used T cols ?tk)"
          using IH(1) [OF nz None refl prems(1,2,3) once_le] by simp
      qed
      then show ?thesis using None nz by (subst repeating_loop.simps) (simp add: Let_def)
    next
      case (Some r)
      then have seen: "seen used = Some r" by (simp split: if_splits)
      show ?thesis
      proof (cases "r - remaining > 0")
        case True
        have eq: "occupancy cols (cyclic ?W remaining) used
            = occupancy cols (cyclic ?W (remaining mod (r - remaining))) used"
          by (rule pattern.seen_cycle [OF prems(5) seen])
        show ?thesis
          using IH(2) [OF nz Some refl True prems(1,2,3,4) pattern.seen_ok_empty] eq Some nz True
          by (subst repeating_loop.simps) (simp add: Let_def)
      next
        case not: False
        have "repeating_loop T cols P (wrap_occupancy_pattern_once used T cols ?tk) (remaining - ?tk) seen
            = occupancy cols (cyclic ?W remaining) used"
        proof (rule step)
          assume le: "P \<le> remaining"
          have "pattern.seen_ok cols ?W seen
              (wrap_occupancy_pattern_once used T cols ?tk) (remaining - ?tk)"
            using pattern.seen_ok_advance(1) [OF prems(5)] le prems(2) once by (simp add: cyclic_take min_absorb2)
          then show "repeating_loop T cols P (wrap_occupancy_pattern_once used T cols ?tk) (remaining - ?tk) seen
              = occupancy cols (cyclic ?W (remaining - ?tk)) (wrap_occupancy_pattern_once used T cols ?tk)"
            using IH(3) [OF nz Some refl not refl prems(1,2,3) once_le] by simp
        qed
        then show ?thesis using Some nz not by (subst repeating_loop.simps) (simp add: Let_def)
      qed
    qed
  qed
qed

lemma wrap_occupancy_repeating_eq:
  assumes "0 < cols" "length (expand T) \<le> u32_max" "0 < length (expand T)"
  shows "wrap_occupancy_repeating T cols n = occupancy cols (cyclic (expand T) n) 0"
  using assms repeating_loop_correct [OF assms(1) refl assms(3) _ pattern.seen_ok_empty, of 0 n]
  by (simp add: wrap_occupancy_repeating_def Let_def wrap_runs_unit_sum_eq min_absorb1)

section \<open>Repeating and aperiodic runs\<close>

lemma expand_reps: "expand (concat (replicate N T)) = concat (replicate N (expand T))"
  by (induction N) simp_all

lemma take_reps_cyclic:
  assumes "n \<le> N * length W"
  shows "take n (concat (replicate N W)) = cyclic W n"
  using assms
proof (induction N arbitrary: n)
  case (Suc N)
  show ?case
  proof (cases "n \<le> length W")
    case True
    then show ?thesis by (simp add: cyclic_take)
  next
    case False
    then have "cyclic W n = W @ cyclic W (n - length W)"
      using cyclic_period [of W "n - length W"] by simp
    then show ?thesis using Suc False by simp
  qed
qed simp

lemma match_period_prefix:
  assumes "match_period_from all k i rest" "0 < k" "k \<le> length all"
  shows "\<exists>N. prefix (expand rest) (expand (drop (i mod k) (take k all) @ concat (replicate N (take k all))))"
  using assms
proof (induction all k i rest rule: match_period_from.induct)
  case (2 all k i w n rs)
  let ?T = "take k all"
  let ?j = "i mod k"
  have j: "?j < k" using "2.prems" by simp
  have T: "drop ?j ?T = ?T ! ?j # drop (Suc ?j) ?T"
    using j "2.prems" by (intro Cons_nth_drop_Suc [symmetric]) simp
  have w: "w = fst (all ! ?j)" using "2.prems" by (auto simp: Let_def split: if_splits)
  obtain m where m: "?T ! ?j = (w, m)" using w j by (cases "all ! ?j") auto
  show ?case
  proof (cases "rs = []")
    case True
    then have "n \<le> m" using "2.prems" m j by (simp add: Let_def split: if_splits)
    then have "replicate m w = replicate n w @ replicate (m - n) w" by (simp add: replicate_add [symmetric])
    then show ?thesis using True T m by (intro exI [of _ 0]) (simp add: prefix_def)
  next
    case False
    then have nm: "n = m" and rec: "match_period_from all k (i + 1) rs"
      using "2.prems" m j by (auto simp: Let_def split: if_splits)
    obtain N where N: "prefix (expand rs) (expand (drop ((i + 1) mod k) ?T @ concat (replicate N ?T)))"
      using "2.IH"(2) [OF refl _ False rec] w "2.prems"(2,3) by (auto simp: Let_def)
    show ?thesis
    proof (cases "Suc ?j < k")
      case True
      then have "(i + 1) mod k = Suc ?j" by (simp add: mod_Suc)
      then show ?thesis using N T m nm by (intro exI [of _ N]) simp
    next
      case False
      then have "Suc ?j = k" using j by simp
      then have "(i + 1) mod k = 0" "drop (Suc ?j) ?T = []" by (simp_all add: mod_Suc)
      then show ?thesis using N T m nm by (intro exI [of _ "Suc N"]) simp
    qed
  qed
qed simp

lemma match_period_reps:
  assumes "wrap_runs_match_period rs k"
  shows "\<exists>N. prefix (expand rs) (concat (replicate N (expand (take k rs))))"
proof -
  let ?T = "take k rs"
  have k: "2 \<le> k" "k \<le> length rs" and m: "match_period_from rs k k (drop k rs)"
    using assms by (auto simp: wrap_runs_match_period_def split: if_splits)
  obtain N where N: "prefix (expand (drop k rs)) (expand (?T @ concat (replicate N ?T)))"
    using match_period_prefix [OF m] k by auto
  have "expand rs = expand ?T @ expand (drop k rs)"
    by (metis append_take_drop_id expand_simps(3))
  then have "prefix (expand rs) (expand (concat (replicate (Suc (Suc N)) ?T)))"
    using N by simp
  then show ?thesis unfolding expand_reps by blast
qed

lemma match_period_cyclic:
  assumes "wrap_runs_match_period rs k" "n \<le> length (expand rs)"
  shows "take n (expand rs) = cyclic (expand (take k rs)) n"
proof -
  obtain N where pre: "prefix (expand rs) (concat (replicate N (expand (take k rs))))"
    using match_period_reps [OF assms(1)] by blast
  have "n \<le> N * length (expand (take k rs))"
    using prefix_length_le [OF pre] assms(2) by (simp add: length_concat sum_list_replicate)
  from take_reps_cyclic [OF this] pre assms(2) show ?thesis
    by (metis prefix_def take_append append_Nil2 diff_is_0_eq take_0)
qed

lemma spine_loop_eq:
  assumes "0 < cols" "used \<le> cols" "units0 + length (expand rs) \<le> u32_max"
  shows "spine_loop rs cols used units0 =
    (map (\<lambda>i. min (occupancy cols (expand (take (Suc i) rs)) used) u8_max) [0..<length rs],
     map (\<lambda>i. units0 + length (expand (take (Suc i) rs))) [0..<length rs])"
  using assms(2,3)
proof (induction rs arbitrary: used units0)
  case (Cons r rs)
  obtain w n where r: "r = (w, n)" by (cases r)
  let ?u = "occupancy cols (replicate n w) used"
  have u: "?u \<le> cols" using Cons.prems by (intro occupancy_le)
  have s: "sat_add u32_max units0 n = units0 + n" using Cons.prems r by (intro sat_add_exact) simp
  have len: "units0 + n + length (expand rs) \<le> u32_max" using Cons.prems r by (simp add: add.assoc)
  have up: "[0..<Suc (length rs)] = 0 # map Suc [0..<length rs]"
    by (simp add: map_Suc_upt upt_conv_Cons del: upt_Suc)
  show ?case
    using Cons.IH [OF u len] u assms(1)
    by (simp add: r wrap_occupancy_run_eq min_absorb1 s up comp_def add.assoc Let_def del: upt_Suc)
qed simp

text \<open>The spine is exact as long as every column fits the \<open>u8\<close> it is stored in.\<close>

lemma ephemeral_spine_eq:
  assumes "0 < cols" "cols \<le> 256" "length (expand rs) \<le> u32_max"
  shows "wrap_occupancy_with_ephemeral_spine rs cols n = occupancy cols (take n (expand rs)) 0"
proof -
  let ?occ = "\<lambda>i. occupancy cols (expand (take i rs)) 0"
  let ?len = "\<lambda>i. length (expand (take i rs))"
  have sp: "spine_loop rs cols 0 0 = (map (\<lambda>i. ?occ (Suc i)) [0..<length rs], map (\<lambda>i. ?len (Suc i)) [0..<length rs])"
  proof -
    have "min (?occ (Suc i)) u8_max = ?occ (Suc i)" for i
      using occupancy_less [of 0 cols "expand (take (Suc i) rs)"] assms by simp
    then show ?thesis using spine_loop_eq [OF assms(1), of 0 0 rs] assms(3) by simp
  qed
  define f where "f = partition_point (\<lambda>u. u \<le> n) (map (\<lambda>i. ?len (Suc i)) [0..<length rs])"
  have f_le: "f \<le> length rs"
    using partition_point_le [of "\<lambda>u. u \<le> n" "map (\<lambda>i. ?len (Suc i)) [0..<length rs]"] by (simp add: f_def)
  have f_before: "?len f \<le> n"
    using partition_point_before [of "f - 1" "\<lambda>u. u \<le> n" "map (\<lambda>i. ?len (Suc i)) [0..<length rs]"] f_le
    by (cases f) (simp_all add: f_def [symmetric])
  have f_at: "f < length rs \<Longrightarrow> n < ?len (Suc f)"
    using partition_point_at [of "\<lambda>u. u \<le> n" "map (\<lambda>i. ?len (Suc i)) [0..<length rs]"]
    by (simp add: f_def [symmetric])
  have split_rs: "expand rs = expand (take f rs) @ expand (drop f rs)"
    by (metis append_take_drop_id expand_simps(3))
  have tk: "take n (expand rs) = expand (take f rs) @ take (n - ?len f) (expand (drop f rs))"
    using f_before by (subst split_rs) simp
  have occ_le: "occupancy cols ws 0 \<le> cols" for ws by (rule occupancy_le) simp
  show ?thesis
  proof (cases "n = 0 \<or> rs = []")
    case True
    then show ?thesis by (auto simp: wrap_occupancy_with_ephemeral_spine_def)
  next
    case False
    have main: "wrap_occupancy_with_ephemeral_spine rs cols n =
      (if ?len f \<ge> n then min (?occ f) cols
       else if f < length rs then min (wrap_occupancy_run (?occ f) cols (fst (rs ! f)) (min (snd (rs ! f)) (n - ?len f))) cols
       else min (?occ f) cols)"
      using False assms(1) f_le
      by (cases f) (simp_all add: wrap_occupancy_with_ephemeral_spine_def sp spine_occupancy_def
          f_def [symmetric] Let_def case_prod_beta)
    show ?thesis
    proof (cases "?len f \<ge> n \<or> f = length rs")
      case True
      then show ?thesis using main tk occ_le f_le by (auto simp: min_absorb1)
    next
      case False
      then have lt: "f < length rs" using f_le by simp
      obtain w m where wm: "rs ! f = (w, m)" by (cases "rs ! f")
      have d: "drop f rs = (w, m) # drop (Suc f) rs" using lt wm by (simp add: Cons_nth_drop_Suc [symmetric])
      have "take (Suc f) rs = take f rs @ [(w, m)]" using lt wm by (simp add: take_Suc_conv_app_nth)
      then have "n < ?len f + m" using f_at [OF lt] by simp
      then show ?thesis using main tk False lt wm d occ_le assms(1)
        by (simp add: wrap_occupancy_run_eq min_absorb1 min_absorb2 occupancy_le)
    qed
  qed
qed

text \<open>On a wider grid the spine's answer at the end of a run is the column cut to \<open>u8\<close>.\<close>

lemma spine_at_boundary:
  assumes "0 < cols" "length (expand rs) \<le> u32_max" and n: "n = length (expand (take k rs))" "0 < n"
  shows "wrap_occupancy_with_ephemeral_spine rs cols n = min (occupancy cols (take n (expand rs)) 0) u8_max"
proof -
  let ?occ = "\<lambda>i. occupancy cols (expand (take i rs)) 0"
  let ?len = "\<lambda>i. length (expand (take i rs))"
  have sp: "spine_loop rs cols 0 0 = (map (\<lambda>i. min (?occ (Suc i)) u8_max) [0..<length rs], map (\<lambda>i. ?len (Suc i)) [0..<length rs])"
    using spine_loop_eq [OF assms(1), of 0 0 rs] assms(2) by simp
  define f where "f = partition_point (\<lambda>u. u \<le> n) (map (\<lambda>i. ?len (Suc i)) [0..<length rs])"
  have f_le: "f \<le> length rs"
    using partition_point_le [of "\<lambda>u. u \<le> n" "map (\<lambda>i. ?len (Suc i)) [0..<length rs]"] by (simp add: f_def)
  have f_before: "?len f \<le> n"
    using partition_point_before [of "f - 1" "\<lambda>u. u \<le> n" "map (\<lambda>i. ?len (Suc i)) [0..<length rs]"] f_le
    by (cases f) (simp_all add: f_def [symmetric])
  have f_at: "f < length rs \<Longrightarrow> n < ?len (Suc f)"
    using partition_point_at [of "\<lambda>u. u \<le> n" "map (\<lambda>i. ?len (Suc i)) [0..<length rs]"]
    by (simp add: f_def [symmetric])
  have mono: "?len i \<le> ?len j" if "i \<le> j" for i j
  proof -
    have "take j rs = take i rs @ drop i (take j rs)" using that by (metis append_take_drop_id min.absorb1 take_take)
    then show ?thesis by (metis expand_simps(3) length_append le_add1)
  qed
  have "n \<le> ?len f"
  proof (cases "f < length rs")
    case True
    then have "\<not> Suc f \<le> k" using f_at mono [of "Suc f" k] n(1) by fastforce
    then show ?thesis using mono [of k f] n(1) by simp
  next
    case False
    then show ?thesis using mono [of k "max k f"] n(1) by (simp add: max_def split: if_splits)
  qed
  then have len: "?len f = n" using f_before by simp
  have "expand rs = expand (take f rs) @ expand (drop f rs)" by (metis append_take_drop_id expand_simps(3))
  then have tk: "take n (expand rs) = expand (take f rs)" using len by (metis append_eq_conv_conj)
  have pos: "0 < f" using len n(2) by (cases f) simp_all
  have "rs \<noteq> []" using n by auto
  then have "wrap_occupancy_with_ephemeral_spine rs cols n = min (min (?occ f) u8_max) cols"
    using assms(1) f_le pos len n(2)
    by (cases f) (simp_all add: wrap_occupancy_with_ephemeral_spine_def sp spine_occupancy_def
        f_def [symmetric] Let_def case_prod_beta)
  moreover have "?occ f \<le> cols" by (rule occupancy_le) simp
  ultimately show ?thesis using tk by simp
qed

lemma wrap_occupancy_for_runs_eq:
  assumes "0 < cols" "cols \<le> 256" "length (expand rs) \<le> u32_max" "n \<le> length (expand rs)"
  shows "wrap_occupancy_for_runs rs cols n = occupancy cols (take n (expand rs)) 0"
proof (cases "wrap_repeating_period rs")
  case None
  then show ?thesis using assms by (simp add: wrap_occupancy_for_runs_def wrap_occupancy_runs_eq ephemeral_spine_eq)
next
  case (Some k)
  then have mp: "wrap_runs_match_period rs k"
    by (auto simp: wrap_repeating_period_def Let_def find_Some_iff split: if_splits)
  have "expand rs = expand (take k rs) @ expand (drop k rs)" by (metis append_take_drop_id expand_simps(3))
  then have len: "length (expand (take k rs)) \<le> u32_max" using assms(3) by simp
  have cyc: "take n (expand rs) = cyclic (expand (take k rs)) n" by (rule match_period_cyclic [OF mp assms(4)])
  show ?thesis
  proof (cases "expand (take k rs) = []")
    case True
    have "wrap_occupancy_repeating (take k rs) cols n = 0"
      using True by (simp add: wrap_occupancy_repeating_def wrap_runs_unit_sum_eq)
    moreover have "n = 0" using match_period_reps [OF mp] assms(4) True by simp
    ultimately show ?thesis using Some by (simp add: wrap_occupancy_for_runs_def)
  next
    case False
    then show ?thesis
      using Some wrap_occupancy_repeating_eq [OF assms(1) len, of n] cyc by (simp add: wrap_occupancy_for_runs_def)
  qed
qed

end
