(* ===== verification/Wrap_Index.thy ===== *)
theory Wrap_Index
  imports Wrap_Occupancy
begin

text \<open>
  The wrap index kept by appending: the chain built from any sequence of lines stands for
  exactly the unit widths of those lines, and answers the column of every cut.
\<close>

section \<open>Rotated patterns\<close>

definition cyclic_from :: "nat list \<Rightarrow> nat \<Rightarrow> nat \<Rightarrow> nat list" where
  "cyclic_from ws s k = map (\<lambda>i. ws ! ((s + i) mod length ws)) [0..<k]"

lemma length_cyclic_from [simp]: "length (cyclic_from ws s k) = k"
  by (simp add: cyclic_from_def)

lemma cyclic_from_nth: "i < k \<Longrightarrow> cyclic_from ws s k ! i = ws ! ((s + i) mod length ws)"
  by (simp add: cyclic_from_def)

lemma cyclic_from_0: "cyclic_from ws 0 k = cyclic ws k"
  by (simp add: cyclic_from_def cyclic_def)

lemma cyclic_from_mod: "cyclic_from ws (s mod length ws) k = cyclic_from ws s k"
  by (simp add: cyclic_from_def mod_add_left_eq)

lemma cyclic_from_Suc: "cyclic_from ws s (Suc k) = cyclic_from ws s k @ [ws ! ((s + k) mod length ws)]"
  by (simp add: cyclic_from_def)

lemma take_cyclic_from: "k \<le> n \<Longrightarrow> take k (cyclic_from ws s n) = cyclic_from ws s k"
  by (rule nth_equalityI) (simp_all add: cyclic_from_nth)

lemma cyclic_rotated:
  assumes "ws \<noteq> []"
  shows "cyclic (cyclic_from ws s (length ws)) k = cyclic_from ws s k"
proof (rule nth_equalityI)
  fix i assume "i < length (cyclic (cyclic_from ws s (length ws)) k)"
  then have "i < k" by simp
  moreover have "i mod length ws < length ws" using assms by simp
  ultimately show "cyclic (cyclic_from ws s (length ws)) k ! i = cyclic_from ws s k ! i"
    by (simp add: cyclic_nth cyclic_from_nth mod_add_right_eq)
qed simp

lemma cyclic_from_split:
  assumes "s < length ws"
  shows "cyclic_from ws s n = take n (drop s ws) @ cyclic ws (n - (length ws - s))"
proof (rule nth_equalityI)
  show "length (cyclic_from ws s n) = length (take n (drop s ws) @ cyclic ws (n - (length ws - s)))"
    by simp
  fix i assume "i < length (cyclic_from ws s n)"
  then have i: "i < n" by simp
  show "cyclic_from ws s n ! i = (take n (drop s ws) @ cyclic ws (n - (length ws - s))) ! i"
  proof (cases "i < length ws - s")
    case True
    then show ?thesis using i assms by (simp add: cyclic_from_nth nth_append)
  next
    case False
    then have "s + i = length ws + (i - (length ws - s))" using assms by simp
    then have "(s + i) mod length ws = (i - (length ws - s)) mod length ws" by (metis mod_add_self1)
    then show ?thesis using False i assms by (simp add: cyclic_from_nth nth_append cyclic_nth min_def)
  qed
qed

lemma width_at_loop_eq: "i < length (expand rs) \<Longrightarrow> width_at_loop rs i = Some (expand rs ! i)"
proof (induction rs arbitrary: i)
  case (Cons r rs)
  then show ?case by (cases r) (auto simp: nth_append)
qed simp

lemma wrap_pattern_width_at_eq:
  assumes "0 < length (expand T)" "length (expand T) \<le> u32_max"
  shows "wrap_pattern_width_at T i = Some (expand T ! (i mod length (expand T)))"
  using assms by (simp add: wrap_pattern_width_at_def Let_def wrap_runs_unit_sum_eq min_absorb1 width_at_loop_eq)

definition positive :: "run list \<Rightarrow> bool" where
  "positive rs \<longleftrightarrow> (\<forall>r \<in> set rs. 0 < snd r)"

lemma expand_push_run:
  assumes "length (expand rs) + n \<le> u32_max"
  shows "expand (push_run w n rs) = expand rs @ replicate n w"
proof (cases rs rule: rev_cases)
  case (snoc qs q)
  obtain v m where q: "q = (v, m)" by (cases q)
  have "sat_add u32_max m n = m + n" using assms snoc q by (intro sat_add_exact) simp
  then show ?thesis using snoc q by (simp add: push_run_def replicate_add)
qed (simp add: push_run_def)

lemma positive_push_run: "positive rs \<Longrightarrow> 0 < n \<Longrightarrow> positive (push_run w n rs)"
  by (auto simp: positive_def push_run_def sat_add_def dest: in_set_butlastD)

lemma push_run_nonempty [simp]: "push_run w n rs \<noteq> []"
  by (simp add: push_run_def)

lemma slice_pass_eq:
  assumes "idx + length (expand rs) \<le> u32_max" "length (expand out) + remaining \<le> u32_max"
    "positive out"
  shows "\<exists>out'. slice_pass rs idx offset remaining out =
      (if 0 < remaining \<and> drop (offset - idx) (expand rs) \<noteq> [] then 0 else offset,
       remaining - length (drop (offset - idx) (expand rs)), out') \<and>
    expand out' = expand out @ take remaining (drop (offset - idx) (expand rs)) \<and> positive out'"
  using assms
proof (induction rs idx offset remaining out rule: slice_pass.induct)
  case (2 w n rs idx offset remaining out)
  have e: "sat_add u32_max idx n = idx + n" using "2.prems" by (intro sat_add_exact) simp
  consider "remaining = 0" | "0 < remaining" "idx + n \<le> offset"
    | "0 < remaining" "offset < idx + n" "n - (offset - idx) = 0"
    | "0 < remaining" "offset < idx + n" "0 < n - (offset - idx)" by linarith
  then show ?case
  proof cases
    case 1
    then show ?thesis using "2.prems" by simp
  next
    case 2
    then show ?thesis using "2.IH"(1) [of "idx + n"] "2.prems" e by (simp add: Let_def)
  next
    case 3
    then have "n = 0" "offset < idx" by linarith+
    then show ?thesis using 3 "2.IH"(3) [of "idx + n" 0 0] "2.prems" e by (simp add: Let_def)
  next
    case 4
    define tk where "tk = min (n - (offset - idx)) remaining"
    have tk: "0 < tk" "tk \<le> remaining" using 4 by (simp_all add: tk_def)
    have len: "length (expand out) + tk \<le> u32_max" using "2.prems" tk by simp
    have out: "expand (push_run w tk out) = expand out @ replicate tk w" by (rule expand_push_run [OF len])
    have pre: "remaining \<noteq> 0" "\<not> idx + n \<le> offset" "idx + n + length (expand rs) \<le> u32_max"
      "length (expand (push_run w tk out)) + (remaining - tk) \<le> u32_max" "positive (push_run w tk out)"
      using 4 "2.prems" out tk positive_push_run by auto
    obtain out' where o: "slice_pass rs (idx + n) 0 (remaining - tk) (push_run w tk out) =
        (0, remaining - tk - length (expand rs), out')"
      and ex: "expand out' = expand (push_run w tk out) @ take (remaining - tk) (expand rs)" "positive out'"
      using "2.IH"(2) [OF pre(1) e [symmetric] pre(2) refl tk_def tk(1) pre(3-5)] by auto
    have d: "drop (offset - idx) (expand ((w, n) # rs)) = replicate (n - (offset - idx)) w @ expand rs"
      using 4 by simp
    have r: "remaining - (tk + length (expand rs)) = remaining + (offset - idx) - (n + length (expand rs))"
      using 4 unfolding tk_def min_def by auto
    have t: "take remaining (replicate (n - (offset - idx)) w @ expand rs)
        = replicate tk w @ take (remaining - tk) (expand rs)"
      by (simp add: tk_def min_def)
    show ?thesis
      using 4 o ex out e tk unfolding d t
      by (simp add: Let_def tk_def [symmetric] r)
  qed
qed simp


lemma slice_loop_eq:
  assumes "0 < length (expand T)" "length (expand T) \<le> u32_max" "offset < length (expand T)"
    "length (expand out) + remaining \<le> u32_max" "positive out"
  shows "expand (slice_loop T offset remaining out) = expand out @ cyclic_from (expand T) offset remaining \<and>
    positive (slice_loop T offset remaining out)"
  using assms
proof (induction T offset remaining out rule: slice_loop.induct)
  case (1 T offset remaining out)
  let ?W = "expand T"
  show ?case
  proof (cases "remaining = 0")
    case True
    then show ?thesis using "1.prems" by (simp add: slice_loop.simps cyclic_from_def)
  next
    case False
    define r' where "r' = remaining - (length ?W - offset)"
    obtain out' where p: "slice_pass T 0 offset remaining out = (0, r', out')"
      and ex: "expand out' = expand out @ take remaining (drop offset ?W)" and pos: "positive out'"
      using slice_pass_eq [of 0 T out remaining offset] "1.prems" False by (auto simp: r'_def)
    have ne: "r' \<noteq> remaining" using "1.prems" False by (simp add: r'_def)
    have len: "length (expand out') + r' \<le> u32_max" using ex "1.prems" by (simp add: r'_def min_def)
    have "expand (slice_loop T 0 r' out') = expand out' @ cyclic_from ?W 0 r' \<and> positive (slice_loop T 0 r' out')"
      using "1.IH" [OF False p [symmetric] refl ne] "1.prems"(1,2) len pos by simp
    then show ?thesis using p ne False ex cyclic_from_split [of offset ?W remaining] "1.prems"
      by (subst (1 2) slice_loop.simps) (simp add: cyclic_from_0 r'_def)
  qed
qed

lemma wrap_pattern_slice_eq:
  assumes "0 < length (expand T)" "length (expand T) \<le> u32_max" "n \<le> u32_max"
  shows "expand (wrap_pattern_slice T s n) = cyclic_from (expand T) s n \<and> positive (wrap_pattern_slice T s n)"
proof (cases "n = 0")
  case True
  then show ?thesis by (simp add: wrap_pattern_slice_def positive_def cyclic_from_def)
next
  case False
  have "s mod length (expand T) < length (expand T)" using assms by simp
  then have "expand (slice_loop T (s mod length (expand T)) n []) = cyclic_from (expand T) (s mod length (expand T)) n \<and>
      positive (slice_loop T (s mod length (expand T)) n [])"
    using slice_loop_eq [OF assms(1,2), of "s mod length (expand T)" "[]" n] assms(3) by (simp add: positive_def)
  then show ?thesis using False assms
    by (simp add: wrap_pattern_slice_def Let_def wrap_runs_unit_sum_eq min_absorb1 cyclic_from_mod)
qed

section \<open>What a chain stands for\<close>

definition plain_chain :: "wrap_chain \<Rightarrow> nat list \<Rightarrow> bool" where
  "plain_chain c ws \<longleftrightarrow> expand (runs c) = ws \<and> positive (runs c) \<and> pattern_phase c = 0 \<and>
     pattern_len c \<le> length (runs c) \<and>
     (2 \<le> pattern_len c \<longrightarrow> wrap_runs_match_period (runs c) (pattern_len c))"

definition template_chain :: "wrap_chain \<Rightarrow> nat list \<Rightarrow> bool" where
  "template_chain c ws \<longleftrightarrow> 2 \<le> pattern_len c \<and> pattern_len c = length (runs c) \<and> positive (runs c) \<and>
     length (expand (runs c)) < length ws \<and>
     ws = cyclic_from (expand (runs c)) (pattern_phase c) (length ws)"

definition chain_repr :: "wrap_chain \<Rightarrow> nat list \<Rightarrow> bool" where
  "chain_repr c ws \<longleftrightarrow> plain_chain c ws \<or> template_chain c ws"

definition spine_ok :: "wrap_chain \<Rightarrow> bool" where
  "spine_ok c \<longleftrightarrow> (\<forall>sp. spine c = Some sp \<longrightarrow> sp_run_len sp = length (runs c) \<longrightarrow>
     (sp_after_run sp, sp_units_after sp) = spine_loop (runs c) (sp_cols sp) 0 0)"

lemma positive_length: "positive rs \<Longrightarrow> length rs \<le> length (expand rs)"
proof (induction rs)
  case (Cons r rs)
  then show ?case by (cases r) (auto simp: positive_def)
qed simp

lemma template_nonempty: "template_chain c ws \<Longrightarrow> 0 < length (expand (runs c))"
  using positive_length [of "runs c"] unfolding template_chain_def by linarith

lemma match_period_iff:
  "wrap_runs_match_period rs k \<longleftrightarrow> 2 \<le> k \<and> k \<le> length rs \<and>
     (\<forall>i. k \<le> i \<and> i < length rs \<longrightarrow> fst (rs ! i) = fst (rs ! (i mod k)) \<and>
       (if Suc i = length rs then snd (rs ! i) \<le> snd (rs ! (i mod k)) else snd (rs ! i) = snd (rs ! (i mod k))))"
proof -
  define Q where "Q i \<longleftrightarrow> fst (rs ! i) = fst (rs ! (i mod k)) \<and>
    (if Suc i = length rs then snd (rs ! i) \<le> snd (rs ! (i mod k)) else snd (rs ! i) = snd (rs ! (i mod k)))" for i
  have from_iff: "i + length rest = length rs \<Longrightarrow> drop i rs = rest \<Longrightarrow> match_period_from rs k i rest \<longleftrightarrow>
    (\<forall>j. i \<le> j \<and> j < length rs \<longrightarrow> Q j)" for i rest
  proof (induction rest arbitrary: i)
    case (Cons r rest)
    obtain w n where r: "r = (w, n)" by (cases r)
    have i: "i < length rs" using Cons.prems by simp
    have "rs ! i # drop (Suc i) rs = r # rest" using Cons.prems i by (simp add: Cons_nth_drop_Suc)
    then have i2: "rs ! i = (w, n)" and d: "drop (Suc i) rs = rest" using r by auto
    have last: "Suc i = length rs \<longleftrightarrow> rest = []" using Cons.prems(1) by (cases rest) auto
    have "match_period_from rs k i (r # rest) \<longleftrightarrow> Q i \<and> match_period_from rs k (Suc i) rest"
      using i2 last by (simp add: r Q_def Let_def)
    also have "\<dots> \<longleftrightarrow> Q i \<and> (\<forall>j. Suc i \<le> j \<and> j < length rs \<longrightarrow> Q j)"
      using Cons.IH [of "Suc i"] Cons.prems d by simp
    also have "\<dots> \<longleftrightarrow> (\<forall>j. i \<le> j \<and> j < length rs \<longrightarrow> Q j)"
      using i by (metis Suc_le_eq le_less order_refl)
    finally show ?case .
  qed auto
  show ?thesis using from_iff [of k "drop k rs"] by (auto simp: wrap_runs_match_period_def Q_def)
qed

section \<open>Appending\<close>

lemma push_run_cases:
  obtains (grow) qs m where "rs = qs @ [(w, m)]" "push_run w n rs = qs @ [(w, sat_add u32_max m n)]"
  | (new) "\<not> (rs \<noteq> [] \<and> fst (last rs) = w)" "push_run w n rs = rs @ [(w, n)]"
proof (cases "rs \<noteq> [] \<and> fst (last rs) = w")
  case True
  then have "rs = butlast rs @ [(w, snd (last rs))]" by (metis append_butlast_last_id prod.collapse)
  then show thesis using True grow [of "butlast rs" "snd (last rs)"] by (simp add: push_run_def)
next
  case False
  then have "push_run w n rs = rs @ [(w, n)]" unfolding push_run_def by (simp only: if_False)
  with False show thesis by (rule new)
qed

lemma match_period_extended:
  assumes old: "wrap_runs_match_period rs k" and k: "2 \<le> k" "k \<le> length rs"
    and c: "runs c = push_run w n rs" "k < length (runs c)"
    and ext: "wrap_run_extends_pattern c k (\<not> (rs \<noteq> [] \<and> fst (last rs) = w))"
  shows "wrap_runs_match_period (runs c) k"
proof -
  let ?new = "push_run w n rs"
  have lastc: "fst (?new ! (length ?new - 1)) = fst (?new ! ((length ?new - 1) mod k)) \<and>
      snd (?new ! (length ?new - 1)) \<le> snd (?new ! ((length ?new - 1) mod k))"
    using ext c k by (auto simp: wrap_run_extends_pattern_def Let_def split: if_splits)
  note old' = old [unfolded match_period_iff]
  show ?thesis
  proof (cases rs w n rule: push_run_cases)
    case (grow qs m)
    have len: "length ?new = length rs" using grow by simp
    have same: "?new ! i = rs ! i" if "i < length rs - 1" for i using that grow by (simp add: nth_append)
    show ?thesis unfolding c match_period_iff
    proof (intro conjI allI impI)
      fix i assume i: "k \<le> i \<and> i < length ?new"
      then have "i mod k < k" using k by simp
      then have m: "i mod k < length rs - 1" using i len k by linarith
      have e: "Suc i = length rs \<longleftrightarrow> i = length rs - 1" using i len by linarith
      show "fst (?new ! i) = fst (?new ! (i mod k))"
        using i len same [of i] same [OF m] old' lastc e by (cases "i = length rs - 1") auto
      show "if Suc i = length ?new then snd (?new ! i) \<le> snd (?new ! (i mod k)) else snd (?new ! i) = snd (?new ! (i mod k))"
        using i len same [of i] same [OF m] old' lastc e by (cases "i = length rs - 1") auto
    qed (use k len in auto)
  next
    case new
    have len: "length ?new = Suc (length rs)" using new by simp
    have same: "?new ! i = rs ! i" if "i < length rs" for i using that new by (simp add: nth_append)
    have ml: "(length rs - 1) mod k < length rs" using mod_less_eq_dividend [of "length rs - 1" k] k by linarith
    have prev: "rs ! (length rs - 1) = rs ! ((length rs - 1) mod k)"
      using ext c new k same [of "length rs - 1"] same [OF ml]
      by (auto simp: wrap_run_extends_pattern_def Let_def split: if_splits)
    show ?thesis unfolding c match_period_iff
    proof (intro conjI allI impI)
      fix i assume i: "k \<le> i \<and> i < length ?new"
      have "i mod k < k" using k by simp
      then have m: "i mod k < length rs" using k by linarith
      have exact: "?new ! i = ?new ! (i mod k)" if lt: "i < length rs"
      proof (cases "i = length rs - 1")
        case True
        then show ?thesis using same [OF lt] same [OF m] prev by simp
      next
        case False
        then have "Suc i \<noteq> length rs" by simp
        then show ?thesis using i lt same [OF lt] same [OF m] old' by (auto simp: prod_eq_iff)
      qed
      show "fst (?new ! i) = fst (?new ! (i mod k))"
        using i len exact lastc by (cases "i = length rs") auto
      show "if Suc i = length ?new then snd (?new ! i) \<le> snd (?new ! (i mod k)) else snd (?new ! i) = snd (?new ! (i mod k))"
        using i len exact lastc by (cases "i = length rs") auto
    qed (use k len in auto)
  qed
qed

lemma match_period_self: "2 \<le> length rs \<Longrightarrow> wrap_runs_match_period rs (length rs)"
  by (simp add: match_period_iff)

lemma note_appended_plain:
  assumes plain: "plain_chain c ws" and len: "length ws + 1 \<le> u32_max"
  shows "plain_chain (note_appended_wrap_run (c\<lparr>runs := push_run w 1 (runs c)\<rparr>)
      (\<not> (runs c \<noteq> [] \<and> fst (last (runs c)) = w))) (ws @ [w])"
proof -
  define c1 where "c1 = invalidate_spine (c\<lparr>runs := push_run w 1 (runs c)\<rparr>)"
  let ?p = "\<not> (runs c \<noteq> [] \<and> fst (last (runs c)) = w)"
  have r1: "runs c1 = push_run w 1 (runs c)" "pattern_len c1 = pattern_len c" "pattern_phase c1 = pattern_phase c"
    by (simp_all add: c1_def invalidate_spine_def)
  have ex: "expand (runs c1) = ws @ [w]"
    using expand_push_run [of "runs c" 1 w] plain len r1 by (simp add: plain_chain_def)
  have pos: "positive (runs c1)" using positive_push_run [of "runs c" 1 w] plain r1 by (simp add: plain_chain_def)
  have lens: "length (runs c) \<le> length (runs c1)" unfolding r1
    by (cases "runs c" w "1::nat" rule: push_run_cases) auto
  have le: "pattern_len c \<le> length (runs c)" using plain by (simp add: plain_chain_def)
  have set_len: "plain_chain (c1\<lparr>pattern_len := n\<rparr>) (ws @ [w])" if "n \<le> length (runs c1)"
      "2 \<le> n \<longrightarrow> wrap_runs_match_period (runs c1) n" for n
    using that ex pos plain r1 by (simp add: plain_chain_def)
  have same: "plain_chain c1 (ws @ [w])" if "2 \<le> pattern_len c \<longrightarrow> wrap_runs_match_period (runs c1) (pattern_len c)"
    using that ex pos plain r1 lens le by (simp add: plain_chain_def)
  have ext: "wrap_runs_match_period (runs c1) (pattern_len c)"
    if "2 \<le> pattern_len c" "pattern_len c < length (runs c1)" "wrap_run_extends_pattern c1 (pattern_len c) ?p"
    using match_period_extended [OF _ that(1) le _ that(2), of w 1] that plain r1 by (simp add: plain_chain_def)
  have full: "length (runs c1) \<le> pattern_len c \<Longrightarrow> 2 \<le> pattern_len c \<Longrightarrow> wrap_runs_match_period (runs c1) (pattern_len c)"
    using match_period_self [of "runs c1"] le lens by (metis le_antisym order_trans)
  have self: "2 \<le> length (runs c1) \<Longrightarrow> wrap_runs_match_period (runs c1) (length (runs c1))"
    by (rule match_period_self)
  show ?thesis
    unfolding note_appended_wrap_run_def c1_def [symmetric] Let_def r1(2)
    using set_len [of "length (runs c1)"] set_len [of 0] same ext full self
    by (auto simp del: One_nat_def)
qed

lemma append_wrap_units_plain:
  assumes "plain_chain c ws" "length ws + length us \<le> u32_max"
  shows "plain_chain (append_wrap_units c us) (ws @ map (max 1) us)"
  using assms
proof (induction us arbitrary: c ws)
  case (Cons u us)
  have "plain_chain (note_appended_wrap_run (c\<lparr>runs := push_run (max u 1) 1 (runs c)\<rparr>)
      (\<not> (runs c \<noteq> [] \<and> fst (last (runs c)) = max u 1))) (ws @ [max u 1])"
    using note_appended_plain [OF Cons.prems(1)] Cons.prems(2) by simp
  from Cons.IH [OF this] Cons.prems(2) show ?case by (simp add: Let_def max.commute)
qed simp

lemma compact_repr:
  assumes "plain_chain c ws"
  shows "chain_repr (compact_repeating_wrap_runs c) ws"
proof (cases "2 \<le> pattern_len c \<and> pattern_len c < length (runs c)")
  case True
  let ?k = "pattern_len c" let ?T = "take ?k (runs c)"
  have m: "wrap_runs_match_period (runs c) ?k" and ex: "expand (runs c) = ws" and pos: "positive (runs c)"
    and ph: "pattern_phase c = 0"
    using assms True by (auto simp: plain_chain_def)
  have sp: "expand (runs c) = expand ?T @ expand (drop ?k (runs c))" by (metis append_take_drop_id expand_simps(3))
  have "positive (drop ?k (runs c))" using pos by (auto simp: positive_def dest: in_set_dropD)
  then have "0 < length (expand (drop ?k (runs c)))" using positive_length [of "drop ?k (runs c)"] True unfolding length_drop by linarith
  then have lt: "length (expand ?T) < length ws" using sp ex by simp
  have "ws = cyclic (expand ?T) (length ws)"
    using match_period_cyclic [OF m, of "length ws"] ex by simp
  moreover have "positive ?T" using pos by (auto simp: positive_def dest: in_set_takeD)
  ultimately have "template_chain (compact_repeating_wrap_runs c) ws"
    using True lt ph
    by (simp add: template_chain_def compact_repeating_wrap_runs_def invalidate_spine_def cyclic_from_0 min_def)
  then show ?thesis by (simp add: chain_repr_def)
next
  case False
  then have "compact_repeating_wrap_runs c = c" by (auto simp: compact_repeating_wrap_runs_def)
  then show ?thesis using assms by (simp add: chain_repr_def)
qed

lemma fold_push_run:
  "length (expand rs) + length us \<le> u32_max \<Longrightarrow> positive rs \<Longrightarrow>
    expand (fold (\<lambda>w. push_run (max w 1) 1) us rs) = expand rs @ map (max 1) us \<and>
    positive (fold (\<lambda>w. push_run (max w 1) 1) us rs)"
proof (induction us arbitrary: rs)
  case (Cons u us)
  have "expand (push_run (max u 1) 1 rs) = expand rs @ [max u 1]"
    using expand_push_run [of rs 1 "max u 1"] Cons.prems by simp
  then show ?case using Cons.IH [of "push_run (max u 1) 1 rs"] Cons.prems positive_push_run [of rs 1]
    by (simp add: max.commute)
qed simp

lemma append_compacted_repr:
  assumes "2 \<le> pattern_len c" "pattern_len c = length (runs c)" "positive (runs c)"
    "length (expand (runs c)) < pre + index"
    "pattern_phase c + pre + index + length us \<le> u32_max"
  shows "chain_repr (append_compacted_loop c us pre index)
    (cyclic_from (expand (runs c)) (pattern_phase c) (pre + index) @ map (max 1) us)"
  using assms(4,5)
proof (induction us arbitrary: index)
  case Nil
  then show ?case using assms(1-3) by (simp add: chain_repr_def template_chain_def)
next
  case (Cons u us)
  let ?W = "expand (runs c)" let ?ph = "pattern_phase c"
  have W: "0 < length ?W" "length ?W \<le> u32_max"
    using positive_length [OF assms(3)] assms(1,2) Cons.prems by linarith+
  have im: "index mod 2 ^ 32 = index" using Cons.prems by (intro mod_less) simp
  have s1: "sat_add u32_max ?ph pre = ?ph + pre" "sat_add u32_max (?ph + pre) index = ?ph + pre + index"
    "sat_add u32_max pre index = pre + index"
    using Cons.prems by (simp_all add: sat_add_exact)
  have at: "wrap_pattern_width_at (runs c) (?ph + pre + index) = Some (?W ! ((?ph + (pre + index)) mod length ?W))"
    using wrap_pattern_width_at_eq [OF W] by (simp add: add.assoc)
  show ?case
  proof (cases "?W ! ((?ph + (pre + index)) mod length ?W) = max u 1")
    case True
    have "cyclic_from ?W ?ph (pre + (index + 1)) = cyclic_from ?W ?ph (pre + index) @ [max u 1]"
      using cyclic_from_Suc [of ?W ?ph "pre + index"] True by simp
    then show ?thesis using Cons.IH [of "index + 1"] Cons.prems at True im s1 by (simp add: max.commute)
  next
    case False
    have sl: "expand (wrap_pattern_slice (runs c) ?ph (pre + index)) = cyclic_from ?W ?ph (pre + index)"
      "positive (wrap_pattern_slice (runs c) ?ph (pre + index))"
      using wrap_pattern_slice_eq [OF W, of "pre + index" ?ph] Cons.prems by auto
    have "length (expand (wrap_pattern_slice (runs c) ?ph (pre + index))) + length (u # us) \<le> u32_max"
      using Cons.prems by (simp add: sl)
    from fold_push_run [OF this sl(2)] show ?thesis
      using False at im s1 sl by (simp add: Let_def invalidate_spine_def chain_repr_def plain_chain_def)
  qed
qed

definition wrap_widths :: "history_line \<Rightarrow> nat list" where
  "wrap_widths l = map (\<lambda>u. max 1 (hu_width u)) (hl_units l)"

definition chain_ok :: "wrap_chain \<Rightarrow> nat list \<Rightarrow> bool" where
  "chain_ok c ws \<longleftrightarrow> chain_repr c ws \<and> chain_total c = length ws \<and> spine_ok c"

lemma fragments_kept [simp]:
  "fragments (invalidate_spine c) = fragments c"
  "fragments (compact_repeating_wrap_runs c) = fragments c"
  "fragments (note_appended_wrap_run c p) = fragments c"
  by (simp_all add: invalidate_spine_def compact_repeating_wrap_runs_def note_appended_wrap_run_def Let_def)

lemma fragments_append_wrap_units [simp]: "fragments (append_wrap_units c us) = fragments c"
  by (induction us arbitrary: c) (simp_all add: Let_def)

lemma fragments_append_compacted [simp]: "fragments (append_compacted_loop c us p i) = fragments c"
  by (induction us arbitrary: i) (simp_all add: Let_def)

lemma spine_note [simp]: "spine (note_appended_wrap_run c p) = None"
  by (simp add: note_appended_wrap_run_def Let_def invalidate_spine_def)

lemma spine_append_wrap_units: "us \<noteq> [] \<or> spine c = None \<Longrightarrow> spine (append_wrap_units c us) = None"
  by (induction us arbitrary: c) (simp_all add: Let_def)

lemma spine_ok_compact: "spine c = None \<Longrightarrow> spine_ok (compact_repeating_wrap_runs c)"
  by (simp add: spine_ok_def compact_repeating_wrap_runs_def invalidate_spine_def)

lemma spine_ok_append_compacted: "spine_ok c \<Longrightarrow> spine_ok (append_compacted_loop c us p i)"
  by (induction us arbitrary: i) (simp_all add: Let_def, simp add: spine_ok_def invalidate_spine_def)

lemma chain_total_snoc:
  assumes "fragments c = fs @ [f]"
  shows "chain_total c = sat_add u32_max (wf_prefix f) (wf_count f)"
  using assms by (simp add: chain_total_def)

lemma chain_repr_open [simp]: "chain_repr (c\<lparr>chain_open := b\<rparr>) ws = chain_repr c ws"
  by (simp add: chain_repr_def plain_chain_def template_chain_def)

lemma chain_total_open [simp]: "chain_total (c\<lparr>chain_open := b\<rparr>) = chain_total c"
  by (simp add: chain_total_def)

lemma spine_ok_open [simp]: "spine_ok (c\<lparr>chain_open := b\<rparr>) = spine_ok c"
  by (simp add: spine_ok_def)

lemma chain_repr_fragments [simp]: "chain_repr (c\<lparr>fragments := b\<rparr>) ws = chain_repr c ws"
  by (simp add: chain_repr_def plain_chain_def template_chain_def)

lemma extend_chain_ok:
  assumes ok: "chain_ok c ws" and ph: "pattern_phase c = 0" and ne: "hl_units line \<noteq> []"
    and len: "length ws + length (hl_units line) \<le> u32_max"
  shows "chain_ok (extend_chain c line) (ws @ wrap_widths line)"
proof -
  define widths where "widths = map hu_width (hl_units line)"
  define c1 where "c1 = c\<lparr>fragments := fragments c @ [\<lparr>wf_line = hl_id line, wf_start = hl_start line,
    wf_count = u32_of (length widths), wf_prefix = chain_total c\<rparr>]\<rparr>"
  define c2 where "c2 = (if wrap_chain_is_compacted c1 (wrap_runs_unit_sum (runs c1)) (chain_total c)
    then append_compacted_wrap_runs c1 widths (chain_total c)
    else compact_repeating_wrap_runs (append_wrap_units c1 widths))"
  have ext: "extend_chain c line = c2\<lparr>chain_open := (hl_break line = SoftWrap)\<rparr>"
    by (simp add: extend_chain_def Let_def widths_def c1_def c2_def)
  have tot: "chain_total c = length ws" using ok by (simp add: chain_ok_def)
  have wn: "widths \<noteq> []" "length widths = length (hl_units line)" using ne by (simp_all add: widths_def)
  have ww: "wrap_widths line = map (max 1) widths" by (simp add: wrap_widths_def widths_def comp_def)
  have sp1: "spine_ok c1" using ok by (simp add: chain_ok_def spine_ok_def c1_def)
  have repr: "chain_repr c2 (ws @ map (max 1) widths) \<and> spine_ok c2 \<and> fragments c2 = fragments c1"
  proof (cases "template_chain c ws")
    case True
    have u: "wrap_runs_unit_sum (runs c) = length (expand (runs c))"
      using True len by (simp add: template_chain_def wrap_runs_unit_sum_eq)
    have comp: "wrap_chain_is_compacted c1 (wrap_runs_unit_sum (runs c1)) (chain_total c)"
    proof -
      have "2 \<le> pattern_len c" "pattern_len c = length (runs c)" "length (expand (runs c)) < length ws"
        using True unfolding template_chain_def by linarith+
      then show ?thesis using u tot by (auto simp: wrap_chain_is_compacted_def c1_def)
    qed
    have "chain_repr (append_compacted_loop c1 widths (length ws) 0) (ws @ map (max 1) widths)"
      using append_compacted_repr [of c1 "length ws" 0 widths] True len wn ph
      by (simp add: template_chain_def c1_def)
    then show ?thesis using comp sp1 tot
      by (simp add: c2_def append_compacted_wrap_runs_def spine_ok_append_compacted)
  next
    case False
    then have pl: "plain_chain c ws" using ok by (simp add: chain_ok_def chain_repr_def)
    then have pl1: "plain_chain c1 ws" by (simp add: plain_chain_def c1_def)
    have "wrap_runs_unit_sum (runs c) = length ws"
      using pl len by (simp add: plain_chain_def wrap_runs_unit_sum_eq)
    then have comp: "\<not> wrap_chain_is_compacted c1 (wrap_runs_unit_sum (runs c1)) (chain_total c)"
      using tot by (simp add: wrap_chain_is_compacted_def c1_def)
    have "plain_chain (append_wrap_units c1 widths) (ws @ map (max 1) widths)"
      using append_wrap_units_plain [OF pl1] len wn by simp
    then show ?thesis using comp compact_repr wn
      by (simp add: c2_def spine_ok_compact spine_append_wrap_units)
  qed
  have "chain_total c2 = length ws + length widths"
    using repr len wn tot
    by (subst chain_total_snoc [of _ "fragments c" "\<lparr>wf_line = hl_id line, wf_start = hl_start line,
      wf_count = u32_of (length widths), wf_prefix = chain_total c\<rparr>"])
      (simp_all add: c1_def u32_of_def sat_add_def)
  then show ?thesis using repr unfolding ext ww
    by (simp add: chain_ok_def)
qed

lemma phase_kept:
  "pattern_phase c = 0 \<Longrightarrow> pattern_phase (extend_chain c line) = 0"
proof -
  have a: "pattern_phase c = 0 \<Longrightarrow> pattern_phase (append_wrap_units c us) = 0" for c us
    by (induction us arbitrary: c) (simp_all add: Let_def note_appended_wrap_run_def invalidate_spine_def)
  have b: "pattern_phase c = 0 \<Longrightarrow> pattern_phase (append_compacted_loop c us p i) = 0" for c us p i
    by (induction us arbitrary: i) (simp_all add: Let_def)
  show "pattern_phase c = 0 \<Longrightarrow> pattern_phase (extend_chain c line) = 0"
    by (simp add: extend_chain_def Let_def append_compacted_wrap_runs_def a b compact_repeating_wrap_runs_def invalidate_spine_def)
qed

section \<open>Reading\<close>

lemma ensure_spine_occupancy:
  assumes "0 < cols" "cols \<le> 256" "spine_ok c" "length (expand (runs c)) \<le> u32_max" "runs c \<noteq> []" "0 < n"
  shows "\<exists>sp. spine (ensure_aperiodic_spine c cols) = Some sp \<and> runs (ensure_aperiodic_spine c cols) = runs c \<and>
    spine_occupancy sp (runs c) cols n = occupancy cols (take n (expand (runs c))) 0"
proof -
  obtain after units where sl: "spine_loop (runs c) cols 0 0 = (after, units)" by fastforce
  have occ: "spine_occupancy sp (runs c) cols n = occupancy cols (take n (expand (runs c))) 0"
    if "sp_after_run sp = after" "sp_units_after sp = units" for sp
    using ephemeral_spine_eq [OF assms(1,2,4), of n] assms sl that
    by (simp add: wrap_occupancy_with_ephemeral_spine_def spine_occupancy_def Let_def cong: if_cong)
  show ?thesis
  proof (cases "\<exists>sp. spine c = Some sp \<and> sp_cols sp = cols \<and> sp_run_len sp = length (runs c)")
    case True
    then obtain sp where sp: "spine c = Some sp" "sp_cols sp = cols" "sp_run_len sp = length (runs c)" by blast
    then have "sp_after_run sp = after \<and> sp_units_after sp = units" using assms(3) sl by (simp add: spine_ok_def)
    then show ?thesis using sp occ by (simp add: ensure_aperiodic_spine_def)
  next
    case False
    then show ?thesis using occ sl by (auto simp: ensure_aperiodic_spine_def split: option.split)
  qed
qed

lemma wrap_occupancy_indexed_eq:
  assumes ok: "chain_ok c ws" and cols: "0 < cols" "cols \<le> 256" and len: "length ws \<le> u32_max" and n: "n \<le> length ws"
  shows "snd (wrap_occupancy_indexed c cols n) = occupancy cols (take n ws) 0"
proof (cases "template_chain c ws")
  case True
  let ?W = "expand (runs c)" let ?P = "length ?W" let ?ph = "pattern_phase c"
  have W: "0 < ?P" using template_nonempty [OF True] .
  have Wl: "?P \<le> u32_max" using True len by (simp add: template_chain_def)
  have ws: "take n ws = cyclic_from ?W ?ph n"
    using True n take_cyclic_from [of n "length ws" ?W ?ph] by (metis template_chain_def)
  have pat: "wrap_chain_pattern c = Some (runs c)" using True by (simp add: wrap_chain_pattern_def template_chain_def)
  have "wrap_occupancy_repeating_from (runs c) ?ph cols n = occupancy cols (cyclic_from ?W ?ph n) 0"
  proof (cases "?ph mod ?P = 0")
    case True
    have "cyclic_from ?W ?ph n = cyclic ?W n" using cyclic_from_mod [of ?W ?ph n] True by (simp add: cyclic_from_0)
    then show ?thesis using True W Wl wrap_occupancy_repeating_eq [OF cols(1) Wl W, of n]
      by (simp add: wrap_occupancy_repeating_from_def Let_def wrap_runs_unit_sum_eq min_absorb1)
  next
    case False
    let ?R = "wrap_pattern_slice (runs c) (?ph mod ?P) ?P"
    have R: "expand ?R = cyclic_from ?W (?ph mod ?P) ?P" using wrap_pattern_slice_eq [OF W Wl Wl] by simp
    have "cyclic (expand ?R) n = cyclic_from ?W ?ph n"
      using W cyclic_rotated [of ?W "?ph mod ?P" n] by (simp add: R cyclic_from_mod)
    moreover have "wrap_occupancy_repeating ?R cols n = occupancy cols (cyclic (expand ?R) n) 0"
      by (rule wrap_occupancy_repeating_eq) (use cols W Wl in \<open>simp_all add: R\<close>)
    ultimately show ?thesis using False W Wl
      by (simp add: wrap_occupancy_repeating_from_def Let_def wrap_runs_unit_sum_eq min_absorb1)
  qed
  then show ?thesis using pat ws by (simp add: wrap_occupancy_indexed_def)
next
  case False
  then have pl: "plain_chain c ws" using ok by (simp add: chain_ok_def chain_repr_def)
  then have ex: "expand (runs c) = ws" and pos: "positive (runs c)" and ph: "pattern_phase c = 0"
    by (auto simp: plain_chain_def)
  show ?thesis
  proof (cases "2 \<le> pattern_len c")
    case True
    let ?k = "pattern_len c" let ?T = "take ?k (runs c)"
    have m: "wrap_runs_match_period (runs c) ?k" and kl: "?k \<le> length (runs c)"
      using pl True by (auto simp: plain_chain_def)
    have "positive ?T" using pos by (auto simp: positive_def dest: in_set_takeD)
    then have T: "0 < length (expand ?T)" using positive_length [of ?T] True kl by (metis length_take min_absorb2 not_numeral_le_zero le_zero_eq gr0I)
    have "ws = expand ?T @ expand (drop ?k (runs c))" using ex by (metis append_take_drop_id expand_simps(3))
    then have Tl: "length (expand ?T) \<le> u32_max" using len by simp
    have "take n ws = cyclic (expand ?T) n" using match_period_cyclic [OF m, of n] ex n by simp
    then show ?thesis using True kl ph T Tl wrap_occupancy_repeating_eq [OF cols(1) Tl T, of n]
      by (simp add: wrap_occupancy_indexed_def wrap_chain_pattern_def wrap_occupancy_repeating_from_def
          wrap_runs_unit_sum_eq min_absorb1)
  next
    case False
    then have np: "wrap_chain_pattern c = None" by (simp add: wrap_chain_pattern_def)
    have so: "spine_ok c" using ok by (simp add: chain_ok_def)
    have e: "expand (runs c) = ws" by (rule ex)
    show ?thesis
    proof (cases "n = 0 \<or> runs c = []")
      case True
      then have "take n ws = []" using ex by auto
      then show ?thesis using True np by (auto simp: wrap_occupancy_indexed_def wrap_occupancy_aperiodic_def)
    next
      case False
      have "u16_of cols = cols" using cols by (simp add: u16_of_def)
      then show ?thesis
        using False np cols ensure_spine_occupancy [OF cols so, of n] wrap_occupancy_for_runs_eq [OF cols, of "runs c" n] len n
        by (auto simp: wrap_occupancy_indexed_def wrap_occupancy_aperiodic_def e Let_def)
    qed
  qed
qed

section \<open>Properties\<close>

lemma default_chain_ok: "chain_ok default_chain []"
  by (simp add: chain_ok_def chain_repr_def plain_chain_def default_chain_def positive_def spine_ok_def chain_total_def)

lemma fold_extend_ok:
  assumes "chain_ok c ws" "pattern_phase c = 0" "\<forall>l \<in> set ls. hl_units l \<noteq> []"
    "length ws + length (concat (map wrap_widths ls)) \<le> u32_max"
  shows "chain_ok (fold (\<lambda>l c. extend_chain c l) ls c) (ws @ concat (map wrap_widths ls))"
  using assms
proof (induction ls arbitrary: c ws)
  case (Cons l ls)
  have "length (hl_units l) = length (wrap_widths l)" by (simp add: wrap_widths_def)
  then have "chain_ok (extend_chain c l) (ws @ wrap_widths l)"
    using extend_chain_ok [OF Cons.prems(1,2)] Cons.prems(3,4) by simp
  then show ?case using Cons.IH [of "extend_chain c l" "ws @ wrap_widths l"] phase_kept Cons.prems by simp
qed simp

text \<open>
  The accelerated column computation (pattern detection, cycle
  skipping and the per-run spine) gives the column reached by laying out the first \<open>n\<close> units of a
  run-length encoded line one by one, for every width up to 256 columns.
\<close>

lemma wrap_occupancy_exact:
  assumes "0 < cols" and "cols \<le> 256" and "length (expand rs) \<le> u32_max" and "n \<le> length (expand rs)"
  shows "wrap_occupancy_for_runs rs cols n = occupancy cols (take n (expand rs)) 0"
  using assms by (rule wrap_occupancy_for_runs_eq)

text \<open>
  C12 (wrap_index_exact): the chain built by appending non-empty lines to a new chain, at most
  \<open>u32_max\<close> units in all and with all its compaction of repeating patterns, answers on a grid of 1
  to 256 columns for every cut the column obtained by laying out the widths of those lines one by
  one; it never loses or invents a unit.
\<close>

theorem wrap_index_exact:
  assumes "\<forall>l \<in> set ls. hl_units l \<noteq> []" and "length (concat (map wrap_widths ls)) \<le> u32_max"
    and "0 < cols" and "cols \<le> 256" and "n \<le> length (concat (map wrap_widths ls))"
  defines "c \<equiv> fold (\<lambda>l c. extend_chain c l) ls default_chain"
  shows "snd (wrap_occupancy_indexed c cols n) = occupancy cols (take n (concat (map wrap_widths ls))) 0 \<and>
    chain_total c = length (concat (map wrap_widths ls))"
proof -
  have ok: "chain_ok c (concat (map wrap_widths ls))"
    using fold_extend_ok [OF default_chain_ok _ assms(1)] assms(2) by (simp add: c_def default_chain_def)
  then show ?thesis using wrap_occupancy_indexed_eq [OF ok assms(3,4,2,5)] by (simp add: chain_ok_def)
qed

definition sample_line :: "nat \<Rightarrow> nat \<Rightarrow> nat list \<Rightarrow> history_line" where
  "sample_line i start widths = \<lparr>hl_id = LineId i,
     hl_units = map (\<lambda>w. \<lparr>hu_utf8 = [0x61], hu_width = w, hu_style = default_style\<rparr>) widths,
     hl_break = SoftWrap, hl_start = start\<rparr>"

theorem wrap_index_exact_witness:
  "snd (wrap_occupancy_indexed (fold (\<lambda>l c. extend_chain c l) [sample_line 1 0 [1, 2, 1, 2, 1], sample_line 2 0 [2, 2]]
     default_chain) 4 6) = 2"
proof -
  have "snd (wrap_occupancy_indexed (fold (\<lambda>l c. extend_chain c l) [sample_line 1 0 [1, 2, 1, 2, 1], sample_line 2 0 [2, 2]]
      default_chain) 4 6) = occupancy 4 (take 6 (concat (map wrap_widths [sample_line 1 0 [1, 2, 1, 2, 1], sample_line 2 0 [2, 2]]))) 0"
    using wrap_index_exact [of "[sample_line 1 0 [1, 2, 1, 2, 1], sample_line 2 0 [2, 2]]" 4 6]
    by (simp add: sample_line_def wrap_widths_def)
  also have "\<dots> = 2" by (simp add: sample_line_def wrap_widths_def wrap_advance_def Let_def)
  finally show ?thesis .
qed

section \<open>Two deviations\<close>

lemma occupancy_ones: "n + u < cols \<Longrightarrow> occupancy cols (replicate n 1) u = u + n"
  by (induction n arbitrary: u) (simp_all add: wrap_advance_def Let_def)

definition wide_runs :: "run list" where
  "wide_runs = (1, 300) # (2, 1) # concat (map (\<lambda>i. [(1, i + 2), (2, i + 3)]) [0..<32])"

text \<open>
  C32 (wrap_spine_saturates): with more than 64 runs that repeat no period, the column answered at the
  end of any run is the true column cut to 255, because the spine keeps columns as \<open>u8\<close>.  The
  widest grid has 512 columns, so from column 256 on the answer is wrong.
\<close>

theorem wrap_spine_saturates:
  assumes "wrap_repeating_period rs = None" "length rs > APERIODIC_INLINE_RUN_BOUND"
    and "0 < cols" "length (expand rs) \<le> u32_max" "n = length (expand (take k rs))" "0 < n"
  shows "wrap_occupancy_for_runs rs cols n = min (occupancy cols (take n (expand rs)) 0) u8_max"
  using assms(1,2) spine_at_boundary [OF assms(3-6)] by (simp add: wrap_occupancy_for_runs_def)

theorem wrap_spine_saturates_witness:
  "wrap_occupancy_for_runs wide_runs 512 300 = 255 \<and> occupancy 512 (take 300 (expand wide_runs)) 0 = 300"
proof -
  have per: "wrap_repeating_period wide_runs = None" by code_simp
  have len: "length wide_runs > APERIODIC_INLINE_RUN_BOUND"
    by (simp add: wide_runs_def length_concat comp_def sum_list_triv APERIODIC_INLINE_RUN_BOUND_def)
  have units: "length (expand wide_runs) \<le> u32_max" by (simp add: wide_runs_def upt_conv_Cons)
  have first: "300 = length (expand (take 1 wide_runs))" "take 300 (expand wide_runs) = replicate 300 1"
    by (simp_all add: wide_runs_def)
  have occ: "occupancy 512 (take 300 (expand wide_runs)) 0 = 300" using first(2) occupancy_ones [of 300 0 512] by simp
  show ?thesis using wrap_spine_saturates [OF per len _ units first(1), of 512] occ by simp
qed

text \<open>
  Trimming a compacted chain to less than one period leaves the whole template in \<open>runs\<close>, and the
  next append takes it for the units kept: two narrow units then answer column 3, not 2.
\<close>

lemma wrap_trim_then_append_wrong:
  "let c = extend_chain (trim_chain_suffix \<lparr>anchor_line = LineId 1, unit_offset = 1\<rparr>
        (extend_chain default_chain (sample_line 1 0 [1, 2, 1]))) (sample_line 2 0 [1])
   in map wf_count (fragments c) = [1, 1] \<and> snd (wrap_occupancy_indexed c 10 2) = 3 \<and> occupancy 10 [1, 1] 0 = 2"
proof -
  let ?f = "\<lambda>n. \<lparr>wf_line = LineId 1, wf_start = 0, wf_count = n, wf_prefix = 0\<rparr>"
  let ?c = "\<lambda>fs rs k b. \<lparr>fragments = fs, runs = rs, pattern_len = k, pattern_phase = 0, chain_open = b, spine = None\<rparr>"
  define c1 where "c1 = extend_chain default_chain (sample_line 1 0 [1, 2, 1])"
  define c2 where "c2 = trim_chain_suffix \<lparr>anchor_line = LineId 1, unit_offset = 1\<rparr> c1"
  define c3 where "c3 = extend_chain c2 (sample_line 2 0 [1])"
  have n: "note_appended_wrap_run (?c fs (push_run a (Suc 0) []) 0 b) True = ?c fs [(a, Suc 0)] (Suc 0) b"
    "a \<noteq> d \<Longrightarrow> note_appended_wrap_run (?c fs (push_run d (Suc 0) [(a, Suc 0)]) (Suc 0) b) True
       = ?c fs [(a, Suc 0), (d, Suc 0)] 2 b"
    "a \<noteq> d \<Longrightarrow> note_appended_wrap_run (?c fs (push_run a (Suc 0) [(a, Suc 0), (d, Suc 0)]) 2 b) True
       = ?c fs [(a, Suc 0), (d, Suc 0), (a, Suc 0)] 2 b" for fs a d b
    by (simp_all add: note_appended_wrap_run_def push_run_def wrap_run_extends_pattern_def
        WRAP_PATTERN_MAX_def invalidate_spine_def)
  note defs = extend_chain_def chain_total_def wrap_chain_is_compacted_def wrap_runs_unit_sum_def
    compact_repeating_wrap_runs_def invalidate_spine_def u32_of_def sat_add_def sample_line_def Let_def
  have c1: "c1 = ?c [?f 3] [(1, 1), (2, 1)] 2 True"
    unfolding c1_def by (simp add: defs default_chain_def n)
  have c2: "c2 = ?c [?f 1] [(1, 1), (2, 1)] 2 True"
    unfolding c2_def c1 by (simp add: defs trim_chain_suffix_def units_before_def partition_point_def
        fragment_before_def fragment_at_def less_line_id_def)
  have c3: "c3 = ?c [?f 1, \<lparr>wf_line = LineId 2, wf_start = 0, wf_count = 1, wf_prefix = 1\<rparr>] [(1, 1), (2, 1)] 2 True"
    unfolding c3_def c2 by (simp add: defs n)
  have "wrap_occupancy_repeating [(1, 1), (2, 1)] 10 2 = occupancy 10 (cyclic [1, 2] 2) 0"
    using wrap_occupancy_repeating_eq [of 10 "[(1, 1), (2, 1)]" 2] by simp
  also have "\<dots> = 3" by (simp add: cyclic_take wrap_advance_def Let_def)
  finally have "snd (wrap_occupancy_indexed c3 10 2) = 3"
    by (simp add: c3 wrap_occupancy_indexed_def wrap_chain_pattern_def wrap_occupancy_repeating_from_def
        wrap_runs_unit_sum_def sat_add_def)
  moreover have "occupancy 10 [1, 1] 0 = 2" by (simp add: wrap_advance_def Let_def)
  moreover have "map wf_count (fragments c3) = [1, 1]" by (simp add: c3)
  ultimately show ?thesis unfolding Let_def c3_def c2_def c1_def by blast
qed

end
