(* ===== verification/Eviction.thy ===== *)
theory Eviction
  imports History_Types
begin

text \<open>
  The index of evicted line identities, \<open>crates/seyal-terminal/src/history/eviction.rs\<close>: recent
  runs of identities, a dense prefix, up to eight sparse bitmaps, exact overflow runs and, when
  all of these are full, a fail-closed span.

  The fields of \<open>HistoryStore\<close> that make up the index are the record \<open>evicted_index\<close>; identities
  are the raw \<open>u64\<close> under \<open>LineId\<close>.
\<close>

unbundle bit_operations_syntax

section \<open>Bitmaps\<close>

definition MAX_EVICTED_ID_RANGES :: nat where "MAX_EVICTED_ID_RANGES = 1024"

definition MAX_EVICTED_BITMAP_BITS :: nat where "MAX_EVICTED_BITMAP_BITS = 65536"

definition MAX_EVICTED_BITMAPS :: nat where "MAX_EVICTED_BITMAPS = 8"

definition MAX_EVICTED_OVERFLOW_RANGES :: nat where "MAX_EVICTED_OVERFLOW_RANGES = 1024"

record evicted_id_range =
  er_first :: nat
  er_last :: nat

record evicted_bitmap =
  origin :: nat
  bm_len :: nat
  bm_words :: "64 word list"

definition default_bitmap :: evicted_bitmap where
  "default_bitmap = \<lparr>origin = 0, bm_len = 0, bm_words = []\<rparr>"

definition bitmap_allocated_bytes :: "layout \<Rightarrow> evicted_bitmap \<Rightarrow> nat" where
  "bitmap_allocated_bytes lay b =
    sat_add u64_max (size_evicted_bitmap lay) (sat_mul u64_max (vec_cap lay (length (bm_words b))) 8)"

definition bitmap_contains :: "evicted_bitmap \<Rightarrow> nat \<Rightarrow> bool" where
  "bitmap_contains b i =
    (if i < origin b then False
     else
       let k = i - origin b in
       if k \<ge> bm_len b then False
       else k div 64 < length (bm_words b) \<and> drop_bit (k mod 64) (bm_words b ! (k div 64)) AND 1 = 1)"

function intersects_loop :: "64 word list \<Rightarrow> nat \<Rightarrow> nat \<Rightarrow> bool" where
  "intersects_loop ws k to_bit =
    (if k > to_bit then False
     else if k div 64 \<ge> length ws then False
     else
       let off = k mod 64;
           span = min (to_bit - k + 1) (64 - off);
           mask = (if span = 64 then - 1 else push_bit span 1 - 1)
       in if drop_bit off (ws ! (k div 64)) AND mask \<noteq> 0 then True
          else intersects_loop ws (k + span) to_bit)"
  by pat_completeness auto
termination
proof (relation "measure (\<lambda>(ws, k, to_bit). Suc to_bit - k)", goal_cases)
  case (2 ws k to_bit off span mask)
  have "k mod 64 < 64" by simp
  then have "0 < span" using 2 by linarith
  moreover have "k \<le> to_bit" using 2 by simp
  ultimately show ?case by simp
qed simp

declare intersects_loop.simps [simp del]

definition bitmap_intersects :: "evicted_bitmap \<Rightarrow> nat \<Rightarrow> nat \<Rightarrow> bool" where
  "bitmap_intersects b start ending =
    (if bm_len b = 0 then False
     else
       let window_last = sat_add u64_max (origin b) (bm_len b - 1) in
       if ending < origin b \<or> start > window_last then False
       else intersects_loop (bm_words b) (max start (origin b) - origin b) (min ending window_last - origin b))"

definition resize_to :: "nat \<Rightarrow> evicted_bitmap \<Rightarrow> evicted_bitmap" where
  "resize_to span b =
    (let n = (span + 63) div 64 in
     b\<lparr>bm_len := span,
       bm_words := (if length (bm_words b) < n
         then bm_words b @ replicate (n - length (bm_words b)) 0 else bm_words b)\<rparr>)"

definition set_one :: "nat \<Rightarrow> evicted_bitmap \<Rightarrow> evicted_bitmap" where
  "set_one i b =
    (let k = i - origin b in
     if k div 64 < length (bm_words b)
     then b\<lparr>bm_words := (bm_words b)[k div 64 := bm_words b ! (k div 64) OR push_bit (k mod 64) 1]\<rparr>
     else b)"

definition set_range :: "nat \<Rightarrow> nat \<Rightarrow> evicted_bitmap \<Rightarrow> evicted_bitmap" where
  "set_range first_id last_id b = fold set_one [first_id..<Suc last_id] b"

definition try_insert_range :: "nat \<Rightarrow> nat \<Rightarrow> evicted_bitmap \<Rightarrow> evicted_bitmap \<times> bool" where
  "try_insert_range first_id last_id b =
    (if last_id < first_id then (b, False)
     else if bm_len b = 0 then
       (let span = sat_add u64_max (last_id - first_id) 1 in
        if span = 0 \<or> span > MAX_EVICTED_BITMAP_BITS then (b, False)
        else (set_range first_id last_id (resize_to span (b\<lparr>origin := first_id\<rparr>)), True))
     else if first_id < origin b \<or> last_id < origin b then (b, False)
     else
       let current_last = sat_add u64_max (origin b) (bm_len b - 1);
           new_last = max current_last last_id;
           span = sat_add u64_max (new_last - origin b) 1
       in if span > MAX_EVICTED_BITMAP_BITS then (b, False)
          else (set_range first_id last_id (resize_to span b), True))"

section \<open>The index\<close>

record evicted_index =
  id_ranges :: "evicted_id_range list"
  id_ranges_cap :: nat
  evicted_from :: "nat option"
  evicted_through :: "nat option"
  bitmaps :: "evicted_bitmap list"
  overflow_ranges :: "evicted_id_range list"
  overflow_cap :: nat
  index_saturated :: bool
  saturated_from :: "nat option"
  saturated_through :: "nat option"

definition new_index :: evicted_index where
  "new_index = \<lparr>id_ranges = [], id_ranges_cap = 0, evicted_from = None, evicted_through = None, bitmaps = [],
     overflow_ranges = [], overflow_cap = 0, index_saturated = False, saturated_from = None,
     saturated_through = None\<rparr>"

definition fail_closed_evicted_range :: "evicted_id_range \<Rightarrow> evicted_index \<Rightarrow> evicted_index" where
  "fail_closed_evicted_range r x =
    x\<lparr>index_saturated := True,
      saturated_from := Some (case saturated_from x of Some f \<Rightarrow> min f (er_first r) | None \<Rightarrow> er_first r),
      saturated_through := Some (case saturated_through x of Some t \<Rightarrow> max t (er_last r) | None \<Rightarrow> er_last r)\<rparr>"

definition saturated_contains :: "evicted_index \<Rightarrow> nat \<Rightarrow> bool" where
  "saturated_contains x i =
    (case (saturated_from x, saturated_through x) of
       (Some f, Some t) \<Rightarrow> index_saturated x \<and> i \<ge> f \<and> i \<le> t
     | _ \<Rightarrow> False)"

definition saturated_intersects :: "evicted_index \<Rightarrow> nat \<Rightarrow> nat \<Rightarrow> bool" where
  "saturated_intersects x start ending =
    (case (saturated_from x, saturated_through x) of
       (Some f, Some t) \<Rightarrow> index_saturated x \<and> start \<le> t \<and> ending \<ge> f
     | _ \<Rightarrow> False)"

fun insert_first_fitting :: "nat \<Rightarrow> nat \<Rightarrow> evicted_bitmap list \<Rightarrow> evicted_bitmap list \<times> bool" where
  "insert_first_fitting f l [] = ([], False)"
| "insert_first_fitting f l (b # bs) =
    (let (b', ok) = try_insert_range f l b in
     if ok then (b' # bs, True)
     else let (bs', ok') = insert_first_fitting f l bs in (b' # bs', ok'))"

function chunk_loop :: "nat \<Rightarrow> nat \<Rightarrow> evicted_bitmap list \<Rightarrow> evicted_bitmap list \<times> bool" where
  "chunk_loop start l bs =
    (if start \<le> l \<and> length bs < MAX_EVICTED_BITMAPS then
       let chunk_last = min (sat_add u64_max start (MAX_EVICTED_BITMAP_BITS - 1)) l;
           (chunk, ok) = try_insert_range start chunk_last default_bitmap
       in if \<not> ok then (bs, start > l)
          else if chunk_last = l then (bs @ [chunk], True)
          else (case checked_add u64_max chunk_last 1 of
                  None \<Rightarrow> (bs @ [chunk], True)
                | Some next \<Rightarrow> chunk_loop next l (bs @ [chunk]))
     else (bs, start > l))"
  by pat_completeness auto
termination
  by (relation "measure (\<lambda>(start, l, bs). MAX_EVICTED_BITMAPS - length bs)") auto

declare chunk_loop.simps [simp del]

definition admit_compacted_evicted_range :: "evicted_id_range \<Rightarrow> evicted_index \<Rightarrow> evicted_index \<times> bool" where
  "admit_compacted_evicted_range r x =
    (if evicted_from x = None \<and> evicted_through x = None then
       (x\<lparr>evicted_from := Some (er_first r), evicted_through := Some (er_last r)\<rparr>, True)
     else if evicted_from x \<noteq> None \<and>
        (case evicted_through x of Some t \<Rightarrow> checked_add u64_max t 1 = Some (er_first r) | None \<Rightarrow> False) then
       (x\<lparr>evicted_through := Some (er_last r)\<rparr>, True)
     else
       let (bs, ok) = insert_first_fitting (er_first r) (er_last r) (bitmaps x) in
       if ok then (x\<lparr>bitmaps := bs\<rparr>, True)
       else if length bs \<ge> MAX_EVICTED_BITMAPS then (x\<lparr>bitmaps := bs\<rparr>, False)
       else
         let (b, ok1) = try_insert_range (er_first r) (er_last r) default_bitmap in
         if ok1 then (x\<lparr>bitmaps := bs @ [b]\<rparr>, True)
         else
           let (bs', ok2) = chunk_loop (er_first r) (er_last r) bs in
           (x\<lparr>bitmaps := bs'\<rparr>, ok2))"

text \<open>\<open>while evicted_id_ranges.len() > MAX { remove(0) .. }\<close>: one turn, then the loop.\<close>

definition compact_oldest :: "layout \<Rightarrow> evicted_index \<Rightarrow> evicted_index" where
  "compact_oldest lay x =
    (let oldest = hd (id_ranges x);
         (x1, ok) = admit_compacted_evicted_range oldest (x\<lparr>id_ranges := tl (id_ranges x)\<rparr>)
     in if ok then x1
        else if length (overflow_ranges x1) < MAX_EVICTED_OVERFLOW_RANGES then
          x1\<lparr>overflow_ranges := overflow_ranges x1 @ [oldest],
             overflow_cap := push_cap lay (length (overflow_ranges x1)) (overflow_cap x1)\<rparr>
        else fail_closed_evicted_range oldest x1)"

definition compact_evicted_id_ranges :: "layout \<Rightarrow> evicted_index \<Rightarrow> evicted_index" where
  "compact_evicted_id_ranges lay x =
    (compact_oldest lay ^^ (length (id_ranges x) - MAX_EVICTED_ID_RANGES)) x"

definition record_evicted_id :: "layout \<Rightarrow> nat \<Rightarrow> evicted_index \<Rightarrow> evicted_index" where
  "record_evicted_id lay i x =
    (let push = x\<lparr>id_ranges := id_ranges x @ [\<lparr>er_first = i, er_last = i\<rparr>],
           id_ranges_cap := push_cap lay (length (id_ranges x)) (id_ranges_cap x)\<rparr>
     in if id_ranges x = [] then push
        else let r = last (id_ranges x) in
          if i \<le> er_last r then x
          else if checked_add u64_max (er_last r) 1 = Some i
          then x\<lparr>id_ranges := butlast (id_ranges x) @ [r\<lparr>er_last := i\<rparr>]\<rparr>
          else push)"

definition record_evicted_segment :: "layout \<Rightarrow> nat list \<Rightarrow> evicted_index \<Rightarrow> evicted_index" where
  "record_evicted_segment lay line_ids x =
    compact_evicted_id_ranges lay (fold (record_evicted_id lay) line_ids x)"

definition dense_evicted_prefix_contains :: "evicted_index \<Rightarrow> nat \<Rightarrow> bool" where
  "dense_evicted_prefix_contains x i =
    (case (evicted_from x, evicted_through x) of (Some f, Some t) \<Rightarrow> i \<ge> f \<and> i \<le> t | _ \<Rightarrow> False)"

definition dense_evicted_prefix_intersects :: "evicted_index \<Rightarrow> nat \<Rightarrow> nat \<Rightarrow> bool" where
  "dense_evicted_prefix_intersects x start ending =
    (case (evicted_from x, evicted_through x) of (Some f, Some t) \<Rightarrow> start \<le> t \<and> ending \<ge> f | _ \<Rightarrow> False)"

definition overflow_contains :: "nat \<Rightarrow> evicted_id_range list \<Rightarrow> bool" where
  "overflow_contains i rs =
    (let k = partition_point (\<lambda>r. er_last r < i) rs in k < length rs \<and> i \<ge> er_first (rs ! k))"

definition overflow_intersects :: "nat \<Rightarrow> nat \<Rightarrow> evicted_id_range list \<Rightarrow> bool" where
  "overflow_intersects start ending rs =
    (let k = partition_point (\<lambda>r. er_last r < start) rs in k < length rs \<and> er_first (rs ! k) \<le> ending)"

definition range_intersects_evicted :: "evicted_index \<Rightarrow> nat \<Rightarrow> nat \<Rightarrow> bool" where
  "range_intersects_evicted x start ending \<longleftrightarrow>
     saturated_intersects x start ending \<or> dense_evicted_prefix_intersects x start ending \<or>
     (\<exists>b \<in> set (bitmaps x). bitmap_intersects b start ending) \<or>
     overflow_intersects start ending (overflow_ranges x) \<or> overflow_intersects start ending (id_ranges x)"

definition line_was_evicted :: "evicted_index \<Rightarrow> nat \<Rightarrow> bool" where
  "line_was_evicted x i \<longleftrightarrow>
     saturated_contains x i \<or> dense_evicted_prefix_contains x i \<or>
     (\<exists>b \<in> set (bitmaps x). bitmap_contains b i) \<or>
     overflow_contains i (overflow_ranges x) \<or> overflow_contains i (id_ranges x)"

end
