(* ===== verification/Eviction_Index.thy ===== *)
theory Eviction_Index
  imports Eviction
begin

text \<open>
  Exactness of the evicted-identity index: after recording identities in ascending order, lookup
  and range queries answer exactly the recorded set, and never less once the index saturates.
\<close>

unbundle bit_operations_syntax

section \<open>Bitmaps\<close>

definition word_bit :: "64 word list \<Rightarrow> nat \<Rightarrow> bool" where
  "word_bit ws k \<longleftrightarrow> k div 64 < length ws \<and> bit (ws ! (k div 64)) (k mod 64)"

definition bitmap_ok :: "evicted_bitmap \<Rightarrow> bool" where
  "bitmap_ok b \<longleftrightarrow> bm_len b \<le> 64 * length (bm_words b) \<and> (\<forall>k. bm_len b \<le> k \<longrightarrow> \<not> word_bit (bm_words b) k) \<and>
     (0 < bm_len b \<longrightarrow> origin b + bm_len b \<le> Suc u64_max)"

definition bitmap_set :: "evicted_bitmap \<Rightarrow> nat set" where
  "bitmap_set b = {i. bitmap_contains b i}"

lemma contains_iff:
  "bitmap_ok b \<Longrightarrow> bitmap_contains b i \<longleftrightarrow> origin b \<le> i \<and> word_bit (bm_words b) (i - origin b)"
  unfolding bitmap_contains_def bitmap_ok_def word_bit_def Let_def
  by (auto simp: bit_iff_and_drop_bit_eq_1 not_le)

lemma word_bit_append_zeros [simp]: "word_bit (ws @ replicate n 0) k = word_bit ws k"
  by (auto simp: word_bit_def nth_append)

lemma word_bit_set:
  assumes "j div 64 < length ws"
  shows "word_bit (ws[j div 64 := ws ! (j div 64) OR push_bit (j mod 64) 1]) k \<longleftrightarrow> word_bit ws k \<or> k = j"
proof (cases "k div 64 = j div 64")
  case True
  have "k mod 64 = j mod 64 \<longleftrightarrow> k = j" using True by (metis div_mult_mod_eq)
  moreover have "bit (push_bit (j mod 64) (1 :: 64 word)) (k mod 64) \<longleftrightarrow> k mod 64 = j mod 64"
    by (auto simp: bit_exp_iff possible_bit_word)
  ultimately show ?thesis using True assms by (auto simp: word_bit_def bit_or_iff)
next
  case False
  then show ?thesis using assms by (auto simp: word_bit_def)
qed

lemma set_one_simps [simp]:
  "origin (set_one i b) = origin b" "bm_len (set_one i b) = bm_len b"
  "length (bm_words (set_one i b)) = length (bm_words b)"
  by (simp_all add: set_one_def Let_def)

lemma fold_set_one:
  assumes "\<forall>i \<in> set xs. origin b \<le> i \<and> i - origin b < 64 * length (bm_words b)"
  shows "origin (fold set_one xs b) = origin b \<and> bm_len (fold set_one xs b) = bm_len b \<and>
    length (bm_words (fold set_one xs b)) = length (bm_words b) \<and>
    (\<forall>k. word_bit (bm_words (fold set_one xs b)) k \<longleftrightarrow> word_bit (bm_words b) k \<or> (\<exists>i \<in> set xs. k = i - origin b))"
  using assms
proof (induction xs arbitrary: b)
  case (Cons x xs)
  have lt: "(x - origin b) div 64 < length (bm_words b)"
    using Cons.prems by (auto simp: less_mult_imp_div_less mult.commute)
  have w: "word_bit (bm_words (set_one x b)) k \<longleftrightarrow> word_bit (bm_words b) k \<or> k = x - origin b" for k
    using word_bit_set [OF lt] lt by (simp add: set_one_def Let_def)
  have IH: "origin (fold set_one xs (set_one x b)) = origin (set_one x b) \<and>
      bm_len (fold set_one xs (set_one x b)) = bm_len (set_one x b) \<and>
      length (bm_words (fold set_one xs (set_one x b))) = length (bm_words (set_one x b)) \<and>
      (\<forall>k. word_bit (bm_words (fold set_one xs (set_one x b))) k \<longleftrightarrow>
        word_bit (bm_words (set_one x b)) k \<or> (\<exists>i \<in> set xs. k = i - origin (set_one x b)))"
    using Cons.prems by (intro Cons.IH) simp
  then show ?case by (auto simp: w)
qed simp

lemma resize_ok:
  assumes "bitmap_ok b" "bm_len b \<le> span"
  shows "span \<le> 64 * length (bm_words (resize_to span b)) \<and> origin (resize_to span b) = origin b \<and>
    bm_len (resize_to span b) = span \<and> (\<forall>k. word_bit (bm_words (resize_to span b)) k = word_bit (bm_words b) k)"
proof -
  have "span \<le> 64 * ((span + 63) div 64)" by linarith
  then show ?thesis by (auto simp: resize_to_def Let_def)
qed

lemma bitmap_set_eq: "bitmap_ok b \<Longrightarrow> bitmap_set b = {i. origin b \<le> i \<and> word_bit (bm_words b) (i - origin b)}"
  by (simp add: bitmap_set_def contains_iff)

lemma set_range_ok:
  assumes ok: "bitmap_ok b" and span: "bm_len b \<le> span" and first: "origin b \<le> f" and last: "l - origin b < span"
    and u64: "origin b + span \<le> Suc u64_max" and fl: "f \<le> l"
  shows "bitmap_ok (set_range f l (resize_to span b)) \<and> bitmap_set (set_range f l (resize_to span b)) = bitmap_set b \<union> {f..l}"
proof -
  note rs = resize_ok [OF ok span]
  let ?b = "fold set_one [f..<Suc l] (resize_to span b)"
  have "\<forall>i \<in> set [f..<Suc l]. origin (resize_to span b) \<le> i \<and>
      i - origin (resize_to span b) < 64 * length (bm_words (resize_to span b))"
  proof
    fix i assume "i \<in> set [f..<Suc l]"
    then have "f \<le> i" "i \<le> l" by auto
    then have "i - origin b < span" "origin b \<le> i" using last first by linarith+
    then show "origin (resize_to span b) \<le> i \<and> i - origin (resize_to span b) < 64 * length (bm_words (resize_to span b))"
      using rs by auto
  qed
  note fs = fold_set_one [OF this]
  have words: "word_bit (bm_words ?b) k \<longleftrightarrow> word_bit (bm_words b) k \<or> (\<exists>i \<in> set [f..<Suc l]. k = i - origin b)" for k
    using fs rs by simp
  have o: "origin ?b = origin b" and len: "bm_len ?b = span" and wl: "length (bm_words ?b) = length (bm_words (resize_to span b))"
    using fs rs by simp_all
  have zero: "\<not> word_bit (bm_words ?b) k" if "span \<le> k" for k
  proof -
    have "\<not> word_bit (bm_words b) k" using ok that span by (simp add: bitmap_ok_def)
    moreover have "k \<noteq> i - origin b" if "i \<in> set [f..<Suc l]" for i
      using that last first \<open>span \<le> k\<close> by auto
    ultimately show ?thesis using words by blast
  qed
  have ok': "bitmap_ok ?b"
    unfolding bitmap_ok_def o len wl using rs zero u64 by auto
  have "origin b \<le> i \<and> word_bit (bm_words ?b) (i - origin b) \<longleftrightarrow>
      origin b \<le> i \<and> word_bit (bm_words b) (i - origin b) \<or> i \<in> {f..l}" for i
  proof -
    have "origin b \<le> i \<and> (\<exists>j \<in> set [f..<Suc l]. i - origin b = j - origin b) \<longleftrightarrow> i \<in> {f..l}"
      using first by (auto simp: eq_diff_iff intro: order_trans)
    then show ?thesis using words by blast
  qed
  then show ?thesis using ok' by (simp add: set_range_def bitmap_set_eq [OF ok'] bitmap_set_eq [OF ok] o set_eq_iff del: upt_Suc)
qed

lemma default_bitmap_ok: "bitmap_ok default_bitmap" "bitmap_set default_bitmap = {}"
  by (simp_all add: bitmap_ok_def default_bitmap_def word_bit_def bitmap_set_def bitmap_contains_def)

lemma empty_bitmap_set: "bm_len b = 0 \<Longrightarrow> bitmap_set b = {}"
  by (simp add: bitmap_set_def bitmap_contains_def)

lemma try_insert_ok:
  assumes ok: "bitmap_ok b" and fl: "f \<le> l" and u: "l \<le> u64_max"
  shows "(case try_insert_range f l b of (b', ins) \<Rightarrow>
    bitmap_ok b' \<and> bitmap_set b' = bitmap_set b \<union> (if ins then {f..l} else {}))"
proof (cases "bm_len b = 0")
  case True
  let ?b = "b\<lparr>origin := f\<rparr>"
  have ok': "bitmap_ok ?b" using ok True by (simp add: bitmap_ok_def)
  have s: "sat_add u64_max (l - f) 1 \<le> MAX_EVICTED_BITMAP_BITS \<Longrightarrow> sat_add u64_max (l - f) 1 = Suc (l - f)"
    by (simp add: sat_add_def MAX_EVICTED_BITMAP_BITS_def min_def split: if_splits)
  have r: "bitmap_ok (set_range f l (resize_to (Suc (l - f)) ?b)) \<and>
      bitmap_set (set_range f l (resize_to (Suc (l - f)) ?b)) = bitmap_set ?b \<union> {f..l}"
    using fl u True by (intro set_range_ok [OF ok']) simp_all
  show ?thesis using True fl s r ok empty_bitmap_set [OF True] empty_bitmap_set [of ?b]
    by (auto simp: try_insert_range_def Let_def)
next
  case False
  define span where "span = sat_add u64_max (max (sat_add u64_max (origin b) (bm_len b - 1)) l - origin b) 1"
  have ob: "origin b + bm_len b \<le> Suc u64_max" using ok False unfolding bitmap_ok_def by blast
  have cl: "sat_add u64_max (origin b) (bm_len b - 1) = origin b + (bm_len b - 1)"
    by (rule sat_add_exact) (use ob False in linarith)
  show ?thesis
  proof (cases "f < origin b \<or> l < origin b \<or> span > MAX_EVICTED_BITMAP_BITS")
    case True
    then show ?thesis using False fl ok by (auto simp: try_insert_range_def span_def Let_def)
  next
    case in_window: False
    then have sp: "span = Suc (max (origin b + (bm_len b - 1)) l - origin b)"
      using cl unfolding span_def by (simp add: sat_add_def MAX_EVICTED_BITMAP_BITS_def min_def split: if_splits)
    have "bm_len b \<le> span" "l - origin b < span" "origin b + span \<le> Suc u64_max"
      using sp False in_window ob u by (auto simp: max_def)
    then have "bitmap_ok (set_range f l (resize_to span b)) \<and>
        bitmap_set (set_range f l (resize_to span b)) = bitmap_set b \<union> {f..l}"
      using in_window fl by (intro set_range_ok [OF ok]) auto
    then show ?thesis using False in_window fl by (simp add: try_insert_range_def span_def Let_def)
  qed
qed

section \<open>Runs\<close>

definition rng :: "evicted_id_range \<Rightarrow> nat set" where
  "rng r = {er_first r..er_last r}"

definition bitmaps_set :: "evicted_bitmap list \<Rightarrow> nat set" where
  "bitmaps_set bs = (\<Union>b \<in> set bs. bitmap_set b)"

definition ranges_set :: "evicted_id_range list \<Rightarrow> nat set" where
  "ranges_set rs = (\<Union>r \<in> set rs. rng r)"

definition ranges_ok :: "evicted_id_range list \<Rightarrow> bool" where
  "ranges_ok rs \<longleftrightarrow> (\<forall>r \<in> set rs. er_first r \<le> er_last r \<and> er_last r \<le> u64_max) \<and>
     sorted_wrt (\<lambda>a b. er_last a < er_first b) rs"

lemma set_simps [simp]:
  "bitmaps_set [] = {}" "bitmaps_set (b # bs) = bitmap_set b \<union> bitmaps_set bs"
  "bitmaps_set (bs @ cs) = bitmaps_set bs \<union> bitmaps_set cs"
  "ranges_set [] = {}" "ranges_set (r # rs) = rng r \<union> ranges_set rs"
  "ranges_set (rs @ qs) = ranges_set rs \<union> ranges_set qs"
  by (auto simp: bitmaps_set_def ranges_set_def)

lemma ranges_ok_append:
  "ranges_ok (rs @ qs) \<longleftrightarrow> ranges_ok rs \<and> ranges_ok qs \<and> (\<forall>r \<in> set rs. \<forall>q \<in> set qs. er_last r < er_first q)"
  by (auto simp: ranges_ok_def sorted_wrt_append)

lemma partition_point_Cons:
  "partition_point P (x # xs) = (if P x then Suc (partition_point P xs) else 0)"
  by (simp add: partition_point_def)

lemma overflow_contains_iff: "ranges_ok rs \<Longrightarrow> overflow_contains i rs \<longleftrightarrow> i \<in> ranges_set rs"
proof (induction rs)
  case (Cons r rs)
  have ok: "ranges_ok rs" using Cons.prems by (simp add: ranges_ok_def)
  show ?case
  proof (cases "er_last r < i")
    case True
    then show ?thesis using Cons.IH [OF ok] by (auto simp: overflow_contains_def partition_point_Cons rng_def Let_def)
  next
    case False
    have "i \<notin> ranges_set rs" if "i < er_first r"
      using that Cons.prems by (fastforce simp: ranges_ok_def ranges_set_def rng_def)
    moreover have "i \<notin> ranges_set rs"
      using False Cons.prems by (fastforce simp: ranges_ok_def ranges_set_def rng_def)
    ultimately show ?thesis using False by (auto simp: overflow_contains_def partition_point_Cons rng_def Let_def)
  qed
qed (simp add: overflow_contains_def partition_point_def)

lemma overflow_intersects_iff:
  "ranges_ok rs \<Longrightarrow> s \<le> e \<Longrightarrow> overflow_intersects s e rs \<longleftrightarrow> ranges_set rs \<inter> {s..e} \<noteq> {}"
proof (induction rs)
  case (Cons r rs)
  have ok: "ranges_ok rs" using Cons.prems by (simp add: ranges_ok_def)
  have fl: "er_first r \<le> er_last r" using Cons.prems by (simp add: ranges_ok_def)
  show ?case
  proof (cases "er_last r < s")
    case True
    then have "rng r \<inter> {s..e} = {}" by (auto simp: rng_def)
    then show ?thesis using Cons.IH [OF ok] Cons.prems True
      by (auto simp: overflow_intersects_def partition_point_Cons Let_def)
  next
    case False
    have hd: "rng r \<inter> {s..e} \<noteq> {} \<longleftrightarrow> er_first r \<le> e"
    proof
      assume "er_first r \<le> e"
      then have "max s (er_first r) \<in> rng r \<inter> {s..e}" using False fl Cons.prems by (auto simp: rng_def)
      then show "rng r \<inter> {s..e} \<noteq> {}" by blast
    qed (auto simp: rng_def)
    have tl: "er_first r \<le> e" if ne: "ranges_set rs \<inter> {s..e} \<noteq> {}"
    proof -
      obtain q i where "q \<in> set rs" "i \<in> rng q" "i \<le> e" using ne by (auto simp: ranges_set_def)
      moreover have "er_last r < er_first q" using Cons.prems \<open>q \<in> set rs\<close> by (auto simp: ranges_ok_def)
      ultimately show ?thesis using fl by (auto simp: rng_def)
    qed
    have "overflow_intersects s e (r # rs) \<longleftrightarrow> er_first r \<le> e"
      using False by (simp add: overflow_intersects_def partition_point_Cons)
    then show ?thesis using hd tl by auto
  qed
qed (simp add: overflow_intersects_def partition_point_def)

lemma insert_first_fitting_ok:
  assumes "\<forall>b \<in> set bs. bitmap_ok b" "f \<le> l" "l \<le> u64_max"
  shows "(case insert_first_fitting f l bs of (bs', ins) \<Rightarrow> (\<forall>b \<in> set bs'. bitmap_ok b) \<and>
    bitmaps_set bs' = bitmaps_set bs \<union> (if ins then {f..l} else {}) \<and> length bs' = length bs)"
  using assms(1)
proof (induction bs)
  case (Cons b bs)
  obtain b' ins where t: "try_insert_range f l b = (b', ins)" by fastforce
  obtain bs' ins' where r: "insert_first_fitting f l bs = (bs', ins')" by fastforce
  show ?case using try_insert_ok [OF _ assms(2,3), of b] Cons t r by auto
qed simp

lemma chunk_loop_ok:
  assumes "\<forall>b \<in> set bs. bitmap_ok b" "l \<le> u64_max"
  shows "(case chunk_loop start l bs of (bs', ins) \<Rightarrow> (\<forall>b \<in> set bs'. bitmap_ok b) \<and>
    bitmaps_set bs \<subseteq> bitmaps_set bs' \<and> bitmaps_set bs' \<subseteq> bitmaps_set bs \<union> {start..l} \<and>
    (ins \<longrightarrow> bitmaps_set bs' = bitmaps_set bs \<union> {start..l}))"
  using assms
proof (induction start l bs rule: chunk_loop.induct)
  case (1 start l bs)
  show ?case
  proof (cases "start \<le> l \<and> length bs < MAX_EVICTED_BITMAPS")
    case False
    then show ?thesis using "1.prems" by (subst chunk_loop.simps) auto
  next
    case True
    define cl where "cl = min (sat_add u64_max start (MAX_EVICTED_BITMAP_BITS - 1)) l"
    have cl: "start \<le> cl" "cl \<le> l" "cl \<le> u64_max" using True "1.prems" by (auto simp: cl_def sat_add_def)
    obtain ch ins where t: "try_insert_range start cl default_bitmap = (ch, ins)" by fastforce
    have ch: "bitmap_ok ch" "bitmap_set ch = (if ins then {start..cl} else {})"
      using try_insert_ok [OF default_bitmap_ok(1) cl(1,3)] t by (simp_all add: default_bitmap_ok)
    have step: "chunk_loop start l bs = (if \<not> ins then (bs, start > l) else if cl = l then (bs @ [ch], True)
        else (case checked_add u64_max cl 1 of None \<Rightarrow> (bs @ [ch], True) | Some next \<Rightarrow> chunk_loop next l (bs @ [ch])))"
      using True t unfolding cl_def by (subst chunk_loop.simps) (simp add: Let_def)
    consider "\<not> ins" | "ins" "cl = l" | "ins" "cl < l" using cl by linarith
    then show ?thesis
    proof cases
      case 1
      then show ?thesis using "1.prems" True step by simp
    next
      case 2
      then show ?thesis using ch "1.prems" step by auto
    next
      case 3
      have add: "checked_add u64_max cl 1 = Some (Suc cl)" using 3 "1.prems" by (simp add: checked_add_def)
      have eq: "chunk_loop start l bs = chunk_loop (Suc cl) l (bs @ [ch])"
        using step 3 add by simp
      obtain bs' ins' where r: "chunk_loop (Suc cl) l (bs @ [ch]) = (bs', ins')" by fastforce
      have IH: "(\<forall>b \<in> set bs'. bitmap_ok b) \<and> bitmaps_set (bs @ [ch]) \<subseteq> bitmaps_set bs' \<and>
          bitmaps_set bs' \<subseteq> bitmaps_set (bs @ [ch]) \<union> {Suc cl..l} \<and>
          (ins' \<longrightarrow> bitmaps_set bs' = bitmaps_set (bs @ [ch]) \<union> {Suc cl..l})"
        using "1.IH" [OF True cl_def t [symmetric] refl _ _ add] 3 ch "1.prems" r by simp
      have "{start..l} = {start..cl} \<union> {Suc cl..l}" using cl by auto
      then show ?thesis using IH ch 3 unfolding eq r by auto
    qed
  qed
qed

section \<open>The index\<close>

definition dense_set :: "evicted_index \<Rightarrow> nat set" where
  "dense_set x = (case (evicted_from x, evicted_through x) of (Some f, Some t) \<Rightarrow> {f..t} | _ \<Rightarrow> {})"

definition saturated_set :: "evicted_index \<Rightarrow> nat set" where
  "saturated_set x = {i. saturated_contains x i}"

definition cover :: "evicted_index \<Rightarrow> nat set" where
  "cover x = dense_set x \<union> bitmaps_set (bitmaps x) \<union> ranges_set (overflow_ranges x) \<union> ranges_set (id_ranges x)"

definition dense_ok :: "nat option \<Rightarrow> nat option \<Rightarrow> bool" where
  "dense_ok from through \<longleftrightarrow>
     (case (from, through) of (Some f, Some t) \<Rightarrow> f \<le> t | (None, None) \<Rightarrow> True | _ \<Rightarrow> False)"

definition saturation_ok :: "nat option \<Rightarrow> nat option \<Rightarrow> bool \<Rightarrow> bool" where
  "saturation_ok from through sat \<longleftrightarrow>
     (case (from, through) of (Some f, Some t) \<Rightarrow> sat \<and> f \<le> t | (None, None) \<Rightarrow> \<not> sat | _ \<Rightarrow> False)"

definition index_ok :: "evicted_index \<Rightarrow> bool" where
  "index_ok x \<longleftrightarrow> (\<forall>b \<in> set (bitmaps x). bitmap_ok b) \<and> ranges_ok (overflow_ranges x @ id_ranges x) \<and>
     dense_ok (evicted_from x) (evicted_through x) \<and>
     saturation_ok (saturated_from x) (saturated_through x) (index_saturated x)"

text \<open>The index stands for the set \<open>S\<close>: exact, or complete from below once saturated.\<close>

definition index_repr :: "evicted_index \<Rightarrow> nat set \<Rightarrow> bool" where
  "index_repr x S \<longleftrightarrow> index_ok x \<and> cover x \<subseteq> S \<and> S \<subseteq> cover x \<union> saturated_set x \<and>
     (id_ranges x = [] \<longrightarrow> S = {})"

lemma line_was_evicted_iff: "index_ok x \<Longrightarrow> line_was_evicted x i \<longleftrightarrow> i \<in> cover x \<union> saturated_set x"
  by (auto simp: line_was_evicted_def index_ok_def ranges_ok_append overflow_contains_iff cover_def
      saturated_set_def dense_evicted_prefix_contains_def dense_set_def bitmaps_set_def bitmap_set_def
      split: option.splits)

lemma admit_ok:
  assumes ok: "index_ok x" and r: "er_first r \<le> er_last r" "er_last r \<le> u64_max"
  shows "(case admit_compacted_evicted_range r x of (x', ins) \<Rightarrow>
    (\<forall>b \<in> set (bitmaps x'). bitmap_ok b) \<and>
    dense_ok (evicted_from x') (evicted_through x') \<and>
    dense_set x \<union> bitmaps_set (bitmaps x) \<subseteq> dense_set x' \<union> bitmaps_set (bitmaps x') \<and>
    dense_set x' \<union> bitmaps_set (bitmaps x') \<subseteq> dense_set x \<union> bitmaps_set (bitmaps x) \<union> rng r \<and>
    (ins \<longrightarrow> rng r \<subseteq> dense_set x' \<union> bitmaps_set (bitmaps x')) \<and>
    id_ranges x' = id_ranges x \<and> overflow_ranges x' = overflow_ranges x \<and> index_saturated x' = index_saturated x \<and>
    saturated_from x' = saturated_from x \<and> saturated_through x' = saturated_through x)"
proof -
  consider (none) "evicted_from x = None" "evicted_through x = None"
    | (grow) f t where "evicted_from x = Some f" "evicted_through x = Some t" "f \<le> t"
        "checked_add u64_max t 1 = Some (er_first r)"
    | (bits) f t where "evicted_from x = Some f" "evicted_through x = Some t" "f \<le> t"
        "checked_add u64_max t 1 \<noteq> Some (er_first r)"
    using ok by (auto simp: index_ok_def dense_ok_def split: option.splits)
  then show ?thesis
  proof cases
    case none
    then show ?thesis using ok r
      by (auto simp: admit_compacted_evicted_range_def dense_set_def index_ok_def dense_ok_def rng_def)
  next
    case grow
    then have "er_first r = Suc t" by (simp add: checked_add_def split: if_splits)
    then show ?thesis using grow ok r
      by (auto simp: admit_compacted_evicted_range_def dense_set_def index_ok_def dense_ok_def rng_def)
  next
    case bits
    have bok: "\<forall>b \<in> set (bitmaps x). bitmap_ok b" using ok by (simp add: index_ok_def)
    obtain bs i1 where f1: "insert_first_fitting (er_first r) (er_last r) (bitmaps x) = (bs, i1)" by fastforce
    obtain b i2 where f2: "try_insert_range (er_first r) (er_last r) default_bitmap = (b, i2)" by fastforce
    obtain bs' i3 where f3: "chunk_loop (er_first r) (er_last r) bs = (bs', i3)" by fastforce
    have h1: "\<forall>b \<in> set bs. bitmap_ok b" "bitmaps_set bs = bitmaps_set (bitmaps x) \<union> (if i1 then rng r else {})"
      using insert_first_fitting_ok [OF bok r] f1 by (simp_all add: rng_def)
    have h2: "bitmap_ok b" "bitmap_set b = (if i2 then rng r else {})"
      using try_insert_ok [OF default_bitmap_ok(1) r] f2 by (simp_all add: default_bitmap_ok rng_def)
    have h3: "\<forall>b \<in> set bs'. bitmap_ok b" "bitmaps_set bs \<subseteq> bitmaps_set bs'" "bitmaps_set bs' \<subseteq> bitmaps_set bs \<union> rng r"
      "i3 \<longrightarrow> bitmaps_set bs' = bitmaps_set bs \<union> rng r"
      using chunk_loop_ok [OF h1(1) r(2), of "er_first r"] f3 by (simp_all add: rng_def)
    have eq: "admit_compacted_evicted_range r x =
        (if i1 then (x\<lparr>bitmaps := bs\<rparr>, True) else if length bs \<ge> MAX_EVICTED_BITMAPS then (x\<lparr>bitmaps := bs\<rparr>, False)
         else if i2 then (x\<lparr>bitmaps := bs @ [b]\<rparr>, True) else (x\<lparr>bitmaps := bs'\<rparr>, i3))"
      using bits f1 f2 f3 by (simp add: admit_compacted_evicted_range_def)
    obtain B I where B: "admit_compacted_evicted_range r x = (x\<lparr>bitmaps := B\<rparr>, I)" "\<forall>b \<in> set B. bitmap_ok b"
      "bitmaps_set (bitmaps x) \<subseteq> bitmaps_set B" "bitmaps_set B \<subseteq> bitmaps_set (bitmaps x) \<union> rng r"
      "I \<longrightarrow> rng r \<subseteq> bitmaps_set B"
    proof -
      consider "i1" | "\<not> i1" "length bs \<ge> MAX_EVICTED_BITMAPS" | "\<not> i1" "\<not> length bs \<ge> MAX_EVICTED_BITMAPS" "i2"
        | "\<not> i1" "\<not> length bs \<ge> MAX_EVICTED_BITMAPS" "\<not> i2" by blast
      then show thesis
      proof cases
        case 1 then show thesis using that [of bs True] eq h1 by auto
      next
        case 2 then show thesis using that [of bs False] eq h1 by auto
      next
        case 3 then show thesis using that [of "bs @ [b]" True] eq h1 h2 by auto
      next
        case 4 then show thesis using that [of bs' i3] eq h1 h3 by auto
      qed
    qed
    have dn: "dense_set (x\<lparr>bitmaps := B\<rparr>) = dense_set x" by (simp add: dense_set_def)
    show ?thesis unfolding B(1) prod.case dn using B(2-5) bits by (auto simp: dense_ok_def)
  qed
qed

lemma saturated_set_keep:
  "saturated_set (x\<lparr>evicted_from := a, evicted_through := b, bitmaps := c\<rparr>) = saturated_set x"
  "saturated_set (x\<lparr>id_ranges := d\<rparr>) = saturated_set x"
  "saturated_set (x\<lparr>overflow_ranges := d, overflow_cap := e\<rparr>) = saturated_set x"
  "saturated_set (x\<lparr>id_ranges := d, id_ranges_cap := e\<rparr>) = saturated_set x"
  by (simp_all add: saturated_set_def saturated_contains_def cong: option.case_cong)

lemma dense_set_keep [simp]:
  "dense_set (x\<lparr>id_ranges := d\<rparr>) = dense_set x"
  "dense_set (x\<lparr>id_ranges := d, id_ranges_cap := n\<rparr>) = dense_set x"
  "dense_set (x\<lparr>overflow_ranges := d, overflow_cap := n\<rparr>) = dense_set x"
  "dense_set (fail_closed_evicted_range r x) = dense_set x"
  by (simp_all add: dense_set_def fail_closed_evicted_range_def)

lemma fail_closed_set:
  assumes "index_ok x" "er_first r \<le> er_last r"
  shows "saturated_set x \<union> rng r \<subseteq> saturated_set (fail_closed_evicted_range r x)"
  using assms
  by (auto simp: saturated_set_def saturated_contains_def fail_closed_evicted_range_def rng_def index_ok_def
      saturation_ok_def split: option.splits)

lemma fail_closed_ok:
  assumes "index_ok x" "er_first r \<le> er_last r"
  shows "index_ok (fail_closed_evicted_range r x)"
  using assms by (auto simp: index_ok_def fail_closed_evicted_range_def saturation_ok_def split: option.splits)

lemma compact_oldest_repr:
  assumes rep: "index_repr x S" and ne: "id_ranges x \<noteq> []" "tl (id_ranges x) \<noteq> []"
  shows "index_repr (compact_oldest lay x) S \<and> id_ranges (compact_oldest lay x) = tl (id_ranges x)"
proof -
  obtain r rs where r: "id_ranges x = r # rs" "rs \<noteq> []" using ne by (cases "id_ranges x") auto
  have ok: "index_ok x" using rep by (simp add: index_repr_def)
  let ?x0 = "x\<lparr>id_ranges := rs\<rparr>"
  have ok0: "index_ok ?x0" and rr: "er_first r \<le> er_last r" "er_last r \<le> u64_max"
    and before: "ranges_ok ((overflow_ranges x @ [r]) @ rs)"
    using ok r by (auto simp: index_ok_def ranges_ok_append ranges_ok_def sorted_wrt_append)
  obtain x1 ins where a: "admit_compacted_evicted_range r ?x0 = (x1, ins)" by fastforce
  note ad = admit_ok [OF ok0 rr, unfolded a prod.case]
  have x1: "overflow_ranges x1 = overflow_ranges x" "id_ranges x1 = rs" "index_saturated x1 = index_saturated x"
    "saturated_from x1 = saturated_from x" "saturated_through x1 = saturated_through x"
    using ad by simp_all
  have sat1: "saturated_set x1 = saturated_set x" using x1 by (simp add: saturated_set_def saturated_contains_def cong: option.case_cong)
  have ok1: "index_ok x1" using ok0 ad x1 by (simp add: index_ok_def)
  have cov: "cover x = dense_set x \<union> bitmaps_set (bitmaps x) \<union> ranges_set (overflow_ranges x) \<union> rng r \<union> ranges_set rs"
    using r by (auto simp: cover_def)
  have S: "cover x \<subseteq> S" "S \<subseteq> cover x \<union> saturated_set x" using rep by (auto simp: index_repr_def)
  show ?thesis
  proof (cases ins)
    case True
    then have c: "compact_oldest lay x = x1" using a r by (simp add: compact_oldest_def)
    have "cover x1 = cover x" using ad True x1 cov by (auto simp: cover_def)
    then show ?thesis using c ok1 S sat1 x1 r by (simp add: index_repr_def)
  next
    case False
    show ?thesis
    proof (cases "length (overflow_ranges x1) < MAX_EVICTED_OVERFLOW_RANGES")
      case True
      let ?n = "push_cap lay (length (overflow_ranges x1)) (overflow_cap x1)"
      let ?x2 = "x1\<lparr>overflow_ranges := overflow_ranges x1 @ [r], overflow_cap := ?n\<rparr>"
      have c: "compact_oldest lay x = ?x2" using a r False True by (simp add: compact_oldest_def)
      have "index_ok ?x2" using ok1 before x1 by (simp add: index_ok_def)
      moreover have "cover ?x2 = cover x" using ad x1 cov by (auto simp: cover_def)
      moreover have "saturated_set ?x2 = saturated_set x" using sat1 by (simp add: saturated_set_keep)
      ultimately show ?thesis using c S x1 r by (simp add: index_repr_def)
    next
      case full: False
      have c: "compact_oldest lay x = fail_closed_evicted_range r x1" using a r False full by (simp add: compact_oldest_def)
      have cf: "cover (fail_closed_evicted_range r x1) = cover x1" by (simp add: cover_def, simp add: fail_closed_evicted_range_def)
      have c1: "cover x1 \<subseteq> cover x" "cover x \<subseteq> cover x1 \<union> rng r" using ad x1 cov by (auto simp: cover_def)
      have "S \<subseteq> cover x1 \<union> saturated_set (fail_closed_evicted_range r x1)"
        using S c1 fail_closed_set [OF ok1 rr(1)] sat1 by blast
      moreover have "id_ranges (fail_closed_evicted_range r x1) = rs" using x1 by (simp add: fail_closed_evicted_range_def)
      ultimately show ?thesis using c cf c1 S(1) fail_closed_ok [OF ok1 rr(1)] r
        by (auto simp: index_repr_def)
    qed
  qed
qed

lemma compact_index_repr:
  assumes "index_repr x S"
  shows "index_repr (compact_evicted_id_ranges lay x) S"
proof -
  have "index_repr ((compact_oldest lay ^^ n) x) S \<and> length (id_ranges ((compact_oldest lay ^^ n) x)) = length (id_ranges x) - n"
    if "n < length (id_ranges x)" for n
    using that
  proof (induction n)
    case (Suc n)
    let ?y = "(compact_oldest lay ^^ n) x"
    have y: "index_repr ?y S" "length (id_ranges ?y) = length (id_ranges x) - n" using Suc by simp_all
    then have "id_ranges ?y \<noteq> []" "tl (id_ranges ?y) \<noteq> []"
      using Suc.prems by (cases "id_ranges ?y"; auto)+
    from compact_oldest_repr [OF y(1) this, of lay] y(2) show ?case by simp
  qed (simp add: assms)
  moreover have "length (id_ranges x) - MAX_EVICTED_ID_RANGES < length (id_ranges x) \<or> id_ranges x = []"
    by (simp add: MAX_EVICTED_ID_RANGES_def) (metis diff_less length_greater_0_conv zero_less_numeral)
  ultimately show ?thesis using assms by (auto simp: compact_evicted_id_ranges_def)
qed

lemma record_id_repr:
  assumes rep: "index_repr x S" and mono: "\<forall>s \<in> S. s \<le> i" and u: "i \<le> u64_max"
  shows "index_repr (record_evicted_id lay i x) (insert i S)"
proof -
  have ok: "index_ok x" and S: "cover x \<subseteq> S" "S \<subseteq> cover x \<union> saturated_set x" using rep by (auto simp: index_repr_def)
  let ?push = "x\<lparr>id_ranges := id_ranges x @ [\<lparr>er_first = i, er_last = i\<rparr>],
    id_ranges_cap := push_cap lay (length (id_ranges x)) (id_ranges_cap x)\<rparr>"
  have push: "index_repr ?push (insert i S)" if lt: "\<forall>r \<in> set (overflow_ranges x @ id_ranges x). er_last r < i"
  proof -
    have "ranges_ok ((overflow_ranges x @ id_ranges x) @ [\<lparr>er_first = i, er_last = i\<rparr>])"
      using ok lt u by (subst ranges_ok_append) (auto simp: index_ok_def, simp add: ranges_ok_def)
    then have "index_ok ?push" using ok by (simp add: index_ok_def)
    moreover have "cover ?push = insert i (cover x)" by (auto simp: cover_def rng_def)
    ultimately show ?thesis using S by (auto simp: index_repr_def saturated_set_keep)
  qed
  have in_S: "er_last r \<in> S" if "r \<in> set (overflow_ranges x @ id_ranges x)" for r
  proof -
    have "er_last r \<in> rng r" using ok that by (auto simp: index_ok_def ranges_ok_def rng_def)
    then show ?thesis using that S(1) by (auto simp: cover_def ranges_set_def)
  qed
  show ?thesis
  proof (cases "id_ranges x" rule: rev_cases)
    case Nil
    then have "S = {}" using rep by (simp add: index_repr_def)
    then have "overflow_ranges x = []" using in_S by (cases "overflow_ranges x") auto
    then show ?thesis using push Nil by (simp add: record_evicted_id_def)
  next
    case (snoc rs r)
    have sorted: "\<forall>q \<in> set (overflow_ranges x @ rs). er_last q < er_first r" and fl: "er_first r \<le> er_last r"
      using ok snoc by (auto simp: index_ok_def ranges_ok_def sorted_wrt_append)
    have rS: "er_last r \<in> S" using in_S snoc by simp
    then have le: "er_last r \<le> i" using mono by blast
    consider "i \<le> er_last r" | "er_last r < i" "checked_add u64_max (er_last r) 1 = Some i"
      | "er_last r < i" "checked_add u64_max (er_last r) 1 \<noteq> Some i" by linarith
    then show ?thesis
    proof cases
      case 1
      then have "i \<in> S" using le rS by (metis le_antisym)
      then show ?thesis using 1 snoc rep by (simp add: record_evicted_id_def insert_absorb)
    next
      case 2
      then have i: "i = Suc (er_last r)" by (simp add: checked_add_def split: if_splits)
      let ?x = "x\<lparr>id_ranges := rs @ [r\<lparr>er_last := i\<rparr>]\<rparr>"
      have "ranges_ok ((overflow_ranges x @ rs) @ [r\<lparr>er_last := i\<rparr>])"
        using ok snoc sorted fl u i by (auto simp: index_ok_def ranges_ok_def sorted_wrt_append)
      then have "index_ok ?x" using ok by (simp add: index_ok_def)
      moreover have "rng (r\<lparr>er_last := i\<rparr>) = insert i (rng r)" using fl i by (auto simp: rng_def)
      then have "cover ?x = insert i (cover x)" using snoc by (auto simp: cover_def)
      moreover have "record_evicted_id lay i x = ?x" using 2 snoc by (simp add: record_evicted_id_def)
      ultimately show ?thesis using S by (auto simp: index_repr_def saturated_set_keep)
    next
      case 3
      have "\<forall>q \<in> set (overflow_ranges x @ id_ranges x). er_last q < i"
      proof
        fix q assume "q \<in> set (overflow_ranges x @ id_ranges x)"
        then have "q = r \<or> er_last q < er_first r" using sorted snoc by auto
        then show "er_last q < i" using fl 3(1) by auto
      qed
      from push [OF this] show ?thesis using 3 snoc by (simp add: record_evicted_id_def)
    qed
  qed
qed

lemma record_segment_repr:
  assumes "index_repr x S" "sorted ids" "\<forall>s \<in> S. \<forall>i \<in> set ids. s \<le> i" "\<forall>i \<in> set ids. i \<le> u64_max"
  shows "index_repr (record_evicted_segment lay ids x) (S \<union> set ids)"
proof -
  have "index_repr (fold (record_evicted_id lay) ids x) (S \<union> set ids)"
    using assms
  proof (induction ids arbitrary: x S)
    case (Cons i ids)
    have "index_repr (record_evicted_id lay i x) (insert i S)"
      using Cons.prems by (intro record_id_repr) auto
    then show ?case using Cons.IH [of "record_evicted_id lay i x" "insert i S"] Cons.prems by auto
  qed simp
  then show ?thesis by (simp add: record_evicted_segment_def compact_index_repr)
qed

lemma new_index_repr: "index_repr new_index {}"
  by (simp add: index_repr_def new_index_def index_ok_def ranges_ok_def dense_ok_def saturation_ok_def cover_def
      dense_set_def)

lemma record_segments_repr:
  assumes "index_repr x S" "sorted (concat segs)" "\<forall>s \<in> S. \<forall>i \<in> set (concat segs). s \<le> i"
    "\<forall>i \<in> set (concat segs). i \<le> u64_max"
  shows "index_repr (fold (record_evicted_segment lay) segs x) (S \<union> set (concat segs))"
  using assms
proof (induction segs arbitrary: x S)
  case (Cons ids segs)
  have "index_repr (record_evicted_segment lay ids x) (S \<union> set ids)"
    using Cons.prems by (intro record_segment_repr) (auto simp: sorted_append)
  moreover have "\<forall>s \<in> S \<union> set ids. \<forall>i \<in> set (concat segs). s \<le> i" "sorted (concat segs)"
      "\<forall>i \<in> set (concat segs). i \<le> u64_max"
    using Cons.prems by (simp_all add: sorted_append) blast
  ultimately show ?case
    using Cons.IH [of "record_evicted_segment lay ids x" "S \<union> set ids"] by (simp add: Un_assoc)
qed simp

section \<open>Range queries\<close>

lemma masked_bits:
  assumes "span \<le> 64"
  shows "(drop_bit off w AND (if span = 64 then - 1 else push_bit span 1 - 1) \<noteq> (0 :: 64 word)) \<longleftrightarrow>
    (\<exists>j < span. bit w (off + j))"
proof -
  have m: "(if span = 64 then - 1 else push_bit span 1 - 1) = (mask span :: 64 word)"
    by (simp add: mask_eq_exp_minus_1)
  have "(drop_bit off w AND mask span \<noteq> 0) \<longleftrightarrow> (\<exists>j. bit (drop_bit off w AND mask span) j)"
    by (metis bit_0_eq bit_eqI bot_apply bot_bool_def)
  also have "\<dots> \<longleftrightarrow> (\<exists>j < span. bit w (off + j))"
    using assms by (auto simp: bit_simps dest: bit_imp_le_length)
  finally show ?thesis unfolding m .
qed

lemma intersects_loop_iff:
  "intersects_loop ws k to_bit \<longleftrightarrow> (\<exists>j. k \<le> j \<and> j \<le> to_bit \<and> word_bit ws j)"
proof (induction ws k to_bit rule: intersects_loop.induct)
  case (1 ws k to_bit)
  show ?case
  proof (cases "k > to_bit \<or> k div 64 \<ge> length ws")
    case True
    have "\<not> word_bit ws j" if "length ws \<le> k div 64" "k \<le> j" for j
      using that div_le_mono [of k j 64] by (auto simp: word_bit_def)
    then show ?thesis using True by (subst intersects_loop.simps) auto
  next
    case False
    define off where "off = k mod 64"
    define span where "span = min (to_bit - k + 1) (64 - off)"
    have off: "off < 64" by (simp add: off_def)
    have span: "0 < span" "span \<le> 64" "off + span \<le> 64" "k + span \<le> Suc to_bit"
      using off False by (auto simp: span_def)
    have in_word: "word_bit ws (k + j) \<longleftrightarrow> bit (ws ! (k div 64)) (off + j)" if "j < span" for j
    proof -
      have j: "off + j < 64" using that span(3) by linarith
      have kj: "k + j = (off + j) + k div 64 * 64" by (simp add: off_def)
      have "(k + j) div 64 = k div 64" "(k + j) mod 64 = off + j" unfolding kj using j by simp_all
      then show ?thesis using False by (simp add: word_bit_def)
    qed
    have hit: "(drop_bit off (ws ! (k div 64)) AND (if span = 64 then - 1 else push_bit span 1 - 1) \<noteq> 0) \<longleftrightarrow>
        (\<exists>j. k \<le> j \<and> j < k + span \<and> word_bit ws j)" (is "?hit \<longleftrightarrow> _")
    proof -
      have "(\<exists>j < span. word_bit ws (k + j)) \<longleftrightarrow> (\<exists>j. k \<le> j \<and> j < k + span \<and> word_bit ws j)"
        by (metis le_add1 le_add_diff_inverse nat_add_left_cancel_less)
      then show ?thesis using masked_bits [OF span(2)] in_word by auto
    qed
    have IH: "\<not> ?hit \<Longrightarrow> intersects_loop ws (k + span) to_bit \<longleftrightarrow> (\<exists>j. k + span \<le> j \<and> j \<le> to_bit \<and> word_bit ws j)"
      using "1.IH" [OF _ _ off_def span_def refl] False by blast
    have "intersects_loop ws k to_bit \<longleftrightarrow> ?hit \<or> intersects_loop ws (k + span) to_bit"
      using False by (subst intersects_loop.simps) (simp add: off_def span_def Let_def)
    also have "\<dots> \<longleftrightarrow> (\<exists>j. k \<le> j \<and> j \<le> to_bit \<and> word_bit ws j)"
    proof (cases ?hit)
      case True
      then obtain j where "k \<le> j" "j < k + span" "word_bit ws j" using hit by blast
      then show ?thesis using True span(4) by (metis less_Suc_eq_le less_le_trans)
    next
      case no: False
      then show ?thesis using IH hit by (metis le_add1 le_trans not_le)
    qed
    finally show ?thesis .
  qed
qed

lemma bitmap_intersects_iff:
  assumes ok: "bitmap_ok b" and se: "s \<le> e"
  shows "bitmap_intersects b s e \<longleftrightarrow> bitmap_set b \<inter> {s..e} \<noteq> {}"
proof (cases "bm_len b = 0")
  case True
  then show ?thesis by (simp add: bitmap_intersects_def empty_bitmap_set)
next
  case False
  have wl: "sat_add u64_max (origin b) (bm_len b - 1) = origin b + (bm_len b - 1)"
    using ok False unfolding bitmap_ok_def by (intro sat_add_exact) linarith
  let ?last = "origin b + (bm_len b - 1)"
  have set: "i \<in> bitmap_set b \<longleftrightarrow> origin b \<le> i \<and> i \<le> ?last \<and> word_bit (bm_words b) (i - origin b)" for i
  proof -
    have "i \<le> ?last" if "origin b \<le> i" "word_bit (bm_words b) (i - origin b)"
    proof -
      have "i - origin b < bm_len b" using ok that(2) unfolding bitmap_ok_def by (meson not_le)
      then show ?thesis using that(1) by linarith
    qed
    then show ?thesis by (auto simp: bitmap_set_eq [OF ok])
  qed
  show ?thesis
  proof (cases "e < origin b \<or> s > ?last")
    case True
    then show ?thesis using False wl set by (auto simp: bitmap_intersects_def)
  next
    case win: False
    have "bitmap_intersects b s e \<longleftrightarrow>
        (\<exists>j. max s (origin b) - origin b \<le> j \<and> j \<le> min e ?last - origin b \<and> word_bit (bm_words b) j)"
      using False win wl by (simp add: bitmap_intersects_def intersects_loop_iff)
    also have "\<dots> \<longleftrightarrow> (\<exists>i. s \<le> i \<and> i \<le> e \<and> i \<in> bitmap_set b)"
    proof
      assume "\<exists>j. max s (origin b) - origin b \<le> j \<and> j \<le> min e ?last - origin b \<and> word_bit (bm_words b) j"
      then obtain j where j: "max s (origin b) - origin b \<le> j" "j \<le> min e ?last - origin b" "word_bit (bm_words b) j" by blast
      then have "s \<le> origin b + j \<and> origin b + j \<le> e \<and> origin b + j \<in> bitmap_set b"
        using win by (auto simp: set)
      then show "\<exists>i. s \<le> i \<and> i \<le> e \<and> i \<in> bitmap_set b" by blast
    next
      assume "\<exists>i. s \<le> i \<and> i \<le> e \<and> i \<in> bitmap_set b"
      then obtain i where "s \<le> i" "i \<le> e" "origin b \<le> i" "i \<le> ?last" "word_bit (bm_words b) (i - origin b)"
        by (auto simp: set)
      then show "\<exists>j. max s (origin b) - origin b \<le> j \<and> j \<le> min e ?last - origin b \<and> word_bit (bm_words b) j"
        by (intro exI [of _ "i - origin b"]) (auto intro: diff_le_mono)
    qed
    finally show ?thesis by auto
  qed
qed

lemma range_intersects_iff:
  assumes ok: "index_ok x" and se: "s \<le> e"
  shows "range_intersects_evicted x s e \<longleftrightarrow> (cover x \<union> saturated_set x) \<inter> {s..e} \<noteq> {}"
proof -
  have interval: "(s \<le> t \<and> f \<le> e) \<longleftrightarrow> {f..t} \<inter> {s..e} \<noteq> {}" if "f \<le> t" for f t :: nat
  proof
    assume "s \<le> t \<and> f \<le> e"
    then have "max s f \<in> {f..t} \<inter> {s..e}" using that se by auto
    then show "{f..t} \<inter> {s..e} \<noteq> {}" by blast
  qed auto
  have d: "dense_evicted_prefix_intersects x s e \<longleftrightarrow> dense_set x \<inter> {s..e} \<noteq> {}"
    using ok interval
    by (auto simp: dense_evicted_prefix_intersects_def dense_set_def index_ok_def dense_ok_def split: option.splits)
  have sat: "saturated_intersects x s e \<longleftrightarrow> saturated_set x \<inter> {s..e} \<noteq> {}"
  proof (cases "saturated_from x = None \<or> saturated_through x = None")
    case True
    then show ?thesis by (auto simp: saturated_intersects_def saturated_set_def saturated_contains_def split: option.splits)
  next
    case False
    then obtain f t where ft: "saturated_from x = Some f" "saturated_through x = Some t" by auto
    then have "index_saturated x" "f \<le> t" using ok by (auto simp: index_ok_def saturation_ok_def)
    then have "saturated_set x = {f..t}" using ft by (auto simp: saturated_set_def saturated_contains_def)
    then show ?thesis using ft \<open>index_saturated x\<close> interval [OF \<open>f \<le> t\<close>] by (simp add: saturated_intersects_def)
  qed
  have "\<forall>b \<in> set (bitmaps x). bitmap_ok b" "ranges_ok (overflow_ranges x)" "ranges_ok (id_ranges x)"
    using ok by (auto simp: index_ok_def ranges_ok_append)
  then have b: "(\<exists>b \<in> set (bitmaps x). bitmap_intersects b s e) \<longleftrightarrow> bitmaps_set (bitmaps x) \<inter> {s..e} \<noteq> {}"
    and o: "overflow_intersects s e (overflow_ranges x) \<longleftrightarrow> ranges_set (overflow_ranges x) \<inter> {s..e} \<noteq> {}"
    and r: "overflow_intersects s e (id_ranges x) \<longleftrightarrow> ranges_set (id_ranges x) \<inter> {s..e} \<noteq> {}"
    using se by (auto simp: bitmap_intersects_iff bitmaps_set_def overflow_intersects_iff)
  show ?thesis unfolding range_intersects_evicted_def d sat b o r by (auto simp: cover_def)
qed

section \<open>Properties\<close>

lemma saturated_set_empty: "index_ok x \<Longrightarrow> \<not> index_saturated x \<Longrightarrow> saturated_set x = {}"
  by (auto simp: index_ok_def saturation_ok_def saturated_set_def saturated_contains_def split: option.splits)

text \<open>
  C13 (evicted_lookup_exact): after evicting segments whose line identities ascend, a lookup reports
  every evicted identity, and nothing else as long as the index has not saturated; identities
  that were skipped in between (the alternate screen's) are never claimed.
\<close>

theorem evicted_lookup_exact:
  assumes "sorted (concat segs)" and "\<forall>i \<in> set (concat segs). i \<le> u64_max"
    and x_def: "x = fold (record_evicted_segment lay) segs new_index"
  shows "(i \<in> set (concat segs) \<longrightarrow> line_was_evicted x i) \<and>
    (\<not> index_saturated x \<longrightarrow> line_was_evicted x i = (i \<in> set (concat segs)))"
proof -
  have rep: "index_repr x (set (concat segs))"
    using record_segments_repr [OF new_index_repr assms(1) _ assms(2), of lay] by (simp add: x_def)
  then have ok: "index_ok x" by (simp add: index_repr_def)
  show ?thesis using rep saturated_set_empty [OF ok] by (auto simp: line_was_evicted_iff [OF ok] index_repr_def)
qed

theorem evicted_lookup_exact_witness:
  "line_was_evicted (fold (record_evicted_segment layout64) [[1, 2], [5]] new_index) 5 \<and>
   \<not> line_was_evicted (fold (record_evicted_segment layout64) [[1, 2], [5]] new_index) 3"
proof -
  have "\<not> index_saturated (fold (record_evicted_segment layout64) [[1, 2], [5]] new_index)"
    by (simp add: record_evicted_segment_def record_evicted_id_def new_index_def compact_evicted_id_ranges_def
        checked_add_def MAX_EVICTED_ID_RANGES_def)
  then show ?thesis using evicted_lookup_exact [of "[[1, 2], [5]]" _ layout64 5, OF _ _ refl]
      evicted_lookup_exact [of "[[1, 2], [5]]" _ layout64 3, OF _ _ refl] by simp
qed

text \<open>
  Under the same history a range query answers whether any identity of the
  range was evicted: never a missed one, and exact while the index has not saturated.
\<close>

lemma evicted_range_exact:
  assumes "sorted (concat segs)" and "\<forall>i \<in> set (concat segs). i \<le> u64_max" and "s \<le> e"
    and x_def: "x = fold (record_evicted_segment lay) segs new_index"
  shows "((\<exists>i \<in> set (concat segs). s \<le> i \<and> i \<le> e) \<longrightarrow> range_intersects_evicted x s e) \<and>
    (\<not> index_saturated x \<longrightarrow> range_intersects_evicted x s e = (\<exists>i \<in> set (concat segs). s \<le> i \<and> i \<le> e))"
proof -
  have rep: "index_repr x (set (concat segs))"
    using record_segments_repr [OF new_index_repr assms(1) _ assms(2), of lay] by (simp add: x_def)
  then have ok: "index_ok x" by (simp add: index_repr_def)
  have S: "cover x \<subseteq> set (concat segs)" "set (concat segs) \<subseteq> cover x \<union> saturated_set x"
    using rep by (auto simp: index_repr_def)
  have "(\<exists>i \<in> set (concat segs). s \<le> i \<and> i \<le> e) \<longleftrightarrow> set (concat segs) \<inter> {s..e} \<noteq> {}" by auto
  then show ?thesis
    unfolding range_intersects_iff [OF ok assms(3)] using S saturated_set_empty [OF ok] by blast
qed

text \<open>
  C33 (evicted_out_of_order_lost): evicting a segment all of whose identities lie at or below the
  last recorded one changes nothing: no lookup and no range query learns of them, so an identity
  that was not reported as evicted before is not reported afterwards either.  Reverse scrolling mints
  a larger identity above older rows, so identities can leave the screen in such an order.
\<close>

theorem evicted_out_of_order_lost:
  assumes "id_ranges x \<noteq> []" "length (id_ranges x) \<le> MAX_EVICTED_ID_RANGES"
    and "\<forall>i \<in> set line_ids. i \<le> er_last (last (id_ranges x))"
  shows "record_evicted_segment lay line_ids x = x"
proof -
  have "fold (record_evicted_id lay) ids x = x" if "\<forall>i \<in> set ids. i \<le> er_last (last (id_ranges x))" for ids
    using that assms(1) by (induction ids) (simp_all add: record_evicted_id_def Let_def)
  then show ?thesis using assms(2,3) by (simp add: record_evicted_segment_def compact_evicted_id_ranges_def)
qed

theorem evicted_out_of_order_lost_witness:
  "\<not> line_was_evicted (record_evicted_segment layout64 [1] (record_evicted_segment layout64 [6] new_index)) 1"
proof -
  let ?x = "record_evicted_segment layout64 [6] new_index"
  have x: "id_ranges ?x = [\<lparr>er_first = 6, er_last = 6\<rparr>]" "\<not> line_was_evicted ?x 1"
    by (simp_all add: record_evicted_segment_def record_evicted_id_def new_index_def compact_evicted_id_ranges_def
      line_was_evicted_def saturated_contains_def dense_evicted_prefix_contains_def overflow_contains_def
      partition_point_def MAX_EVICTED_ID_RANGES_def)
  show ?thesis using evicted_out_of_order_lost [of ?x "[1]" layout64] x by (simp add: MAX_EVICTED_ID_RANGES_def)
qed

end
