(* ===== verification/History.thy ===== *)
theory History
  imports Wrap Eviction
begin

text \<open>
  The retained history of the primary screen: \<open>history/store.rs\<close>, the eviction loops of
  \<open>history/eviction.rs\<close>, the store side of \<open>history/wrap.rs\<close>, \<open>history/query.rs\<close> and
  \<open>history/reflow.rs\<close> of \<open>crates/seyal-terminal/src\<close>.

  Interior mutability (the reflow cache and the wrap spines) is explicit: operations on \<open>&self\<close>
  that may fill a cache return the store.  \<open>next_age\<close> is the process-wide segment counter as this
  store sees it.
\<close>

section \<open>The store\<close>

record reflow_row =
  row_source :: "line_id option"
  row_anchors :: "history_anchor list"
  row_cells :: "history_wire_cell list"
  row_break :: "history_break_after option"
  row_unavailable :: bool

record reflow_cache_entry =
  rc_columns :: nat
  rc_max_rows :: nat
  rc_generation :: nat
  rc_rows :: "reflow_row list"

record history_store =
  segments :: "segment list"
  segments_cap :: nat
  tail :: "history_line list"
  tail_cap :: nat
  tail_payload_bytes :: nat
  tail_resident_bytes :: nat
  segments_resident_bytes :: nat
  resident_bytes :: nat
  eviction_generation :: nat
  evicted :: evicted_index
  reflow_cache :: "reflow_cache_entry option"
  wrap_chains :: "wrap_chain list"
  next_age :: nat

definition new_history :: history_store where
  "new_history = \<lparr>segments = [], segments_cap = 0, tail = [], tail_cap = 0, tail_payload_bytes = 0,
     tail_resident_bytes = 0, segments_resident_bytes = 0, resident_bytes = 0, eviction_generation = 0,
     evicted = new_index, reflow_cache = None, wrap_chains = [], next_age = 1\<rparr>"

definition segment_entries :: "segment \<Rightarrow> history_line_ref list" where
  "segment_entries seg = map (Sealed seg) (seg_lines seg)"

definition entries_of :: "history_store \<Rightarrow> history_line_ref list" where
  "entries_of h = concat (map segment_entries (segments h)) @ map Tail (tail h)"

definition reverse_entries :: "history_store \<Rightarrow> history_line_ref list" where
  "reverse_entries h = map Tail (rev (tail h)) @ concat (map (\<lambda>seg. rev (segment_entries seg)) (rev (segments h)))"

lemma reverse_entries_eq: "reverse_entries h = rev (entries_of h)"
  by (simp add: reverse_entries_def entries_of_def rev_concat rev_map comp_def)

definition update_resident_bytes :: "layout \<Rightarrow> history_store \<Rightarrow> history_store" where
  "update_resident_bytes lay h =
    h\<lparr>resident_bytes :=
      (let a = sat_add u64_max (size_history_store lay) (tail_resident_bytes h);
           b = sat_add u64_max a (segments_resident_bytes h);
           c = sat_add u64_max b (sat_mul u64_max (id_ranges_cap (evicted h)) (size_evicted_range lay));
           d = sat_add u64_max c (sat_mul u64_max (overflow_cap (evicted h)) (size_evicted_range lay))
       in sat_add u64_max d (sum_list (map (bitmap_allocated_bytes lay) (bitmaps (evicted h)))))\<rparr>"

definition recount_tail :: "layout \<Rightarrow> history_store \<Rightarrow> history_store" where
  "recount_tail lay h =
    h\<lparr>tail_payload_bytes := sum_list (map canonical_payload_len (tail h)),
      tail_resident_bytes := sat_add u64_max (sum_list (map (line_allocated_bytes lay) (tail h)))
        (sat_mul u64_max (tail_cap h) (size_history_line lay))\<rparr>"

section \<open>Sealing\<close>

fun seal_units :: "history_unit list \<Rightarrow> segment_unit list \<times> byte list \<Rightarrow> segment_unit list \<times> byte list" where
  "seal_units [] acc = acc"
| "seal_units (u # us) (units, payload) =
    seal_units us
      (units @ [\<lparr>su_payload_start = u32_of (length payload), su_payload_len = u32_of (length (hu_utf8 u)),
                 su_width = hu_width u, su_style = hu_style u\<rparr>],
       payload @ hu_utf8 u)"

fun seal_lines ::
  "history_line list \<Rightarrow> segment_line list \<times> segment_unit list \<times> byte list
     \<Rightarrow> segment_line list \<times> segment_unit list \<times> byte list"
where
  "seal_lines [] acc = acc"
| "seal_lines (l # ls) (lines, units, payload) =
    (let unit_start = u32_of (length units);
         (units', payload') = seal_units (hl_units l) (units, payload)
     in seal_lines ls
          (lines @ [\<lparr>sl_id = hl_id l, sl_unit_start = unit_start,
                     sl_unit_len = u32_of (length units') - unit_start,
                     sl_start = hl_start l, sl_break = hl_break l\<rparr>],
           units', payload'))"

definition seal_tail :: "layout \<Rightarrow> history_store \<Rightarrow> history_store" where
  "seal_tail lay h =
    (if tail h = [] then h
     else
       let (lines, units, payload) = seal_lines (tail h) ([], [], []);
           resident = sat_add u64_max
             (sat_add u64_max (sat_mul u64_max (length lines) (size_segment_line lay))
                (sat_mul u64_max (length units) (size_segment_unit lay))) (length payload);
           seg = \<lparr>seg_lines = lines, seg_units = units, seg_payload = payload, seg_age = next_age h,
                  seg_resident = resident\<rparr>;
           new_cap = push_cap lay (length (segments h)) (segments_cap h)
       in update_resident_bytes lay
            (h\<lparr>tail := [], tail_cap := 0, tail_payload_bytes := 0, tail_resident_bytes := 0,
              next_age := (next_age h + 1) mod 2 ^ 64,
              segments := segments h @ [seg], segments_cap := new_cap,
              segments_resident_bytes := sat_add u64_max
                (sat_add u64_max (segments_resident_bytes h) resident)
                (sat_mul u64_max (new_cap - segments_cap h) (size_segment lay))\<rparr>))"

section \<open>Appending and evicting\<close>

definition push_fragment_inner :: "layout \<Rightarrow> history_line \<Rightarrow> bool \<Rightarrow> history_store \<Rightarrow> history_store" where
  "push_fragment_inner lay line record_wrap h0 =
    (let bytes = canonical_payload_len line;
         h1 = (if tail h0 \<noteq> [] \<and> (tail_payload_bytes h0 + bytes > HISTORY_SEGMENT_PAYLOAD_TARGET
                 \<or> tail_resident_bytes h0 \<ge> HISTORY_TAIL_PAYLOAD_LIMIT)
               then seal_tail lay h0 else h0);
         h2 = h1\<lparr>tail_payload_bytes := tail_payload_bytes h1 + bytes,
                 wrap_chains := (if record_wrap then extend_wrap_line lay line (wrap_chains h1) else wrap_chains h1)\<rparr>;
         new_cap = push_cap lay (length (tail h2)) (tail_cap h2);
         h3 = update_resident_bytes lay
           (h2\<lparr>tail := tail h2 @ [line], tail_cap := new_cap,
               tail_resident_bytes := sat_add u64_max
                 (sat_add u64_max (tail_resident_bytes h2) (line_allocated_bytes lay line))
                 (sat_mul u64_max (new_cap - tail_cap h2) (size_history_line lay))\<rparr>)
     in if tail_payload_bytes h3 \<ge> HISTORY_SEGMENT_PAYLOAD_TARGET
           \<or> tail_resident_bytes h3 \<ge> HISTORY_TAIL_PAYLOAD_LIMIT
        then seal_tail lay h3 else h3)"

definition push_fragment :: "layout \<Rightarrow> history_line \<Rightarrow> history_store \<Rightarrow> history_store" where
  "push_fragment lay line h = push_fragment_inner lay line True h"

text \<open>The position of the first retained entry, for the wrap index.\<close>

definition first_retained :: "history_store \<Rightarrow> history_anchor option" where
  "first_retained h =
    (case entries_of h of
       [] \<Rightarrow> None
     | r # _ \<Rightarrow> Some \<lparr>anchor_line = ref_line_id r, unit_offset = ref_start_offset r\<rparr>)"

definition evict_front :: "layout \<Rightarrow> history_store \<Rightarrow> history_store" where
  "evict_front lay h =
    (let seg = hd (segments h);
         h1 = h\<lparr>segments := tl (segments h),
                evicted := record_evicted_segment lay (map (line_no \<circ> sl_id) (seg_lines seg)) (evicted h),
                segments_resident_bytes := segments_resident_bytes h - seg_resident seg\<rparr>;
         h2 = update_resident_bytes lay h1
     in h2\<lparr>eviction_generation := (eviction_generation h2 + 1) mod 2 ^ 64\<rparr>)"

lemma evict_front_shape [simp]:
  "segments (evict_front lay h) = tl (segments h)" "tail (evict_front lay h) = tail h"
  by (simp_all add: evict_front_def update_resident_bytes_def Let_def)

lemma seal_tail_shape:
  "tail (seal_tail lay h) = []"
  "tail h \<noteq> [] \<Longrightarrow> length (segments (seal_tail lay h)) = Suc (length (segments h))"
  by (simp_all add: seal_tail_def update_resident_bytes_def Let_def case_prod_beta)

function evict_loop :: "layout \<Rightarrow> history_store \<Rightarrow> bool \<Rightarrow> history_store \<times> bool" where
  "evict_loop lay h ev =
    (if resident_bytes h > HISTORY_PER_EXECUTION_BYTE_CAP then
       (if segments h = [] then
          (if tail h = [] then (h, ev)
           else evict_loop lay (evict_front lay (seal_tail lay h)) True)
        else evict_loop lay (evict_front lay h) True)
     else (h, ev))"
  by pat_completeness auto
termination
  by (relation "measure (\<lambda>(lay, h, ev). length (segments h) + length (tail h))")
    (auto simp: seal_tail_shape)

declare evict_loop.simps [simp del]

definition evict_to_cap :: "layout \<Rightarrow> history_store \<Rightarrow> history_store" where
  "evict_to_cap lay h =
    (let (h1, ev) = evict_loop lay (update_resident_bytes lay h) False
     in if ev then h1\<lparr>wrap_chains := trim_wrap_before_retained (first_retained h1) (wrap_chains h1)\<rparr> else h1)"

definition oldest_segment_age :: "history_store \<Rightarrow> nat option" where
  "oldest_segment_age h = (case segments h of [] \<Rightarrow> None | seg # _ \<Rightarrow> Some (seg_age seg))"

definition evict_oldest_segment :: "layout \<Rightarrow> history_store \<Rightarrow> history_store \<times> nat" where
  "evict_oldest_segment lay h0 =
    (let h = h0\<lparr>reflow_cache := None\<rparr> in
     if segments h = [] then (h, 0)
     else
       let h1 = evict_front lay h;
           h2 = h1\<lparr>wrap_chains := trim_wrap_before_retained (first_retained h1) (wrap_chains h1)\<rparr>
       in (h2, resident_bytes h - resident_bytes h2))"

text \<open>The fragmenting loop of \<open>append_line\<close> for a line above the segment target.\<close>

fun fragment_loop ::
  "layout \<Rightarrow> line_id \<Rightarrow> history_break_after \<Rightarrow> history_unit list \<Rightarrow> history_unit list \<Rightarrow> nat \<Rightarrow> nat
     \<Rightarrow> history_store \<Rightarrow> history_store"
where
  "fragment_loop lay lid final_break [] frag frag_bytes source_offset h =
    (if frag = [] then h
     else push_fragment lay \<lparr>hl_id = lid, hl_units = frag, hl_break = final_break,
            hl_start = source_offset - length frag mod 2 ^ 32\<rparr> h)"
| "fragment_loop lay lid final_break (u # us) frag frag_bytes source_offset h =
    (let unit_bytes = length (hu_utf8 u) in
     if frag \<noteq> [] \<and> frag_bytes + unit_bytes > HISTORY_SEGMENT_PAYLOAD_TARGET then
       fragment_loop lay lid final_break us [u] unit_bytes (sat_add u32_max source_offset 1)
         (push_fragment lay \<lparr>hl_id = lid, hl_units = frag, hl_break = SoftWrap,
            hl_start = source_offset - length frag mod 2 ^ 32\<rparr> h)
     else
       fragment_loop lay lid final_break us (frag @ [u]) (frag_bytes + unit_bytes)
         (sat_add u32_max source_offset 1) h)"

definition append_line :: "layout \<Rightarrow> history_line \<Rightarrow> history_store \<Rightarrow> history_store" where
  "append_line lay line h0 =
    (let h1 = h0\<lparr>reflow_cache := None\<rparr>;
         h2 = (if canonical_payload_len line > HISTORY_SEGMENT_PAYLOAD_TARGET
               then fragment_loop lay (hl_id line) (hl_break line) (hl_units line) [] 0 (hl_start line) h1
               else push_fragment lay line h1)
     in evict_to_cap lay (update_resident_bytes lay h2))"

definition append_row ::
  "layout \<Rightarrow> line_id \<Rightarrow> history_break_after \<Rightarrow> cell list \<Rightarrow> grapheme_store \<Rightarrow> history_store \<Rightarrow> history_store"
where
  "append_row lay lid brk cells store h = append_line lay (from_cells lid brk cells store) h"

definition replace_payload :: "layout \<Rightarrow> history_line list \<Rightarrow> history_store \<Rightarrow> history_store" where
  "replace_payload lay lines h =
    fold (append_line lay) lines
      (update_resident_bytes lay
        (h\<lparr>reflow_cache := None, wrap_chains := [], segments := [], tail := [], tail_payload_bytes := 0,
          tail_resident_bytes := 0, segments_resident_bytes := 0\<rparr>))"

section \<open>Truncating\<close>

text \<open>
  The tail loop of \<open>truncate_from\<close> on the reversed tail; the flag says that the cut fell inside a
  line and the function returned.
\<close>

fun truncate_tail_rev :: "history_anchor \<Rightarrow> history_line list \<Rightarrow> history_line list \<times> bool" where
  "truncate_tail_rev from [] = ([], False)"
| "truncate_tail_rev from (l # ls) =
    (if line_entirely_before l from then (l # ls, False)
     else if hl_id l = anchor_line from \<and> hl_start l < unit_offset from then
       (let keep = min (unit_offset from - hl_start l) (length (hl_units l)) in
        if keep = 0 then (ls, True)
        else (l\<lparr>hl_units := take keep (hl_units l), hl_break := SoftWrap\<rparr> # ls, True))
     else truncate_tail_rev from ls)"

text \<open>The lines of a popped segment that are kept, and whether the split was reached.\<close>

fun keep_lines :: "history_anchor \<Rightarrow> history_line list \<Rightarrow> history_line list \<times> bool" where
  "keep_lines from [] = ([], False)"
| "keep_lines from (l # ls) =
    (if line_entirely_before l from then
       (let (ks, split) = keep_lines from ls in (l # ks, split))
     else if hl_id l = anchor_line from \<and> hl_start l < unit_offset from then
       (let count = min (unit_offset from - hl_start l) (length (hl_units l)) in
        (if count > 0 then [l\<lparr>hl_units := take count (hl_units l), hl_break := SoftWrap\<rparr>] else [], True))
     else ([], True))"

text \<open>
  The segment loop runs on fuel, and \<open>None\<close> means that it has not returned within it.  Every turn pops
  a segment and either stops or pushes back fewer lines than it popped; that the fuel below is
  enough is proved in \<open>History_Truncate\<close>.
\<close>

fun truncate_segments :: "nat \<Rightarrow> layout \<Rightarrow> history_anchor \<Rightarrow> history_store \<Rightarrow> history_store option" where
  "truncate_segments 0 lay from h = None"
| "truncate_segments (Suc fuel) lay from h =
    (if segments h = [] then Some h
     else
       let seg = last (segments h) in
       if seg_lines seg = [] then truncate_segments fuel lay from (h\<lparr>segments := butlast (segments h)\<rparr>)
       else
         let l = last (seg_lines seg) in
         if range_entirely_before (sl_id l) (sl_start l) (sl_unit_len l) from then Some h
         else
           let h1 = h\<lparr>segments := butlast (segments h),
                      segments_resident_bytes := segments_resident_bytes h - seg_resident seg\<rparr>;
               (ks, split) = keep_lines from (map to_owned_line (segment_entries seg));
               h2 = fold (\<lambda>k. push_fragment_inner lay k False) ks h1
           in if split then Some h2 else truncate_segments fuel lay from h2)"

definition truncate_fuel :: "history_store \<Rightarrow> nat" where
  "truncate_fuel h = Suc (length (segments h))"

text \<open>The store when the tail loop has ended, and whether the function returned from inside it.\<close>

definition truncate_tail :: "layout \<Rightarrow> history_anchor \<Rightarrow> history_store \<Rightarrow> history_store \<times> bool" where
  "truncate_tail lay from h0 =
    (let h = h0\<lparr>reflow_cache := None\<rparr>;
         (rtail, cut) = truncate_tail_rev from (rev (tail h))
     in (recount_tail lay (h\<lparr>tail := rev rtail\<rparr>), cut))"

text \<open>
  \<open>truncate_from\<close>.  The branch for a segment loop that does not return keeps the store as the tail
  loop left it; it is never taken on a store with exact counts.
\<close>

definition truncate_from :: "layout \<Rightarrow> history_anchor \<Rightarrow> history_store \<Rightarrow> history_store" where
  "truncate_from lay from h0 =
    (let (h1, cut) = truncate_tail lay from h0;
         h2 = (if cut then h1
               else case truncate_segments (truncate_fuel h1) lay from h1 of Some h \<Rightarrow> recount_tail lay h | None \<Rightarrow> h1);
         h3 = update_resident_bytes lay h2
     in h3\<lparr>wrap_chains := trim_wrap_suffix_from from (wrap_chains h3)\<rparr>)"

section \<open>Columns for a resize\<close>

definition line_wholly_after :: "history_line_ref \<Rightarrow> history_anchor \<Rightarrow> bool" where
  "line_wholly_after r from \<longleftrightarrow> anchor_line from < ref_line_id r
     \<or> ref_line_id r = anchor_line from \<and> ref_start_offset r \<ge> unit_offset from"

definition line_wholly_before :: "history_line_ref \<Rightarrow> history_anchor \<Rightarrow> bool" where
  "line_wholly_before r from \<longleftrightarrow> ref_line_id r < anchor_line from
     \<or> ref_line_id r = anchor_line from \<and> sat_add u32_max (ref_start_offset r) (ref_unit_len r) \<le> unit_offset from"

fun fragment_runs :: "bool \<Rightarrow> history_anchor \<Rightarrow> nat \<Rightarrow> history_unit list \<Rightarrow> run list \<Rightarrow> run list" where
  "fragment_runs same from off [] rs = rs"
| "fragment_runs same from off (u # us) rs =
    (if same \<and> off \<ge> unit_offset from then rs
     else fragment_runs same from (sat_add u32_max off 1) us (push_run (max (hu_width u) 1) 1 rs))"

fun canonical_fragments ::
  "history_anchor \<Rightarrow> history_line_ref list \<Rightarrow> run list list \<Rightarrow> bool \<Rightarrow> run list list \<times> bool"
where
  "canonical_fragments from [] frs saw_soft = (frs, saw_soft)"
| "canonical_fragments from (r # rs) frs saw_soft =
    (if line_wholly_after r from then canonical_fragments from rs frs saw_soft
     else if frs \<noteq> [] \<and> ref_break_after r = HardBreak \<and> line_wholly_before r from then (frs, saw_soft)
     else canonical_fragments from rs
       (frs @ [fragment_runs (ref_line_id r = anchor_line from) from (ref_start_offset r) (ref_units r) []])
       (saw_soft \<or> ref_break_after r = SoftWrap))"

definition wrap_occupancy_from_canonical :: "history_store \<Rightarrow> history_anchor \<Rightarrow> nat \<Rightarrow> nat" where
  "wrap_occupancy_from_canonical h from cols =
    (let (frs, saw_soft) = canonical_fragments from (reverse_entries h) [] False in
     if \<not> saw_soft then 0
     else let rs = fold (\<lambda>(w, n). push_run w n) (concat (rev frs)) []
          in wrap_occupancy_for_runs rs cols (wrap_runs_unit_sum rs))"

definition wrap_column_before :: "history_store \<Rightarrow> history_anchor option \<Rightarrow> nat \<Rightarrow> history_store \<times> nat" where
  "wrap_column_before h from cols =
    (case from of
       None \<Rightarrow> (h, 0)
     | Some a \<Rightarrow>
         if cols = 0 then (h, 0)
         else (case wrap_chain_index (wrap_chains h) a of
                 Some i \<Rightarrow>
                   let c = wrap_chains h ! i;
                       (c', col) = wrap_occupancy_indexed c cols (units_before c a)
                   in (h\<lparr>wrap_chains := (wrap_chains h)[i := c']\<rparr>, col)
               | None \<Rightarrow> (h, wrap_occupancy_from_canonical h a cols)))"

definition eager_resize_row_budget :: "nat \<Rightarrow> nat" where
  "eager_resize_row_budget rows = max (sat_mul u64_max rows 3) 1"

definition line_cells :: "history_line \<Rightarrow> nat" where
  "line_cells l = sum_list (map (\<lambda>u. max (hu_width u) 1) (hl_units l))"

fun extend_suffix ::
  "nat \<Rightarrow> history_line_ref \<Rightarrow> history_line_ref list \<Rightarrow> history_line list \<Rightarrow> nat \<Rightarrow> history_line list \<times> bool"
where
  "extend_suffix extend_budget cur [] collected cells =
    (let add = line_cells (to_owned_line cur) in
     if sat_add u64_max cells (max add 1) > extend_budget \<and> collected \<noteq> [] then (collected, True)
     else (collected @ [to_owned_line cur], False))"
| "extend_suffix extend_budget cur (n # ns) collected cells =
    (let add = line_cells (to_owned_line cur) in
     if sat_add u64_max cells (max add 1) > extend_budget \<and> collected \<noteq> [] then (collected, True)
     else if ref_break_after n = SoftWrap
     then extend_suffix extend_budget n ns (collected @ [to_owned_line cur]) (sat_add u64_max cells (max add 1))
     else (collected @ [to_owned_line cur], False))"

definition line_anchor :: "history_line \<Rightarrow> history_anchor" where
  "line_anchor l = \<lparr>anchor_line = hl_id l, unit_offset = hl_start l\<rparr>"

definition aperiodic_long :: "history_store \<Rightarrow> history_line list \<Rightarrow> bool" where
  "aperiodic_long h collected =
    (collected \<noteq> [] \<and>
     (case wrap_chain_containing (wrap_chains h) (line_anchor (last collected)) of
        None \<Rightarrow> False
      | Some c \<Rightarrow> wrap_chain_pattern c = None \<and> length (runs c) > APERIODIC_INLINE_RUN_BOUND))"

fun collect_suffix ::
  "history_store \<Rightarrow> nat \<Rightarrow> nat \<Rightarrow> history_line_ref list \<Rightarrow> history_line list \<Rightarrow> nat \<Rightarrow> history_line list \<times> bool"
where
  "collect_suffix h budget extend_budget [] collected cells = (collected, False)"
| "collect_suffix h budget extend_budget (r # rs) collected cells =
    (if cells \<ge> budget then
       (if ref_break_after r \<noteq> SoftWrap then (collected, False)
        else if \<not> aperiodic_long h collected then (collected, True)
        else extend_suffix extend_budget r rs collected cells)
     else
       let l = to_owned_line r in
       collect_suffix h budget extend_budget rs (collected @ [l]) (sat_add u64_max cells (max (line_cells l) 1)))"

definition eager_resize_suffix ::
  "history_store \<Rightarrow> nat \<Rightarrow> nat \<Rightarrow> history_store \<times> history_line list \<times> history_anchor option \<times> nat"
where
  "eager_resize_suffix h cols visual_rows =
    (let budget = sat_mul u64_max (max cols 1) (max visual_rows 1);
         extend_budget = sat_mul u64_max budget APERIODIC_EXTEND_CELL_FACTOR;
         (collected, omitted_joins) = collect_suffix h budget extend_budget (reverse_entries h) [] 0;
         lines = rev collected;
         from = (case lines of [] \<Rightarrow> None | l # _ \<Rightarrow> Some (line_anchor l));
         (h', start_col) = (if omitted_joins then wrap_column_before h from cols else (h, 0))
     in (h', lines, from, start_col))"

section \<open>Derived caches\<close>

definition reflow_rows_allocated_bytes :: "layout \<Rightarrow> reflow_row list \<Rightarrow> nat" where
  "reflow_rows_allocated_bytes lay rows =
    sat_add u64_max
      (sat_add u64_max (size_vec lay) (sat_mul u64_max (vec_cap lay (length rows)) (size_reflow_row lay)))
      (sum_list (map (\<lambda>row. sat_add u64_max
         (sat_add u64_max (sat_mul u64_max (vec_cap lay (length (row_cells row))) (size_wire_cell lay))
           (sum_list (map (\<lambda>c. vec_cap lay (str_len (wire_text c))) (row_cells row))))
         (sat_mul u64_max (vec_cap lay (length (row_anchors row))) (size_anchor lay))) rows))"

definition derived_cache_bytes :: "layout \<Rightarrow> history_store \<Rightarrow> nat" where
  "derived_cache_bytes lay h =
    sat_add u64_max (wrap_index_allocated_bytes lay (wrap_chains h))
      (case reflow_cache h of None \<Rightarrow> 0 | Some c \<Rightarrow> reflow_rows_allocated_bytes lay (rc_rows c))"

definition drop_derived_cache :: "history_store \<Rightarrow> history_store" where
  "drop_derived_cache h = h\<lparr>reflow_cache := None, wrap_chains := []\<rparr>"

end
