(* ===== verification/History_Query.thy ===== *)
theory History_Query
  imports History
begin

text \<open>
  Reading retained history: \<open>history/query.rs\<close> (anchor resolution, source units, search,
  selection) and \<open>history/reflow.rs\<close> (layout of the source units for a width, with its cache).

  A loop that returns early is a recursion with a sum result: \<open>Inl\<close> is the returned value, \<open>Inr\<close> the
  state after the loop.
\<close>

section \<open>Queries\<close>

definition resolve_anchor :: "history_store \<Rightarrow> history_anchor \<Rightarrow> history_anchor_resolution" where
  "resolve_anchor h a =
    (case List.find (\<lambda>r. ref_line_id r = anchor_line a \<and> unit_offset a \<ge> ref_start_offset r \<and>
              unit_offset a - ref_start_offset r < length (ref_units r) mod 2 ^ 32) (entries_of h) of
       None \<Rightarrow> if line_was_evicted (evicted h) (line_no (anchor_line a)) then Unavailable else Invalid
     | Some r \<Rightarrow>
         let relative = unit_offset a - ref_start_offset r in
         if relative < length (ref_units r) then
           (let u = ref_units r ! relative in
            case from_utf8 (hu_utf8 u) of
              None \<Rightarrow> Unavailable
            | Some text \<Rightarrow> Resolved text (hu_width u) (hu_style u))
         else Invalid)"

definition entry_views :: "history_line_ref \<Rightarrow> history_unit_view list" where
  "entry_views r =
    map (\<lambda>(i, u). \<lparr>view_anchor = \<lparr>anchor_line = ref_line_id r,
            unit_offset = sat_add u32_max (ref_start_offset r) (i mod 2 ^ 32)\<rparr>,
          view_text = from_utf8_lossy (hu_utf8 u), view_width = hu_width u, view_style = hu_style u,
          view_break = ref_break_after r\<rparr>) (enumerate 0 (ref_units r))"

fun push_views ::
  "nat \<Rightarrow> history_unit_view list \<Rightarrow> history_unit_view list \<Rightarrow> history_unit_view list + history_unit_view list"
where
  "push_views max_units [] units = Inr units"
| "push_views max_units (v # vs) units =
    (let units' = units @ [v] in
     if length units' \<ge> max_units then Inl units' else push_views max_units vs units')"

fun source_units_loop ::
  "line_id \<Rightarrow> line_id \<Rightarrow> nat \<Rightarrow> history_line_ref list \<Rightarrow> history_unit_view list \<Rightarrow> history_unit_view list"
where
  "source_units_loop start ending max_units [] units = units"
| "source_units_loop start ending max_units (r # rs) units =
    (if ref_line_id r < start then source_units_loop start ending max_units rs units
     else if ref_line_id r > ending then units
     else (case push_views max_units (entry_views r) units of
             Inl result \<Rightarrow> result
           | Inr units' \<Rightarrow> source_units_loop start ending max_units rs units'))"

definition source_units :: "history_store \<Rightarrow> line_id \<Rightarrow> line_id \<Rightarrow> nat \<Rightarrow> history_unit_view list" where
  "source_units h start ending max_units =
    (if max_units = 0 \<or> ending < start then []
     else source_units_loop start ending max_units (entries_of h) [])"

definition slide_window :: "nat \<Rightarrow> history_unit_view list \<Rightarrow> history_unit_view list" where
  "slide_window n window = drop (length window - n) window"

fun search_units ::
  "scalar list \<Rightarrow> nat \<Rightarrow> nat \<Rightarrow> history_unit_view list \<Rightarrow> history_unit_view list \<Rightarrow> history_match list
     \<Rightarrow> history_match list + history_unit_view list \<times> history_match list"
where
  "search_units needle needle_units max_matches [] window matches = Inr (window, matches)"
| "search_units needle needle_units max_matches (v # vs) window matches =
    (let window' = slide_window needle_units (window @ [v]);
         text = concat (map view_text window')
     in if text = needle then
          (let matches' = matches @ [\<lparr>match_start = view_anchor (hd window'), match_end = view_anchor (last window')\<rparr>]
           in if length matches' \<ge> max_matches then Inl matches'
              else search_units needle needle_units max_matches vs window' matches')
        else search_units needle needle_units max_matches vs window' matches)"

fun search_loop ::
  "scalar list \<Rightarrow> nat \<Rightarrow> nat \<Rightarrow> history_line_ref list \<Rightarrow> history_unit_view list \<Rightarrow> history_match list
     \<Rightarrow> history_match list"
where
  "search_loop needle needle_units max_matches [] window matches = matches"
| "search_loop needle needle_units max_matches (r # rs) window matches =
    (case search_units needle needle_units max_matches (entry_views r) window matches of
       Inl result \<Rightarrow> result
     | Inr (window', matches') \<Rightarrow>
         search_loop needle needle_units max_matches rs
           (if ref_break_after r = HardBreak then [] else window') matches')"

definition search :: "unicode_env \<Rightarrow> history_store \<Rightarrow> scalar list \<Rightarrow> nat \<Rightarrow> history_match list" where
  "search env h needle max_matches =
    (if needle = [] \<or> max_matches = 0 then []
     else search_loop needle (grapheme_count env needle) max_matches (entries_of h) [] [])"

fun select_views ::
  "history_anchor \<Rightarrow> history_anchor \<Rightarrow> history_unit_view list \<Rightarrow> history_unit_view list
     \<Rightarrow> history_range_error + history_unit_view list"
where
  "select_views start ending [] selected = Inr selected"
| "select_views start ending (v # vs) selected =
    (if anchor_le start (view_anchor v) \<and> anchor_le (view_anchor v) ending then
       (if length selected \<ge> HISTORY_SELECTION_UNIT_CAP then Inl Unrepresentable
        else select_views start ending vs (selected @ [v]))
     else select_views start ending vs selected)"

fun selection_loop ::
  "history_anchor \<Rightarrow> history_anchor \<Rightarrow> history_line_ref list \<Rightarrow> history_unit_view list
     \<Rightarrow> history_range_error + history_unit_view list"
where
  "selection_loop start ending [] selected = Inr selected"
| "selection_loop start ending (r # rs) selected =
    (if ref_line_id r < anchor_line start then selection_loop start ending rs selected
     else if ref_line_id r > anchor_line ending then Inr selected
     else (case select_views start ending (entry_views r) selected of
             Inl e \<Rightarrow> Inl e
           | Inr selected' \<Rightarrow> selection_loop start ending rs selected'))"

definition selection ::
  "history_store \<Rightarrow> history_anchor \<Rightarrow> history_anchor \<Rightarrow> history_range_error + history_unit_view list"
where
  "selection h start ending =
    (if anchor_less ending start then Inl Unrepresentable
     else if range_intersects_evicted (evicted h) (line_no (anchor_line start)) (line_no (anchor_line ending))
     then Inl Stale
     else (case selection_loop start ending (entries_of h) [] of
             Inl e \<Rightarrow> Inl e
           | Inr selected \<Rightarrow> if selected = [] then Inl Stale else Inr selected))"

section \<open>Reflow\<close>

definition default_row :: reflow_row where
  "default_row = \<lparr>row_source = None, row_anchors = [], row_cells = [], row_break = None, row_unavailable = False\<rparr>"

record reflow_state =
  rf_rows :: "reflow_row list"
  rf_current :: reflow_row
  rf_used :: nat
  rf_previous :: "history_break_after option"

type_synonym reflow_result = "reflow_row list + reflow_state"

definition push_current :: "history_break_after option \<Rightarrow> reflow_state \<Rightarrow> reflow_state" where
  "push_current brk st = st\<lparr>rf_rows := rf_rows st @ [(rf_current st)\<lparr>row_break := brk\<rparr>], rf_current := default_row\<rparr>"

text \<open>\<open>return\<close> (or \<open>break\<close>, which returns the same rows) once the row budget is met.\<close>

definition check_rows :: "nat \<Rightarrow> reflow_state \<Rightarrow> reflow_result" where
  "check_rows max_rows st = (if length (rf_rows st) \<ge> max_rows then Inl (rf_rows st) else Inr st)"

definition bind_reflow :: "reflow_result \<Rightarrow> (reflow_state \<Rightarrow> reflow_result) \<Rightarrow> reflow_result" where
  "bind_reflow r f = (case r of Inl rows \<Rightarrow> Inl rows | Inr st \<Rightarrow> f st)"

text \<open>One unit: wrap when it does not fit, a row of its own when it never fits, else append.\<close>

definition reflow_wrap :: "nat \<Rightarrow> nat \<Rightarrow> nat \<Rightarrow> reflow_state \<Rightarrow> reflow_result" where
  "reflow_wrap width max_rows unit_width st =
    (if rf_used st > 0 \<and> rf_used st + unit_width > width then
       bind_reflow
         (if row_cells (rf_current st) \<noteq> [] then check_rows max_rows (push_current (Some SoftWrap) st) else Inr st)
         (\<lambda>st. Inr (st\<lparr>rf_used := 0\<rparr>))
     else Inr st)"

definition reflow_place ::
  "nat \<Rightarrow> nat \<Rightarrow> history_anchor \<Rightarrow> history_unit \<Rightarrow> reflow_state \<Rightarrow> reflow_result"
where
  "reflow_place width max_rows a u st =
    (let unit_width = max (hu_width u) 1 in
     if unit_width > width then
       bind_reflow
         (if row_cells (rf_current st) \<noteq> [] \<or> row_anchors (rf_current st) \<noteq> []
          then check_rows max_rows (push_current (Some SoftWrap) st) else Inr st)
         (\<lambda>st. check_rows max_rows
            (st\<lparr>rf_rows := rf_rows st @ [\<lparr>row_source = Some (anchor_line a), row_anchors = [a], row_cells = [],
                 row_break = Some SoftWrap, row_unavailable = True\<rparr>], rf_used := 0\<rparr>))
     else
       let c = rf_current st in
       Inr (st\<lparr>rf_current := c\<lparr>
              row_source := (case row_source c of None \<Rightarrow> Some (anchor_line a) | Some l \<Rightarrow> Some l),
              row_anchors := row_anchors c @ [a],
              row_cells := row_cells c @ [reflow_wire_cell u] @
                (if unit_width = 2 then [continuation_placeholder (hu_style u)] else [])\<rparr>,
            rf_used := sat_add u64_max (rf_used st) unit_width\<rparr>))"

fun reflow_units :: "nat \<Rightarrow> nat \<Rightarrow> line_id \<Rightarrow> nat \<Rightarrow> nat \<Rightarrow> history_unit list \<Rightarrow> reflow_state \<Rightarrow> reflow_result" where
  "reflow_units width max_rows lid start i [] st = Inr st"
| "reflow_units width max_rows lid start i (u # us) st =
    bind_reflow (reflow_wrap width max_rows (max (hu_width u) 1) st)
      (\<lambda>st. bind_reflow
         (reflow_place width max_rows \<lparr>anchor_line = lid, unit_offset = sat_add u32_max start (i mod 2 ^ 32)\<rparr> u st)
         (\<lambda>st. reflow_units width max_rows lid start (i + 1) us st))"

text \<open>The end of a hard-broken line.\<close>

definition reflow_hard_break :: "nat \<Rightarrow> line_id \<Rightarrow> reflow_state \<Rightarrow> reflow_result" where
  "reflow_hard_break max_rows lid st =
    (let c = rf_current st;
         st1 =
           (if row_cells c = [] \<and> row_anchors c = [] then
              (if rf_rows st \<noteq> [] \<and> row_unavailable (last (rf_rows st))
               then st\<lparr>rf_rows := butlast (rf_rows st) @ [(last (rf_rows st))\<lparr>row_break := Some HardBreak\<rparr>]\<rparr>
               else push_current (Some HardBreak) (st\<lparr>rf_current := c\<lparr>row_source := Some lid\<rparr>\<rparr>))
            else push_current (Some HardBreak) st)
     in bind_reflow (check_rows max_rows (st1\<lparr>rf_used := 0\<rparr>)) (\<lambda>st. Inr (st\<lparr>rf_previous := None\<rparr>)))"

definition reflow_line :: "nat \<Rightarrow> nat \<Rightarrow> history_line_ref \<Rightarrow> reflow_state \<Rightarrow> reflow_result" where
  "reflow_line width max_rows r st =
    bind_reflow
      (if rf_previous st \<noteq> Some SoftWrap \<and> row_cells (rf_current st) \<noteq> [] then
         check_rows max_rows ((push_current (row_break (rf_current st)) st)\<lparr>rf_used := 0\<rparr>)
       else Inr st)
      (\<lambda>st. bind_reflow (reflow_units width max_rows (ref_line_id r) (ref_start_offset r) 0 (ref_units r) st)
         (\<lambda>st.
            let st1 = st\<lparr>rf_previous := Some (ref_break_after r)\<rparr> in
            if ref_break_after r = HardBreak then reflow_hard_break max_rows (ref_line_id r) st1 else Inr st1))"

fun reflow_lines :: "nat \<Rightarrow> nat \<Rightarrow> history_line_ref list \<Rightarrow> reflow_state \<Rightarrow> reflow_result" where
  "reflow_lines width max_rows [] st = Inr st"
| "reflow_lines width max_rows (r # rs) st =
    bind_reflow (reflow_line width max_rows r st) (\<lambda>st. reflow_lines width max_rows rs st)"

definition reflow_uncached_from :: "history_store \<Rightarrow> nat \<Rightarrow> nat \<Rightarrow> nat \<Rightarrow> reflow_row list" where
  "reflow_uncached_from h cols max_rows start_col =
    (if cols = 0 \<or> max_rows = 0 then []
     else case reflow_lines cols max_rows (entries_of h)
            \<lparr>rf_rows = [], rf_current = default_row, rf_used = min start_col cols, rf_previous = None\<rparr> of
       Inl rows \<Rightarrow> rows
     | Inr st \<Rightarrow>
         if row_cells (rf_current st) \<noteq> [] \<and> length (rf_rows st) < max_rows
         then rf_rows st @ [(rf_current st)\<lparr>row_break := rf_previous st\<rparr>] else rf_rows st)"

definition reflow_uncached :: "history_store \<Rightarrow> nat \<Rightarrow> nat \<Rightarrow> reflow_row list" where
  "reflow_uncached h cols max_rows = reflow_uncached_from h cols max_rows 0"

definition reflow_from :: "layout \<Rightarrow> history_store \<Rightarrow> nat \<Rightarrow> nat \<Rightarrow> nat \<Rightarrow> history_store \<times> reflow_row list" where
  "reflow_from lay h cols max_rows start_col =
    (let generation = eviction_generation h;
         hit = (case reflow_cache h of
                  Some c \<Rightarrow> start_col = 0 \<and> rc_columns c = cols \<and> rc_max_rows c = max_rows \<and> rc_generation c = generation
                | None \<Rightarrow> False)
     in if hit then (h, rc_rows (the (reflow_cache h)))
        else
          let rows = reflow_uncached_from h cols max_rows start_col in
          if start_col = 0 \<and> reflow_rows_allocated_bytes lay rows \<le> HISTORY_PER_EXECUTION_DERIVED_INDEX_CAP then
            (h\<lparr>reflow_cache := Some \<lparr>rc_columns = cols, rc_max_rows = max_rows, rc_generation = generation,
                 rc_rows = rows\<rparr>\<rparr>, rows)
          else (h, rows))"

definition reflow :: "layout \<Rightarrow> history_store \<Rightarrow> nat \<Rightarrow> nat \<Rightarrow> history_store \<times> reflow_row list" where
  "reflow lay h cols max_rows = reflow_from lay h cols max_rows 0"

end
