(* ===== verification/History_Content.thy ===== *)
theory History_Content
  imports History_Query Eviction_Index
begin

text \<open>
  What the history store holds: sealing changes no content, appending adds exactly the units of the
  line in order, eviction removes only from the front and everything it removes is recorded.
\<close>

section \<open>Sealing\<close>

abbreviation owned :: "history_store \<Rightarrow> history_line list" where
  "owned h \<equiv> map to_owned_line (entries_of h)"

definition line_bytes :: "history_line \<Rightarrow> byte list" where
  "line_bytes l = concat (map hu_utf8 (hl_units l))"

lemma length_line_bytes: "length (line_bytes l) = canonical_payload_len l"
  by (simp add: line_bytes_def canonical_payload_len_def length_concat comp_def)

lemma owned_tail [simp]: "to_owned_line (Tail l) = l"
  by (simp add: to_owned_line_def)

lemma seal_units_content:
  assumes "length payload + length (concat (map hu_utf8 us)) \<le> u32_max"
  shows "\<exists>U. seal_units us (units, payload) = (units @ U, payload @ concat (map hu_utf8 us)) \<and> length U = length us \<and>
    (\<forall>seg rest. seg_payload seg = payload @ concat (map hu_utf8 us) @ rest \<longrightarrow> map (sealed_unit seg) U = us)"
  using assms
proof (induction us arbitrary: units payload)
  case (Cons u us)
  let ?s = "\<lparr>su_payload_start = length payload, su_payload_len = length (hu_utf8 u), su_width = hu_width u,
    su_style = hu_style u\<rparr>"
  have b: "u32_of (length payload) = length payload" "u32_of (length (hu_utf8 u)) = length (hu_utf8 u)"
    using Cons.prems by (simp_all add: u32_of_def)
  obtain U where U: "seal_units us (units @ [?s], payload @ hu_utf8 u)
      = ((units @ [?s]) @ U, (payload @ hu_utf8 u) @ concat (map hu_utf8 us))" "length U = length us"
    "\<And>seg rest. seg_payload seg = (payload @ hu_utf8 u) @ concat (map hu_utf8 us) @ rest \<Longrightarrow> map (sealed_unit seg) U = us"
    using Cons.IH [of "payload @ hu_utf8 u" "units @ [?s]"] Cons.prems by auto
  have "sealed_unit seg ?s = u" if "seg_payload seg = payload @ hu_utf8 u @ concat (map hu_utf8 us) @ rest" for seg rest
    using that Cons.prems by (simp add: sealed_unit_def Let_def slice_def sat_add_def)
  then show ?case using U by (intro exI [of _ "?s # U"]) (auto simp: b)
qed simp

lemma seal_lines_content:
  assumes "length payload + length (concat (map line_bytes ls)) \<le> u32_max"
    "length units + length (concat (map hl_units ls)) \<le> u32_max"
  shows "\<exists>L U. seal_lines ls (lines, units, payload) = (lines @ L, units @ U, payload @ concat (map line_bytes ls)) \<and>
    (\<forall>seg ur pr. seg_units seg = units @ U @ ur \<and> seg_payload seg = payload @ concat (map line_bytes ls) @ pr \<longrightarrow>
      map (\<lambda>l. to_owned_line (Sealed seg l)) L = ls)"
  using assms
proof (induction ls arbitrary: lines units payload)
  case (Cons l ls)
  obtain U1 where U1: "seal_units (hl_units l) (units, payload) = (units @ U1, payload @ line_bytes l)"
    "length U1 = length (hl_units l)"
    "\<And>seg rest. seg_payload seg = payload @ line_bytes l @ rest \<Longrightarrow> map (sealed_unit seg) U1 = hl_units l"
    using seal_units_content [of payload "hl_units l" units] Cons.prems by (auto simp: line_bytes_def)
  let ?sl = "\<lparr>sl_id = hl_id l, sl_unit_start = length units, sl_unit_len = length (hl_units l),
    sl_start = hl_start l, sl_break = hl_break l\<rparr>"
  obtain L U where LU: "seal_lines ls (lines @ [?sl], units @ U1, payload @ line_bytes l)
      = ((lines @ [?sl]) @ L, (units @ U1) @ U, (payload @ line_bytes l) @ concat (map line_bytes ls))"
    "\<And>seg ur pr. seg_units seg = (units @ U1) @ U @ ur \<Longrightarrow>
      seg_payload seg = (payload @ line_bytes l) @ concat (map line_bytes ls) @ pr \<Longrightarrow>
      map (\<lambda>l. to_owned_line (Sealed seg l)) L = ls"
    using Cons.IH [of "payload @ line_bytes l" "units @ U1" "lines @ [?sl]"] Cons.prems U1(2) by auto
  have step: "seal_lines (l # ls) (lines, units, payload)
      = (lines @ ?sl # L, units @ U1 @ U, payload @ line_bytes l @ concat (map line_bytes ls))"
    using LU(1) U1(1,2) Cons.prems by (simp add: u32_of_def)
  have "to_owned_line (Sealed seg ?sl) = l"
    if "seg_units seg = units @ (U1 @ U) @ ur" "seg_payload seg = payload @ (line_bytes l @ concat (map line_bytes ls)) @ pr" for seg ur pr
  proof -
    have "slice (length units) (sat_add u64_max (length units) (length (hl_units l))) (seg_units seg) = U1"
      using that(1) U1(2) Cons.prems by (simp add: slice_def sat_add_def)
    moreover have "map (sealed_unit seg) U1 = hl_units l" using U1(3) [of seg "concat (map line_bytes ls) @ pr"] that(2) by simp
    ultimately show ?thesis by (simp add: to_owned_line_def)
  qed
  then show ?case using step LU(2) by (intro exI [of _ "?sl # L"] exI [of _ "U1 @ U"]) auto
qed simp

definition units_ok :: "history_line \<Rightarrow> bool" where
  "units_ok l \<longleftrightarrow> (\<forall>u \<in> set (hl_units l). hu_utf8 u \<noteq> [])"

lemma units_le_bytes: "units_ok l \<Longrightarrow> length (hl_units l) \<le> canonical_payload_len l"
proof -
  have "\<forall>u \<in> set us. hu_utf8 u \<noteq> [] \<Longrightarrow> length us \<le> sum_list (map (length \<circ> hu_utf8) us)" for us
  proof (induction us)
    case (Cons u us)
    then show ?case by (cases "hu_utf8 u") auto
  qed simp
  then show "units_ok l \<Longrightarrow> length (hl_units l) \<le> canonical_payload_len l"
    by (simp add: units_ok_def canonical_payload_len_def)
qed

definition tail_ok :: "history_store \<Rightarrow> bool" where
  "tail_ok h \<longleftrightarrow> tail_payload_bytes h = sum_list (map canonical_payload_len (tail h)) \<and>
     tail_payload_bytes h \<le> HISTORY_SEGMENT_PAYLOAD_TARGET \<and> (\<forall>l \<in> set (tail h). units_ok l)"

lemma tail_ok_bounds:
  assumes "tail_ok h"
  shows "length (concat (map line_bytes (tail h))) \<le> u32_max" "length (concat (map hl_units (tail h))) \<le> u32_max"
proof -
  have "\<forall>l \<in> set ls. units_ok l \<Longrightarrow> sum_list (map (length \<circ> hl_units) ls) \<le> sum_list (map canonical_payload_len ls)" for ls
  proof (induction ls)
    case (Cons l ls)
    then show ?case using units_le_bytes [of l] by simp
  qed simp
  then show "length (concat (map hl_units (tail h))) \<le> u32_max"
    using assms by (fastforce simp: tail_ok_def length_concat comp_def HISTORY_SEGMENT_PAYLOAD_TARGET_def)
  show "length (concat (map line_bytes (tail h))) \<le> u32_max"
    using assms by (simp add: tail_ok_def length_concat comp_def length_line_bytes HISTORY_SEGMENT_PAYLOAD_TARGET_def)
qed

lemma update_resident_simps [simp]:
  "entries_of (update_resident_bytes lay h) = entries_of h" "tail (update_resident_bytes lay h) = tail h"
  "segments (update_resident_bytes lay h) = segments h"
  "tail_payload_bytes (update_resident_bytes lay h) = tail_payload_bytes h"
  "evicted (update_resident_bytes lay h) = evicted h" "reflow_cache (update_resident_bytes lay h) = reflow_cache h"
  "tail_ok (update_resident_bytes lay h) = tail_ok h"
  by (simp_all add: update_resident_bytes_def entries_of_def tail_ok_def)

lemma seal_tail_content:
  assumes "tail_ok h"
  shows "owned (seal_tail lay h) = owned h" "tail_ok (seal_tail lay h)" "tail (seal_tail lay h) = []"
    "evicted (seal_tail lay h) = evicted h" "reflow_cache (seal_tail lay h) = reflow_cache h"
proof -
  obtain L U where s: "seal_lines (tail h) ([], [], []) = (L, U, concat (map line_bytes (tail h)))"
    and own: "\<And>seg. seg_units seg = U \<Longrightarrow> seg_payload seg = concat (map line_bytes (tail h)) \<Longrightarrow>
      map (\<lambda>l. to_owned_line (Sealed seg l)) L = tail h"
    using seal_lines_content [of "[]" "tail h" "[]" "[]"] tail_ok_bounds [OF assms] by force
  show "owned (seal_tail lay h) = owned h"
    using own by (simp add: seal_tail_def s entries_of_def segment_entries_def Let_def comp_def del: map_map)
      (simp add: comp_def)
  show "tail_ok (seal_tail lay h)" using assms by (simp add: seal_tail_def s Let_def) (simp add: tail_ok_def)
  show "tail (seal_tail lay h) = []" by (rule seal_tail_shape(1))
  show "evicted (seal_tail lay h) = evicted h" "reflow_cache (seal_tail lay h) = reflow_cache h"
    by (simp_all add: seal_tail_def s Let_def)
qed

section \<open>Appending\<close>

definition line_ok :: "history_line \<Rightarrow> bool" where
  "line_ok l \<longleftrightarrow> units_ok l \<and> canonical_payload_len l \<le> HISTORY_SEGMENT_PAYLOAD_TARGET"

lemma push_fragment_content:
  assumes ok: "tail_ok h" and l: "line_ok l"
  shows "owned (push_fragment_inner lay l rw h) = owned h @ [l]" "tail_ok (push_fragment_inner lay l rw h)"
    "evicted (push_fragment_inner lay l rw h) = evicted h" "reflow_cache (push_fragment_inner lay l rw h) = reflow_cache h"
proof -
  let ?b = "canonical_payload_len l"
  define h1 where "h1 = (if tail h \<noteq> [] \<and> (tail_payload_bytes h + ?b > HISTORY_SEGMENT_PAYLOAD_TARGET
      \<or> tail_resident_bytes h \<ge> HISTORY_TAIL_PAYLOAD_LIMIT) then seal_tail lay h else h)"
  have h1: "owned h1 = owned h" "tail_ok h1" "evicted h1 = evicted h" "reflow_cache h1 = reflow_cache h"
    using seal_tail_content [OF ok] ok by (simp_all add: h1_def)
  have fits: "tail_payload_bytes h1 + ?b \<le> HISTORY_SEGMENT_PAYLOAD_TARGET"
    using seal_tail_content [OF ok, of lay] ok l by (auto simp: h1_def tail_ok_def line_ok_def)
  define h2 where "h2 = h1\<lparr>tail_payload_bytes := tail_payload_bytes h1 + ?b,
      wrap_chains := (if rw then extend_wrap_line lay l (wrap_chains h1) else wrap_chains h1)\<rparr>"
  define h3 where "h3 = update_resident_bytes lay (h2\<lparr>tail := tail h2 @ [l],
      tail_cap := push_cap lay (length (tail h2)) (tail_cap h2),
      tail_resident_bytes := sat_add u64_max (sat_add u64_max (tail_resident_bytes h2) (line_allocated_bytes lay l))
        (sat_mul u64_max (push_cap lay (length (tail h2)) (tail_cap h2) - tail_cap h2) (size_history_line lay))\<rparr>)"
  have r: "push_fragment_inner lay l rw h = (if tail_payload_bytes h3 \<ge> HISTORY_SEGMENT_PAYLOAD_TARGET
      \<or> tail_resident_bytes h3 \<ge> HISTORY_TAIL_PAYLOAD_LIMIT then seal_tail lay h3 else h3)"
    unfolding push_fragment_inner_def Let_def h1_def [symmetric] h2_def [symmetric] h3_def [symmetric] ..
  have o3: "owned h3 = owned h @ [l]" using h1(1) by (simp add: h3_def h2_def entries_of_def)
  have t3: "tail_ok h3" using h1(2) fits l unfolding h3_def h2_def by (simp add: tail_ok_def line_ok_def)
  have e3: "evicted h3 = evicted h" "reflow_cache h3 = reflow_cache h" using h1(3,4) by (simp_all add: h3_def h2_def)
  note s3 = seal_tail_content [OF t3, of lay]
  show "owned (push_fragment_inner lay l rw h) = owned h @ [l]" "tail_ok (push_fragment_inner lay l rw h)"
    "evicted (push_fragment_inner lay l rw h) = evicted h" "reflow_cache (push_fragment_inner lay l rw h) = reflow_cache h"
    unfolding r using s3 o3 t3 e3 by simp_all
qed

text \<open>Consecutive fragments of one line.\<close>

fun contiguous :: "nat \<Rightarrow> history_line list \<Rightarrow> bool" where
  "contiguous s [] = True"
| "contiguous s (f # fs) \<longleftrightarrow> hl_start f = s \<and> contiguous (s + length (hl_units f)) fs"

definition fragments_of :: "line_id \<Rightarrow> history_break_after \<Rightarrow> nat \<Rightarrow> history_unit list \<Rightarrow> history_line list \<Rightarrow> bool" where
  "fragments_of lid brk start us frs \<longleftrightarrow>
     concat (map hl_units frs) = us \<and> contiguous start frs \<and> (\<forall>f \<in> set frs. hl_id f = lid) \<and>
     (frs \<noteq> [] \<longrightarrow> hl_break (last frs) = brk \<and> (\<forall>f \<in> set (butlast frs). hl_break f = SoftWrap))"

lemma fragments_of_Cons:
  assumes "fragments_of lid brk (start + length us) vs frs" "frs \<noteq> []"
  shows "fragments_of lid brk start (us @ vs)
    (\<lparr>hl_id = lid, hl_units = us, hl_break = SoftWrap, hl_start = start\<rparr> # frs)"
  using assms by (auto simp: fragments_of_def)

definition appended :: "history_store \<Rightarrow> history_line list \<Rightarrow> history_store \<Rightarrow> bool" where
  "appended h frs h' \<longleftrightarrow> owned h' = owned h @ frs \<and> (\<forall>f \<in> set frs. line_ok f) \<and> tail_ok h' \<and>
     evicted h' = evicted h \<and> reflow_cache h' = reflow_cache h"

lemma push_fragment_appended: "tail_ok h \<Longrightarrow> line_ok l \<Longrightarrow> appended h [l] (push_fragment lay l h)"
  by (simp add: appended_def push_fragment_def push_fragment_content)

lemma appended_trans: "appended h fs h' \<Longrightarrow> appended h' gs h'' \<Longrightarrow> appended h (fs @ gs) h''"
  by (auto simp: appended_def)

definition unit_ok :: "history_unit \<Rightarrow> bool" where
  "unit_ok u \<longleftrightarrow> hu_utf8 u \<noteq> [] \<and> length (hu_utf8 u) \<le> HISTORY_SEGMENT_PAYLOAD_TARGET"

lemma line_ok_fragment:
  assumes "\<forall>u \<in> set frag. unit_ok u" "length (concat (map hu_utf8 frag)) \<le> HISTORY_SEGMENT_PAYLOAD_TARGET"
  shows "line_ok \<lparr>hl_id = lid, hl_units = frag, hl_break = brk, hl_start = s\<rparr>"
  using assms by (auto simp: line_ok_def units_ok_def unit_ok_def canonical_payload_len_def length_concat comp_def)

lemma fragment_loop_content:
  assumes "tail_ok h" "\<forall>u \<in> set (frag @ us). unit_ok u"
    "fb = length (concat (map hu_utf8 frag))" "fb \<le> HISTORY_SEGMENT_PAYLOAD_TARGET" "length frag \<le> off"
    "off + length us \<le> u32_max" "frag @ us \<noteq> []"
  shows "\<exists>frs. frs \<noteq> [] \<and> appended h frs (fragment_loop lay lid brk us frag fb off h) \<and>
    fragments_of lid brk (off - length frag) (frag @ us) frs"
  using assms
proof (induction us arbitrary: frag fb off h)
  case Nil
  let ?l = "\<lparr>hl_id = lid, hl_units = frag, hl_break = brk, hl_start = off - length frag\<rparr>"
  have m: "length frag mod 2 ^ 32 = length frag" using Nil.prems by simp
  have "line_ok ?l" using Nil.prems by (intro line_ok_fragment) simp_all
  from push_fragment_appended [OF Nil.prems(1) this, of lay] m Nil.prems(7) show ?case
    by (intro exI [of _ "[?l]"]) (simp add: fragments_of_def)
next
  case (Cons u us)
  have off: "sat_add u32_max off 1 = off + 1" using Cons.prems by (simp add: sat_add_def)
  have u: "unit_ok u" and fu: "\<forall>u \<in> set frag. unit_ok u" and us: "\<forall>u \<in> set us. unit_ok u"
    using Cons.prems(2) by auto
  show ?case
  proof (cases "frag \<noteq> [] \<and> fb + length (hu_utf8 u) > HISTORY_SEGMENT_PAYLOAD_TARGET")
    case True
    let ?l = "\<lparr>hl_id = lid, hl_units = frag, hl_break = SoftWrap, hl_start = off - length frag\<rparr>"
    let ?h = "push_fragment lay ?l h"
    have m: "length frag mod 2 ^ 32 = length frag" using Cons.prems(5,6) by simp
    have "line_ok ?l" using fu Cons.prems(3,4) by (intro line_ok_fragment) simp_all
    then have p: "appended h [?l] ?h" by (rule push_fragment_appended [OF Cons.prems(1)])
    have pre: "\<forall>v \<in> set ([u] @ us). unit_ok v" "length (hu_utf8 u) = length (concat (map hu_utf8 [u]))"
      "length (hu_utf8 u) \<le> HISTORY_SEGMENT_PAYLOAD_TARGET" "length [u] \<le> off + 1" "off + 1 + length us \<le> u32_max"
      "[u] @ us \<noteq> []"
      using u us Cons.prems(6) by (auto simp: unit_ok_def)
    have th: "tail_ok ?h" using p by (simp add: appended_def)
    obtain frs where frs: "frs \<noteq> []" "appended ?h frs (fragment_loop lay lid brk us [u] (length (hu_utf8 u)) (off + 1) ?h)"
      "fragments_of lid brk (off + 1 - length [u]) ([u] @ us) frs"
      using Cons.IH [OF th pre] by blast
    have "fragments_of lid brk (off - length frag) (frag @ u # us) (?l # frs)"
      using fragments_of_Cons [of lid brk "off - length frag" frag "u # us" frs] frs(1,3) Cons.prems(5) by simp
    moreover have "fragment_loop lay lid brk (u # us) frag fb off h
        = fragment_loop lay lid brk us [u] (length (hu_utf8 u)) (off + 1) ?h"
      using True m off by (simp add: Let_def)
    ultimately show ?thesis using appended_trans [OF p frs(2)] by (intro exI [of _ "?l # frs"]) simp
  next
    case False
    have pre: "\<forall>v \<in> set ((frag @ [u]) @ us). unit_ok v"
      "fb + length (hu_utf8 u) = length (concat (map hu_utf8 (frag @ [u])))"
      "fb + length (hu_utf8 u) \<le> HISTORY_SEGMENT_PAYLOAD_TARGET" "length (frag @ [u]) \<le> off + 1"
      "off + 1 + length us \<le> u32_max" "(frag @ [u]) @ us \<noteq> []"
      using u us fu False Cons.prems(3,5,6) by (auto simp: unit_ok_def)
    have "fragment_loop lay lid brk (u # us) frag fb off h
        = fragment_loop lay lid brk us (frag @ [u]) (fb + length (hu_utf8 u)) (off + 1) h"
      using False off by (auto simp: Let_def)
    then show ?thesis using Cons.IH [OF Cons.prems(1) pre] by simp
  qed
qed

section \<open>Eviction\<close>

definition seg_ids :: "history_line list \<Rightarrow> nat list" where
  "seg_ids ls = map (line_no \<circ> hl_id) ls"

lemma owned_ids: "map (line_no \<circ> sl_id) (seg_lines seg) = seg_ids (map to_owned_line (segment_entries seg))"
  by (simp add: seg_ids_def segment_entries_def to_owned_line_def)

text \<open>
  Evicting the oldest segments: the content loses a prefix, and the index records the identities
  of that prefix in order.
\<close>

definition evicts :: "layout \<Rightarrow> history_store \<Rightarrow> history_store \<Rightarrow> bool" where
  "evicts lay h h' \<longleftrightarrow> (\<exists>gone segs. owned h = gone @ owned h' \<and> concat segs = seg_ids gone \<and>
     evicted h' = fold (record_evicted_segment lay) segs (evicted h))"

lemma evicts_refl: "owned h = owned h' \<Longrightarrow> evicted h' = evicted h \<Longrightarrow> evicts lay h h'"
  unfolding evicts_def by (intro exI [of _ "[]"]) (simp add: seg_ids_def exI [of _ "[]"])

lemma evicts_trans: "evicts lay h h' \<Longrightarrow> evicts lay h' h'' \<Longrightarrow> evicts lay h h''"
proof -
  assume "evicts lay h h'" "evicts lay h' h''"
  then obtain g s g' s' where "owned h = g @ owned h'" "concat s = seg_ids g" "evicted h' = fold (record_evicted_segment lay) s (evicted h)"
    "owned h' = g' @ owned h''" "concat s' = seg_ids g'" "evicted h'' = fold (record_evicted_segment lay) s' (evicted h')"
    by (auto simp: evicts_def)
  then show ?thesis unfolding evicts_def by (intro exI [of _ "g @ g'"] exI [of _ "s @ s'"]) (simp add: seg_ids_def)
qed

lemma evict_front_evicts:
  assumes "segments h \<noteq> []"
  shows "evicts lay h (evict_front lay h)" "tail_ok h \<Longrightarrow> tail_ok (evict_front lay h)"
proof -
  obtain seg segs where s: "segments h = seg # segs" using assms by (cases "segments h") auto
  show "evicts lay h (evict_front lay h)" unfolding evicts_def
    by (intro exI [of _ "map to_owned_line (segment_entries seg)"] exI [of _ "[seg_ids (map to_owned_line (segment_entries seg))]"])
      (simp add: s entries_of_def, simp add: evict_front_def Let_def s owned_ids)
  show "tail_ok h \<Longrightarrow> tail_ok (evict_front lay h)"
    by (simp add: tail_ok_def) (simp add: evict_front_def Let_def)
qed

lemma evict_loop_evicts:
  assumes "tail_ok h"
  shows "evicts lay h (fst (evict_loop lay h ev)) \<and> tail_ok (fst (evict_loop lay h ev)) \<and>
    (resident_bytes (fst (evict_loop lay h ev)) \<le> HISTORY_PER_EXECUTION_BYTE_CAP \<or> entries_of (fst (evict_loop lay h ev)) = []) \<and>
    (reflow_cache h = None \<longrightarrow> reflow_cache (fst (evict_loop lay h ev)) = None)"
  using assms
proof (induction lay h ev rule: evict_loop.induct)
  case (1 lay h ev)
  have rc: "reflow_cache (evict_front lay h) = reflow_cache h" for h by (simp add: evict_front_def Let_def)
  consider "resident_bytes h \<le> HISTORY_PER_EXECUTION_BYTE_CAP"
    | "resident_bytes h > HISTORY_PER_EXECUTION_BYTE_CAP" "segments h \<noteq> []"
    | "resident_bytes h > HISTORY_PER_EXECUTION_BYTE_CAP" "segments h = []" "tail h = []"
    | "resident_bytes h > HISTORY_PER_EXECUTION_BYTE_CAP" "segments h = []" "tail h \<noteq> []" by linarith
  then show ?case
  proof cases
    case 1
    then show ?thesis using "1.prems" by (simp add: evict_loop.simps evicts_refl)
  next
    case 2
    have "evict_loop lay h ev = evict_loop lay (evict_front lay h) True" using 2 by (subst evict_loop.simps) simp
    then show ?thesis using "1.IH"(2) 2 evict_front_evicts [of h lay] "1.prems" rc evicts_trans by simp
  next
    case 3
    then show ?thesis using "1.prems" by (simp add: evict_loop.simps evicts_refl) (simp add: entries_of_def)
  next
    case 4
    let ?s = "seal_tail lay h"
    note st = seal_tail_content [OF "1.prems", of lay]
    have ne: "segments ?s \<noteq> []" using seal_tail_shape(2) [OF 4(3), of lay] by auto
    have "evict_loop lay h ev = evict_loop lay (evict_front lay ?s) True" using 4 by (subst evict_loop.simps) simp
    moreover have "evicts lay h ?s" using st by (intro evicts_refl) simp_all
    ultimately show ?thesis using "1.IH"(1) 4 evict_front_evicts [OF ne, of lay] st rc evicts_trans by simp
  qed
qed

lemma evict_to_cap_evicts:
  assumes "tail_ok h"
  shows "evicts lay h (evict_to_cap lay h)" "tail_ok (evict_to_cap lay h)"
    "resident_bytes (evict_to_cap lay h) \<le> HISTORY_PER_EXECUTION_BYTE_CAP \<or> entries_of (evict_to_cap lay h) = []"
    "reflow_cache h = None \<Longrightarrow> reflow_cache (evict_to_cap lay h) = None"
proof -
  let ?h = "update_resident_bytes lay h"
  have "tail_ok ?h" using assms by simp
  note e = evict_loop_evicts [OF this, of lay False]
  have wc: "evicts lay a (b\<lparr>wrap_chains := c\<rparr>) = evicts lay a b" "tail_ok (b\<lparr>wrap_chains := c\<rparr>) = tail_ok b"
    "entries_of (b\<lparr>wrap_chains := c\<rparr>) = entries_of b" for a b c
    by (simp_all add: evicts_def tail_ok_def entries_of_def)
  have hh: "evicts lay h ?h" by (rule evicts_refl) simp_all
  show "evicts lay h (evict_to_cap lay h)" "tail_ok (evict_to_cap lay h)"
    "resident_bytes (evict_to_cap lay h) \<le> HISTORY_PER_EXECUTION_BYTE_CAP \<or> entries_of (evict_to_cap lay h) = []"
    "reflow_cache h = None \<Longrightarrow> reflow_cache (evict_to_cap lay h) = None"
    using e evicts_trans [OF hh] by (simp_all add: evict_to_cap_def case_prod_beta wc)
qed

definition source_ok :: "history_line \<Rightarrow> bool" where
  "source_ok l \<longleftrightarrow> (\<forall>u \<in> set (hl_units l). unit_ok u) \<and> hl_start l + length (hl_units l) \<le> u32_max"

lemma append_line_content:
  assumes ok: "tail_ok h" and l: "source_ok l"
  shows "\<exists>frs gone segs. frs \<noteq> [] \<and> fragments_of (hl_id l) (hl_break l) (hl_start l) (hl_units l) frs \<and>
    (\<forall>f \<in> set frs. line_ok f) \<and> owned h @ frs = gone @ owned (append_line lay l h) \<and> concat segs = seg_ids gone \<and>
    evicted (append_line lay l h) = fold (record_evicted_segment lay) segs (evicted h)"
    and "tail_ok (append_line lay l h)"
    and "resident_bytes (append_line lay l h) \<le> HISTORY_PER_EXECUTION_BYTE_CAP \<or> entries_of (append_line lay l h) = []"
    and "reflow_cache (append_line lay l h) = None"
proof -
  define h1 where "h1 = h\<lparr>reflow_cache := None\<rparr>"
  have h1: "tail_ok h1" "owned h1 = owned h" "evicted h1 = evicted h" "reflow_cache h1 = None"
    using ok by (simp_all add: h1_def tail_ok_def entries_of_def)
  define h2 where "h2 = (if canonical_payload_len l > HISTORY_SEGMENT_PAYLOAD_TARGET
      then fragment_loop lay (hl_id l) (hl_break l) (hl_units l) [] 0 (hl_start l) h1 else push_fragment lay l h1)"
  have "\<exists>frs. frs \<noteq> [] \<and> appended h1 frs h2 \<and> fragments_of (hl_id l) (hl_break l) (hl_start l) (hl_units l) frs"
  proof (cases "canonical_payload_len l > HISTORY_SEGMENT_PAYLOAD_TARGET")
    case True
    then have "hl_units l \<noteq> []" by (auto simp: canonical_payload_len_def)
    then show ?thesis using True l fragment_loop_content [OF h1(1), of "[]" "hl_units l" 0 "hl_start l" lay "hl_id l" "hl_break l"]
      by (simp add: h2_def source_ok_def)
  next
    case False
    then have "line_ok l" using l by (auto simp: line_ok_def units_ok_def source_ok_def unit_ok_def)
    then show ?thesis using False push_fragment_appended [OF h1(1), of l lay]
      by (intro exI [of _ "[l]"]) (simp add: h2_def fragments_of_def)
  qed
  then obtain frs where frs: "frs \<noteq> []" "appended h1 frs h2" "fragments_of (hl_id l) (hl_break l) (hl_start l) (hl_units l) frs" by blast
  let ?h = "update_resident_bytes lay h2"
  have a: "append_line lay l h = evict_to_cap lay ?h" by (simp add: append_line_def h1_def h2_def Let_def)
  have th: "tail_ok ?h" "reflow_cache ?h = None" using frs(2) h1(4) by (simp_all add: appended_def)
  note e = evict_to_cap_evicts [OF th(1), of lay]
  show "\<exists>frs gone segs. frs \<noteq> [] \<and> fragments_of (hl_id l) (hl_break l) (hl_start l) (hl_units l) frs \<and>
    (\<forall>f \<in> set frs. line_ok f) \<and> owned h @ frs = gone @ owned (append_line lay l h) \<and> concat segs = seg_ids gone \<and>
    evicted (append_line lay l h) = fold (record_evicted_segment lay) segs (evicted h)"
    using e(1) frs h1 unfolding a evicts_def appended_def by auto
  show "tail_ok (append_line lay l h)" "reflow_cache (append_line lay l h) = None"
    "resident_bytes (append_line lay l h) \<le> HISTORY_PER_EXECUTION_BYTE_CAP \<or> entries_of (append_line lay l h) = []"
    using e th(2) unfolding a by simp_all
qed

section \<open>Whole histories\<close>

definition line_fragments :: "history_line \<Rightarrow> history_line list \<Rightarrow> bool" where
  "line_fragments l frs \<longleftrightarrow> frs \<noteq> [] \<and> fragments_of (hl_id l) (hl_break l) (hl_start l) (hl_units l) frs \<and>
     (\<forall>f \<in> set frs. line_ok f)"

text \<open>
  The state after appending lines to a store: all fragments ever pushed are the evicted ones
  followed by the retained ones, and the index recorded the evicted ones in order.
\<close>

definition history_repr :: "layout \<Rightarrow> history_line list \<Rightarrow> history_store \<Rightarrow> bool" where
  "history_repr lay ls h \<longleftrightarrow> tail_ok h \<and>
     (\<exists>frss gone segs. list_all2 line_fragments ls frss \<and> concat frss = gone @ owned h \<and>
        concat segs = seg_ids gone \<and> evicted h = fold (record_evicted_segment lay) segs new_index)"

lemma new_history_repr: "history_repr lay [] new_history"
  unfolding history_repr_def
proof (intro conjI exI)
  show "tail_ok new_history" by (simp add: new_history_def tail_ok_def)
  show "list_all2 line_fragments [] []" by simp
  show "concat [] = [] @ owned new_history" by (simp add: new_history_def entries_of_def)
  show "concat [] = seg_ids []" by (simp add: seg_ids_def)
  show "evicted new_history = fold (record_evicted_segment lay) [] new_index" by (simp add: new_history_def)
qed

lemma append_line_repr:
  assumes "history_repr lay ls h" "source_ok l"
  shows "history_repr lay (ls @ [l]) (append_line lay l h)"
proof -
  obtain frss gone segs where r: "list_all2 line_fragments ls frss" "concat frss = gone @ owned h"
    "concat segs = seg_ids gone" "evicted h = fold (record_evicted_segment lay) segs new_index" and ok: "tail_ok h"
    using assms(1) by (auto simp: history_repr_def)
  obtain frs gone' segs' where a: "frs \<noteq> []" "fragments_of (hl_id l) (hl_break l) (hl_start l) (hl_units l) frs"
    "\<forall>f \<in> set frs. line_ok f" "owned h @ frs = gone' @ owned (append_line lay l h)" "concat segs' = seg_ids gone'"
    "evicted (append_line lay l h) = fold (record_evicted_segment lay) segs' (evicted h)"
    using append_line_content(1) [OF ok assms(2)] by metis
  show ?thesis
    unfolding history_repr_def
  proof (intro conjI exI)
    show "tail_ok (append_line lay l h)" by (rule append_line_content(2) [OF ok assms(2)])
    show "list_all2 line_fragments (ls @ [l]) (frss @ [frs])"
      using r(1) a(1-3) by (simp add: list_all2_appendI line_fragments_def)
    show "concat (frss @ [frs]) = (gone @ gone') @ owned (append_line lay l h)" using r(2) a(4) by simp
    show "concat (segs @ segs') = seg_ids (gone @ gone')" using r(3) a(5) by (simp add: seg_ids_def)
    show "evicted (append_line lay l h) = fold (record_evicted_segment lay) (segs @ segs') new_index"
      using r(4) a(6) by simp
  qed
qed

lemma append_lines_repr:
  assumes "history_repr lay ls0 h" "\<forall>l \<in> set ls. source_ok l"
  shows "history_repr lay (ls0 @ ls) (fold (append_line lay) ls h)"
  using assms
proof (induction ls arbitrary: ls0 h)
  case (Cons l ls)
  have "history_repr lay (ls0 @ [l]) (append_line lay l h)" using Cons.prems by (intro append_line_repr) simp_all
  from Cons.IH [OF this] Cons.prems show ?case by simp
qed simp

text \<open>Units are found in the fragment that covers their offset, and only there.\<close>

definition covers :: "history_line \<Rightarrow> nat \<Rightarrow> bool" where
  "covers f off \<longleftrightarrow> hl_start f \<le> off \<and> off < hl_start f + length (hl_units f)"

lemma contiguous_unit:
  "contiguous s frs \<Longrightarrow> f \<in> set frs \<Longrightarrow> covers f off \<Longrightarrow>
    s \<le> off \<and> off < s + length (concat (map hl_units frs)) \<and>
    hl_units f ! (off - hl_start f) = concat (map hl_units frs) ! (off - s)"
proof (induction frs arbitrary: s)
  case (Cons g frs)
  show ?case
  proof (cases "f = g")
    case True
    then show ?thesis using Cons.prems by (auto simp: covers_def nth_append)
  next
    case False
    then have IH: "s + length (hl_units g) \<le> off \<and> off < s + length (hl_units g) + length (concat (map hl_units frs)) \<and>
        hl_units f ! (off - hl_start f) = concat (map hl_units frs) ! (off - (s + length (hl_units g)))"
      using Cons.IH [of "s + length (hl_units g)"] Cons.prems by simp
    moreover have "off - s - length (hl_units g) = off - (s + length (hl_units g))" by simp
    ultimately show ?thesis by (auto simp: nth_append)
  qed
qed simp

lemma contiguous_covered:
  "contiguous s frs \<Longrightarrow> s \<le> off \<Longrightarrow> off < s + length (concat (map hl_units frs)) \<Longrightarrow> \<exists>f \<in> set frs. covers f off"
proof (induction frs arbitrary: s)
  case (Cons g frs)
  show ?case
  proof (cases "off < s + length (hl_units g)")
    case True
    then show ?thesis using Cons.prems by (auto simp: covers_def)
  next
    case False
    then show ?thesis using Cons.IH [of "s + length (hl_units g)"] Cons.prems by auto
  qed
qed simp

definition line_order :: "history_line \<Rightarrow> history_line \<Rightarrow> bool" where
  "line_order a b \<longleftrightarrow> hl_id a < hl_id b \<or> hl_id a = hl_id b \<and> hl_start a + length (hl_units a) \<le> hl_start b"

lemma sorted_ids:
  assumes "list_all2 line_fragments ls frss" "sorted_wrt line_order ls"
  shows "sorted (seg_ids (concat frss))"
  using assms
proof (induction ls frss rule: list_all2_induct)
  case (Cons l ls frs frss)
  have "\<forall>f \<in> set frs. hl_id f = hl_id l" using Cons by (simp add: line_fragments_def fragments_of_def)
  moreover have "\<forall>i \<in> set (seg_ids (concat frss)). line_no (hl_id l) \<le> i"
  proof
    fix i assume "i \<in> set (seg_ids (concat frss))"
    then obtain k f where k: "k < length frss" "f \<in> set (frss ! k)" "i = line_no (hl_id f)"
      by (auto simp: seg_ids_def in_set_conv_nth) blast+
    have "line_fragments (ls ! k) (frss ! k)" "k < length ls"
      using Cons.hyps(2) k(1) by (auto simp: list_all2_conv_all_nth)
    then have "hl_id f = hl_id (ls ! k)" "line_order l (ls ! k)"
      using k Cons.prems by (auto simp: line_fragments_def fragments_of_def)
    then show "line_no (hl_id l) \<le> i" using k(3) by (auto simp: line_order_def less_line_id_def)
  qed
  moreover have "sorted (seg_ids frs)"
    using calculation(1) by (auto simp: seg_ids_def sorted_iff_nth_mono)
  ultimately show ?case using Cons.IH Cons.prems by (auto simp: seg_ids_def sorted_append)
qed (simp add: seg_ids_def)

lemma recorded_reported:
  assumes "sorted (concat segs)" "\<forall>i \<in> set (concat segs). i \<le> u64_max" "i \<in> set (concat segs)"
  shows "line_was_evicted (fold (record_evicted_segment lay) segs new_index) i"
proof -
  let ?x = "fold (record_evicted_segment lay) segs new_index"
  have rep: "index_repr ?x (set (concat segs))"
    using record_segments_repr [OF new_index_repr assms(1) _ assms(2), of lay] by simp
  then have "index_ok ?x" "i \<in> cover ?x \<union> saturated_set ?x" using assms(3) by (auto simp: index_repr_def)
  then show ?thesis by (simp add: line_was_evicted_iff)
qed

lemma covering_line_unique:
  assumes "sorted_wrt line_order ls" "l \<in> set ls" "l' \<in> set ls" "hl_id l = hl_id l'" "covers l off" "covers l' off"
  shows "l = l'"
proof -
  obtain i j where ij: "i < length ls" "j < length ls" "l = ls ! i" "l' = ls ! j" using assms(2,3) by (auto simp: in_set_conv_nth)
  have "i = j"
  proof (rule ccontr)
    assume "i \<noteq> j"
    then have "line_order (ls ! i) (ls ! j) \<or> line_order (ls ! j) (ls ! i)"
      using sorted_wrt_nth_less [OF assms(1)] ij by (cases i j rule: linorder_cases) auto
    then show False using assms(4-6) ij by (auto simp: line_order_def covers_def)
  qed
  then show ?thesis using ij by simp
qed

lemma fragment_unit:
  assumes "line_fragments l frs" "f \<in> set frs" "covers f off"
  shows "covers l off \<and> hl_id f = hl_id l \<and> hl_units f ! (off - hl_start f) = hl_units l ! (off - hl_start l)"
  using contiguous_unit [of "hl_start l" frs f off] assms by (auto simp: line_fragments_def fragments_of_def covers_def)

lemma owned_unit_len: "r \<in> set (entries_of h) \<Longrightarrow> line_ok (to_owned_line r) \<Longrightarrow> length (ref_units r) mod 2 ^ 32 = length (ref_units r)"
  using units_le_bytes [of "to_owned_line r"]
  by (simp add: line_ok_def to_owned_line_def canonical_payload_len_def HISTORY_SEGMENT_PAYLOAD_TARGET_def)

lemma resolve_history:
  assumes rep: "history_repr lay ls h" and sorted: "sorted_wrt line_order ls" and ids: "\<forall>l \<in> set ls. line_no (hl_id l) \<le> u64_max"
    and l: "l \<in> set ls" and i: "i < length (hl_units l)" and dec: "from_utf8 (hu_utf8 (hl_units l ! i)) = Some text"
  shows "resolve_anchor h \<lparr>anchor_line = hl_id l, unit_offset = hl_start l + i\<rparr>
      = Resolved text (hu_width (hl_units l ! i)) (hu_style (hl_units l ! i)) \<or>
    resolve_anchor h \<lparr>anchor_line = hl_id l, unit_offset = hl_start l + i\<rparr> = Unavailable \<and>
      line_was_evicted (evicted h) (line_no (hl_id l))"
proof -
  let ?a = "\<lparr>anchor_line = hl_id l, unit_offset = hl_start l + i\<rparr>"
  let ?P = "\<lambda>r. ref_line_id r = anchor_line ?a \<and> unit_offset ?a \<ge> ref_start_offset r \<and>
    unit_offset ?a - ref_start_offset r < length (ref_units r) mod 2 ^ 32"
  obtain frss gone segs where r: "list_all2 line_fragments ls frss" "concat frss = gone @ owned h"
    "concat segs = seg_ids gone" "evicted h = fold (record_evicted_segment lay) segs new_index"
    using rep by (auto simp: history_repr_def)
  have frag: "\<exists>l' frs. l' \<in> set ls \<and> line_fragments l' frs \<and> f \<in> set frs" if "f \<in> set (concat frss)" for f
    using that r(1) by (auto simp: list_all2_conv_all_nth in_set_conv_nth) blast
  have cov: "covers l (hl_start l + i)" using i by (simp add: covers_def)
  show ?thesis
  proof (cases "List.find ?P (entries_of h)")
    case (Some e)
    then have e: "e \<in> set (entries_of h)" "?P e" by (auto simp: find_Some_iff in_set_conv_nth)
    let ?f = "to_owned_line e"
    have "?f \<in> set (concat frss)" using r(2) e(1) by auto
    then obtain l' frs where l': "l' \<in> set ls" "line_fragments l' frs" "?f \<in> set frs" using frag by blast
    have len: "length (ref_units e) mod 2 ^ 32 = length (ref_units e)"
      using owned_unit_len [OF e(1)] l'(2,3) by (auto simp: line_fragments_def)
    have cf: "covers ?f (hl_start l + i)" "hl_id ?f = hl_id l"
      using e(2) len by (auto simp: covers_def to_owned_line_def)
    note fu = fragment_unit [OF l'(2,3) cf(1)]
    have "l' = l" using covering_line_unique [OF sorted l'(1) l _ _ cov] fu cf(2) by simp
    then have u: "ref_units e ! (hl_start l + i - ref_start_offset e) = hl_units l ! i"
      using fu by (simp add: to_owned_line_def)
    show ?thesis using Some e(2) len u dec by (simp add: resolve_anchor_def Let_def)
  next
    case None
    obtain k where k: "k < length ls" "ls ! k = l" using l by (auto simp: in_set_conv_nth)
    have lf: "line_fragments l (frss ! k)" and kf: "k < length frss" using r(1) k by (auto simp: list_all2_conv_all_nth)
    obtain f where f: "f \<in> set (frss ! k)" "covers f (hl_start l + i)"
      using contiguous_covered [of "hl_start l" "frss ! k" "hl_start l + i"] lf i
      by (auto simp: line_fragments_def fragments_of_def)
    have fid: "hl_id f = hl_id l" "line_ok f" using lf f(1) by (auto simp: line_fragments_def fragments_of_def)
    have "f \<notin> set (owned h)"
    proof
      assume "f \<in> set (owned h)"
      then obtain e where e: "e \<in> set (entries_of h)" "f = to_owned_line e" by auto
      have "?P e" using owned_unit_len [OF e(1)] e(2) f(2) fid by (auto simp: covers_def to_owned_line_def)
      then show False using None e(1) by (auto simp: find_None_iff)
    qed
    moreover have "f \<in> set (concat frss)" using f(1) kf by auto
    ultimately have "f \<in> set gone" using r(2) by auto
    then have "line_no (hl_id f) \<in> set (seg_ids gone)" unfolding seg_ids_def set_map by (metis comp_apply imageI)
    then have "line_no (hl_id l) \<in> set (concat segs)" unfolding r(3) fid(1) .
    moreover have "sorted (concat segs)"
      using sorted_ids [OF r(1) sorted] r(2,3) by (simp add: seg_ids_def sorted_append)
    moreover have "\<forall>i \<in> set (concat segs). i \<le> u64_max"
    proof
      fix x assume "x \<in> set (concat segs)"
      then obtain g where g: "g \<in> set gone" "x = line_no (hl_id g)" using r(3) by (auto simp: seg_ids_def)
      then have "g \<in> set (concat frss)" using r(2) by simp
      then obtain l' frs where "l' \<in> set ls" "line_fragments l' frs" "g \<in> set frs" using frag by blast
      then show "x \<le> u64_max" using ids g(2) by (auto simp: line_fragments_def fragments_of_def)
    qed
    ultimately have "line_was_evicted (evicted h) (line_no (hl_id l))"
      unfolding r(4) by (intro recorded_reported)
    then show ?thesis using None by (simp add: resolve_anchor_def)
  qed
qed

section \<open>Properties\<close>

text \<open>
  C14 (history_append_exact): appending a line to a store adds exactly its units, in order, as
  fragments that keep the line's identity, have contiguous offsets and end with the line's break;
  what the byte cap removes is a prefix of the older content, and the store stays within the cap
  or is empty.
\<close>

theorem history_append_exact:
  assumes "tail_ok h" and "source_ok l"
  shows "\<exists>frs gone. fragments_of (hl_id l) (hl_break l) (hl_start l) (hl_units l) frs \<and>
    map to_owned_line (entries_of h) @ frs = gone @ map to_owned_line (entries_of (append_line lay l h)) \<and>
    tail_ok (append_line lay l h) \<and>
    (resident_bytes (append_line lay l h) \<le> HISTORY_PER_EXECUTION_BYTE_CAP \<or> entries_of (append_line lay l h) = [])"
  using append_line_content [OF assms, of lay] by blast

definition ascii_line :: "nat \<Rightarrow> nat list \<Rightarrow> history_line" where
  "ascii_line i cs = \<lparr>hl_id = LineId i,
     hl_units = map (\<lambda>c. \<lparr>hu_utf8 = [byte_of c], hu_width = 1, hu_style = default_style\<rparr>) cs,
     hl_break = HardBreak, hl_start = 0\<rparr>"

lemma ascii_line_ok: "length cs \<le> 100 \<Longrightarrow> source_ok (ascii_line i cs)"
  by (auto simp: source_ok_def ascii_line_def unit_ok_def HISTORY_SEGMENT_PAYLOAD_TARGET_def)

theorem history_append_exact_witness:
  "\<exists>frs gone. fragments_of (LineId 1) HardBreak 0 (hl_units (ascii_line 1 [0x61, 0x62])) frs \<and>
    map to_owned_line (entries_of new_history) @ frs
      = gone @ map to_owned_line (entries_of (append_line layout64 (ascii_line 1 [0x61, 0x62]) new_history)) \<and>
    source_ok (ascii_line 1 [0x61, 0x62])"
proof -
  have ok: "tail_ok new_history" by (simp add: tail_ok_def new_history_def)
  have l: "source_ok (ascii_line 1 [0x61, 0x62])" by (rule ascii_line_ok) simp
  show ?thesis using history_append_exact [OF ok l, of layout64] l by (auto simp: ascii_line_def)
qed

text \<open>
  C15 (history_anchors_never_invalid): in a store filled from empty by appending well-formed
  lines in ascending identity order, every unit ever appended whose text is valid UTF-8 resolves to
  its own text, width and style, or is reported as evicted; an anchor that was once valid never
  becomes invalid, whatever was sealed, fragmented or evicted.
\<close>

theorem history_anchors_never_invalid:
  assumes "\<forall>l \<in> set ls. source_ok l \<and> line_no (hl_id l) \<le> u64_max" and "sorted_wrt line_order ls"
    and "l \<in> set ls" and "i < length (hl_units l)" and "from_utf8 (hu_utf8 (hl_units l ! i)) = Some text"
    and h_def: "h = fold (append_line lay) ls new_history"
  shows "resolve_anchor h \<lparr>anchor_line = hl_id l, unit_offset = hl_start l + i\<rparr>
      = Resolved text (hu_width (hl_units l ! i)) (hu_style (hl_units l ! i)) \<or>
    resolve_anchor h \<lparr>anchor_line = hl_id l, unit_offset = hl_start l + i\<rparr> = Unavailable \<and>
      line_was_evicted (evicted h) (line_no (hl_id l))"
proof -
  have "history_repr lay ls h"
    using append_lines_repr [OF new_history_repr, of ls lay] assms(1) by (simp add: h_def)
  from resolve_history [OF this assms(2) _ assms(3-5)] assms(1) show ?thesis by blast
qed

theorem history_anchors_never_invalid_witness:
  "resolve_anchor (fold (append_line layout64) [ascii_line 1 [0x61, 0x62], ascii_line 2 [0x63]] new_history)
     \<lparr>anchor_line = LineId 1, unit_offset = 1\<rparr> \<noteq> Invalid"
proof -
  let ?ls = "[ascii_line 1 [0x61, 0x62], ascii_line 2 [0x63]]"
  have ok: "\<forall>l \<in> set ?ls. source_ok l \<and> line_no (hl_id l) \<le> u64_max"
    using ascii_line_ok by (simp, simp add: ascii_line_def)
  have srt: "sorted_wrt line_order ?ls" by (simp add: line_order_def ascii_line_def less_line_id_def)
  have dec: "from_utf8 (hu_utf8 (hl_units (ascii_line 1 [0x61, 0x62]) ! 1)) = Some [0x62]"
    by (simp add: ascii_line_def from_utf8_def)
  show ?thesis
    using history_anchors_never_invalid [OF ok srt _ _ dec refl, of layout64]
    by (auto simp: ascii_line_def)
qed

end
