(* ===== verification/History_Truncate.thy ===== *)
theory History_Truncate
  imports History_Content "HOL-Library.Code_Target_Nat"
begin

text \<open>
  The segment loop of \<open>truncate_from\<close> (\<open>crates/seyal-terminal/src/history/store.rs\<close>): it always ends,
  because a popped segment that was sealed with exact counts is the last one, and for the same
  reason it leaves older segments behind.
\<close>

section \<open>Sealed segments count their units exactly\<close>

text \<open>The unit count of a sealed line is the number of units it resolves to.\<close>

definition counts_exact :: "segment \<Rightarrow> bool" where
  "counts_exact seg \<longleftrightarrow> (\<forall>l \<in> set (seg_lines seg). u32_of (length (ref_units (Sealed seg l))) = sl_unit_len l)"

definition sealed_ok :: "segment \<Rightarrow> bool" where
  "sealed_ok seg \<longleftrightarrow> seg_lines seg \<noteq> [] \<and> counts_exact seg"

lemma seal_units_extends: "\<exists>U P. seal_units us (units, payload) = (units @ U, payload @ P)"
proof (induction us arbitrary: units payload)
  case (Cons u us)
  let ?u = "\<lparr>su_payload_start = u32_of (length payload), su_payload_len = u32_of (length (hu_utf8 u)), su_width = hu_width u, su_style = hu_style u\<rparr>"
  obtain U P where "seal_units us (units @ [?u], payload @ hu_utf8 u) = ((units @ [?u]) @ U, (payload @ hu_utf8 u) @ P)"
    using Cons.IH [of "units @ [?u]" "payload @ hu_utf8 u"] by blast
  then show ?case by (intro exI [of _ "?u # U"] exI [of _ "hu_utf8 u @ P"]) simp
qed simp

lemma seal_lines_shape:
  "\<exists>L U P. seal_lines ls (lines, units, payload) = (lines @ L, units @ U, payload @ P) \<and> length L = length ls \<and>
     (\<forall>l \<in> set L. sl_unit_start l + sl_unit_len l \<le> length (units @ U) \<and> sl_unit_start l + sl_unit_len l \<le> u32_max)"
proof (induction ls arbitrary: lines units payload)
  case (Cons x ls)
  obtain U1 P1 where u: "seal_units (hl_units x) (units, payload) = (units @ U1, payload @ P1)"
    using seal_units_extends by blast
  let ?l = "\<lparr>sl_id = hl_id x, sl_unit_start = u32_of (length units), sl_unit_len = u32_of (length (units @ U1)) - u32_of (length units),
    sl_start = hl_start x, sl_break = hl_break x\<rparr>"
  obtain L U P where L: "seal_lines ls (lines @ [?l], units @ U1, payload @ P1) = ((lines @ [?l]) @ L, (units @ U1) @ U, (payload @ P1) @ P)"
    "length L = length ls" "\<forall>l \<in> set L. sl_unit_start l + sl_unit_len l \<le> length ((units @ U1) @ U) \<and> sl_unit_start l + sl_unit_len l \<le> u32_max"
    using Cons.IH [of "lines @ [?l]" "units @ U1" "payload @ P1"] by blast
  have "seal_lines (x # ls) (lines, units, payload) = (lines @ (?l # L), units @ (U1 @ U), payload @ (P1 @ P))"
    using L(1) u by (simp add: Let_def)
  moreover have "\<forall>l \<in> set (?l # L). sl_unit_start l + sl_unit_len l \<le> length (units @ (U1 @ U)) \<and> sl_unit_start l + sl_unit_len l \<le> u32_max"
    using L(3) by (auto simp: u32_of_def)
  ultimately show ?case using L(2) by (metis length_Cons)
qed simp

lemma sealed_line_count:
  assumes "sl_unit_start l + sl_unit_len l \<le> length (seg_units seg)" "sl_unit_start l + sl_unit_len l \<le> u32_max"
  shows "u32_of (length (ref_units (Sealed seg l))) = sl_unit_len l"
  using assms by (simp add: slice_def sat_add_def u32_of_def)

lemma seal_tail_sealed:
  assumes "tail h \<noteq> []"
  shows "segments (seal_tail lay h) \<noteq> [] \<and> sealed_ok (last (segments (seal_tail lay h)))"
proof -
  obtain L U P where s: "seal_lines (tail h) ([], [], []) = (L, U, P)" "length L = length (tail h)"
    "\<forall>l \<in> set L. sl_unit_start l + sl_unit_len l \<le> length U \<and> sl_unit_start l + sl_unit_len l \<le> u32_max"
    using seal_lines_shape [of "tail h" "[]" "[]" "[]"] by auto
  have "L \<noteq> []" using s(2) assms by auto
  then show ?thesis using assms s sealed_line_count
    by (auto simp: seal_tail_def Let_def sealed_ok_def counts_exact_def simp del: ref_units.simps)
qed

text \<open>Pushing lines back leaves the segments alone or ends with a freshly sealed one.\<close>

lemma push_sealed:
  "segments (push_fragment_inner lay l w h) = segments h \<or>
   segments (push_fragment_inner lay l w h) \<noteq> [] \<and> sealed_ok (last (segments (push_fragment_inner lay l w h)))"
proof -
  have t: "segments (seal_tail lay g) = segments g \<or> segments (seal_tail lay g) \<noteq> [] \<and> sealed_ok (last (segments (seal_tail lay g)))" for g
    using seal_tail_sealed [of g lay] by (cases "tail g = []") (simp_all add: seal_tail_def)
  define h1 where "h1 = (if tail h \<noteq> [] \<and> (tail_payload_bytes h + canonical_payload_len l > HISTORY_SEGMENT_PAYLOAD_TARGET
      \<or> tail_resident_bytes h \<ge> HISTORY_TAIL_PAYLOAD_LIMIT) then seal_tail lay h else h)"
  have "\<exists>g b. push_fragment_inner lay l w h = (if b then seal_tail lay g else g) \<and> segments g = segments h1"
    unfolding push_fragment_inner_def h1_def [symmetric] Let_def by (rule exI, rule exI, rule conjI, rule refl) simp
  then have "\<exists>g. segments g = segments h1 \<and> (push_fragment_inner lay l w h = g \<or> push_fragment_inner lay l w h = seal_tail lay g)"
    by metis
  moreover have "segments h1 = segments h \<or> segments h1 \<noteq> [] \<and> sealed_ok (last (segments h1))"
    using t [of h] by (simp add: h1_def)
  ultimately show ?thesis using t by metis
qed

lemma push_all_sealed:
  "segments (fold (\<lambda>k. push_fragment_inner lay k w) ks h) = segments h \<or>
   segments (fold (\<lambda>k. push_fragment_inner lay k w) ks h) \<noteq> [] \<and> sealed_ok (last (segments (fold (\<lambda>k. push_fragment_inner lay k w) ks h)))"
proof (induction ks arbitrary: h)
  case (Cons k ks)
  show ?case using Cons.IH [of "push_fragment_inner lay k w h"] push_sealed [of lay k w h] by auto
qed simp

section \<open>The loop ends\<close>

lemma keep_lines_split: "l \<in> set ls \<Longrightarrow> \<not> line_entirely_before l from \<Longrightarrow> snd (keep_lines from ls)"
  by (induction ls) (auto simp: case_prod_beta Let_def)

lemma last_line_splits:
  assumes "counts_exact seg" "seg_lines seg \<noteq> []"
    "\<not> range_entirely_before (sl_id (last (seg_lines seg))) (sl_start (last (seg_lines seg))) (sl_unit_len (last (seg_lines seg))) from"
  shows "snd (keep_lines from (map to_owned_line (segment_entries seg)))"
proof (rule keep_lines_split)
  let ?l = "last (seg_lines seg)"
  have l: "?l \<in> set (seg_lines seg)" using assms(2) by simp
  then show "to_owned_line (Sealed seg ?l) \<in> set (map to_owned_line (segment_entries seg))" by (simp add: segment_entries_def)
  show "\<not> line_entirely_before (to_owned_line (Sealed seg ?l)) from"
    using assms(1,3) l by (simp add: counts_exact_def line_entirely_before_def to_owned_line_def del: ref_units.simps)
qed

text \<open>A segment sealed with exact counts is the last one the loop looks at.\<close>

lemma sealed_stops:
  assumes "segments h \<noteq> []" "sealed_ok (last (segments h))"
  shows "\<exists>r. \<forall>n. truncate_segments (Suc n) lay from h = Some r"
  using assms last_line_splits [of "last (segments h)" "from"] by (auto simp: sealed_ok_def Let_def case_prod_beta)

lemma settled:
  "\<exists>r. \<forall>n. a n = Some r \<Longrightarrow> \<exists>r. \<forall>n. d n = Some r \<Longrightarrow>
   \<exists>r. \<forall>n. (if P then a n else if Q then Some b else if R then Some c else d n) = Some r"
  by (cases P; cases Q; cases R) auto

lemma truncate_ends: "\<exists>r. \<forall>n. truncate_segments (Suc (length (segments h)) + n) lay from h = Some r"
proof (induction "length (segments h)" arbitrary: h)
  case (Suc k)
  let ?seg = "last (segments h)"
  let ?h1 = "h\<lparr>segments := butlast (segments h), segments_resident_bytes := segments_resident_bytes h - seg_resident ?seg\<rparr>"
  let ?ks = "keep_lines from (map to_owned_line (segment_entries ?seg))"
  let ?h2 = "fold (\<lambda>k. push_fragment_inner lay k False) (fst ?ks) ?h1"
  have ne: "segments h \<noteq> []" using Suc.hyps(2) by auto
  have shorter: "\<exists>r. \<forall>n. truncate_segments (Suc k + n) lay from g = Some r" if "segments g = butlast (segments h)" for g
  proof -
    have g: "k = length (segments g)" using Suc.hyps(2) that by simp
    from Suc.hyps(1) [OF g] show ?thesis by (simp only: g [symmetric])
  qed
  have again: "\<exists>r. \<forall>n. truncate_segments (Suc k + n) lay from ?h2 = Some r"
  proof (cases "segments ?h2 = butlast (segments h)")
    case True
    then show ?thesis by (rule shorter)
  next
    case False
    then have "segments ?h2 \<noteq> [] \<and> sealed_ok (last (segments ?h2))" using push_all_sealed [of lay False "fst ?ks" ?h1] by simp
    then obtain r where "truncate_segments (Suc n) lay from ?h2 = Some r" for n using sealed_stops [of ?h2 lay "from"] by blast
    then show ?thesis by (intro exI [of _ r]) (simp only: add_Suc simp_thms)
  qed
  have step: "truncate_segments (Suc (length (segments h)) + n) lay from h =
    (if seg_lines ?seg = [] then truncate_segments (Suc k + n) lay from (h\<lparr>segments := butlast (segments h)\<rparr>)
     else if range_entirely_before (sl_id (last (seg_lines ?seg))) (sl_start (last (seg_lines ?seg))) (sl_unit_len (last (seg_lines ?seg))) from
     then Some h else if snd ?ks then Some ?h2 else truncate_segments (Suc k + n) lay from ?h2)" for n
    using ne Suc.hyps(2) [symmetric] by (simp only: add_Suc truncate_segments.simps(2) if_False Let_def case_prod_beta)
  have empty: "\<exists>r. \<forall>n. truncate_segments (Suc k + n) lay from (h\<lparr>segments := butlast (segments h)\<rparr>) = Some r" by (rule shorter) simp
  show ?case unfolding step by (rule settled [OF empty again])
qed simp

text \<open>
  C30 (truncate_loop_terminates): on every store the segment loop of \<open>truncate_from\<close> returns, and it
  does so within one turn more than there are segments: with that many turns, or more, it has a
  result, and always the same one.
\<close>

theorem truncate_loop_terminates:
  "\<exists>r. \<forall>n. truncate_segments (truncate_fuel h + n) lay from h = Some r"
  unfolding truncate_fuel_def by (rule truncate_ends)

text \<open>
  C31 (truncate_leaves_older_segments): when the newest sealed segment and the tail lie wholly after
  the cut, truncation removes them and stops; every older segment stays as it is, also one that
  lies after the cut as well.
\<close>

theorem truncate_leaves_older_segments:
  assumes "segments h = older @ [seg]" "seg_lines seg \<noteq> []"
    and "\<forall>r \<in> set (segment_entries seg @ map Tail (tail h)). anchor_line from < ref_line_id r"
  shows "entries_of (truncate_from lay from h) = concat (map segment_entries older)"
proof -
  have t: "truncate_tail_rev from ls = ([], False)" if "\<forall>l \<in> set ls. anchor_line from < hl_id l" for ls
    using that by (induction ls) (auto simp: line_entirely_before_def range_entirely_before_def)
  have "truncate_tail_rev from (rev (tail h)) = ([], False)" using assms(3) by (intro t) (auto simp: ball_Un)
  then have tail: "truncate_tail lay from h = (recount_tail lay (h\<lparr>reflow_cache := None, tail := []\<rparr>), False)"
    by (simp add: truncate_tail_def Let_def)
  let ?h = "recount_tail lay (h\<lparr>reflow_cache := None, tail := []\<rparr>)"
  have sl: "anchor_line from < sl_id l" if "l \<in> set (seg_lines seg)" for l
    using assms(3) that by (auto simp: segment_entries_def ball_Un)
  have seg: "segments ?h = older @ [seg]" by (simp add: recount_tail_def assms(1))
  have last: "\<not> range_entirely_before (sl_id (last (seg_lines seg))) (sl_start (last (seg_lines seg))) (sl_unit_len (last (seg_lines seg))) from"
    using sl [of "last (seg_lines seg)"] assms(2) by (auto simp: range_entirely_before_def)
  obtain x xs where x: "seg_lines seg = x # xs" using assms(2) by (cases "seg_lines seg") auto
  have keep: "keep_lines from (map to_owned_line (segment_entries seg)) = ([], True)"
    using sl [of x] by (auto simp: segment_entries_def x line_entirely_before_def range_entirely_before_def to_owned_line_def simp del: ref_units.simps)
  have "truncate_segments (truncate_fuel ?h) lay from ?h = Some (?h\<lparr>segments := older,
      segments_resident_bytes := segments_resident_bytes ?h - seg_resident seg\<rparr>)"
    using assms(2) last keep by (simp add: truncate_fuel_def seg Let_def)
  then show ?thesis by (simp add: truncate_from_def tail Let_def entries_of_def) (simp add: recount_tail_def update_resident_bytes_def)
qed

definition two_segments :: history_store where
  "two_segments = seal_tail layout64 (push_fragment layout64 (ascii_line 2 [0x62])
     (seal_tail layout64 (push_fragment layout64 (ascii_line 1 [0x61]) new_history)))"

theorem truncate_leaves_older_segments_witness:
  "map ref_line_id (entries_of (truncate_from layout64 \<lparr>anchor_line = LineId 0, unit_offset = 0\<rparr> two_segments)) = [LineId 1]"
proof -
  have s: "segments two_segments = [hd (segments two_segments)] @ [last (segments two_segments)]" by code_simp
  have n: "seg_lines (last (segments two_segments)) \<noteq> []" by code_simp
  have "list_all (\<lambda>r. LineId 0 < ref_line_id r) (segment_entries (last (segments two_segments)) @ map Tail (tail two_segments))" by code_simp
  then have r: "\<forall>r \<in> set (segment_entries (last (segments two_segments)) @ map Tail (tail two_segments)).
      anchor_line \<lparr>anchor_line = LineId 0, unit_offset = 0\<rparr> < ref_line_id r" by (simp add: list_all_iff)
  have "map ref_line_id (concat (map segment_entries [hd (segments two_segments)])) = [LineId 1]" by code_simp
  then show ?thesis using truncate_leaves_older_segments [OF s n r, of layout64] by simp
qed

end
