(* ===== verification/Screen.thy ===== *)
theory Screen
  imports History_Query Cells Damage
begin

text \<open>
  The live grid, \<open>screen/mod.rs\<close> and \<open>screen/ops.rs\<close> of \<open>crates/seyal-terminal/src\<close>: cells,
  anchors, line identities and breaks per row, cursor, pen, scroll region, and every editing
  operation.

  The three mutable arguments of the editing operations (the screen, the identity allocator and the
  payload store) are the record \<open>canvas\<close>; a fallible operation returns the canvas it leaves behind
  together with an error or a mutation.  The \<open>Option\<close> around the store in the scroll operations is
  always \<open>Some\<close> at the call sites and is dropped.  The hash map of source breaks is a map.
\<close>

section \<open>State\<close>

definition MAX_TERMINAL_COLUMNS :: nat where "MAX_TERMINAL_COLUMNS = 512"

definition MAX_TERMINAL_ROWS :: nat where "MAX_TERMINAL_ROWS = 256"

record saved_cursor =
  sc_cursor :: cursor
  sc_style :: style

record screen =
  scols :: nat
  srows :: nat
  cells :: "cell list"
  cell_anchors :: "history_anchor option list"
  line_ids :: "line_id list"
  row_breaks :: "history_break_after option list"
  source_breaks :: "line_id \<rightharpoonup> history_break_after"
  scursor :: cursor
  pen :: style
  saved :: "saved_cursor option"
  history :: history_store
  retain_history :: bool
  ed2_remint_frontier :: "line_id option"
  scroll_top :: nat
  scroll_bottom :: nat

record canvas =
  scr :: screen
  alloc :: line_id_allocator
  payloads :: grapheme_store

text \<open>\<open>?\<close> on an operation that threads a state.\<close>

definition bind_res :: "'s \<times> 'a res \<Rightarrow> ('s \<Rightarrow> 'a \<Rightarrow> 's \<times> 'b res) \<Rightarrow> 's \<times> 'b res" where
  "bind_res r f = (case r of (s, Inl e) \<Rightarrow> (s, Inl e) | (s, Inr x) \<Rightarrow> f s x)"

definition new_screen ::
  "nat \<Rightarrow> nat \<Rightarrow> line_id_allocator \<Rightarrow> bool \<Rightarrow> line_id_allocator \<times> screen res"
where
  "new_screen cols rows ids retain =
    (if cols = 0 \<or> rows = 0 then (ids, Inl InvalidSize)
     else if cols > MAX_TERMINAL_COLUMNS \<or> rows > MAX_TERMINAL_ROWS then (ids, Inl InvalidSize)
     else if \<not> can_allocate ids rows then (ids, Inl LineIdentityExhausted)
     else bind_res (allocate_n rows ids) (\<lambda>ids' row_ids. (ids', Inr
       \<lparr>scols = cols, srows = rows, cells = replicate (cols * rows) default_cell,
        cell_anchors = replicate (cols * rows) None, line_ids = row_ids,
        row_breaks = replicate rows (Some HardBreak), source_breaks = Map.empty,
        scursor = default_cursor, pen = default_style, saved = None, history = new_history,
        retain_history = retain, ed2_remint_frontier = None, scroll_top = 0,
        scroll_bottom = rows - 1\<rparr>)))"

definition cell_index :: "screen \<Rightarrow> nat \<Rightarrow> nat \<Rightarrow> nat" where
  "cell_index s col row = row * scols s + col"

definition screen_cell :: "screen \<Rightarrow> nat \<Rightarrow> nat \<Rightarrow> cell option" where
  "screen_cell s col row =
    (if col \<ge> scols s \<or> row \<ge> srows s then None else Some (cells s ! cell_index s col row))"

definition screen_cell_anchor :: "screen \<Rightarrow> nat \<Rightarrow> nat \<Rightarrow> history_anchor option" where
  "screen_cell_anchor s col row =
    (if col < scols s \<and> row < srows s then cell_anchors s ! cell_index s col row else None)"

definition screen_line_id :: "screen \<Rightarrow> nat \<Rightarrow> line_id option" where
  "screen_line_id s row = (if row < length (line_ids s) then Some (line_ids s ! row) else None)"

definition row_break_after :: "screen \<Rightarrow> nat \<Rightarrow> history_break_after option" where
  "row_break_after s row = (if row < length (row_breaks s) then row_breaks s ! row else None)"

definition cell_row :: "screen \<Rightarrow> nat \<Rightarrow> cell list option" where
  "cell_row s row =
    (if row \<ge> srows s then None else Some (slice (row * scols s) (row * scols s + scols s) (cells s)))"

definition screen_cursor :: "screen \<Rightarrow> bool \<Rightarrow> cursor_state" where
  "screen_cursor s visible = \<lparr>cs_col = cur_col (scursor s), cs_row = cur_row (scursor s), cs_visible = visible\<rparr>"

definition release_cell :: "cell \<Rightarrow> grapheme_store \<Rightarrow> grapheme_store" where
  "release_cell c st = (if role c = Lead then release (store_id c) st else st)"

abbreviation release_cells :: "cell list \<Rightarrow> grapheme_store \<Rightarrow> grapheme_store" where
  "release_cells cs st \<equiv> fold release_cell cs st"

definition release_all_payloads :: "screen \<Rightarrow> grapheme_store \<Rightarrow> grapheme_store" where
  "release_all_payloads s st = release_cells (cells s) st"

definition inherit_pen_for_clean_buffer :: "style \<Rightarrow> screen \<Rightarrow> grapheme_store \<Rightarrow> screen \<times> grapheme_store" where
  "inherit_pen_for_clean_buffer p s st =
    (s\<lparr>pen := p, cells := replicate (length (cells s)) (blank (bg p))\<rparr>, release_all_payloads s st)"

section \<open>Cursor movement\<close>

definition place_cursor :: "nat \<Rightarrow> nat \<Rightarrow> screen \<Rightarrow> screen" where
  "place_cursor row col s = s\<lparr>scursor := \<lparr>cur_col = col, cur_row = row, pending_wrap = False\<rparr>\<rparr>"

abbreviation ccol :: "screen \<Rightarrow> nat" where "ccol s \<equiv> cur_col (scursor s)"

abbreviation crow :: "screen \<Rightarrow> nat" where "crow s \<equiv> cur_row (scursor s)"

definition cursor_up :: "nat \<Rightarrow> screen \<Rightarrow> screen \<times> mutation" where
  "cursor_up count s =
    (let row = crow s - count in (place_cursor row (ccol s) s, mutation_rows (crow s) row))"

definition cursor_down :: "nat \<Rightarrow> screen \<Rightarrow> screen \<times> mutation" where
  "cursor_down count s =
    (let row = min (sat_add u16_max (crow s) count) (srows s - 1)
     in (place_cursor row (ccol s) s, mutation_rows (crow s) row))"

definition cursor_forward :: "nat \<Rightarrow> screen \<Rightarrow> screen \<times> mutation" where
  "cursor_forward count s =
    (place_cursor (crow s) (min (sat_add u16_max (ccol s) count) (scols s - 1)) s, mutation_row (crow s))"

definition cursor_back :: "nat \<Rightarrow> screen \<Rightarrow> screen \<times> mutation" where
  "cursor_back count s = (place_cursor (crow s) (ccol s - count) s, mutation_row (crow s))"

definition set_cursor :: "nat \<Rightarrow> nat \<Rightarrow> screen \<Rightarrow> screen \<times> mutation" where
  "set_cursor row col s =
    (let r = min row (srows s - 1)
     in (place_cursor r (min col (scols s - 1)) s, mutation_rows (crow s) r))"

definition set_col :: "nat \<Rightarrow> screen \<Rightarrow> screen \<times> mutation" where
  "set_col col s = (place_cursor (crow s) (min col (scols s - 1)) s, mutation_row (crow s))"

definition set_row :: "nat \<Rightarrow> screen \<Rightarrow> screen \<times> mutation" where
  "set_row row s =
    (let r = min row (srows s - 1) in (place_cursor r (ccol s) s, mutation_rows (crow s) r))"

definition backspace :: "screen \<Rightarrow> screen \<times> mutation" where
  "backspace s = (place_cursor (crow s) (ccol s - 1) s, mutation_row (crow s))"

definition tab :: "screen \<Rightarrow> screen \<times> mutation" where
  "tab s =
    (let nxt = sat_mul u16_max (sat_add u16_max (ccol s div 8) 1) 8
     in (place_cursor (crow s) (min nxt (scols s - 1)) s, mutation_row (crow s)))"

definition carriage_return :: "screen \<Rightarrow> screen \<times> mutation" where
  "carriage_return s = (place_cursor (crow s) 0 s, mutation_row (crow s))"

definition set_pending_wrap :: "bool \<Rightarrow> screen \<Rightarrow> screen" where
  "set_pending_wrap pending s = s\<lparr>scursor := (scursor s)\<lparr>pending_wrap := pending\<rparr>\<rparr>"

definition save_cursor :: "screen \<Rightarrow> screen" where
  "save_cursor s = s\<lparr>saved := Some \<lparr>sc_cursor = scursor s, sc_style = pen s\<rparr>\<rparr>"

definition restore_cursor :: "screen \<Rightarrow> screen \<times> mutation" where
  "restore_cursor s =
    (case saved s of
       None \<Rightarrow> (s, mutation_none)
     | Some sv \<Rightarrow>
         let c = clamp (scols s) (srows s) (sc_cursor sv)
         in (s\<lparr>scursor := c, pen := sc_style sv\<rparr>, mutation_rows (crow s) (cur_row c)))"

definition set_scroll_region :: "nat \<Rightarrow> nat \<Rightarrow> screen \<Rightarrow> screen \<times> mutation" where
  "set_scroll_region top0 bottom0 s =
    (let upper = (if top0 = 0 then 1 else top0); lower = (if bottom0 = 0 then srows s else bottom0) in
     if upper < 1 \<or> lower > srows s \<or> upper \<ge> lower then (s, mutation_none)
     else set_cursor 0 0 (s\<lparr>scroll_top := upper - 1, scroll_bottom := lower - 1\<rparr>))"

definition region_is_full_screen :: "screen \<Rightarrow> bool" where
  "region_is_full_screen s \<longleftrightarrow> scroll_top s = 0 \<and> scroll_bottom s + 1 = srows s"

definition clamp_scroll_region_to_geometry :: "screen \<Rightarrow> screen" where
  "clamp_scroll_region_to_geometry s =
    (if srows s = 0 then s\<lparr>scroll_top := 0, scroll_bottom := 0\<rparr>
     else
       let max_row = srows s - 1;
           s1 = (if scroll_top s > max_row then s\<lparr>scroll_top := 0\<rparr> else s)
       in if scroll_bottom s1 > max_row \<or> scroll_bottom s1 \<le> scroll_top s1 then
            (let s2 = s1\<lparr>scroll_bottom := max_row\<rparr>
             in if scroll_top s2 \<ge> scroll_bottom s2 then s2\<lparr>scroll_top := 0\<rparr> else s2)
          else s1)"

section \<open>Graphic rendition\<close>

definition set_color :: "bool \<Rightarrow> color \<Rightarrow> style \<Rightarrow> style" where
  "set_color foreground c p = (if foreground then p\<lparr>fg := c\<rparr> else p\<lparr>bg := c\<rparr>)"

text \<open>A single parameter; \<open>None\<close> when it is not supported.\<close>

definition sgr_one :: "nat \<Rightarrow> style \<Rightarrow> style option" where
  "sgr_one p st =
    (if p = 0 then Some default_style
     else if p = 1 then Some (st\<lparr>bold := True\<rparr>)
     else if p = 22 then Some (st\<lparr>bold := False\<rparr>)
     else if p = 4 then Some (st\<lparr>underline := True\<rparr>)
     else if p = 24 then Some (st\<lparr>underline := False\<rparr>)
     else if p = 7 then Some (st\<lparr>inverse_video := True\<rparr>)
     else if p = 27 then Some (st\<lparr>inverse_video := False\<rparr>)
     else if 30 \<le> p \<and> p \<le> 37 then Some (st\<lparr>fg := Indexed (p - 30)\<rparr>)
     else if p = 39 then Some (st\<lparr>fg := DefaultColor\<rparr>)
     else if 40 \<le> p \<and> p \<le> 47 then Some (st\<lparr>bg := Indexed (p - 40)\<rparr>)
     else if p = 49 then Some (st\<lparr>bg := DefaultColor\<rparr>)
     else if 90 \<le> p \<and> p \<le> 97 then Some (st\<lparr>fg := Indexed (p - 90 + 8)\<rparr>)
     else if 100 \<le> p \<and> p \<le> 107 then Some (st\<lparr>bg := Indexed (p - 100 + 8)\<rparr>)
     else None)"

fun sgr_loop :: "nat list \<Rightarrow> style \<Rightarrow> bool \<Rightarrow> style \<times> bool" where
  "sgr_loop [] st deferred = (st, deferred)"
| "sgr_loop (p # ps) st deferred =
    (if p = 38 \<or> p = 48 then
       (case ps of
          m # x # rest \<Rightarrow>
            (if m = 5 then sgr_loop rest (set_color (p = 38) (Indexed (min x 255)) st) deferred
             else if m = 2 then
               (case rest of
                  y # z # rest' \<Rightarrow>
                    sgr_loop rest' (set_color (p = 38) (Rgb (min x 255) (min y 255) (min z 255)) st) deferred
                | _ \<Rightarrow> sgr_loop ps st True)
             else sgr_loop ps st True)
        | _ \<Rightarrow> sgr_loop ps st True)
     else (case sgr_one p st of
             Some st' \<Rightarrow> sgr_loop ps st' deferred
           | None \<Rightarrow> sgr_loop ps st True))"

definition apply_sgr :: "nat list \<Rightarrow> screen \<Rightarrow> screen \<times> bool" where
  "apply_sgr params s =
    (if params = [] then (s\<lparr>pen := default_style\<rparr>, False)
     else let (st, deferred) = sgr_loop params (pen s) False in (s\<lparr>pen := st\<rparr>, deferred))"

section \<open>Rows leaving the screen\<close>

abbreviation row_cells_of :: "screen \<Rightarrow> nat \<Rightarrow> cell list" where
  "row_cells_of s row \<equiv> slice (row * scols s) (row * scols s + scols s) (cells s)"

abbreviation row_anchors_of :: "screen \<Rightarrow> nat \<Rightarrow> history_anchor option list" where
  "row_anchors_of s row \<equiv> slice (row * scols s) (row * scols s + scols s) (cell_anchors s)"

text \<open>\<open>iter().rev().flatten().next()\<close>.\<close>

definition last_some :: "'a option list \<Rightarrow> 'a option" where
  "last_some xs = (case List.find (\<lambda>x. x \<noteq> None) (rev xs) of None \<Rightarrow> None | Some y \<Rightarrow> y)"

definition current_source_line_id :: "screen \<Rightarrow> nat \<Rightarrow> line_id" where
  "current_source_line_id s row =
    (case last_some (row_anchors_of s row) of
       None \<Rightarrow> line_ids s ! row
     | Some a \<Rightarrow> anchor_line a)"

text \<open>A unit joins the previous fragment when it continues its line without a gap.\<close>

definition join_fragment :: "history_line \<Rightarrow> history_line list \<Rightarrow> history_line list" where
  "join_fragment f frs =
    (if frs \<noteq> [] \<and> hl_id (last frs) = hl_id f \<and>
        sat_add u32_max (hl_start (last frs)) (u32_of (length (hl_units (last frs)))) = hl_start f
     then butlast frs @ [(last frs)\<lparr>hl_units := hl_units (last frs) @ hl_units f\<rparr>]
     else frs @ [f])"

fun row_fragments ::
  "line_id \<Rightarrow> grapheme_store \<Rightarrow> (cell \<times> history_anchor option) list \<Rightarrow> history_line list \<Rightarrow> history_line list"
where
  "row_fragments lid st [] frs = frs"
| "row_fragments lid st ((c, oa) # cs) frs =
    (if role c \<noteq> Lead then row_fragments lid st cs frs
     else
       let a = (case oa of Some a \<Rightarrow> a
                | None \<Rightarrow> \<lparr>anchor_line = lid, unit_offset = length frs mod 2 ^ 32\<rparr>);
           f = (from_cells (anchor_line a) SoftWrap [c] st)\<lparr>hl_start := unit_offset a\<rparr>
       in row_fragments lid st cs (join_fragment f frs))"

text \<open>The last fragment of every line carries the break of its source line.\<close>

fun last_breaks :: "(line_id \<Rightarrow> history_break_after) \<Rightarrow> history_line list \<Rightarrow> history_line list" where
  "last_breaks brk [] = []"
| "last_breaks brk (f # fs) =
    (if hl_id f \<in> hl_id ` set fs then f else f\<lparr>hl_break := brk (hl_id f)\<rparr>) # last_breaks brk fs"

definition append_row_to_history ::
  "layout \<Rightarrow> nat \<Rightarrow> history_break_after \<Rightarrow> grapheme_store \<Rightarrow> screen \<Rightarrow> screen"
where
  "append_row_to_history lay row fallback st s =
    (let frs = row_fragments (line_ids s ! row) st (zip (row_cells_of s row) (row_anchors_of s row)) [] in
     if frs = [] then
       s\<lparr>history := append_row lay (line_ids s ! row) fallback (row_cells_of s row) st (history s),
         source_breaks := (source_breaks s)(line_ids s ! row := None)\<rparr>
     else
       let frs' = last_breaks (\<lambda>l. case source_breaks s l of Some b \<Rightarrow> b | None \<Rightarrow> fallback) frs
       in s\<lparr>history := fold (append_line lay) frs' (history s),
            source_breaks := fold (\<lambda>f m. m(hl_id f := None)) frs' (source_breaks s)\<rparr>)"

section \<open>Scrolling\<close>

definition evict_row :: "layout \<Rightarrow> history_break_after \<Rightarrow> nat \<Rightarrow> canvas \<Rightarrow> canvas" where
  "evict_row lay break_after row cv =
    (let s = scr cv;
         source_break = (case row_breaks s ! row of Some b \<Rightarrow> b | None \<Rightarrow> break_after)
     in cv\<lparr>scr := append_row_to_history lay row source_break (payloads cv) s,
           payloads := release_cells (row_cells_of s row) (payloads cv)\<rparr>)"

definition release_row :: "nat \<Rightarrow> canvas \<Rightarrow> canvas" where
  "release_row row cv = cv\<lparr>payloads := release_cells (row_cells_of (scr cv) row) (payloads cv)\<rparr>"

text \<open>
  The closing loop of both shifts: blank a row and give it a fresh identity.  Only the upward shift
  releases the payloads of what the row still holds.
\<close>

definition blank_row :: "nat \<Rightarrow> screen \<Rightarrow> screen" where
  "blank_row row s =
    s\<lparr>cells := fill_range (row * scols s) (row * scols s + scols s) (blank (bg (pen s))) (cells s),
      cell_anchors := fill_range (row * scols s) (row * scols s + scols s) None (cell_anchors s)\<rparr>"

definition renew_row :: "bool \<Rightarrow> nat \<Rightarrow> canvas \<Rightarrow> canvas \<times> unit res" where
  "renew_row releasing row cv0 =
    (let cv1 = (if releasing then release_row row cv0 else cv0);
         cv = cv1\<lparr>scr := blank_row row (scr cv1)\<rparr>
     in case allocate (alloc cv) of
          (ids, Inl e) \<Rightarrow> (cv\<lparr>alloc := ids\<rparr>, Inl e)
        | (ids, Inr i) \<Rightarrow>
            (cv\<lparr>alloc := ids,
                scr := (scr cv)\<lparr>line_ids := (line_ids (scr cv))[row := i],
                                row_breaks := (row_breaks (scr cv))[row := Some HardBreak]\<rparr>\<rparr>, Inr ()))"

fun renew_rows :: "bool \<Rightarrow> nat list \<Rightarrow> canvas \<Rightarrow> canvas \<times> unit res" where
  "renew_rows releasing [] cv = (cv, Inr ())"
| "renew_rows releasing (row # rows) cv =
    bind_res (renew_row releasing row cv) (\<lambda>cv' _. renew_rows releasing rows cv')"

definition move_rows :: "nat \<Rightarrow> nat \<Rightarrow> nat \<Rightarrow> screen \<Rightarrow> screen" where
  "move_rows src dst keep s =
    (if keep > 0 then
       s\<lparr>cells := copy_within (src * scols s) (src * scols s + keep * scols s) (dst * scols s) (cells s),
         cell_anchors := copy_within (src * scols s) (src * scols s + keep * scols s) (dst * scols s) (cell_anchors s),
         line_ids := copy_within src (src + keep) dst (line_ids s),
         row_breaks := copy_within src (src + keep) dst (row_breaks s)\<rparr>
     else s)"

definition shift_region_rows_up ::
  "layout \<Rightarrow> nat \<Rightarrow> nat \<Rightarrow> nat \<Rightarrow> history_break_after \<Rightarrow> canvas \<Rightarrow> canvas \<times> mutation res"
where
  "shift_region_rows_up lay upper lower n break_after cv =
    (let region_rows = lower - upper + 1 in
     if n = 0 \<or> n > region_rows then (cv, Inr mutation_none)
     else
       let s = scr cv;
           cv1 = (if retain_history s \<and> region_is_full_screen s \<and> upper = 0
                  then fold (evict_row lay break_after) [upper..<upper + n] cv
                  else fold release_row [upper..<upper + n] cv);
           cv2 = cv1\<lparr>scr := move_rows (upper + n) upper (region_rows - n) (scr cv1)\<rparr>
       in bind_res (renew_rows True [lower + 1 - n..<lower + 1] cv2)
            (\<lambda>cv' _. (cv', Inr (mutation_rows upper lower))))"

definition shift_region_rows_down ::
  "nat \<Rightarrow> nat \<Rightarrow> nat \<Rightarrow> canvas \<Rightarrow> canvas \<times> mutation res"
where
  "shift_region_rows_down upper lower n cv =
    (let region_rows = lower - upper + 1 in
     if n = 0 \<or> n > region_rows then (cv, Inr mutation_none)
     else
       let cv1 = fold release_row [lower + 1 - n..<lower + 1] cv;
           cv2 = cv1\<lparr>scr := move_rows upper (upper + n) (region_rows - n) (scr cv1)\<rparr>
       in bind_res (renew_rows False [upper..<upper + n] cv2)
            (\<lambda>cv' _. (cv', Inr (mutation_rows upper lower))))"

definition region_height :: "screen \<Rightarrow> nat" where
  "region_height s = sat_add u16_max (scroll_bottom s - scroll_top s) 1"

definition scroll_up :: "layout \<Rightarrow> nat \<Rightarrow> history_break_after \<Rightarrow> canvas \<Rightarrow> canvas \<times> mutation res" where
  "scroll_up lay count break_after cv =
    (let n = min (max count 1) (region_height (scr cv)) in
     if n = 0 then (cv, Inr mutation_none)
     else shift_region_rows_up lay (scroll_top (scr cv)) (scroll_bottom (scr cv)) n break_after cv)"

definition scroll_down :: "nat \<Rightarrow> canvas \<Rightarrow> canvas \<times> mutation res" where
  "scroll_down count cv =
    (let n = min (max count 1) (region_height (scr cv)) in
     if n = 0 then (cv, Inr mutation_none)
     else shift_region_rows_down (scroll_top (scr cv)) (scroll_bottom (scr cv)) n cv)"

definition no_pending :: "canvas \<Rightarrow> canvas" where
  "no_pending cv = cv\<lparr>scr := set_pending_wrap False (scr cv)\<rparr>"

definition line_feed :: "layout \<Rightarrow> history_break_after \<Rightarrow> canvas \<Rightarrow> canvas \<times> mutation res" where
  "line_feed lay break_after cv0 =
    (let cv1 = no_pending cv0;
         old = crow (scr cv1);
         s1 = (scr cv1)\<lparr>row_breaks := (row_breaks (scr cv1))[old := Some break_after]\<rparr>;
         s2 = s1\<lparr>source_breaks := (source_breaks s1)(current_source_line_id s1 old \<mapsto> break_after)\<rparr>;
         cv = cv1\<lparr>scr := s2\<rparr>
     in if old = scroll_bottom s2 then scroll_up lay 1 break_after cv
        else if old < srows s2 - 1 then
          (cv\<lparr>scr := s2\<lparr>scursor := (scursor s2)\<lparr>cur_row := old + 1\<rparr>\<rparr>\<rparr>, Inr (mutation_rows old (old + 1)))
        else (cv, Inr (mutation_row old)))"

definition index_down :: "layout \<Rightarrow> canvas \<Rightarrow> canvas \<times> mutation res" where
  "index_down lay cv = line_feed lay HardBreak cv"

definition reverse_index :: "canvas \<Rightarrow> canvas \<times> mutation res" where
  "reverse_index cv0 =
    (let cv = no_pending cv0; s = scr cv; old = crow s in
     if old = scroll_top s then scroll_down 1 cv
     else if old > 0 then
       (cv\<lparr>scr := s\<lparr>scursor := (scursor s)\<lparr>cur_row := old - 1\<rparr>\<rparr>\<rparr>, Inr (mutation_rows old (old - 1)))
     else (cv, Inr (mutation_row old)))"

definition next_line :: "layout \<Rightarrow> canvas \<Rightarrow> canvas \<times> mutation res" where
  "next_line lay cv =
    (let (s, cr) = carriage_return (scr cv)
     in bind_res (index_down lay (cv\<lparr>scr := s\<rparr>)) (\<lambda>cv' m. (cv', Inr (merge cr m))))"

definition insert_lines :: "nat \<Rightarrow> canvas \<Rightarrow> canvas \<times> mutation res" where
  "insert_lines count cv =
    (let s = scr cv in
     if crow s < scroll_top s \<or> crow s > scroll_bottom s then (cv, Inr mutation_none)
     else let n = min (max count 1) (sat_add u16_max (scroll_bottom s - crow s) 1)
          in shift_region_rows_down (crow s) (scroll_bottom s) n (no_pending cv))"

definition delete_lines :: "layout \<Rightarrow> nat \<Rightarrow> canvas \<Rightarrow> canvas \<times> mutation res" where
  "delete_lines lay count cv =
    (let s = scr cv in
     if crow s < scroll_top s \<or> crow s > scroll_bottom s then (cv, Inr mutation_none)
     else let n = min (max count 1) (sat_add u16_max (scroll_bottom s - crow s) 1)
          in shift_region_rows_up lay (crow s) (scroll_bottom s) n HardBreak (no_pending cv))"

section \<open>Units\<close>

definition set_unit :: "nat \<Rightarrow> cell \<Rightarrow> history_anchor option \<Rightarrow> screen \<Rightarrow> screen" where
  "set_unit i c a s = s\<lparr>cells := (cells s)[i := c], cell_anchors := (cell_anchors s)[i := a]\<rparr>"

definition clear_unit_at :: "nat \<Rightarrow> nat \<Rightarrow> canvas \<Rightarrow> canvas \<times> mutation" where
  "clear_unit_at col row cv =
    (let s = scr cv in
     if col \<ge> scols s \<or> row \<ge> srows s then (cv, mutation_none)
     else
       let i = cell_index s col row;
           lead_col = (if role (cells s ! i) = Continuation \<and> col > 0 then col - 1 else col);
           li = cell_index s lead_col row;
           lead = cells s ! li;
           b = blank (bg (pen s))
       in if role lead = Lead then
            let s1 = set_unit li b None s;
                ci = cell_index s (lead_col + 1) row;
                s2 = (if max (cell_width lead) 1 \<ge> 2 \<and> lead_col + 1 < scols s \<and> role (cells s1 ! ci) = Continuation
                      then set_unit ci b None s1 else s1)
            in (cv\<lparr>scr := s2, payloads := release_cell lead (payloads cv)\<rparr>, mutation_row row)
          else (cv\<lparr>scr := set_unit i b None s\<rparr>, mutation_row row))"

text \<open>The anchor of a unit written over a cell that has none.\<close>

definition fresh_anchor :: "screen \<Rightarrow> nat \<Rightarrow> nat \<Rightarrow> history_anchor" where
  "fresh_anchor s col row =
    (let row_start = row * scols s; i = cell_index s col row in
     case last_some (slice row_start i (cell_anchors s)) of
       None \<Rightarrow> \<lparr>anchor_line = line_ids s ! row,
                unit_offset = length (filter (\<lambda>c. role c = Lead) (slice row_start i (cells s))) mod 2 ^ 32\<rparr>
     | Some a \<Rightarrow> \<lparr>anchor_line = anchor_line a, unit_offset = sat_add u32_max (unit_offset a) 1\<rparr>)"

definition soft_wrap :: "layout \<Rightarrow> canvas \<Rightarrow> canvas \<times> mutation res" where
  "soft_wrap lay cv =
    bind_res (line_feed lay SoftWrap cv)
      (\<lambda>cv' m. (cv'\<lparr>scr := (scr cv')\<lparr>scursor := (scursor (scr cv'))\<lparr>cur_col := 0\<rparr>\<rparr>\<rparr>, Inr m))"

definition advance_cursor :: "nat \<Rightarrow> nat \<Rightarrow> bool \<Rightarrow> screen \<Rightarrow> screen" where
  "advance_cursor col width wrap s =
    (let next_col = sat_add u16_max col width
     in if next_col \<ge> scols s
        then s\<lparr>scursor := (scursor s)\<lparr>cur_col := scols s - 1, pending_wrap := wrap\<rparr>\<rparr>
        else s\<lparr>scursor := (scursor s)\<lparr>cur_col := next_col, pending_wrap := False\<rparr>\<rparr>)"

text \<open>The part of \<open>place_new_unit\<close> after the wrap handling.\<close>

definition write_unit :: "cell \<Rightarrow> bool \<Rightarrow> mutation \<Rightarrow> bool \<Rightarrow> canvas \<Rightarrow> canvas \<times> (mutation \<times> bool \<times> nat \<times> nat) res" where
  "write_unit lead wrap m0 wrapped cv =
    (let width = max (cell_width lead) 1;
         s = scr cv;
         col = ccol s;
         row = crow s;
         replaced = cell_anchors s ! cell_index s col row;
         (cv1, m1) = clear_unit_at col row cv;
         (cv2, m2) = (if width \<ge> 2 \<and> col + 1 < scols s then clear_unit_at (col + 1) row cv1 else (cv1, mutation_none));
         m = merge (merge m0 m1) m2;
         i = cell_index s col row;
         s2 = scr cv2;
         s3 = s2\<lparr>cells := (cells s2)[i := lead]\<rparr>;
         anchor = (case replaced of Some a \<Rightarrow> a | None \<Rightarrow> fresh_anchor s3 col row);
         s4 = s3\<lparr>cell_anchors := (cell_anchors s3)[i := Some anchor]\<rparr>
     in if width \<ge> 2 \<and> col + 1 \<ge> scols s then
          (cv2\<lparr>scr := s4\<lparr>cells := (cells s4)[i := blank (bg (pen s4))]\<rparr>,
               payloads := release_cell lead (payloads cv2)\<rparr>, Inr (m, wrapped, col, row))
        else
          let s5 = (if width \<ge> 2 then set_unit (cell_index s (col + 1) row) continuation None s4 else s4)
          in (cv2\<lparr>scr := advance_cursor col width wrap s5\<rparr>,
              Inr (merge m (mutation_row row), wrapped, col, row)))"

definition place_new_unit ::
  "layout \<Rightarrow> cell \<Rightarrow> bool \<Rightarrow> canvas \<Rightarrow> canvas \<times> (mutation \<times> bool \<times> nat \<times> nat) res"
where
  "place_new_unit lay lead wrap cv0 =
    (let width = max (cell_width lead) 1 in
     bind_res
       (if pending_wrap (scursor (scr cv0)) then
          (if wrap then bind_res (soft_wrap lay cv0) (\<lambda>cv m. (cv, Inr (merge mutation_none m, True)))
           else (no_pending cv0, Inr (mutation_none, False)))
        else (cv0, Inr (mutation_none, False)))
       (\<lambda>cv (m, wrapped).
          let s = scr cv in
          if width \<ge> 2 \<and> ccol s + 1 \<ge> scols s \<and> (ccol s = scols s - 1 \<or> ccol s + 1 > scols s - 1) then
            (if wrap then
               bind_res (soft_wrap lay cv) (\<lambda>cv' m'. write_unit lead wrap (merge m m') True cv')
             else (cv, Inr (m, wrapped, ccol s, crow s)))
          else write_unit lead wrap m wrapped cv))"

definition replace_active_lead ::
  "nat \<Rightarrow> nat \<Rightarrow> cell \<Rightarrow> nat \<Rightarrow> canvas \<Rightarrow> canvas \<times> mutation"
where
  "replace_active_lead col row lead previous_width cv =
    (let s = scr cv;
         ci = cell_index s (col + 1) row;
         s1 = (if previous_width \<ge> 2 \<and> col + 1 < scols s \<and> role (cells s ! ci) = Continuation
               then s\<lparr>cells := (cells s)[ci := blank (bg (pen s))]\<rparr> else s);
         i = cell_index s col row;
         old = cells s1 ! i;
         st = (if role old = Lead \<and> store_id old \<noteq> store_id lead then release_cell old (payloads cv) else payloads cv);
         cv1 = cv\<lparr>scr := s1\<lparr>cells := (cells s1)[i := lead]\<rparr>, payloads := st\<rparr>
     in if cell_width lead \<ge> 2 \<and> col + 1 < scols s then
          (let (cv2, m) = clear_unit_at (col + 1) row cv1
           in (cv2\<lparr>scr := set_unit ci continuation None (scr cv2)\<rparr>, merge (merge mutation_none m) (mutation_row row)))
        else (cv1, merge mutation_none (mutation_row row)))"

section \<open>Erasing and in-row editing\<close>

definition erase_cells :: "nat \<Rightarrow> nat \<Rightarrow> canvas \<Rightarrow> canvas" where
  "erase_cells a b cv =
    cv\<lparr>scr := (scr cv)\<lparr>cells := fill_range a b (blank (bg (pen (scr cv)))) (cells (scr cv))\<rparr>,
       payloads := release_cells (slice a b (cells (scr cv))) (payloads cv)\<rparr>"

definition seal_screen_row :: "layout \<Rightarrow> nat \<Rightarrow> canvas \<Rightarrow> canvas" where
  "seal_screen_row lay row cv =
    cv\<lparr>scr := append_row_to_history lay row
        (case row_breaks (scr cv) ! row of Some b \<Rightarrow> b | None \<Rightarrow> HardBreak) (payloads cv) (scr cv)\<rparr>"

definition erase_display_all :: "layout \<Rightarrow> canvas \<Rightarrow> canvas \<times> mutation res" where
  "erase_display_all lay cv0 =
    (let cv1 = (if retain_history (scr cv0) then fold (seal_screen_row lay) [0..<srows (scr cv0)] cv0 else cv0);
         cv2 = erase_cells 0 (length (cells (scr cv1))) cv1;
         cv3 = cv2\<lparr>scr := (scr cv2)\<lparr>cell_anchors := replicate (length (cell_anchors (scr cv2))) None\<rparr>\<rparr>;
         row_count = srows (scr cv3)
     in if \<not> can_allocate (alloc cv3) row_count then (cv3, Inl LineIdentityExhausted)
        else case allocate_n row_count (alloc cv3) of
               (ids, Inl e) \<Rightarrow> (cv3\<lparr>alloc := ids\<rparr>, Inl e)
             | (ids, Inr new_ids) \<Rightarrow>
                 (cv3\<lparr>alloc := ids,
                      scr := (scr cv3)\<lparr>line_ids := new_ids, row_breaks := replicate row_count (Some HardBreak),
                        ed2_remint_frontier := (case new_ids of [] \<Rightarrow> None | i # _ \<Rightarrow> Some i)\<rparr>\<rparr>,
                  Inr (mutation_full (srows (scr cv3)))))"

definition erase_display :: "layout \<Rightarrow> nat \<Rightarrow> canvas \<Rightarrow> canvas \<times> mutation res" where
  "erase_display lay mode cv =
    (let s = scr cv; cursor_index = cell_index s (ccol s) (crow s) in
     if mode = 0 then (erase_cells cursor_index (length (cells s)) cv, Inr (mutation_rows (crow s) (srows s - 1)))
     else if mode = 1 then (erase_cells 0 (cursor_index + 1) cv, Inr (mutation_rows 0 (crow s)))
     else if mode = 2 then erase_display_all lay cv
     else (cv, Inr mutation_none))"

definition erase_line :: "nat \<Rightarrow> canvas \<Rightarrow> canvas \<times> mutation" where
  "erase_line mode cv =
    (let s = scr cv; start = crow s * scols s; ending = start + scols s in
     if mode = 0 then (erase_cells (start + ccol s) ending cv, mutation_row (crow s))
     else if mode = 1 then (erase_cells start (start + ccol s + 1) cv, mutation_row (crow s))
     else if mode = 2 then (erase_cells start ending cv, mutation_row (crow s))
     else (cv, mutation_none))"

text \<open>The loop of \<open>sanitize_row\<close> on the cells of one row.\<close>

function sanitize_loop :: "cell \<Rightarrow> nat \<Rightarrow> cell list \<Rightarrow> grapheme_store \<Rightarrow> cell list \<times> grapheme_store" where
  "sanitize_loop b col cs st =
    (if col < length cs then
       let c = cs ! col in
       if role c = Lead \<and> cell_width c \<ge> 2 then
         (if col + 1 \<ge> length cs \<or> role (cs ! (col + 1)) \<noteq> Continuation
          then sanitize_loop b (col + 1) (cs[col := b]) (release_cell c st)
          else sanitize_loop b (col + 2) cs st)
       else if role c = Continuation \<and> (col = 0 \<or> role (cs ! (col - 1)) \<noteq> Lead)
       then sanitize_loop b (col + 1) (cs[col := b]) st
       else sanitize_loop b (col + 1) cs st
     else (cs, st))"
  by pat_completeness auto
termination
  by (relation "measure (\<lambda>(b, col, cs, st). length cs - col)") auto

declare sanitize_loop.simps [simp del]

definition sanitize_row :: "nat \<Rightarrow> canvas \<Rightarrow> canvas" where
  "sanitize_row row cv =
    (let s = scr cv; start = row * scols s;
         (cs, st) = sanitize_loop (blank (bg (pen s))) 0 (row_cells_of s row) (payloads cv)
     in cv\<lparr>scr := s\<lparr>cells := take start (cells s) @ cs @ drop (start + scols s) (cells s)\<rparr>, payloads := st\<rparr>)"

definition insert_characters :: "nat \<Rightarrow> canvas \<Rightarrow> canvas \<times> mutation" where
  "insert_characters count cv0 =
    (let s0 = scr cv0; row = crow s0; col = ccol s0 in
     if col \<ge> scols s0 then (cv0, mutation_none)
     else
       let cv = no_pending cv0; s = scr cv; cols = scols s; start = row * cols; at = start + col;
           n = min (max count 1) (cols - col)
       in if n = 0 then (cv, mutation_none)
          else
            let st = release_cells (slice (start + cols - n) (start + cols) (cells s)) (payloads cv);
                s1 = s\<lparr>cells := fill_range at (at + n) (blank (bg (pen s))) (copy_within at (start + cols - n) (at + n) (cells s)),
                       cell_anchors := fill_range at (at + n) None (copy_within at (start + cols - n) (at + n) (cell_anchors s))\<rparr>
            in (sanitize_row row (cv\<lparr>scr := s1, payloads := st\<rparr>), mutation_row row))"

definition delete_characters :: "nat \<Rightarrow> canvas \<Rightarrow> canvas \<times> mutation" where
  "delete_characters count cv0 =
    (let s0 = scr cv0; row = crow s0; col = ccol s0 in
     if col \<ge> scols s0 then (cv0, mutation_none)
     else
       let cv = no_pending cv0; s = scr cv; cols = scols s; start = row * cols; at = start + col;
           n = min (max count 1) (cols - col)
       in if n = 0 then (cv, mutation_none)
          else
            let st = release_cells (slice at (at + n) (cells s)) (payloads cv);
                s1 = s\<lparr>cells := fill_range (start + cols - n) (start + cols) (blank (bg (pen s)))
                                (copy_within (at + n) (start + cols) at (cells s)),
                       cell_anchors := fill_range (start + cols - n) (start + cols) None
                                (copy_within (at + n) (start + cols) at (cell_anchors s))\<rparr>
            in (sanitize_row row (cv\<lparr>scr := s1, payloads := st\<rparr>), mutation_row row))"

fun clear_units :: "nat list \<Rightarrow> nat \<Rightarrow> canvas \<times> mutation \<Rightarrow> canvas \<times> mutation" where
  "clear_units [] row acc = acc"
| "clear_units (c # cs) row (cv, m) =
    (let (cv', m') = clear_unit_at c row cv in clear_units cs row (cv', merge m m'))"

definition erase_characters :: "nat \<Rightarrow> canvas \<Rightarrow> canvas \<times> mutation" where
  "erase_characters count cv =
    (let s = scr cv; row = crow s; col = ccol s in
     if col \<ge> scols s then (cv, mutation_none)
     else let end_col = min (sat_add u16_max col (max count 1)) (scols s)
          in clear_units [col..<end_col] row (no_pending cv, mutation_none))"

definition execute :: "layout \<Rightarrow> byte \<Rightarrow> canvas \<Rightarrow> canvas \<times> mutation res" where
  "execute lay b cv =
    (let lift = (\<lambda>(s, m). (cv\<lparr>scr := s\<rparr>, Inr m)) in
     if b = 0x08 then lift (backspace (scr cv))
     else if b = 0x09 then lift (tab (scr cv))
     else if 0x0a \<le> b \<and> b \<le> 0x0c then line_feed lay HardBreak cv
     else if b = 0x0d then lift (carriage_return (scr cv))
     else (cv, Inr mutation_none))"

end
