(* ===== verification/History_Widths.thy ===== *)
theory History_Widths
  imports History
begin

text \<open>
  Every unit of a history store occupies one or two cells: an invariant of the operations of
  \<open>History\<close>, sealing, fragmenting, eviction and truncation included.
\<close>

definition fits :: "nat \<Rightarrow> bool" where
  "fits w \<longleftrightarrow> w = 1 \<or> w = 2"

definition line_fits :: "history_line \<Rightarrow> bool" where
  "line_fits l \<longleftrightarrow> (\<forall>u \<in> set (hl_units l). fits (hu_width u))"

definition segment_fits :: "segment \<Rightarrow> bool" where
  "segment_fits seg \<longleftrightarrow> (\<forall>u \<in> set (seg_units seg). fits (su_width u))"

definition widths_ok :: "history_store \<Rightarrow> bool" where
  "widths_ok h \<longleftrightarrow> (\<forall>l \<in> set (tail h). line_fits l) \<and> (\<forall>seg \<in> set (segments h). segment_fits seg)"

lemma widths_ok_new [simp]: "widths_ok new_history"
  by (simp add: widths_ok_def new_history_def)

lemma widths_ok_cong: "tail h' = tail h \<Longrightarrow> segments h' = segments h \<Longrightarrow> widths_ok h' = widths_ok h"
  by (simp add: widths_ok_def)

lemma widths_ok_update [simp]: "widths_ok (update_resident_bytes lay h) = widths_ok h" "widths_ok (recount_tail lay h) = widths_ok h"
  "widths_ok (h\<lparr>reflow_cache := c\<rparr>) = widths_ok h" "widths_ok (h\<lparr>wrap_chains := w\<rparr>) = widths_ok h"
  by (simp_all add: widths_ok_def update_resident_bytes_def recount_tail_def)

subsection \<open>Sealing\<close>

lemma seal_units_fits:
  assumes "\<forall>u \<in> set us. fits (hu_width u)" "\<forall>u \<in> set (fst acc). fits (su_width u)"
  shows "\<forall>u \<in> set (fst (seal_units us acc)). fits (su_width u)"
  using assms by (induction us acc rule: seal_units.induct) auto

lemma seal_lines_fits:
  assumes "\<forall>l \<in> set ls. line_fits l" "\<forall>u \<in> set (fst (snd acc)). fits (su_width u)"
  shows "\<forall>u \<in> set (fst (snd (seal_lines ls acc))). fits (su_width u)"
  using assms
proof (induction ls acc rule: seal_lines.induct)
  case (2 l ls lines units payload)
  obtain units' payload' where s: "seal_units (hl_units l) (units, payload) = (units', payload')" by fastforce
  have "\<forall>u \<in> set units'. fits (su_width u)"
    using seal_units_fits [of "hl_units l" "(units, payload)"] 2(2,3) s by (simp add: line_fits_def)
  then show ?case using 2(1) [OF refl s [symmetric] refl] 2(2) s by (simp add: Let_def)
qed simp

lemma seal_tail_fits: "widths_ok h \<Longrightarrow> widths_ok (seal_tail lay h)"
  using seal_lines_fits [of "tail h" "([], [], [])"]
  by (auto simp: seal_tail_def widths_ok_def segment_fits_def Let_def case_prod_beta update_resident_bytes_def)

lemma push_fragment_inner_fits:
  assumes "widths_ok h" "line_fits l"
  shows "widths_ok (push_fragment_inner lay l rec h)"
proof -
  define h1 where "h1 = (if tail h \<noteq> [] \<and> (tail_payload_bytes h + canonical_payload_len l > HISTORY_SEGMENT_PAYLOAD_TARGET
     \<or> tail_resident_bytes h \<ge> HISTORY_TAIL_PAYLOAD_LIMIT) then seal_tail lay h else h)"
  have "widths_ok h1" using assms(1) by (simp add: h1_def seal_tail_fits)
  then have app: "widths_ok (h1\<lparr>tail_payload_bytes := a, wrap_chains := b, tail := tail h1 @ [l], tail_cap := c, tail_resident_bytes := d\<rparr>)"
    "widths_ok (h1\<lparr>tail_payload_bytes := a, tail := tail h1 @ [l], tail_cap := c, tail_resident_bytes := d\<rparr>)" for a b c d
    using assms(2) by (auto simp: widths_ok_def)
  show ?thesis unfolding push_fragment_inner_def Let_def h1_def [symmetric] by (simp add: app seal_tail_fits)
qed

lemma evict_front_fits: "widths_ok h \<Longrightarrow> widths_ok (evict_front lay h)"
  by (cases "segments h") (simp_all add: widths_ok_def)

lemma evict_loop_fits: "widths_ok h \<Longrightarrow> widths_ok (fst (evict_loop lay h ev))"
proof (induction lay h ev rule: evict_loop.induct)
  case (1 lay h ev)
  then show ?case by (subst evict_loop.simps) (simp add: evict_front_fits seal_tail_fits)
qed

lemma evict_to_cap_fits: "widths_ok h \<Longrightarrow> widths_ok (evict_to_cap lay h)"
  using evict_loop_fits [of "update_resident_bytes lay h" lay False] by (simp add: evict_to_cap_def case_prod_beta Let_def)

lemma fragment_loop_fits:
  assumes "widths_ok h" "\<forall>u \<in> set us. fits (hu_width u)" "\<forall>u \<in> set frag. fits (hu_width u)"
  shows "widths_ok (fragment_loop lay lid brk us frag n off h)"
  using assms
  by (induction lay lid brk us frag n off h rule: fragment_loop.induct)
    (simp_all add: push_fragment_def Let_def line_fits_def push_fragment_inner_fits)

lemma append_line_fits: "widths_ok h \<Longrightarrow> line_fits l \<Longrightarrow> widths_ok (append_line lay l h)"
  unfolding append_line_def Let_def
  by (intro evict_to_cap_fits) (simp add: fragment_loop_fits push_fragment_inner_fits push_fragment_def line_fits_def)

lemma append_lines_fits: "widths_ok h \<Longrightarrow> \<forall>l \<in> set ls. line_fits l \<Longrightarrow> widths_ok (fold (append_line lay) ls h)"
  by (induction ls arbitrary: h) (simp_all add: append_line_fits)

lemma replace_payload_fits: "\<forall>l \<in> set ls. line_fits l \<Longrightarrow> widths_ok (replace_payload lay ls h)"
  unfolding replace_payload_def by (intro append_lines_fits) (simp_all add: widths_ok_def update_resident_bytes_def)

subsection \<open>Reading and truncating\<close>

lemma owned_fits: "widths_ok h \<Longrightarrow> r \<in> set (entries_of h) \<Longrightarrow> line_fits (to_owned_line r)"
  by (auto simp: entries_of_def segment_entries_def widths_ok_def segment_fits_def line_fits_def to_owned_line_def sealed_unit_def slice_def
      dest!: in_set_takeD in_set_dropD)

lemma truncate_tail_fits: "\<forall>l \<in> set ls. line_fits l \<Longrightarrow> \<forall>l \<in> set (fst (truncate_tail_rev from ls)). line_fits l"
  by (induction ls) (auto simp: Let_def line_fits_def dest: in_set_takeD)

lemma keep_lines_fits: "\<forall>l \<in> set ls. line_fits l \<Longrightarrow> \<forall>l \<in> set (fst (keep_lines from ls)). line_fits l"
  by (induction ls) (auto simp: Let_def line_fits_def case_prod_beta dest: in_set_takeD split: if_splits)

lemma truncate_segments_fits: "widths_ok h \<Longrightarrow> pred_option widths_ok (truncate_segments fuel lay a h)"
proof (induction fuel arbitrary: h)
  case (Suc fuel)
  let ?seg = "last (segments h)"
  let ?ks = "fst (keep_lines a (map to_owned_line (segment_entries ?seg)))"
  let ?h1 = "h\<lparr>segments := butlast (segments h), segments_resident_bytes := segments_resident_bytes h - seg_resident ?seg\<rparr>"
  show ?case
  proof (cases "segments h = []")
    case False
    have b: "widths_ok (h\<lparr>segments := butlast (segments h)\<rparr>)" using Suc.prems by (auto simp: widths_ok_def dest: in_set_butlastD)
    have b1: "widths_ok ?h1" using b by (simp add: widths_ok_def)
    have "\<forall>l \<in> set (map to_owned_line (segment_entries ?seg)). line_fits l"
      using owned_fits [OF Suc.prems] last_in_set [OF False] by (fastforce simp: entries_of_def)
    from keep_lines_fits [OF this] have ks: "\<forall>l \<in> set ?ks. line_fits l" .
    have "widths_ok (fold (\<lambda>k. push_fragment_inner lay k False) ls g)" if "widths_ok g" "\<forall>l \<in> set ls. line_fits l" for ls g
      using that by (induction ls arbitrary: g) (simp_all add: push_fragment_inner_fits)
    note p = this [OF b1 ks]
    show ?thesis using False b p Suc by (simp add: Let_def case_prod_beta)
  qed (use Suc in simp)
qed simp

lemma truncate_from_fits:
  assumes "widths_ok h"
  shows "widths_ok (truncate_from lay from h)"
proof -
  have t: "\<forall>l \<in> set (fst (truncate_tail_rev from (rev (tail h)))). line_fits l"
    by (rule truncate_tail_fits) (use assms in \<open>simp add: widths_ok_def\<close>)
  then have "widths_ok (h\<lparr>reflow_cache := c, tail := rev (fst (truncate_tail_rev from (rev (tail h))))\<rparr>)" for c
    using assms by (auto simp: widths_ok_def)
  then have "widths_ok (fst (truncate_tail lay from h))" by (simp add: truncate_tail_def Let_def case_prod_beta)
  then show ?thesis using truncate_segments_fits [of "fst (truncate_tail lay from h)" "truncate_fuel (fst (truncate_tail lay from h))" lay "from"]
    by (auto simp: truncate_from_def Let_def case_prod_beta split: option.split)
qed

lemma suffix_history_fits: "widths_ok h \<Longrightarrow> widths_ok (fst (eager_resize_suffix h cols n))"
  by (simp add: eager_resize_suffix_def wrap_column_before_def Let_def case_prod_beta split: option.split)

lemma extend_suffix_fits:
  "line_fits (to_owned_line r) \<Longrightarrow> \<forall>r \<in> set rs. line_fits (to_owned_line r) \<Longrightarrow> \<forall>l \<in> set acc. line_fits l \<Longrightarrow>
   \<forall>l \<in> set (fst (extend_suffix b r rs acc n)). line_fits l"
  by (induction b r rs acc n rule: extend_suffix.induct) (auto simp: Let_def)

lemma collect_suffix_fits:
  "\<forall>r \<in> set rs. line_fits (to_owned_line r) \<Longrightarrow> \<forall>l \<in> set acc. line_fits l \<Longrightarrow> \<forall>l \<in> set (fst (collect_suffix h b e rs acc n)). line_fits l"
proof (induction rs arbitrary: acc n)
  case (Cons r rs)
  have e: "\<forall>l \<in> set (fst (extend_suffix e r rs acc n)). line_fits l"
    by (rule extend_suffix_fits) (use Cons.prems in simp_all)
  have c: "\<forall>l \<in> set (fst (collect_suffix h b e rs (acc @ [to_owned_line r]) k)). line_fits l" for k
    by (rule Cons.IH) (use Cons.prems in auto)
  show ?case using e c Cons.prems(2) by (simp only: collect_suffix.simps Let_def fst_conv split: if_split) simp
qed simp

lemma suffix_lines_fit: "widths_ok h \<Longrightarrow> \<forall>l \<in> set (fst (snd (eager_resize_suffix h cols n))). line_fits l"
  using collect_suffix_fits [of "reverse_entries h" "[]" h] owned_fits [of h]
  by (simp add: eager_resize_suffix_def Let_def case_prod_beta reverse_entries_eq)

end
