(* ===== verification/Screen_Ok.thy ===== *)
theory Screen_Ok
  imports Screen History_Widths
begin

text \<open>
  The grid invariant: every buffer has the size of the grid, cursor and scroll region lie inside it,
  every cell obeys the cell discipline and every unit of the history is one or two cells wide.
  Every operation of \<open>Screen\<close> keeps it, and the mutation an operation reports covers every row whose
  cells it changed.
\<close>

section \<open>Invariant\<close>

definition screen_ok :: "screen \<Rightarrow> bool" where
  "screen_ok s \<longleftrightarrow>
     0 < scols s \<and> scols s \<le> MAX_TERMINAL_COLUMNS \<and> 0 < srows s \<and> srows s \<le> MAX_TERMINAL_ROWS \<and>
     length (cells s) = srows s * scols s \<and> length (cell_anchors s) = srows s * scols s \<and>
     length (line_ids s) = srows s \<and> length (row_breaks s) = srows s \<and>
     ccol s < scols s \<and> crow s < srows s \<and>
     scroll_top s \<le> scroll_bottom s \<and> scroll_bottom s < srows s \<and>
     (\<forall>c \<in> set (cells s). cell_ok c) \<and> widths_ok (history s)"

definition canvas_ok :: "canvas \<Rightarrow> bool" where
  "canvas_ok cv \<longleftrightarrow> screen_ok (scr cv) \<and> allocator_ok (alloc cv) \<and> store_ok (payloads cv)"

definition changed_rows :: "screen \<Rightarrow> screen \<Rightarrow> nat set" where
  "changed_rows s s' =
    {r. r < srows s \<and> (\<exists>c < scols s. cells s' ! (r * scols s + c) \<noteq> cells s ! (r * scols s + c))}"

definition same_size :: "screen \<Rightarrow> screen \<Rightarrow> bool" where
  "same_size s s' \<longleftrightarrow> scols s' = scols s \<and> srows s' = srows s"

definition step_ok :: "screen \<Rightarrow> screen \<Rightarrow> mutation \<Rightarrow> bool" where
  "step_ok s s' m \<longleftrightarrow> screen_ok s' \<and> same_size s s' \<and> mutation_ok m \<and>
     changed_rows s s' \<subseteq> mutation_rows_of m \<and> mutation_rows_of m \<subseteq> {..<srows s}"

text \<open>
  The contract of an editing operation: it keeps the canvas well formed and the size, and on success
  the mutation it returns covers every row it changed and no row outside the grid.
\<close>

definition op_ok :: "canvas \<Rightarrow> canvas \<times> mutation res \<Rightarrow> bool" where
  "op_ok cv r \<longleftrightarrow> canvas_ok (fst r) \<and> same_size (scr cv) (scr (fst r)) \<and>
     (\<forall>m. snd r = Inr m \<longrightarrow> step_ok (scr cv) (scr (fst r)) m)"

lemma same_size_refl [simp]: "same_size s s"
  by (simp add: same_size_def)

lemma same_size_trans: "same_size a b \<Longrightarrow> same_size b c \<Longrightarrow> same_size a c"
  by (simp add: same_size_def)

lemma changed_rows_refl [simp]: "changed_rows s s = {}"
  by (simp add: changed_rows_def)

lemma changed_rows_same_cells [simp]: "cells s' = cells s \<Longrightarrow> changed_rows s s' = {}"
  by (simp add: changed_rows_def)

lemma changed_rows_trans:
  "same_size a b \<Longrightarrow> changed_rows a c \<subseteq> changed_rows a b \<union> changed_rows b c"
  by (auto simp: changed_rows_def same_size_def)

lemma changed_rowsI:
  assumes "\<And>j. j < srows s * scols s \<Longrightarrow> j div scols s \<notin> R \<Longrightarrow> cells s' ! j = cells s ! j"
  shows "changed_rows s s' \<subseteq> R"
proof
  fix r assume "r \<in> changed_rows s s'"
  then obtain c where c: "r < srows s" "c < scols s" "cells s' ! (r * scols s + c) \<noteq> cells s ! (r * scols s + c)"
    by (auto simp: changed_rows_def)
  have "r * scols s + c < Suc r * scols s" using c by simp
  also have "\<dots> \<le> srows s * scols s" using c(1) by (intro mult_le_mono1) simp
  finally have "r * scols s + c < srows s * scols s" .
  moreover have "(r * scols s + c) div scols s = r" using c by simp
  ultimately show "r \<in> R" using assms c(3) by force
qed

lemma row_end: "r < R \<Longrightarrow> r * C + C \<le> R * (C::nat)"
  by (metis Suc_leI add.commute mult_Suc mult_le_mono1)

lemma cell_index_less: "r < R \<Longrightarrow> c < C \<Longrightarrow> r * C + c < R * (C::nat)"
  using row_end [of r R C] by linarith

lemma div_in_rows:
  assumes "r1 * C \<le> j" "j < r2 * C + (C::nat)"
  shows "r1 \<le> j div C" "j div C \<le> r2"
proof -
  have "0 < C" using assms by (cases C) auto
  then show "r1 \<le> j div C" using div_le_mono [OF assms(1), of C] by simp
  have "j < Suc r2 * C" using assms by simp
  then show "j div C \<le> r2" using less_mult_imp_div_less less_Suc_eq_le by blast
qed

lemma mutation_bounds:
  "r < n \<Longrightarrow> mutation_rows_of (mutation_row r) \<subseteq> {..<n}"
  "a < n \<Longrightarrow> b < n \<Longrightarrow> mutation_rows_of (mutation_rows a b) \<subseteq> {..<n}"
  "0 < n \<Longrightarrow> mutation_rows_of (mutation_full n) \<subseteq> {..<n}"
  by auto

lemma rows_bound:
  "mutation_ok m \<Longrightarrow> mutation_rows_of m \<subseteq> {..<n} \<longleftrightarrow> m_first_row m = None \<or> m_last_row m < n"
  by (auto simp: mutation_rows_of_def mutation_ok_def subset_eq split: option.splits)

lemma merge_bounds:
  "mutation_ok a \<Longrightarrow> mutation_ok b \<Longrightarrow> mutation_rows_of a \<subseteq> {..<n} \<Longrightarrow> mutation_rows_of b \<subseteq> {..<n} \<Longrightarrow>
     mutation_rows_of (merge a b) \<subseteq> {..<n}"
  by (auto simp: rows_bound) (auto simp: merge_def split: option.splits)

lemma step_ok_cells:
  "screen_ok s' \<Longrightarrow> same_size s s' \<Longrightarrow> cells s' = cells s \<Longrightarrow> mutation_ok m \<Longrightarrow>
     mutation_rows_of m \<subseteq> {..<srows s} \<Longrightarrow> step_ok s s' m"
  by (simp add: step_ok_def)

lemma step_ok_trans:
  assumes "step_ok a b m" "step_ok b c n"
  shows "step_ok a c (merge m n)"
proof -
  have "changed_rows a c \<subseteq> mutation_rows_of m \<union> mutation_rows_of n"
    using changed_rows_trans [of a b c] assms by (auto simp: step_ok_def)
  moreover have "srows b = srows a" using assms by (simp add: step_ok_def same_size_def)
  ultimately show ?thesis
    using assms merge_rows [of m n] merge_bounds [of m n "srows a"] same_size_trans [of a b c]
    by (auto simp: step_ok_def)
qed

lemma op_ok_bind:
  assumes "op_ok cv r" "\<And>cv' m. r = (cv', Inr m) \<Longrightarrow> op_ok cv (f cv' m)"
  shows "op_ok cv (bind_res r f)"
  using assms by (cases r; cases "snd r") (auto simp: bind_res_def op_ok_def)

section \<open>Pieces\<close>

lemma all_update: "\<forall>c \<in> set xs. P c \<Longrightarrow> P v \<Longrightarrow> \<forall>c \<in> set (xs[i := v]). P c"
  using set_update_subset_insert [of xs i v] by blast

lemma all_fill: "\<forall>c \<in> set xs. P c \<Longrightarrow> P v \<Longrightarrow> \<forall>c \<in> set (fill_range a b v xs). P c"
  using set_fill_range_subset [of a b v xs] by blast

lemma all_copy: "\<forall>c \<in> set xs. P c \<Longrightarrow> \<forall>c \<in> set (copy_within a b d xs). P c"
  using set_copy_within_subset [of a b d xs] by blast

lemmas all_simps = all_update all_fill all_copy

lemma release_cell_ok [keeps]: "store_ok st \<Longrightarrow> store_ok (release_cell c st)"
  by (simp add: release_cell_def release_ok)

lemma release_cells_ok [keeps]: "store_ok st \<Longrightarrow> store_ok (release_cells cs st)"
  by (induction cs arbitrary: st) (simp_all add: release_cell_ok)

lemma place_cursor_ok:
  "screen_ok s \<Longrightarrow> row < srows s \<Longrightarrow> col < scols s \<Longrightarrow> screen_ok (place_cursor row col s)"
  by (simp add: screen_ok_def place_cursor_def)

lemma place_cursor_shape [simp]:
  "cells (place_cursor row col s) = cells s" "same_size s (place_cursor row col s)"
  "srows (place_cursor row col s) = srows s" "scols (place_cursor row col s) = scols s"
  by (simp_all add: place_cursor_def same_size_def)

lemma place_cursor_step:
  "screen_ok s \<Longrightarrow> row < srows s \<Longrightarrow> col < scols s \<Longrightarrow> mutation_ok m \<Longrightarrow>
     mutation_rows_of m \<subseteq> {..<srows s} \<Longrightarrow> step_ok s (place_cursor row col s) m"
  by (intro step_ok_cells place_cursor_ok) simp_all

lemma screen_okD:
  assumes "screen_ok s"
  shows "0 < scols s" "0 < srows s" "ccol s < scols s" "crow s < srows s"
    "length (cells s) = srows s * scols s" "length (cell_anchors s) = srows s * scols s"
    "length (line_ids s) = srows s" "length (row_breaks s) = srows s"
    "scroll_top s \<le> scroll_bottom s" "scroll_bottom s < srows s" "\<forall>c \<in> set (cells s). cell_ok c"
    "scols s \<le> MAX_TERMINAL_COLUMNS" "srows s \<le> MAX_TERMINAL_ROWS"
  using assms by (auto simp: screen_ok_def)

text \<open>The cursor operations.\<close>

lemma cursor_moves_ok:
  assumes "screen_ok s"
  shows "step_ok s (fst (cursor_up n s)) (snd (cursor_up n s))"
    "step_ok s (fst (cursor_down n s)) (snd (cursor_down n s))"
    "step_ok s (fst (cursor_forward n s)) (snd (cursor_forward n s))"
    "step_ok s (fst (cursor_back n s)) (snd (cursor_back n s))"
    "step_ok s (fst (set_cursor r c s)) (snd (set_cursor r c s))"
    "step_ok s (fst (set_col c s)) (snd (set_col c s))"
    "step_ok s (fst (set_row r s)) (snd (set_row r s))"
    "step_ok s (fst (backspace s)) (snd (backspace s))"
    "step_ok s (fst (tab s)) (snd (tab s))"
    "step_ok s (fst (carriage_return s)) (snd (carriage_return s))"
  using screen_okD(1-4) [OF assms] assms
  by (auto simp: cursor_up_def cursor_down_def cursor_forward_def cursor_back_def set_cursor_def
      set_col_def set_row_def backspace_def tab_def carriage_return_def Let_def
      intro!: place_cursor_step)

lemma step_ok_none: "screen_ok s \<Longrightarrow> step_ok s s mutation_none"
  by (simp add: step_ok_def)

lemma cursor_pen_ok:
  "screen_ok s \<Longrightarrow> cur_col c < scols s \<Longrightarrow> cur_row c < srows s \<Longrightarrow> screen_ok (s\<lparr>scursor := c, pen := p\<rparr>)"
  by (simp add: screen_ok_def)

lemma scroll_region_ok:
  "screen_ok s \<Longrightarrow> t \<le> b \<Longrightarrow> b < srows s \<Longrightarrow> screen_ok (s\<lparr>scroll_top := t, scroll_bottom := b\<rparr>)"
  by (simp add: screen_ok_def)

lemma clamp_bounds [simp]:
  "0 < cols \<Longrightarrow> cur_col (clamp cols rows c) < cols" "0 < rows \<Longrightarrow> cur_row (clamp cols rows c) < rows"
  by (simp_all add: clamp_def)

lemma restore_cursor_ok: "screen_ok s \<Longrightarrow> step_ok s (fst (restore_cursor s)) (snd (restore_cursor s))"
proof (cases "saved s")
  case (Some sv)
  assume ok: "screen_ok s"
  have "step_ok s (s\<lparr>scursor := clamp (scols s) (srows s) (sc_cursor sv), pen := sc_style sv\<rparr>)
    (mutation_rows (crow s) (cur_row (clamp (scols s) (srows s) (sc_cursor sv))))"
    using screen_okD(1-4) [OF ok]
    by (intro step_ok_cells cursor_pen_ok mutation_bounds(2) ok) (simp_all add: same_size_def)
  then show ?thesis by (simp add: restore_cursor_def Some Let_def)
qed (simp add: restore_cursor_def step_ok_none)

lemma set_scroll_region_ok:
  assumes ok: "screen_ok s"
  shows "step_ok s (fst (set_scroll_region t b s)) (snd (set_scroll_region t b s))"
proof -
  have "step_ok s (fst (set_cursor 0 0 (s\<lparr>scroll_top := u - 1, scroll_bottom := l - 1\<rparr>)))
      (snd (set_cursor 0 0 (s\<lparr>scroll_top := u - 1, scroll_bottom := l - 1\<rparr>)))"
    if "l \<le> srows s" "u < l" for u l
  proof -
    have "screen_ok (s\<lparr>scroll_top := u - 1, scroll_bottom := l - 1\<rparr>)"
      using that by (intro scroll_region_ok ok) auto
    from cursor_moves_ok(5) [OF this, of 0 0] show ?thesis
      by (simp add: step_ok_def same_size_def changed_rows_def)
  qed
  then show ?thesis by (simp add: set_scroll_region_def Let_def step_ok_none ok)
qed

lemma pen_cursor_updates_ok [simp]:
  "screen_ok (s\<lparr>pen := p\<rparr>) = screen_ok s" "screen_ok (s\<lparr>saved := v\<rparr>) = screen_ok s"
  "screen_ok (s\<lparr>source_breaks := sb\<rparr>) = screen_ok s"
  "screen_ok (s\<lparr>ed2_remint_frontier := f\<rparr>) = screen_ok s"
  "screen_ok (set_pending_wrap w s) = screen_ok s"
  by (simp_all add: screen_ok_def set_pending_wrap_def)

section \<open>Scrolling keeps the grid\<close>

lemma append_row_to_history_shape [simp]:
  "cells (append_row_to_history lay row b st s) = cells s"
  "scols (append_row_to_history lay row b st s) = scols s"
  "srows (append_row_to_history lay row b st s) = srows s"
  "line_ids (append_row_to_history lay row b st s) = line_ids s"
  "cell_anchors (append_row_to_history lay row b st s) = cell_anchors s"
  "row_breaks (append_row_to_history lay row b st s) = row_breaks s"
  "scroll_top (append_row_to_history lay row b st s) = scroll_top s"
  "scroll_bottom (append_row_to_history lay row b st s) = scroll_bottom s"
  "scursor (append_row_to_history lay row b st s) = scursor s"
  "pen (append_row_to_history lay row b st s) = pen s"
  by (simp_all add: append_row_to_history_def Let_def)

lemma from_cells_fits: "\<forall>c \<in> set cs. cell_ok c \<Longrightarrow> line_fits (from_cells lid b cs st)"
  by (auto simp: from_cells_def line_fits_def List.map_filter_def unit_of_cell_def fits_def cell_ok_def split: cell_role.splits dest!: in_set_takeD)

lemma join_fragment_fits: "\<forall>l \<in> set ls. line_fits l \<Longrightarrow> line_fits f \<Longrightarrow> \<forall>l \<in> set (join_fragment f ls). line_fits l"
  by (cases ls rule: rev_cases) (auto simp: join_fragment_def line_fits_def)

lemma row_fragments_fits:
  "\<forall>c \<in> fst ` set cs. cell_ok c \<Longrightarrow> \<forall>l \<in> set ls. line_fits l \<Longrightarrow> \<forall>l \<in> set (row_fragments lid st cs ls). line_fits l"
proof (induction cs arbitrary: ls)
  case (Cons x cs)
  obtain c oa where x: "x = (c, oa)" by fastforce
  have f: "line_fits ((from_cells l SoftWrap [c] st)\<lparr>hl_start := n\<rparr>)" for l n
    using from_cells_fits [of "[c]" l SoftWrap st] Cons.prems(1) x by (simp add: line_fits_def)
  have "\<forall>l \<in> set (row_fragments lid st cs (join_fragment ((from_cells l SoftWrap [c] st)\<lparr>hl_start := n\<rparr>) ls)). line_fits l" for l n
    by (intro Cons.IH join_fragment_fits f) (use Cons.prems in auto)
  then show ?case using Cons x by (simp add: Let_def)
qed simp

lemma last_breaks_fits: "\<forall>l \<in> set ls. line_fits l \<Longrightarrow> \<forall>l \<in> set (last_breaks b ls). line_fits l"
  by (induction ls) (auto simp: line_fits_def)

lemma append_row_to_history_ok [simp]: "screen_ok s \<Longrightarrow> screen_ok (append_row_to_history lay row b st s)"
proof -
  assume ok: "screen_ok s"
  have c: "\<forall>c \<in> set (row_cells_of s row). cell_ok c" using ok by (auto simp: screen_ok_def slice_def dest!: in_set_takeD in_set_dropD)
  then have "\<forall>c \<in> fst ` set (zip (row_cells_of s row) (row_anchors_of s row)). cell_ok c" by (auto dest!: set_zip_leftD)
  from row_fragments_fits [OF this, of "[]" "line_ids s ! row" st]
  have f: "\<forall>l \<in> set (row_fragments (line_ids s ! row) st (zip (row_cells_of s row) (row_anchors_of s row)) []). line_fits l" by simp
  have "widths_ok (history (append_row_to_history lay row b st s))"
    using ok last_breaks_fits [OF f] from_cells_fits [OF c]
    by (simp add: append_row_to_history_def Let_def append_row_def append_line_fits append_lines_fits screen_ok_def)
  then show ?thesis using ok by (simp add: screen_ok_def)
qed

text \<open>Operations that leave the cells of the grid alone.\<close>

definition quiet :: "canvas \<Rightarrow> canvas \<Rightarrow> bool" where
  "quiet cv cv' \<longleftrightarrow> (canvas_ok cv \<longrightarrow> canvas_ok cv') \<and> same_size (scr cv) (scr cv') \<and>
     cells (scr cv') = cells (scr cv) \<and> scroll_top (scr cv') = scroll_top (scr cv) \<and>
     scroll_bottom (scr cv') = scroll_bottom (scr cv) \<and> scursor (scr cv') = scursor (scr cv)"

lemma quiet_refl: "quiet cv cv"
  by (simp add: quiet_def)

lemma quiet_trans: "quiet a b \<Longrightarrow> quiet b c \<Longrightarrow> quiet a c"
  by (auto simp: quiet_def same_size_def)

lemma quiet_fold: "(\<And>x cv. quiet cv (f x cv)) \<Longrightarrow> quiet cv (fold f xs cv)"
  by (induction xs arbitrary: cv) (auto simp: quiet_refl intro: quiet_trans)

lemma evict_row_quiet: "quiet cv (evict_row lay b row cv)"
  by (simp add: quiet_def evict_row_def Let_def canvas_ok_def same_size_def release_cells_ok)

lemma release_row_quiet: "quiet cv (release_row row cv)"
  by (simp add: quiet_def release_row_def canvas_ok_def same_size_def release_cells_ok)

lemma seal_screen_row_quiet: "quiet cv (seal_screen_row lay row cv)"
  by (simp add: quiet_def seal_screen_row_def canvas_ok_def same_size_def)

lemma quiet_loops:
  "quiet cv (fold (evict_row lay b) rs cv)" "quiet cv (fold release_row rs cv)"
  "quiet cv (fold (seal_screen_row lay) rs cv)"
  by (intro quiet_fold evict_row_quiet release_row_quiet seal_screen_row_quiet)+

text \<open>A change confined to a band of rows.\<close>

definition band :: "nat \<Rightarrow> nat \<Rightarrow> canvas \<Rightarrow> canvas \<Rightarrow> bool" where
  "band r1 r2 cv cv' \<longleftrightarrow> canvas_ok cv' \<and> same_size (scr cv) (scr cv') \<and>
     changed_rows (scr cv) (scr cv') \<subseteq> {r1..r2} \<and> scursor (scr cv') = scursor (scr cv)"

lemma band_trans: "band r1 r2 a b \<Longrightarrow> band r1 r2 b c \<Longrightarrow> band r1 r2 a c"
  using changed_rows_trans [of "scr a" "scr b" "scr c"]
  by (force simp: band_def intro: same_size_trans)

lemma quiet_band: "quiet a b \<Longrightarrow> canvas_ok a \<Longrightarrow> band r1 r2 a b"
  by (simp add: quiet_def band_def)

lemma band_op: "band r1 r2 cv cv' \<Longrightarrow> r1 \<le> r2 \<Longrightarrow> r2 < srows (scr cv) \<Longrightarrow> op_ok cv (cv', Inr (mutation_rows r1 r2))"
  by (auto simp: band_def op_ok_def step_ok_def canvas_ok_def)

lemma fill_rows_ok:
  assumes ok: "screen_ok s" and r: "r1 \<le> r2" "r2 < srows s"
    and a: "r1 * scols s \<le> a" "a \<le> b" "b \<le> r2 * scols s + scols s" and c: "cell_ok c"
  shows "screen_ok (s\<lparr>cells := fill_range a b c (cells s)\<rparr>) \<and>
    changed_rows s (s\<lparr>cells := fill_range a b c (cells s)\<rparr>) \<subseteq> {r1..r2}"
proof -
  have len: "b \<le> length (cells s)"
    using a(3) row_end [OF r(2), of "scols s"] screen_okD(5) [OF ok] by linarith
  have "screen_ok (s\<lparr>cells := fill_range a b c (cells s)\<rparr>)"
    using ok len a(2) c all_fill [of "cells s" cell_ok c a b] by (simp add: screen_ok_def slice_simps)
  moreover have "changed_rows s (s\<lparr>cells := fill_range a b c (cells s)\<rparr>) \<subseteq> {r1..r2}"
  proof (rule changed_rowsI)
    fix j assume j: "j < srows s * scols s" "j div scols s \<notin> {r1..r2}"
    have "\<not> (a \<le> j \<and> j < b)"
    proof
      assume "a \<le> j \<and> j < b"
      then have "r1 * scols s \<le> j" "j < r2 * scols s + scols s" using a by linarith+
      from div_in_rows [OF this] j(2) show False by simp
    qed
    then show "cells (s\<lparr>cells := fill_range a b c (cells s)\<rparr>) ! j = cells s ! j"
      using j len a(2) screen_okD(5) [OF ok] by (auto simp: nth_fill_range)
  qed
  ultimately show ?thesis by blast
qed

lemma anchors_ok:
  "screen_ok s \<Longrightarrow> length as = length (cell_anchors s) \<Longrightarrow> screen_ok (s\<lparr>cell_anchors := as\<rparr>)"
  by (simp add: screen_ok_def)

lemma rows_meta_ok:
  "screen_ok s \<Longrightarrow> length is = length (line_ids s) \<Longrightarrow> length bs = length (row_breaks s) \<Longrightarrow>
     screen_ok (s\<lparr>line_ids := is, row_breaks := bs\<rparr>)"
  by (simp add: screen_ok_def)

lemma changed_rows_cells_cong:
  "cells s' = cells s'' \<Longrightarrow> changed_rows s s' = changed_rows s s''"
  by (simp add: changed_rows_def)

lemma blank_row_ok:
  assumes ok: "screen_ok s" and r: "row < srows s"
  shows "screen_ok (blank_row row s) \<and> same_size s (blank_row row s) \<and>
    changed_rows s (blank_row row s) \<subseteq> {row..row} \<and> scursor (blank_row row s) = scursor s"
proof -
  let ?a = "row * scols s" and ?b = "row * scols s + scols s"
  let ?s1 = "s\<lparr>cells := fill_range ?a ?b (blank (bg (pen s))) (cells s)\<rparr>"
  have s1: "screen_ok ?s1 \<and> changed_rows s ?s1 \<subseteq> {row..row}"
    by (rule fill_rows_ok [OF ok _ r]) simp_all
  have eq: "blank_row row s = ?s1\<lparr>cell_anchors := fill_range ?a ?b None (cell_anchors s)\<rparr>"
    by (simp add: blank_row_def)
  have "length (fill_range ?a ?b None (cell_anchors s)) = length (cell_anchors ?s1)"
    using row_end [OF r, of "scols s"] screen_okD(6) [OF ok] by (simp add: slice_simps)
  then have "screen_ok (blank_row row s)" unfolding eq using s1 anchors_ok by blast
  then show ?thesis using s1 changed_rows_cells_cong [of "blank_row row s" ?s1 s]
    by (simp add: blank_row_def same_size_def)
qed

lemma renew_row_band:
  assumes ok: "canvas_ok cv" and r: "row < srows (scr cv)"
  shows "band row row cv (fst (renew_row rel row cv))"
proof -
  define cv1 where "cv1 = (if rel then release_row row cv else cv)"
  have q: "quiet cv cv1" using release_row_quiet quiet_refl by (simp add: cv1_def)
  define cv2 where "cv2 = cv1\<lparr>scr := blank_row row (scr cv1)\<rparr>"
  have ok1: "canvas_ok cv1" and r1: "row < srows (scr cv1)"
    using q ok r by (simp_all add: quiet_def same_size_def)
  have b: "band row row cv1 cv2"
    using blank_row_ok [OF _ r1] ok1 by (simp add: band_def cv2_def canvas_ok_def)
  have ok2: "screen_ok (scr cv2)" "store_ok (payloads cv2)" using b by (simp_all add: band_def canvas_ok_def)
  have ids: "allocator_ok (fst (allocate (alloc cv2)))"
    using b allocate_ok by (simp add: band_def canvas_ok_def)
  have eq: "renew_row rel row cv = (case allocate (alloc cv2) of
      (ids, Inl e) \<Rightarrow> (cv2\<lparr>alloc := ids\<rparr>, Inl e)
    | (ids, Inr i) \<Rightarrow> (cv2\<lparr>alloc := ids, scr := (scr cv2)\<lparr>line_ids := (line_ids (scr cv2))[row := i],
        row_breaks := (row_breaks (scr cv2))[row := Some HardBreak]\<rparr>\<rparr>, Inr ()))"
    by (simp only: renew_row_def Let_def cv1_def cv2_def)
  have "band row row cv2 (fst (renew_row rel row cv))"
    using ids ok2 unfolding eq
    by (cases "allocate (alloc cv2)"; cases "snd (allocate (alloc cv2))")
      (simp_all add: band_def canvas_ok_def same_size_def rows_meta_ok)
  then show ?thesis using band_trans [OF band_trans [OF quiet_band [OF q ok] b]] by blast
qed

lemma band_widen: "band r r cv cv' \<Longrightarrow> r1 \<le> r \<Longrightarrow> r \<le> r2 \<Longrightarrow> band r1 r2 cv cv'"
  by (auto simp: band_def)

lemma renew_rows_band:
  "canvas_ok cv \<Longrightarrow> \<forall>r \<in> set rows. r1 \<le> r \<and> r \<le> r2 \<Longrightarrow> r2 < srows (scr cv) \<Longrightarrow>
     band r1 r2 cv (fst (renew_rows rel rows cv))"
proof (induction rows arbitrary: cv)
  case Nil
  then show ?case using quiet_band [OF quiet_refl] by simp
next
  case (Cons row rows)
  have b: "band r1 r2 cv (fst (renew_row rel row cv))"
    using band_widen [OF renew_row_band [OF Cons.prems(1)]] Cons.prems by auto
  show ?case
  proof (cases "snd (renew_row rel row cv)")
    case (Inl e)
    then show ?thesis using b by (cases "renew_row rel row cv") (simp add: bind_res_def)
  next
    case (Inr x)
    have "band r1 r2 (fst (renew_row rel row cv)) (fst (renew_rows rel rows (fst (renew_row rel row cv))))"
      using b Cons.prems by (intro Cons.IH) (auto simp: band_def same_size_def)
    then show ?thesis using band_trans [OF b] Inr
      by (cases "renew_row rel row cv") (simp add: bind_res_def)
  qed
qed

lemma copy_rows_ok:
  assumes ok: "screen_ok s" and r: "src + keep \<le> Suc r2" "dst + keep \<le> Suc r2" "r1 \<le> dst" "r2 < srows s"
  shows "screen_ok (move_rows src dst keep s) \<and> same_size s (move_rows src dst keep s) \<and>
    changed_rows s (move_rows src dst keep s) \<subseteq> {r1..r2} \<and> scursor (move_rows src dst keep s) = scursor s"
proof (cases "keep > 0")
  case True
  let ?C = "scols s"
  let ?cs = "copy_within (src * ?C) (src * ?C + keep * ?C) (dst * ?C) (cells s)"
  have le: "x + keep \<le> srows s \<Longrightarrow> x * ?C + keep * ?C \<le> srows s * ?C" for x
    by (metis add_mult_distrib mult_le_mono1)
  have b: "src * ?C + keep * ?C \<le> srows s * ?C" "dst * ?C + keep * ?C \<le> srows s * ?C"
    using r by (auto intro!: le)
  have "screen_ok (move_rows src dst keep s)"
    using ok b r all_copy [of "cells s" cell_ok] True
    by (simp add: screen_ok_def move_rows_def slice_simps)
  moreover have "changed_rows s (move_rows src dst keep s) \<subseteq> {r1..r2}"
  proof (rule changed_rowsI)
    fix j assume j: "j < srows s * ?C" "j div ?C \<notin> {r1..r2}"
    have "\<not> (dst * ?C \<le> j \<and> j < dst * ?C + keep * ?C)"
    proof
      assume a: "dst * ?C \<le> j \<and> j < dst * ?C + keep * ?C"
      have "dst * ?C + keep * ?C \<le> Suc r2 * ?C" by (metis add_mult_distrib mult_le_mono1 r(2))
      then have "j < r2 * ?C + ?C" using a by simp
      moreover have "r1 * ?C \<le> j" using a r(3) by (meson le_trans mult_le_mono1)
      ultimately show False using div_in_rows [of r1 ?C j r2] j(2) by simp
    qed
    then show "cells (move_rows src dst keep s) ! j = cells s ! j"
      using j b screen_okD(5) [OF ok] True by (auto simp: move_rows_def nth_copy_within)
  qed
  ultimately show ?thesis by (simp add: move_rows_def same_size_def)
qed (simp add: move_rows_def ok)

lemma move_rows_band:
  assumes "canvas_ok cv" "src + keep \<le> Suc r2" "dst + keep \<le> Suc r2" "r1 \<le> dst" "r2 < srows (scr cv)"
  shows "band r1 r2 cv (cv\<lparr>scr := move_rows src dst keep (scr cv)\<rparr>)"
  using copy_rows_ok [of "scr cv" src keep r2 dst r1] assms by (simp add: band_def canvas_ok_def)

lemma shift_ok:
  assumes ok: "canvas_ok cv" and r: "r1 \<le> r2" "r2 < srows (scr cv)" and q: "quiet cv cv1"
    and m: "src + keep \<le> Suc r2" "dst + keep \<le> Suc r2" "r1 \<le> dst"
    and rows: "\<forall>r \<in> set rows. r1 \<le> r \<and> r \<le> r2"
  shows "op_ok cv (bind_res (renew_rows rel rows (cv1\<lparr>scr := move_rows src dst keep (scr cv1)\<rparr>))
    (\<lambda>cv' _. (cv', Inr (mutation_rows r1 r2))))"
proof -
  let ?cv2 = "cv1\<lparr>scr := move_rows src dst keep (scr cv1)\<rparr>"
  have ok1: "canvas_ok cv1" and n1: "srows (scr cv1) = srows (scr cv)"
    using q ok by (simp_all add: quiet_def same_size_def)
  have b1: "band r1 r2 cv1 ?cv2" using move_rows_band [OF ok1 m] r n1 by simp
  have n2: "srows (scr ?cv2) = srows (scr cv)" using b1 n1 by (simp add: band_def same_size_def)
  have ok2: "canvas_ok ?cv2" using b1 by (simp add: band_def)
  have b2: "band r1 r2 ?cv2 (fst (renew_rows rel rows ?cv2))"
    using renew_rows_band [OF ok2 rows] r(2) n2 by simp
  have b: "band r1 r2 cv (fst (renew_rows rel rows ?cv2))"
    using band_trans [OF band_trans [OF quiet_band [OF q ok] b1] b2] .
  show ?thesis
  proof (cases "renew_rows rel rows ?cv2")
    case (Pair cv' x)
    then have b': "band r1 r2 cv cv'" using b by simp
    show ?thesis using band_op [OF b' r] Pair b'
      by (cases x) (auto simp: bind_res_def op_ok_def band_def)
  qed
qed

lemma op_ok_none: "canvas_ok cv \<Longrightarrow> op_ok cv (cv, Inr mutation_none)"
  by (simp add: op_ok_def step_ok_none canvas_ok_def)

lemma shift_region_rows_up_ok:
  assumes "canvas_ok cv" "r1 \<le> r2" "r2 < srows (scr cv)"
  shows "op_ok cv (shift_region_rows_up lay r1 r2 n brk cv)"
proof (cases "n = 0 \<or> n > r2 - r1 + 1")
  case True
  then show ?thesis using op_ok_none [OF assms(1)] by (auto simp: shift_region_rows_up_def)
next
  case False
  let ?cv1 = "if retain_history (scr cv) \<and> region_is_full_screen (scr cv) \<and> r1 = 0
    then fold (evict_row lay brk) [r1..<r1 + n] cv else fold release_row [r1..<r1 + n] cv"
  have "quiet cv ?cv1" using quiet_loops by simp
  from shift_ok [OF assms this, of "r1 + n" "r2 - r1 + 1 - n" r1 "[r2 + 1 - n..<r2 + 1]" True]
  show ?thesis using False assms(2) by (simp add: shift_region_rows_up_def Let_def del: upt_Suc) force
qed

lemma shift_region_rows_down_ok:
  assumes "canvas_ok cv" "r1 \<le> r2" "r2 < srows (scr cv)"
  shows "op_ok cv (shift_region_rows_down r1 r2 n cv)"
proof (cases "n = 0 \<or> n > r2 - r1 + 1")
  case True
  then show ?thesis using op_ok_none [OF assms(1)] by (auto simp: shift_region_rows_down_def)
next
  case False
  have "quiet cv (fold release_row [r2 + 1 - n..<r2 + 1] cv)" using quiet_loops by blast
  from shift_ok [OF assms this, of r1 "r2 - r1 + 1 - n" "r1 + n" "[r1..<r1 + n]" False]
  show ?thesis using False assms(2) by (simp add: shift_region_rows_down_def Let_def del: upt_Suc) force
qed

section \<open>Every operation meets its contract\<close>

lemma op_ok_prefix:
  assumes "canvas_ok cv1" "same_size (scr cv) (scr cv1)" "cells (scr cv1) = cells (scr cv)" "op_ok cv1 r"
  shows "op_ok cv r"
  using assms by (auto simp: op_ok_def step_ok_def same_size_def changed_rows_def)

lemma op_ok_cursor:
  assumes "op_ok cv (cv', Inr m)" "cur_col c < scols (scr cv)" "cur_row c < srows (scr cv)"
  shows "op_ok cv (cv'\<lparr>scr := (scr cv')\<lparr>scursor := c\<rparr>\<rparr>, Inr m)"
  using assms by (auto simp: op_ok_def step_ok_def same_size_def changed_rows_def canvas_ok_def screen_ok_def)

lemma op_ok_lift:
  "canvas_ok cv \<Longrightarrow> step_ok (scr cv) s' m \<Longrightarrow> op_ok cv (cv\<lparr>scr := s'\<rparr>, Inr m)"
  by (auto simp: op_ok_def step_ok_def canvas_ok_def)

lemma no_pending_ok:
  "canvas_ok (no_pending cv) = canvas_ok cv" "same_size (scr cv) (scr (no_pending cv))"
  "cells (scr (no_pending cv)) = cells (scr cv)" "srows (scr (no_pending cv)) = srows (scr cv)"
  "scols (scr (no_pending cv)) = scols (scr cv)" "crow (scr (no_pending cv)) = crow (scr cv)"
  "ccol (scr (no_pending cv)) = ccol (scr cv)" "scroll_top (scr (no_pending cv)) = scroll_top (scr cv)"
  "scroll_bottom (scr (no_pending cv)) = scroll_bottom (scr cv)" "pen (scr (no_pending cv)) = pen (scr cv)"
  "payloads (no_pending cv) = payloads cv" "alloc (no_pending cv) = alloc cv"
  "cell_anchors (scr (no_pending cv)) = cell_anchors (scr cv)"
  by (simp_all add: no_pending_def canvas_ok_def same_size_def set_pending_wrap_def screen_ok_def)

lemma op_ok_no_pending: "canvas_ok cv \<Longrightarrow> op_ok (no_pending cv) r \<Longrightarrow> op_ok cv r"
  using op_ok_prefix [of "no_pending cv" cv r] by (simp add: no_pending_ok)

lemma canvas_region:
  assumes "canvas_ok cv"
  shows "scroll_top (scr cv) \<le> scroll_bottom (scr cv)" "scroll_bottom (scr cv) < srows (scr cv)"
    "crow (scr cv) < srows (scr cv)" "ccol (scr cv) < scols (scr cv)"
  using assms by (simp_all add: canvas_ok_def screen_ok_def)

lemma scroll_up_ok: "canvas_ok cv \<Longrightarrow> op_ok cv (scroll_up lay n brk cv)"
  using canvas_region [of cv] by (simp add: scroll_up_def Let_def op_ok_none shift_region_rows_up_ok)

lemma scroll_down_ok: "canvas_ok cv \<Longrightarrow> op_ok cv (scroll_down n cv)"
  using canvas_region [of cv] by (simp add: scroll_down_def Let_def op_ok_none shift_region_rows_down_ok)

lemma insert_lines_ok:
  assumes "canvas_ok cv"
  shows "op_ok cv (insert_lines n cv)"
proof -
  have "op_ok cv (shift_region_rows_down (crow (scr cv)) (scroll_bottom (scr cv)) k (no_pending cv))"
    if "crow (scr cv) \<le> scroll_bottom (scr cv)" for k
    using that assms canvas_region [OF assms]
    by (intro op_ok_no_pending [OF assms] shift_region_rows_down_ok) (simp_all add: no_pending_ok)
  then show ?thesis by (simp add: insert_lines_def Let_def op_ok_none assms)
qed

lemma delete_lines_ok:
  assumes "canvas_ok cv"
  shows "op_ok cv (delete_lines lay n cv)"
proof -
  have "op_ok cv (shift_region_rows_up lay (crow (scr cv)) (scroll_bottom (scr cv)) k HardBreak (no_pending cv))"
    if "crow (scr cv) \<le> scroll_bottom (scr cv)" for k
    using that assms canvas_region [OF assms]
    by (intro op_ok_no_pending [OF assms] shift_region_rows_up_ok) (simp_all add: no_pending_ok)
  then show ?thesis by (simp add: delete_lines_def Let_def op_ok_none assms)
qed

lemma row_moved_ok:
  assumes "canvas_ok cv" "r' < srows (scr cv)"
  shows "op_ok cv (cv\<lparr>scr := (scr cv)\<lparr>scursor := (scursor (scr cv))\<lparr>cur_row := r'\<rparr>\<rparr>\<rparr>,
    Inr (mutation_rows (crow (scr cv)) r'))"
proof -
  have "op_ok cv (cv, Inr (mutation_rows (crow (scr cv)) r'))"
    using assms canvas_region [OF assms(1)] by (auto simp: op_ok_def canvas_ok_def intro!: step_ok_cells)
  from op_ok_cursor [OF this] show ?thesis using assms canvas_region [OF assms(1)] by simp
qed

lemma row_same_ok: "canvas_ok cv \<Longrightarrow> r < srows (scr cv) \<Longrightarrow> op_ok cv (cv, Inr (mutation_row r))"
  by (auto simp: op_ok_def canvas_ok_def intro!: step_ok_cells)

lemma line_feed_ok:
  assumes "canvas_ok cv"
  shows "op_ok cv (line_feed lay brk cv)"
proof -
  define s1 where "s1 = (scr (no_pending cv))\<lparr>row_breaks := (row_breaks (scr (no_pending cv)))[crow (scr cv) := Some brk]\<rparr>"
  define s2 where "s2 = s1\<lparr>source_breaks := (source_breaks s1)(current_source_line_id s1 (crow (scr cv)) \<mapsto> brk)\<rparr>"
  define cv2 where "cv2 = (no_pending cv)\<lparr>scr := s2\<rparr>"
  have ok2: "canvas_ok cv2" using assms
    by (simp add: cv2_def s2_def s1_def canvas_ok_def screen_ok_def no_pending_def set_pending_wrap_def)
  have same: "same_size (scr cv) (scr cv2)" "cells (scr cv2) = cells (scr cv)" "crow (scr cv2) = crow (scr cv)"
    by (simp_all add: cv2_def s2_def s1_def no_pending_def set_pending_wrap_def same_size_def)
  have "line_feed lay brk cv =
    (if crow (scr cv2) = scroll_bottom (scr cv2) then scroll_up lay 1 brk cv2
     else if crow (scr cv2) < srows (scr cv2) - 1 then
       (cv2\<lparr>scr := (scr cv2)\<lparr>scursor := (scursor (scr cv2))\<lparr>cur_row := crow (scr cv2) + 1\<rparr>\<rparr>\<rparr>,
        Inr (mutation_rows (crow (scr cv2)) (crow (scr cv2) + 1)))
     else (cv2, Inr (mutation_row (crow (scr cv2)))))"
    by (simp add: line_feed_def Let_def cv2_def s2_def s1_def no_pending_ok)
  moreover have "op_ok cv2 (scroll_up lay 1 brk cv2)" by (rule scroll_up_ok [OF ok2])
  moreover have "op_ok cv2 (cv2, Inr (mutation_row (crow (scr cv2))))"
    using row_same_ok [OF ok2] canvas_region [OF ok2] by blast
  ultimately have "op_ok cv2 (line_feed lay brk cv)"
    using row_moved_ok [OF ok2, of "crow (scr cv2) + 1"] by simp
  then show ?thesis using op_ok_prefix [OF ok2 same(1,2)] by blast
qed

lemma index_down_ok: "canvas_ok cv \<Longrightarrow> op_ok cv (index_down lay cv)"
  by (simp add: index_down_def line_feed_ok)

lemma reverse_index_ok:
  assumes "canvas_ok cv"
  shows "op_ok cv (reverse_index cv)"
proof -
  let ?cv = "no_pending cv"
  have ok: "canvas_ok ?cv" using assms by (simp add: no_pending_ok)
  have "op_ok ?cv (reverse_index cv)"
    using scroll_down_ok [OF ok, of 1] row_same_ok [OF ok] canvas_region [OF ok]
      row_moved_ok [OF ok, of "crow (scr ?cv) - 1"]
    by (auto simp: reverse_index_def Let_def)
  then show ?thesis by (rule op_ok_no_pending [OF assms])
qed

lemma op_ok_seq:
  assumes "step_ok (scr cv) s1 m" "canvas_ok cv" "op_ok (cv\<lparr>scr := s1\<rparr>) r"
  shows "op_ok cv (bind_res r (\<lambda>cv' m'. (cv', Inr (merge m m'))))"
proof (cases r)
  case (Pair cv' x)
  have "same_size (scr cv) (scr cv')" using assms Pair same_size_trans [of "scr cv" s1 "scr cv'"]
    by (simp add: step_ok_def op_ok_def)
  moreover have "step_ok (scr cv) (scr cv') (merge m m')" if "x = Inr m'" for m'
    using step_ok_trans [OF assms(1)] assms(3) Pair that by (simp add: op_ok_def)
  ultimately show ?thesis using assms(3) Pair
    by (cases x) (auto simp: bind_res_def op_ok_def)
qed

lemma next_line_ok:
  assumes "canvas_ok cv"
  shows "op_ok cv (next_line lay cv)"
proof -
  have s: "step_ok (scr cv) (fst (carriage_return (scr cv))) (snd (carriage_return (scr cv)))"
    using cursor_moves_ok(10) assms by (simp add: canvas_ok_def)
  then have "canvas_ok (cv\<lparr>scr := fst (carriage_return (scr cv))\<rparr>)"
    using assms by (simp add: step_ok_def canvas_ok_def)
  from op_ok_seq [OF s assms index_down_ok [OF this]] show ?thesis
    by (simp add: next_line_def case_prod_beta)
qed

lemma execute_ok: "canvas_ok cv \<Longrightarrow> op_ok cv (execute lay b cv)"
  using cursor_moves_ok(8-10) [of "scr cv"] op_ok_lift [of cv] line_feed_ok [of cv lay HardBreak] op_ok_none [of cv]
  by (auto simp: execute_def Let_def case_prod_beta canvas_ok_def)

subsection \<open>Units\<close>

lemma set_unit_shape [simp]:
  "scols (set_unit i c a s) = scols s" "srows (set_unit i c a s) = srows s" "scursor (set_unit i c a s) = scursor s"
  "pen (set_unit i c a s) = pen s" "line_ids (set_unit i c a s) = line_ids s"
  "cells (set_unit i c a s) = (cells s)[i := c]" "cell_anchors (set_unit i c a s) = (cell_anchors s)[i := a]"
  by (simp_all add: set_unit_def)

lemma update_cell_ok:
  assumes "screen_ok s" "cell_ok c" "col < scols s" "row < srows s" "length as = length (cell_anchors s)"
  shows "step_ok s (s\<lparr>cells := (cells s)[row * scols s + col := c], cell_anchors := as\<rparr>) (mutation_row row)"
proof -
  let ?s' = "s\<lparr>cells := (cells s)[row * scols s + col := c], cell_anchors := as\<rparr>"
  have "changed_rows s ?s' \<subseteq> {row}"
  proof (rule changed_rowsI)
    fix j assume "j < srows s * scols s" "j div scols s \<notin> {row}"
    then have "j \<noteq> row * scols s + col" using assms(3) by auto
    then show "cells ?s' ! j = cells s ! j" by simp
  qed
  moreover have "screen_ok ?s'" using assms all_update [of "cells s" cell_ok c] by (simp add: screen_ok_def)
  ultimately show ?thesis using assms(4) by (simp add: step_ok_def same_size_def)
qed

lemma set_unit_ok:
  "screen_ok s \<Longrightarrow> cell_ok c \<Longrightarrow> col < scols s \<Longrightarrow> row < srows s \<Longrightarrow>
     step_ok s (set_unit (cell_index s col row) c a s) (mutation_row row)"
  using update_cell_ok [of s c col row "(cell_anchors s)[cell_index s col row := a]"]
  by (simp add: set_unit_def cell_index_def)

lemma step_ok_row_trans:
  assumes "step_ok a b (mutation_row r)" "step_ok b c (mutation_row r)"
  shows "step_ok a c (mutation_row r)"
proof -
  have "merge (mutation_row r) (mutation_row r) = mutation_row r" by (simp add: merge_def mutation_row_def)
  then show ?thesis using step_ok_trans [OF assms] by simp
qed

lemma clear_unit_at_ok:
  assumes ok: "canvas_ok cv"
  shows "op_ok cv (fst (clear_unit_at col row cv), Inr (snd (clear_unit_at col row cv)))"
proof (cases "col \<ge> scols (scr cv) \<or> row \<ge> srows (scr cv)")
  case True
  then show ?thesis using op_ok_none [OF ok] by (auto simp: clear_unit_at_def Let_def)
next
  case False
  let ?s = "scr cv"
  define lc where "lc = (if role (cells ?s ! cell_index ?s col row) = Continuation \<and> col > 0 then col - 1 else col)"
  have lc: "lc < scols ?s" using False by (auto simp: lc_def)
  have sok: "screen_ok ?s" using ok by (simp add: canvas_ok_def)
  let ?b = "blank (bg (pen ?s))"
  let ?s1 = "set_unit (cell_index ?s lc row) ?b None ?s"
  have s1: "step_ok ?s ?s1 (mutation_row row)" using set_unit_ok [OF sok] lc False by simp
  have s2: "step_ok ?s (set_unit (cell_index ?s (lc + 1) row) ?b None ?s1) (mutation_row row)" if "lc + 1 < scols ?s"
  proof -
    have "step_ok ?s1 (set_unit (cell_index ?s1 (lc + 1) row) ?b None ?s1) (mutation_row row)"
      using s1 that False by (intro set_unit_ok) (simp_all add: step_ok_def)
    moreover have "cell_index ?s1 (lc + 1) row = cell_index ?s (lc + 1) row" by (simp add: cell_index_def)
    ultimately show ?thesis using step_ok_row_trans [OF s1] by simp
  qed
  have s0: "step_ok ?s (set_unit (cell_index ?s col row) ?b None ?s) (mutation_row row)"
    using set_unit_ok [OF sok] False by simp
  have "op_ok cv (cv\<lparr>scr := s', payloads := release_cell c (payloads cv)\<rparr>, Inr (mutation_row row))"
    "op_ok cv (cv\<lparr>scr := s'\<rparr>, Inr (mutation_row row))"
    if "step_ok ?s s' (mutation_row row)" for s' c
    using that ok release_cell_ok by (auto simp: op_ok_def step_ok_def canvas_ok_def)
  then show ?thesis using False s0 s1 s2 unfolding clear_unit_at_def Let_def lc_def [symmetric] by simp
qed

lemma op_ok_merge:
  assumes "op_ok cv (cv1, Inr m1)" "op_ok cv1 (cv2, Inr m2)"
  shows "op_ok cv (cv2, Inr (merge m1 m2))"
  using assms step_ok_trans [of "scr cv" "scr cv1" m1 "scr cv2" m2]
  by (auto simp: op_ok_def step_ok_def)

lemma op_ok_absorb:
  assumes "op_ok cv (cv', Inr m)" "row \<in> mutation_rows_of m" "step_ok (scr cv') s' (mutation_row row)"
    "store_ok st"
  shows "op_ok cv (cv'\<lparr>scr := s', payloads := st\<rparr>, Inr m)"
proof -
  have "changed_rows (scr cv) s' \<subseteq> mutation_rows_of m"
    using changed_rows_trans [of "scr cv" "scr cv'" s'] assms by (auto simp: op_ok_def step_ok_def)
  then show ?thesis using assms same_size_trans [of "scr cv" "scr cv'" s']
    by (auto simp: op_ok_def step_ok_def canvas_ok_def)
qed

lemma op_ok_canvas: "op_ok cv (cv', r) \<Longrightarrow> canvas_ok cv'"
  by (simp add: op_ok_def)

lemma op_ok_size:
  "op_ok cv (cv', r) \<Longrightarrow> scols (scr cv') = scols (scr cv) \<and> srows (scr cv') = srows (scr cv)"
  by (simp add: op_ok_def same_size_def)

lemma canvas_update_eq: "cv'\<lparr>scr := s', payloads := payloads cv'\<rparr> = cv'\<lparr>scr := s'\<rparr>"
  by simp

lemma op_ok_absorb_screen:
  "op_ok cv (cv', Inr m) \<Longrightarrow> row \<in> mutation_rows_of m \<Longrightarrow> step_ok (scr cv') s' (mutation_row row) \<Longrightarrow>
     op_ok cv (cv'\<lparr>scr := s'\<rparr>, Inr m)"
  using op_ok_absorb [of cv cv' m row s' "payloads cv'"] op_ok_canvas [of cv cv' "Inr m"]
  by (simp add: canvas_ok_def)

lemma soft_wrap_ok: "canvas_ok cv \<Longrightarrow> op_ok cv (soft_wrap lay cv)"
  unfolding soft_wrap_def
proof (rule op_ok_bind [OF line_feed_ok])
  fix cv' m assume ok: "canvas_ok cv" and lf: "line_feed lay SoftWrap cv = (cv', Inr m)"
  have "op_ok cv (cv', Inr m)" using line_feed_ok [OF ok, of lay SoftWrap] lf by simp
  from op_ok_cursor [OF this] canvas_region [OF ok] canvas_region [OF op_ok_canvas [OF this]] op_ok_size [OF this]
  show "op_ok cv (cv'\<lparr>scr := (scr cv')\<lparr>scursor := (scursor (scr cv'))\<lparr>cur_col := 0\<rparr>\<rparr>\<rparr>, Inr m)" by simp
qed

lemma advance_cursor_ok:
  "screen_ok s \<Longrightarrow> row < srows s \<Longrightarrow> step_ok s (advance_cursor col w wrap s) (mutation_row row)"
  by (intro step_ok_cells) (auto simp: advance_cursor_def Let_def screen_ok_def same_size_def)

lemma clear_unit_at_row:
  "col < scols (scr cv) \<Longrightarrow> row < srows (scr cv) \<Longrightarrow> snd (clear_unit_at col row cv) = mutation_row row"
  by (simp add: clear_unit_at_def Let_def)

lemma write_unit_ok:
  assumes op: "op_ok cv0 (cv, Inr m0)" and lead: "cell_ok lead"
  obtains cv' m where "write_unit lead wrap m0 wr cv = (cv', Inr (m, wr, ccol (scr cv), crow (scr cv)))" "op_ok cv0 (cv', Inr m)"
proof -
  let ?s = "scr cv"
  let ?col = "ccol ?s" and ?row = "crow ?s"
  let ?i = "cell_index ?s ?col ?row"
  let ?w = "max (cell_width lead) 1"
  have ok: "canvas_ok cv" using op_ok_canvas [OF op] .
  note b = canvas_region [OF ok]
  define cv1 where "cv1 = fst (clear_unit_at ?col ?row cv)"
  have op1: "op_ok cv0 (cv1, Inr (merge m0 (mutation_row ?row)))"
    using op_ok_merge [OF op clear_unit_at_ok [OF ok, of ?col ?row]] clear_unit_at_row [OF b(4,3)] by (simp add: cv1_def)
  define r2 where "r2 = (if ?w \<ge> 2 \<and> ?col + 1 < scols ?s then clear_unit_at (?col + 1) ?row cv1 else (cv1, mutation_none))"
  define cv2 where "cv2 = fst r2"
  define m where "m = merge (merge m0 (mutation_row ?row)) (snd r2)"
  have "op_ok cv1 (cv2, Inr (snd r2))"
    using clear_unit_at_ok op_ok_none op_ok_canvas [OF op1] by (simp add: r2_def cv2_def)
  then have op2: "op_ok cv0 (cv2, Inr m)" using op_ok_merge [OF op1] by (simp add: m_def)
  have row: "?row \<in> mutation_rows_of m"
    using merge_rows [of m0 "mutation_row ?row"] merge_rows [of "merge m0 (mutation_row ?row)" "snd r2"]
    by (auto simp: m_def)
  have size: "scols (scr cv2) = scols ?s" "srows (scr cv2) = srows ?s"
    using op_ok_size [OF op2] op_ok_size [OF op] by simp_all
  have i: "?i = ?row * scols (scr cv2) + ?col" by (simp add: cell_index_def size)
  have ok2: "screen_ok (scr cv2)" "store_ok (payloads cv2)" using op_ok_canvas [OF op2] by (simp_all add: canvas_ok_def)
  define anchor where "anchor = (case cell_anchors ?s ! ?i of Some a \<Rightarrow> a
    | None \<Rightarrow> fresh_anchor ((scr cv2)\<lparr>cells := (cells (scr cv2))[?i := lead]\<rparr>) ?col ?row)"
  let ?put = "\<lambda>c. (scr cv2)\<lparr>cells := (cells (scr cv2))[?i := c], cell_anchors := (cell_anchors (scr cv2))[?i := Some anchor]\<rparr>"
  have put: "step_ok (scr cv2) (?put c) (mutation_row ?row)" if "cell_ok c" for c
    unfolding i using b size that by (intro update_cell_ok ok2) simp_all
  show thesis
  proof (cases "?w \<ge> 2 \<and> ?col + 1 \<ge> scols ?s")
    case True
    let ?cv' = "cv2\<lparr>scr := ?put (blank (bg (pen (scr cv2)))), payloads := release_cell lead (payloads cv2)\<rparr>"
    have "write_unit lead wrap m0 wr cv = (?cv', Inr (m, wr, ?col, ?row))"
      unfolding write_unit_def Let_def case_prod_beta anchor_def m_def cv2_def r2_def cv1_def
      using True clear_unit_at_row [OF b(4,3)] by simp
    moreover have "op_ok cv0 (?cv', Inr m)"
      by (rule op_ok_absorb [OF op2 row put]) (simp_all add: release_cell_ok ok2)
    ultimately show ?thesis using that by blast
  next
    case False
    define s5 where "s5 = (if ?w \<ge> 2 then set_unit (cell_index ?s (?col + 1) ?row) continuation None (?put lead) else ?put lead)"
    have s4: "step_ok (scr cv2) (?put lead) (mutation_row ?row)" by (rule put [OF lead])
    have s5: "step_ok (scr cv2) s5 (mutation_row ?row)"
    proof (cases "?w \<ge> 2")
      case True
      have lt: "?col + 1 < scols ?s" using False True by linarith
      have "step_ok (?put lead) (set_unit (cell_index (?put lead) (?col + 1) ?row) continuation None (?put lead)) (mutation_row ?row)"
        using s4 lt size b by (intro set_unit_ok) (simp_all add: step_ok_def)
      then show ?thesis using step_ok_row_trans [OF s4] True size by (simp add: s5_def cell_index_def)
    qed (use s4 in \<open>simp add: s5_def\<close>)
    have "step_ok s5 (advance_cursor ?col ?w wrap s5) (mutation_row ?row)"
      using s5 b size by (intro advance_cursor_ok) (simp_all add: step_ok_def same_size_def)
    then have adv: "step_ok (scr cv2) (advance_cursor ?col ?w wrap s5) (mutation_row ?row)"
      by (rule step_ok_row_trans [OF s5])
    let ?cv' = "cv2\<lparr>scr := advance_cursor ?col ?w wrap s5\<rparr>"
    have "op_ok cv0 (?cv', Inr m)" by (rule op_ok_absorb_screen [OF op2 row adv])
    moreover have "op_ok ?cv' (?cv', Inr (mutation_row ?row))"
      using row_same_ok [OF op_ok_canvas [OF calculation]] op_ok_size [OF calculation] op_ok_size [OF op] b by simp
    ultimately have "op_ok cv0 (?cv', Inr (merge m (mutation_row ?row)))" by (rule op_ok_merge)
    moreover have "write_unit lead wrap m0 wr cv = (?cv', Inr (merge m (mutation_row ?row), wr, ?col, ?row))"
      unfolding write_unit_def Let_def case_prod_beta s5_def anchor_def m_def cv2_def r2_def cv1_def
      using False clear_unit_at_row [OF b(4,3)] by auto
    ultimately show ?thesis using that by blast
  qed
qed

text \<open>The contract of \<open>place_new_unit\<close>: an operation that also reports where the lead is.\<close>

definition place_ok :: "canvas \<Rightarrow> canvas \<times> (mutation \<times> bool \<times> nat \<times> nat) res \<Rightarrow> bool" where
  "place_ok cv r \<longleftrightarrow> op_ok cv (fst r, map_sum id fst (snd r)) \<and>
     (\<forall>m w col row. snd r = Inr (m, w, col, row) \<longrightarrow> col < scols (scr cv) \<and> row < srows (scr cv))"

lemma write_unit_place_ok:
  assumes "op_ok cv0 (cv, Inr m0)" "cell_ok lead"
  shows "place_ok cv0 (write_unit lead wrap m0 wr cv)"
proof -
  obtain cv' m where "write_unit lead wrap m0 wr cv = (cv', Inr (m, wr, ccol (scr cv), crow (scr cv)))" "op_ok cv0 (cv', Inr m)"
    using write_unit_ok [OF assms] by blast
  then show ?thesis using canvas_region [OF op_ok_canvas [OF assms(1)]] op_ok_size [OF assms(1)]
    by (simp add: place_ok_def)
qed

lemma bind_place_ok:
  assumes "op_ok cv0 (fst r, map_sum id g (snd r))"
    "\<And>cv x. r = (cv, Inr x) \<Longrightarrow> op_ok cv0 (cv, Inr (g x)) \<Longrightarrow> place_ok cv0 (f cv x)"
  shows "place_ok cv0 (bind_res r f)"
proof (cases r)
  case (Pair cv y)
  then show ?thesis using assms by (cases y) (auto simp: bind_res_def place_ok_def op_ok_def)
qed

lemma place_new_unit_ok:
  assumes ok: "canvas_ok cv" and lead: "cell_ok lead"
  shows "place_ok cv (place_new_unit lay lead wrap cv)"
  unfolding place_new_unit_def Let_def
proof (rule bind_place_ok [where g = fst])
  have "op_ok cv (soft_wrap lay cv)" by (rule soft_wrap_ok [OF ok])
  then have "op_ok cv (fst (bind_res (soft_wrap lay cv) (\<lambda>cv m. (cv, Inr (merge mutation_none m, True)))),
      map_sum id fst (snd (bind_res (soft_wrap lay cv) (\<lambda>cv m. (cv, Inr (merge mutation_none m, True))))))"
    by (cases "soft_wrap lay cv"; cases "snd (soft_wrap lay cv)") (simp_all add: bind_res_def)
  moreover have "op_ok cv (no_pending cv, Inr mutation_none)"
    using op_ok_no_pending [OF ok op_ok_none] ok by (simp add: no_pending_ok)
  ultimately show "op_ok cv
     (fst (if pending_wrap (scursor (scr cv)) then
             if wrap then bind_res (soft_wrap lay cv) (\<lambda>cv m. (cv, Inr (merge mutation_none m, True)))
             else (no_pending cv, Inr (mutation_none, False))
           else (cv, Inr (mutation_none, False))),
      map_sum id fst
       (snd (if pending_wrap (scursor (scr cv)) then
             if wrap then bind_res (soft_wrap lay cv) (\<lambda>cv m. (cv, Inr (merge mutation_none m, True)))
             else (no_pending cv, Inr (mutation_none, False))
           else (cv, Inr (mutation_none, False)))))"
    using op_ok_none [OF ok] by simp
next
  fix cv1 :: canvas and x :: "mutation \<times> bool"
  assume op1: "op_ok cv (cv1, Inr (fst x))"
  have ok1: "canvas_ok cv1" by (rule op_ok_canvas [OF op1])
  have wrapped: "place_ok cv (bind_res (soft_wrap lay cv1) (\<lambda>cv' m'. write_unit lead wrap (merge (fst x) m') True cv'))"
  proof (cases "soft_wrap lay cv1")
    case (Pair cv2 y)
    have op2: "op_ok cv1 (cv2, y)" using soft_wrap_ok [OF ok1, of lay] Pair by simp
    show ?thesis
    proof (cases y)
      case (Inl e)
      have "op_ok cv (cv2, Inl e)" using op1 op2 Inl same_size_trans by (auto simp: op_ok_def)
      then show ?thesis using Pair Inl by (simp add: bind_res_def place_ok_def)
    next
      case (Inr m')
      then have "op_ok cv (cv2, Inr (merge (fst x) m'))" using op_ok_merge [OF op1] op2 by simp
      from write_unit_place_ok [OF this lead] show ?thesis using Pair Inr by (simp add: bind_res_def)
    qed
  qed
  have plain: "place_ok cv (cv1, Inr (fst x, snd x, ccol (scr cv1), crow (scr cv1)))"
    using op1 canvas_region [OF ok1] op_ok_size [OF op1] by (simp add: place_ok_def)
  show "place_ok cv ((\<lambda>(m, wrapped).
          if 2 \<le> max (cell_width lead) 1 \<and> scols (scr cv1) \<le> ccol (scr cv1) + 1 \<and>
             (ccol (scr cv1) = scols (scr cv1) - 1 \<or> scols (scr cv1) - 1 < ccol (scr cv1) + 1)
          then if wrap then bind_res (soft_wrap lay cv1) (\<lambda>cv' m'. write_unit lead wrap (merge m m') True cv')
               else (cv1, Inr (m, wrapped, ccol (scr cv1), crow (scr cv1)))
          else write_unit lead wrap m wrapped cv1) x)"
    using wrapped plain write_unit_place_ok [OF op1 lead] by (cases wrap) (simp_all add: case_prod_beta)
qed

lemma replace_active_lead_ok:
  assumes ok: "canvas_ok cv" and lead: "cell_ok lead" and b: "col < scols (scr cv)" "row < srows (scr cv)"
  shows "op_ok cv (fst (replace_active_lead col row lead pw cv), Inr (snd (replace_active_lead col row lead pw cv)))"
proof -
  let ?s = "scr cv"
  let ?ci = "cell_index ?s (col + 1) row" and ?i = "cell_index ?s col row"
  define s1 where "s1 = (if pw \<ge> 2 \<and> col + 1 < scols ?s \<and> role (cells ?s ! ?ci) = Continuation
    then ?s\<lparr>cells := (cells ?s)[?ci := blank (bg (pen ?s))]\<rparr> else ?s)"
  define st where "st = (if role (cells s1 ! ?i) = Lead \<and> store_id (cells s1 ! ?i) \<noteq> store_id lead
    then release_cell (cells s1 ! ?i) (payloads cv) else payloads cv)"
  define cv1 where "cv1 = cv\<lparr>scr := s1\<lparr>cells := (cells s1)[?i := lead]\<rparr>, payloads := st\<rparr>"
  have sok: "screen_ok ?s" using ok by (simp add: canvas_ok_def)
  have upd: "step_ok t (t\<lparr>cells := (cells t)[row * scols t + c := d]\<rparr>) (mutation_row row)"
    if "screen_ok t" "cell_ok d" "c < scols t" "row < srows t" for t c d
    using update_cell_ok [OF that, of "cell_anchors t"] by simp
  have s1: "step_ok ?s s1 (mutation_row row)"
    using upd [OF sok, of _ "col + 1"] b step_ok_cells [OF sok, of ?s "mutation_row row"]
    by (simp add: s1_def cell_index_def)
  have sz: "scols s1 = scols ?s" "srows s1 = srows ?s" using s1 by (simp_all add: step_ok_def same_size_def)
  have "step_ok s1 (scr cv1) (mutation_row row)"
    using upd [of s1 lead col] s1 lead b sz by (simp add: cv1_def cell_index_def step_ok_def)
  then have s2: "step_ok ?s (scr cv1) (mutation_row row)" by (rule step_ok_row_trans [OF s1])
  have op1: "op_ok cv (cv1, Inr (mutation_row row))"
    using s2 ok release_cell_ok by (auto simp: op_ok_def step_ok_def canvas_ok_def cv1_def st_def)
  have ok1: "canvas_ok cv1" by (rule op_ok_canvas [OF op1])
  define cv2 where "cv2 = fst (clear_unit_at (col + 1) row cv1)"
  let ?m = "snd (clear_unit_at (col + 1) row cv1)"
  have rl: "replace_active_lead col row lead pw cv =
    (if cell_width lead \<ge> 2 \<and> col + 1 < scols ?s
     then (cv2\<lparr>scr := set_unit ?ci continuation None (scr cv2)\<rparr>, merge (merge mutation_none ?m) (mutation_row row))
     else (cv1, merge mutation_none (mutation_row row)))"
    by (simp only: replace_active_lead_def Let_def case_prod_beta s1_def st_def cv1_def cv2_def)
  have "op_ok cv (cv2\<lparr>scr := set_unit ?ci continuation None (scr cv2)\<rparr>, Inr (mutation_row row))"
    if lt: "col + 1 < scols ?s"
  proof -
    have m: "?m = mutation_row row" using clear_unit_at_row lt b op_ok_size [OF op1] by simp
    have "merge (mutation_row row) (mutation_row row) = mutation_row row" by (simp add: merge_def mutation_row_def)
    then have op2: "op_ok cv (cv2, Inr (mutation_row row))"
      using op_ok_merge [OF op1 clear_unit_at_ok [OF ok1, of "col + 1" row]] m by (simp add: cv2_def)
    have "step_ok (scr cv2) (set_unit (cell_index (scr cv2) (col + 1) row) continuation None (scr cv2)) (mutation_row row)"
      using op_ok_canvas [OF op2] op_ok_size [OF op2] lt b by (intro set_unit_ok) (simp_all add: canvas_ok_def)
    then show ?thesis using op_ok_absorb_screen [OF op2, of row] op_ok_size [OF op2] by (simp add: cell_index_def)
  qed
  moreover have "merge (mutation_row row) (mutation_row row) = mutation_row row" by (simp add: merge_def mutation_row_def)
  ultimately show ?thesis
    using op1 clear_unit_at_row [of "col + 1" cv1 row] b op_ok_size [OF op1] by (simp add: rl)
qed

subsection \<open>Erasing\<close>

lemma erase_cells_ok:
  assumes ok: "canvas_ok cv" and r: "r1 \<le> r2" "r2 < srows (scr cv)"
    and a: "r1 * scols (scr cv) \<le> a" "a \<le> b" "b \<le> r2 * scols (scr cv) + scols (scr cv)"
  shows "op_ok cv (erase_cells a b cv, Inr (mutation_rows r1 r2))"
proof (rule band_op [OF _ r])
  show "band r1 r2 cv (erase_cells a b cv)"
    using fill_rows_ok [OF _ r a, of "blank (bg (pen (scr cv)))"] ok release_cells_ok
    by (simp add: band_def erase_cells_def canvas_ok_def same_size_def)
qed

lemma erase_line_ok:
  assumes ok: "canvas_ok cv"
  shows "op_ok cv (fst (erase_line mode cv), Inr (snd (erase_line mode cv)))"
proof -
  have "mutation_rows r r = mutation_row r" for r by (simp add: mutation_rows_def mutation_row_def)
  then show ?thesis
    using erase_cells_ok [OF ok, of "crow (scr cv)" "crow (scr cv)"] canvas_region [OF ok] op_ok_none [OF ok]
    by (simp add: erase_line_def Let_def)
qed

lemma anchors_metadata_ok:
  assumes "canvas_ok cv"
  shows "canvas_ok (cv\<lparr>scr := (scr cv)\<lparr>cell_anchors := replicate (length (cell_anchors (scr cv))) None\<rparr>\<rparr>)"
  using assms by (simp add: canvas_ok_def anchors_ok)

lemma allocate_n_length: "allocate_n n a = (a', Inr xs) \<Longrightarrow> length xs = n"
  by (induction n arbitrary: a xs) (auto split: prod.splits sum.splits)

lemma allocate_n_ok: "allocator_ok a \<Longrightarrow> allocator_ok (fst (allocate_n n a))"
proof (induction n arbitrary: a)
  case (Suc n)
  have "allocator_ok (fst (allocate_n n (fst (allocate a))))" using Suc allocate_ok by blast
  then show ?case using allocate_ok [OF Suc.prems]
    by (cases "allocate a"; cases "allocate_n n (fst (allocate a))") (auto split: sum.splits)
qed simp

lemma erase_display_all_ok:
  assumes ok: "canvas_ok cv"
  shows "op_ok cv (erase_display_all lay cv)"
proof -
  define cv1 where "cv1 = (if retain_history (scr cv) then fold (seal_screen_row lay) [0..<srows (scr cv)] cv else cv)"
  have q: "quiet cv cv1" using quiet_loops(3) quiet_refl by (simp add: cv1_def)
  have ok1: "canvas_ok cv1" using q ok by (simp add: quiet_def)
  define cv2 where "cv2 = erase_cells 0 (length (cells (scr cv1))) cv1"
  define cv3 where "cv3 = cv2\<lparr>scr := (scr cv2)\<lparr>cell_anchors := replicate (length (cell_anchors (scr cv2))) None\<rparr>\<rparr>"
  have pos: "0 < srows (scr cv1)" "length (cells (scr cv1)) = srows (scr cv1) * scols (scr cv1)"
    using ok1 by (simp_all add: canvas_ok_def screen_ok_def)
  have "op_ok cv1 (cv2, Inr (mutation_rows 0 (srows (scr cv1) - 1)))"
    using pos erase_cells_ok [OF ok1, of 0 "srows (scr cv1) - 1" 0 "length (cells (scr cv1))"]
    by (cases "srows (scr cv1)") (simp_all add: cv2_def)
  then have op3: "canvas_ok cv3" "same_size (scr cv1) (scr cv3)"
    using anchors_metadata_ok by (simp_all add: op_ok_def cv3_def same_size_def)
  then have same: "same_size (scr cv) (scr cv3)" using q same_size_trans by (auto simp: quiet_def)
  have full: "step_ok (scr cv) s' (mutation_full (srows (scr cv)))" if "screen_ok s'" "same_size (scr cv) s'" for s'
    using that ok by (auto simp: step_ok_def changed_rows_def canvas_ok_def screen_ok_def)
  have meta: "screen_ok (s\<lparr>line_ids := is, row_breaks := replicate (srows s) (Some HardBreak), ed2_remint_frontier := f\<rparr>)"
    if "screen_ok s" "length is = srows s" for s "is" f
    using that by (simp add: screen_ok_def)
  have eq: "erase_display_all lay cv =
    (if \<not> can_allocate (alloc cv3) (srows (scr cv3)) then (cv3, Inl LineIdentityExhausted)
     else case allocate_n (srows (scr cv3)) (alloc cv3) of
       (ids, Inl e) \<Rightarrow> (cv3\<lparr>alloc := ids\<rparr>, Inl e)
     | (ids, Inr new_ids) \<Rightarrow>
         (cv3\<lparr>alloc := ids, scr := (scr cv3)\<lparr>line_ids := new_ids, row_breaks := replicate (srows (scr cv3)) (Some HardBreak),
            ed2_remint_frontier := (case new_ids of [] \<Rightarrow> None | i # _ \<Rightarrow> Some i)\<rparr>\<rparr>, Inr (mutation_full (srows (scr cv3)))))"
    by (simp only: erase_display_all_def Let_def cv1_def cv2_def cv3_def)
  have n: "srows (scr cv3) = srows (scr cv)" using same by (simp add: same_size_def)
  obtain ids r where al: "allocate_n (srows (scr cv3)) (alloc cv3) = (ids, r)" by force
  have ids: "allocator_ok ids" using allocate_n_ok [of "alloc cv3" "srows (scr cv3)"] op3 al by (simp add: canvas_ok_def)
  show ?thesis
  proof (cases r)
    case (Inl e)
    then show ?thesis using eq al op3 same ids by (simp add: op_ok_def canvas_ok_def)
  next
    case (Inr new_ids)
    let ?s' = "(scr cv3)\<lparr>line_ids := new_ids, row_breaks := replicate (srows (scr cv3)) (Some HardBreak),
      ed2_remint_frontier := (case new_ids of [] \<Rightarrow> None | i # _ \<Rightarrow> Some i)\<rparr>"
    have s': "screen_ok ?s'" using op3 allocate_n_length [of _ _ ids new_ids] al Inr
      by (intro meta) (auto simp: canvas_ok_def)
    moreover have "same_size (scr cv) ?s'" using same by (simp add: same_size_def)
    ultimately have "step_ok (scr cv) ?s' (mutation_full (srows (scr cv)))" by (rule full)
    then show ?thesis using eq al Inr op3 same ids s' n by (simp add: op_ok_def canvas_ok_def same_size_def)
  qed
qed

lemma erase_display_ok:
  assumes ok: "canvas_ok cv"
  shows "op_ok cv (erase_display lay mode cv)"
proof -
  let ?s = "scr cv"
  have sok: "screen_ok ?s" using ok by (simp add: canvas_ok_def)
  note b = canvas_region [OF ok]
  have len: "length (cells ?s) = (srows ?s - 1) * scols ?s + scols ?s"
    using screen_okD(2,5) [OF sok] by (cases "srows ?s") simp_all
  have lt: "cell_index ?s (ccol ?s) (crow ?s) < length (cells ?s)"
    using cell_index_less [OF b(3,4)] screen_okD(5) [OF sok] by (simp add: cell_index_def)
  have "op_ok cv (erase_cells (cell_index ?s (ccol ?s) (crow ?s)) (length (cells ?s)) cv, Inr (mutation_rows (crow ?s) (srows ?s - 1)))"
    using b lt len by (intro erase_cells_ok ok) (simp_all add: cell_index_def)
  moreover have "op_ok cv (erase_cells 0 (cell_index ?s (ccol ?s) (crow ?s) + 1) cv, Inr (mutation_rows 0 (crow ?s)))"
    using b by (intro erase_cells_ok ok) (simp_all add: cell_index_def)
  ultimately show ?thesis using erase_display_all_ok [OF ok] op_ok_none [OF ok]
    by (simp add: erase_display_def Let_def)
qed

subsection \<open>Editing inside a row\<close>

lemma sanitize_loop_ok:
  "\<forall>c \<in> set cs. cell_ok c \<Longrightarrow> store_ok st \<Longrightarrow> cell_ok b \<Longrightarrow>
     length (fst (sanitize_loop b col cs st)) = length cs \<and>
     (\<forall>c \<in> set (fst (sanitize_loop b col cs st)). cell_ok c) \<and> store_ok (snd (sanitize_loop b col cs st))"
proof (induction b col cs st rule: sanitize_loop.induct)
  case (1 b col cs st)
  show ?case
    using 1 all_update [of cs cell_ok b col] release_cell_ok [of st "cs ! col"]
    by (subst (1 2 3) sanitize_loop.simps) (simp add: Let_def)
qed

lemma replace_row_ok:
  assumes ok: "screen_ok s" and r: "row < srows s" and l: "length cs = scols s" "\<forall>c \<in> set cs. cell_ok c"
    and a: "length as = length (cell_anchors s)"
  shows "step_ok s (s\<lparr>cells := take (row * scols s) (cells s) @ cs @ drop (row * scols s + scols s) (cells s),
    cell_anchors := as\<rparr>) (mutation_row row)"
proof -
  let ?cs = "take (row * scols s) (cells s) @ cs @ drop (row * scols s + scols s) (cells s)"
  let ?s' = "s\<lparr>cells := ?cs, cell_anchors := as\<rparr>"
  have le: "row * scols s + scols s \<le> length (cells s)" using row_end [OF r] screen_okD(5) [OF ok] by simp
  have "screen_ok ?s'"
    using ok le l a by (auto simp: screen_ok_def dest: in_set_takeD in_set_dropD)
  moreover have "changed_rows s ?s' \<subseteq> {row}"
  proof (rule changed_rowsI)
    fix j assume j: "j < srows s * scols s" "j div scols s \<notin> {row}"
    have "\<not> (row * scols s \<le> j \<and> j < row * scols s + scols s)"
      using div_in_rows [of row "scols s" j row] j(2) by auto
    moreover have "min (length (cells s)) (row * scols s) = row * scols s" "j < length (cells s)"
      using le j(1) screen_okD(5) [OF ok] by simp_all
    ultimately show "cells ?s' ! j = cells s ! j" using le l by (auto simp: nth_append)
  qed
  ultimately show ?thesis using r by (simp add: step_ok_def same_size_def)
qed

lemma row_cells_all_ok: "screen_ok s \<Longrightarrow> \<forall>c \<in> set (row_cells_of s row). cell_ok c"
  using set_slice_subset [of "row * scols s" "row * scols s + scols s" "cells s"] screen_okD(11) [of s] by blast

lemma row_cells_length: "screen_ok s \<Longrightarrow> row < srows s \<Longrightarrow> length (row_cells_of s row) = scols s"
  using row_end [of row "srows s" "scols s"] screen_okD(5) [of s] by (simp add: length_slice)

lemma sanitize_row_ok:
  assumes ok: "canvas_ok cv" and r: "row < srows (scr cv)"
  shows "op_ok cv (sanitize_row row cv, Inr (mutation_row row))"
proof -
  let ?s = "scr cv"
  have sok: "screen_ok ?s" "store_ok (payloads cv)" using ok by (simp_all add: canvas_ok_def)
  let ?r = "sanitize_loop (blank (bg (pen ?s))) 0 (row_cells_of ?s row) (payloads cv)"
  have l: "length (fst ?r) = scols ?s" "\<forall>c \<in> set (fst ?r). cell_ok c" "store_ok (snd ?r)"
    using sanitize_loop_ok [OF row_cells_all_ok [OF sok(1), of row] sok(2), of "blank (bg (pen ?s))" 0]
      row_cells_length [OF sok(1) r] by simp_all
  have "step_ok ?s (scr (sanitize_row row cv)) (mutation_row row)"
    using replace_row_ok [OF sok(1) r l(1,2), of "cell_anchors ?s"] by (simp add: sanitize_row_def Let_def case_prod_beta)
  then show ?thesis using ok l(3)
    by (simp add: op_ok_def canvas_ok_def step_ok_def sanitize_row_def Let_def case_prod_beta)
qed

text \<open>A move inside a row followed by a fill inside the same row.\<close>

lemma shift_in_row_ok:
  assumes ok: "screen_ok s" and r: "row < srows s"
    and m: "row * scols s \<le> d" "x \<le> y" "y \<le> row * scols s + scols s" "d + (y - x) \<le> row * scols s + scols s"
    and f: "row * scols s \<le> a" "a \<le> b" "b \<le> row * scols s + scols s"
  shows "step_ok s (s\<lparr>cells := fill_range a b (blank c) (copy_within x y d (cells s)),
      cell_anchors := fill_range a b None (copy_within x y d (cell_anchors s))\<rparr>) (mutation_row row)"
proof -
  let ?C = "scols s"
  let ?cs = "copy_within x y d (cells s)"
  let ?s' = "s\<lparr>cells := fill_range a b (blank c) ?cs, cell_anchors := fill_range a b None (copy_within x y d (cell_anchors s))\<rparr>"
  have le: "row * ?C + ?C \<le> srows s * ?C" by (rule row_end [OF r])
  have len: "length (cells s) = srows s * ?C" "length (cell_anchors s) = srows s * ?C"
    using screen_okD(5,6) [OF ok] .
  have l: "length ?cs = length (cells s)" "length (copy_within x y d (cell_anchors s)) = length (cell_anchors s)"
    using m le len by (simp_all add: length_copy_within)
  have "screen_ok ?s'"
    using ok m f le len l all_fill [OF all_copy [OF screen_okD(11) [OF ok]], of "blank c"]
    by (simp add: screen_ok_def length_fill_range)
  moreover have "changed_rows s ?s' \<subseteq> {row}"
  proof (rule changed_rowsI)
    fix j assume j: "j < srows s * ?C" "j div ?C \<notin> {row}"
    have out: "\<not> (row * ?C \<le> j \<and> j < row * ?C + ?C)"
      using div_in_rows [of row ?C j row] j(2) by auto
    have "fill_range a b (blank c) ?cs ! j = ?cs ! j"
      using f le len l j out by (subst nth_fill_range) auto
    also have "\<dots> = cells s ! j" using m le len j out by (subst nth_copy_within) auto
    finally show "cells ?s' ! j = cells s ! j" by simp
  qed
  ultimately show ?thesis using r by (simp add: step_ok_def same_size_def)
qed

lemma op_ok_row_then_sanitize:
  assumes ok: "canvas_ok cv" and st: "step_ok (scr cv) s1 (mutation_row row)" and st': "store_ok p" and r: "row < srows (scr cv)"
  shows "op_ok cv (sanitize_row row (cv\<lparr>scr := s1, payloads := p\<rparr>), Inr (mutation_row row))"
proof -
  let ?cv1 = "cv\<lparr>scr := s1, payloads := p\<rparr>"
  have op1: "op_ok cv (?cv1, Inr (mutation_row row))" using ok st st' by (auto simp: op_ok_def step_ok_def canvas_ok_def)
  have "op_ok ?cv1 (sanitize_row row ?cv1, Inr (mutation_row row))"
    using op_ok_canvas [OF op1] op_ok_size [OF op1] r by (intro sanitize_row_ok) simp_all
  from op_ok_merge [OF op1 this] show ?thesis by (simp add: merge_def mutation_row_def)
qed

lemma insert_characters_ok:
  assumes ok: "canvas_ok cv"
  shows "op_ok cv (fst (insert_characters n cv), Inr (snd (insert_characters n cv)))"
proof -
  let ?cv = "no_pending cv" and ?s = "scr (no_pending cv)"
  have ok': "canvas_ok ?cv" using ok by (simp add: no_pending_ok)
  note b = canvas_region [OF ok']
  define k where "k = min (max n 1) (scols ?s - ccol ?s)"
  have k: "0 < k" "k \<le> scols ?s - ccol ?s" using b by (auto simp: k_def)
  let ?st = "crow ?s * scols ?s"
  have eq: "insert_characters n cv = (sanitize_row (crow ?s)
      (?cv\<lparr>scr := ?s\<lparr>cells := fill_range (?st + ccol ?s) (?st + ccol ?s + k) (blank (bg (pen ?s)))
              (copy_within (?st + ccol ?s) (?st + scols ?s - k) (?st + ccol ?s + k) (cells ?s)),
            cell_anchors := fill_range (?st + ccol ?s) (?st + ccol ?s + k) None
              (copy_within (?st + ccol ?s) (?st + scols ?s - k) (?st + ccol ?s + k) (cell_anchors ?s))\<rparr>,
          payloads := release_cells (slice (?st + scols ?s - k) (?st + scols ?s) (cells ?s)) (payloads ?cv)\<rparr>),
      mutation_row (crow ?s))"
    using b k by (auto simp: insert_characters_def Let_def no_pending_ok k_def)
  have "op_ok ?cv (fst (insert_characters n cv), Inr (snd (insert_characters n cv)))"
    unfolding eq fst_conv snd_conv using ok' b k
    by (intro op_ok_row_then_sanitize shift_in_row_ok release_cells_ok) (simp_all add: canvas_ok_def)
  then show ?thesis by (rule op_ok_no_pending [OF ok])
qed

lemma delete_characters_ok:
  assumes ok: "canvas_ok cv"
  shows "op_ok cv (fst (delete_characters n cv), Inr (snd (delete_characters n cv)))"
proof -
  let ?cv = "no_pending cv" and ?s = "scr (no_pending cv)"
  have ok': "canvas_ok ?cv" using ok by (simp add: no_pending_ok)
  note b = canvas_region [OF ok']
  define k where "k = min (max n 1) (scols ?s - ccol ?s)"
  have k: "0 < k" "k \<le> scols ?s - ccol ?s" using b by (auto simp: k_def)
  let ?st = "crow ?s * scols ?s"
  have eq: "delete_characters n cv = (sanitize_row (crow ?s)
      (?cv\<lparr>scr := ?s\<lparr>cells := fill_range (?st + scols ?s - k) (?st + scols ?s) (blank (bg (pen ?s)))
              (copy_within (?st + ccol ?s + k) (?st + scols ?s) (?st + ccol ?s) (cells ?s)),
            cell_anchors := fill_range (?st + scols ?s - k) (?st + scols ?s) None
              (copy_within (?st + ccol ?s + k) (?st + scols ?s) (?st + ccol ?s) (cell_anchors ?s))\<rparr>,
          payloads := release_cells (slice (?st + ccol ?s) (?st + ccol ?s + k) (cells ?s)) (payloads ?cv)\<rparr>),
      mutation_row (crow ?s))"
    using b k by (auto simp: delete_characters_def Let_def no_pending_ok k_def)
  have "op_ok ?cv (fst (delete_characters n cv), Inr (snd (delete_characters n cv)))"
    unfolding eq fst_conv snd_conv using ok' b k
    by (intro op_ok_row_then_sanitize shift_in_row_ok release_cells_ok) (simp_all add: canvas_ok_def)
  then show ?thesis by (rule op_ok_no_pending [OF ok])
qed

lemma clear_units_ok:
  "op_ok cv0 (cv, Inr m) \<Longrightarrow> op_ok cv0 (fst (clear_units cs row (cv, m)), Inr (snd (clear_units cs row (cv, m))))"
proof (induction cs arbitrary: cv m)
  case (Cons c cs)
  have "op_ok cv0 (fst (clear_unit_at c row cv), Inr (merge m (snd (clear_unit_at c row cv))))"
    by (rule op_ok_merge [OF Cons.prems clear_unit_at_ok [OF op_ok_canvas [OF Cons.prems]]])
  from Cons.IH [OF this] show ?case by (simp add: case_prod_beta)
qed simp

lemma erase_characters_ok:
  assumes ok: "canvas_ok cv"
  shows "op_ok cv (fst (erase_characters n cv), Inr (snd (erase_characters n cv)))"
proof -
  have "op_ok cv (no_pending cv, Inr mutation_none)"
    using op_ok_no_pending [OF ok op_ok_none] ok by (simp add: no_pending_ok)
  from clear_units_ok [OF this] show ?thesis using op_ok_none [OF ok] by (simp add: erase_characters_def Let_def)
qed

lemma new_screen_ok:
  assumes "new_screen cols rows ids retain = (ids', Inr s)"
  shows "screen_ok s \<and> scols s = cols \<and> srows s = rows"
  using assms allocate_n_length [of rows ids]
  by (auto simp: new_screen_def bind_res_def screen_ok_def default_cursor_def mult.commute split: if_splits prod.splits sum.splits)

lemma new_screen_alloc_ok: "allocator_ok ids \<Longrightarrow> allocator_ok (fst (new_screen cols rows ids retain))"
  using allocate_n_ok [of ids rows] by (auto simp: new_screen_def bind_res_def split: prod.splits sum.splits)

end
