(* ===== verification/Screen_Units.thy ===== *)
theory Screen_Units
  imports Screen_Ok
begin

text \<open>
  What the editing operations do to the rows of the grid: scrolling moves rows unchanged, wide units
  stay whole, and a row that leaves the screen reaches the history with its text.
\<close>

section \<open>The rows after an operation\<close>

lemma row_cells_eqI:
  assumes "length (cells s) = R * C" "length (cells s') = R * C" "scols s = C" "scols s' = C" "r < R" "q < R"
    "\<And>c. c < C \<Longrightarrow> cells s' ! (r * C + c) = cells s ! (q * C + c)"
  shows "row_cells_of s' r = row_cells_of s q"
proof (rule nth_equalityI)
  show "length (row_cells_of s' r) = length (row_cells_of s q)"
    using assms row_end [of r R C] row_end [of q R C] by (simp add: length_slice)
  fix i assume "i < length (row_cells_of s' r)"
  then have "i < C" using assms row_end [of r R C] by (simp add: length_slice)
  then show "row_cells_of s' r ! i = row_cells_of s q ! i"
    using assms row_end [of r R C] row_end [of q R C] by (simp add: nth_slice)
qed

lemma row_cells_unchanged:
  assumes "screen_ok s" "screen_ok s'" "same_size s s'" "r < srows s" "r \<notin> changed_rows s s'"
  shows "row_cells_of s' r = row_cells_of s r"
proof (rule row_cells_eqI [where R = "srows s" and C = "scols s"])
  show "\<And>c. c < scols s \<Longrightarrow> cells s' ! (r * scols s + c) = cells s ! (r * scols s + c)"
    using assms(4,5) by (auto simp: changed_rows_def)
qed (use assms screen_okD(5) in \<open>auto simp: same_size_def\<close>)

lemma row_cells_cong: "cells s' = cells s \<Longrightarrow> scols s' = scols s \<Longrightarrow> row_cells_of s' r = row_cells_of s r"
  by simp

lemma row_cells_move:
  assumes ok: "screen_ok s" and b: "src + keep \<le> srows s" "dst + keep \<le> srows s" "r < srows s"
  shows "row_cells_of (move_rows src dst keep s) r =
    row_cells_of s (if dst \<le> r \<and> r < dst + keep then src + (r - dst) else r)"
proof (cases "keep > 0")
  case True
  let ?C = "scols s" and ?s' = "move_rows src dst keep s"
  let ?q = "if dst \<le> r \<and> r < dst + keep then src + (r - dst) else r"
  have le: "x + keep \<le> srows s \<Longrightarrow> x * ?C + keep * ?C \<le> srows s * ?C" for x
    by (metis add_mult_distrib mult_le_mono1)
  have cs: "cells ?s' = copy_within (src * ?C) (src * ?C + keep * ?C) (dst * ?C) (cells s)" "scols ?s' = ?C"
    using True by (simp_all add: move_rows_def)
  have len: "length (cells s) = srows s * ?C" by (rule screen_okD(5) [OF ok])
  show ?thesis
  proof (rule row_cells_eqI [where R = "srows s" and C = ?C, OF len _ refl cs(2) b(3)])
    show "length (cells ?s') = srows s * ?C" using le [OF b(1)] le [OF b(2)] len by (simp add: cs length_copy_within)
    show "?q < srows s" using b by auto
    fix c assume c: "c < ?C"
    have lt: "r * ?C + c < srows s * ?C" by (rule cell_index_less [OF b(3) c])
    have iff: "dst * ?C \<le> r * ?C + c \<and> r * ?C + c < dst * ?C + keep * ?C \<longleftrightarrow> dst \<le> r \<and> r < dst + keep"
    proof
      assume a: "dst * ?C \<le> r * ?C + c \<and> r * ?C + c < dst * ?C + keep * ?C"
      have "r * ?C + c < (dst + keep) * ?C" using a by (simp add: add_mult_distrib)
      then have "(r * ?C + c) div ?C < dst + keep" by (rule less_mult_imp_div_less)
      moreover have "dst \<le> (r * ?C + c) div ?C" using a c div_in_rows(1) [of dst ?C "r * ?C + c" r] by simp
      ultimately show "dst \<le> r \<and> r < dst + keep" using c by simp
    next
      assume a: "dst \<le> r \<and> r < dst + keep"
      then have "dst * ?C \<le> r * ?C" "Suc r * ?C \<le> (dst + keep) * ?C" by (simp_all only: mult_le_mono1 Suc_leI)
      moreover have "(dst + keep) * ?C = dst * ?C + keep * ?C" "Suc r * ?C = r * ?C + ?C" by (simp_all add: add_mult_distrib)
      ultimately show "dst * ?C \<le> r * ?C + c \<and> r * ?C + c < dst * ?C + keep * ?C" using c by linarith
    qed
    have sub: "src * ?C + (r * ?C + c - dst * ?C) = (src + (r - dst)) * ?C + c" if "dst \<le> r"
    proof -
      have "dst * ?C \<le> r * ?C" using that by (rule mult_le_mono1)
      moreover have "(src + (r - dst)) * ?C = src * ?C + (r * ?C - dst * ?C)" by (simp add: add_mult_distrib diff_mult_distrib)
      ultimately show ?thesis by linarith
    qed
    show "cells ?s' ! (r * ?C + c) = cells s ! (?q * ?C + c)"
      using lt le [OF b(1)] le [OF b(2)] len iff sub by (simp add: cs nth_copy_within)
  qed
qed (auto simp: move_rows_def)

lemma row_cells_blank:
  assumes ok: "screen_ok s" and b: "row < srows s" "r < srows s"
  shows "row_cells_of (blank_row row s) r =
    (if r = row then replicate (scols s) (blank (bg (pen s))) else row_cells_of s r)"
proof (cases "r = row")
  case True
  let ?C = "scols s"
  have le: "row * ?C + ?C \<le> length (cells s)" using row_end [OF b(1)] screen_okD(5) [OF ok] by simp
  then show ?thesis using True by (simp add: blank_row_def fill_range_def slice_def)
next
  case False
  have "r \<notin> changed_rows s (blank_row row s)" using blank_row_ok [OF ok b(1)] False by auto
  then show ?thesis using row_cells_unchanged [OF ok _ _ b(2)] blank_row_ok [OF ok b(1)] False by simp
qed

text \<open>The closing loop of a shift.\<close>

lemma renew_row_rows:
  assumes ok: "canvas_ok cv" and b: "row < srows (scr cv)" "r < srows (scr cv)"
  shows "row_cells_of (scr (fst (renew_row rel row cv))) r =
      (if r = row then replicate (scols (scr cv)) (blank (bg (pen (scr cv)))) else row_cells_of (scr cv) r) \<and>
    pen (scr (fst (renew_row rel row cv))) = pen (scr cv)"
proof -
  have "cells (scr (fst (renew_row rel row cv))) = cells (blank_row row (scr cv))"
    "scols (scr (fst (renew_row rel row cv))) = scols (scr cv)"
    "pen (scr (fst (renew_row rel row cv))) = pen (scr cv)"
    by (simp_all add: renew_row_def Let_def release_row_def blank_row_def split: prod.splits sum.splits)
  moreover have "scols (blank_row row (scr cv)) = scols (scr cv)" by (simp add: blank_row_def)
  ultimately show ?thesis using row_cells_blank [OF _ b] ok by (simp add: canvas_ok_def)
qed

lemma renew_rows_rows:
  assumes "canvas_ok cv" "\<forall>q \<in> set rows. q < srows (scr cv)" "r < srows (scr cv)"
    "renew_rows rel rows cv = (cv', Inr u)"
  shows "row_cells_of (scr cv') r =
    (if r \<in> set rows then replicate (scols (scr cv)) (blank (bg (pen (scr cv)))) else row_cells_of (scr cv) r)"
  using assms
proof (induction rows arbitrary: cv)
  case (Cons row rows)
  obtain cv1 where r1: "renew_row rel row cv = (cv1, Inr ())"
    using Cons.prems(4) by (auto simp: bind_res_def split: prod.splits sum.splits)
  have b: "band row row cv cv1" using renew_row_band [OF Cons.prems(1), of row rel] Cons.prems r1 by simp
  have sz: "srows (scr cv1) = srows (scr cv)" "scols (scr cv1) = scols (scr cv)" "canvas_ok cv1"
    using b by (simp_all add: band_def same_size_def)
  have rest: "renew_rows rel rows cv1 = (cv', Inr u)" using Cons.prems(4) r1 by (simp add: bind_res_def)
  have row: "row < srows (scr cv)" using Cons.prems(2) by simp
  have eq: "row_cells_of (scr cv1) r =
      (if r = row then replicate (scols (scr cv)) (blank (bg (pen (scr cv)))) else row_cells_of (scr cv) r)"
    "pen (scr cv1) = pen (scr cv)"
    using renew_row_rows [OF Cons.prems(1) row Cons.prems(3), of rel] r1 by simp_all
  have "row_cells_of (scr cv') r =
    (if r \<in> set rows then replicate (scols (scr cv1)) (blank (bg (pen (scr cv1)))) else row_cells_of (scr cv1) r)"
    using Cons.IH [OF sz(3) _ _ rest] Cons.prems(2,3) sz(1) by simp
  then show ?case using eq sz by auto
qed simp

lemma quiet_pen_loops:
  "pen (scr (fold (evict_row lay b) rs cv)) = pen (scr cv)" "pen (scr (fold release_row rs cv)) = pen (scr cv)"
  by (induction rs arbitrary: cv) (simp_all add: evict_row_def release_row_def Let_def)

lemma shift_up_rows:
  assumes ok: "canvas_ok cv" and b: "upper \<le> lower" "lower < srows (scr cv)" "0 < n" "n \<le> lower - upper + 1" "r < srows (scr cv)"
    and res: "shift_region_rows_up lay upper lower n brk cv = (cv', Inr m)"
  shows "row_cells_of (scr cv') r =
    (if lower + 1 - n \<le> r \<and> r \<le> lower then replicate (scols (scr cv)) (blank (bg (pen (scr cv))))
     else row_cells_of (scr cv) (if upper \<le> r \<and> r \<le> lower then r + n else r))"
proof -
  define cv1 where "cv1 = (if retain_history (scr cv) \<and> region_is_full_screen (scr cv) \<and> upper = 0
    then fold (evict_row lay brk) [upper..<upper + n] cv else fold release_row [upper..<upper + n] cv)"
  define cv2 where "cv2 = cv1\<lparr>scr := move_rows (upper + n) upper (lower - upper + 1 - n) (scr cv1)\<rparr>"
  have q: "quiet cv cv1" using quiet_loops by (simp add: cv1_def)
  have p1: "pen (scr cv1) = pen (scr cv)" by (simp add: cv1_def quiet_pen_loops)
  have ok1: "canvas_ok cv1" and sz1: "scols (scr cv1) = scols (scr cv)" "srows (scr cv1) = srows (scr cv)"
    and cs1: "cells (scr cv1) = cells (scr cv)"
    using q ok by (simp_all add: quiet_def same_size_def)
  have "band 0 (srows (scr cv) - 1) cv1 cv2" unfolding cv2_def
    using b sz1 by (intro move_rows_band ok1) auto
  then have ok2: "canvas_ok cv2" and sz2: "scols (scr cv2) = scols (scr cv)" "srows (scr cv2) = srows (scr cv)"
    using sz1 by (simp_all add: band_def same_size_def)
  have p2: "pen (scr cv2) = pen (scr cv)" using p1 by (simp add: cv2_def move_rows_def)
  have eq: "shift_region_rows_up lay upper lower n brk cv =
    bind_res (renew_rows True [lower + 1 - n..<lower + 1] cv2) (\<lambda>cv' _. (cv', Inr (mutation_rows upper lower)))"
    using b(3,4) by (simp add: shift_region_rows_up_def Let_def cv1_def cv2_def del: upt_Suc)
  obtain u where rn: "renew_rows True [lower + 1 - n..<lower + 1] cv2 = (cv', Inr u)"
    using res unfolding eq by (auto simp: bind_res_def split: prod.splits sum.splits)
  have "row_cells_of (scr cv') r = (if r \<in> set [lower + 1 - n..<lower + 1]
      then replicate (scols (scr cv2)) (blank (bg (pen (scr cv2)))) else row_cells_of (scr cv2) r)"
    using b sz2 by (intro renew_rows_rows [OF ok2 _ _ rn]) auto
  moreover have "row_cells_of (scr cv2) r =
    row_cells_of (scr cv1) (if upper \<le> r \<and> r < upper + (lower - upper + 1 - n) then upper + n + (r - upper) else r)"
    unfolding cv2_def using b sz1 ok1 row_cells_move [of "scr cv1" "upper + n" "lower - upper + 1 - n" upper r]
    by (simp add: canvas_ok_def)
  moreover have "row_cells_of (scr cv1) x = row_cells_of (scr cv) x" for x using cs1 sz1 by simp
  moreover have "lower + 1 - n \<le> r \<and> r \<le> lower \<longleftrightarrow> r \<in> set [lower + 1 - n..<lower + 1]" by auto
  moreover have "upper \<le> r \<and> r < upper + (lower - upper + 1 - n) \<longleftrightarrow> upper \<le> r \<and> r \<le> lower \<and> \<not> (lower + 1 - n \<le> r \<and> r \<le> lower)"
    using b by auto
  moreover have "upper + n + (r - upper) = r + n" if "upper \<le> r" using that by simp
  ultimately show ?thesis using p2 sz2 by (auto simp: add.commute [of n] simp del: upt_Suc)
qed

lemma shift_down_rows:
  assumes ok: "canvas_ok cv" and b: "upper \<le> lower" "lower < srows (scr cv)" "0 < n" "n \<le> lower - upper + 1" "r < srows (scr cv)"
    and res: "shift_region_rows_down upper lower n cv = (cv', Inr m)"
  shows "row_cells_of (scr cv') r =
    (if upper \<le> r \<and> r < upper + n then replicate (scols (scr cv)) (blank (bg (pen (scr cv))))
     else row_cells_of (scr cv) (if upper \<le> r \<and> r \<le> lower then r - n else r))"
proof -
  define cv1 where "cv1 = fold release_row [lower + 1 - n..<lower + 1] cv"
  define cv2 where "cv2 = cv1\<lparr>scr := move_rows upper (upper + n) (lower - upper + 1 - n) (scr cv1)\<rparr>"
  have q: "quiet cv cv1" using quiet_loops unfolding cv1_def by blast
  have p1: "pen (scr cv1) = pen (scr cv)" unfolding cv1_def by (rule quiet_pen_loops)
  have ok1: "canvas_ok cv1" and sz1: "scols (scr cv1) = scols (scr cv)" "srows (scr cv1) = srows (scr cv)"
    and cs1: "cells (scr cv1) = cells (scr cv)"
    using q ok by (simp_all add: quiet_def same_size_def)
  have "band 0 (srows (scr cv) - 1) cv1 cv2" unfolding cv2_def
    using b sz1 by (intro move_rows_band ok1) auto
  then have ok2: "canvas_ok cv2" and sz2: "scols (scr cv2) = scols (scr cv)" "srows (scr cv2) = srows (scr cv)"
    using sz1 by (simp_all add: band_def same_size_def)
  have p2: "pen (scr cv2) = pen (scr cv)" using p1 by (simp add: cv2_def move_rows_def)
  have eq: "shift_region_rows_down upper lower n cv =
    bind_res (renew_rows False [upper..<upper + n] cv2) (\<lambda>cv' _. (cv', Inr (mutation_rows upper lower)))"
    using b(3,4) by (simp add: shift_region_rows_down_def Let_def cv1_def cv2_def del: upt_Suc)
  obtain u where rn: "renew_rows False [upper..<upper + n] cv2 = (cv', Inr u)"
    using res unfolding eq by (auto simp: bind_res_def split: prod.splits sum.splits)
  have "row_cells_of (scr cv') r = (if r \<in> set [upper..<upper + n]
      then replicate (scols (scr cv2)) (blank (bg (pen (scr cv2)))) else row_cells_of (scr cv2) r)"
    using b sz2 by (intro renew_rows_rows [OF ok2 _ _ rn]) auto
  moreover have "row_cells_of (scr cv2) r =
    row_cells_of (scr cv1) (if upper + n \<le> r \<and> r < upper + n + (lower - upper + 1 - n) then upper + (r - (upper + n)) else r)"
    unfolding cv2_def using b sz1 ok1 row_cells_move [of "scr cv1" upper "lower - upper + 1 - n" "upper + n" r]
    by (simp add: canvas_ok_def)
  moreover have "row_cells_of (scr cv1) x = row_cells_of (scr cv) x" for x using cs1 sz1 by simp
  moreover have "upper + n \<le> r \<and> r < upper + n + (lower - upper + 1 - n) \<longleftrightarrow> upper \<le> r \<and> r \<le> lower \<and> \<not> r < upper + n"
    using b by auto
  moreover have "upper + (r - (upper + n)) = r - n" if "upper + n \<le> r" using that by simp
  ultimately show ?thesis using p2 sz2 by auto
qed

section \<open>Wide units stay whole\<close>

definition wide_at :: "cell list \<Rightarrow> nat \<Rightarrow> bool" where
  "wide_at cs i \<longleftrightarrow> role (cs ! i) = Lead \<and> cell_width (cs ! i) \<ge> 2"

text \<open>Every wide lead is followed by its continuation and every continuation follows a wide lead.\<close>

definition row_whole :: "cell list \<Rightarrow> bool" where
  "row_whole cs \<longleftrightarrow>
    (\<forall>i < length cs. wide_at cs i \<longrightarrow> i + 1 < length cs \<and> role (cs ! (i + 1)) = Continuation) \<and>
    (\<forall>i < length cs. role (cs ! i) = Continuation \<longrightarrow> 0 < i \<and> wide_at cs (i - 1))"

definition units_whole :: "screen \<Rightarrow> bool" where
  "units_whole s \<longleftrightarrow> (\<forall>r < srows s. row_whole (row_cells_of s r))"

lemma row_whole_replicate [simp]: "row_whole (replicate n (blank b))"
  by (simp add: row_whole_def wide_at_def)

lemma row_cells_update:
  assumes "screen_ok s" "row < srows s" "col < scols s" "r < srows s" "scols s' = scols s"
    "cells s' = (cells s)[row * scols s + col := c]"
  shows "row_cells_of s' r = (if r = row then (row_cells_of s r)[col := c] else row_cells_of s r)"
proof (cases "r = row")
  case True
  have le: "row * scols s + scols s \<le> length (cells s)" using row_end [OF assms(2)] screen_okD(5) [OF assms(1)] by simp
  have "take (scols s) ((drop (row * scols s) (cells s))[col := c]) = (take (scols s) (drop (row * scols s) (cells s)))[col := c]"
    by (rule take_update_swap)
  moreover have "drop (row * scols s) ((cells s)[row * scols s + col := c]) = (drop (row * scols s) (cells s))[col := c]"
    by (simp add: drop_update_swap)
  ultimately show ?thesis using True assms(5,6) by (simp add: slice_def)
next
  case False
  have len: "length (cells s) = srows s * scols s" by (rule screen_okD(5) [OF assms(1)])
  have "row_cells_of s' r = row_cells_of s r"
  proof (rule row_cells_eqI [where R = "srows s" and C = "scols s", OF len _ refl assms(5) assms(4) assms(4)])
    show "length (cells s') = srows s * scols s" using len assms(6) by simp
    fix x assume "x < scols s"
    then have "row * scols s + col \<noteq> r * scols s + x"
      using False assms(3) by (metis add.commute div_mult_self3 div_less add_0_right less_nat_zero_code nat_neq_iff)
    then show "cells s' ! (r * scols s + x) = cells s ! (r * scols s + x)" using assms(6) by simp
  qed
  then show ?thesis using False by simp
qed

text \<open>Clearing the unit a cell belongs to.\<close>

definition clear_row :: "cell \<Rightarrow> nat \<Rightarrow> cell list \<Rightarrow> cell list" where
  "clear_row b col cs =
    (let lc = (if role (cs ! col) = Continuation \<and> col > 0 then col - 1 else col) in
     if role (cs ! lc) = Lead then
       (let cs1 = cs[lc := b] in
        if cell_width (cs ! lc) \<ge> 2 \<and> lc + 1 < length cs \<and> role (cs1 ! (lc + 1)) = Continuation
        then cs1[lc + 1 := b] else cs1)
     else cs[col := b])"

lemma clear_row_whole:
  assumes "row_whole cs" "col < length cs"
  shows "row_whole (clear_row (blank b) col cs) \<and> role (clear_row (blank b) col cs ! col) = Empty \<and>
    length (clear_row (blank b) col cs) = length cs"
  using assms
  by (auto simp: clear_row_def Let_def row_whole_def wide_at_def nth_list_update)

lemma row_nth:
  assumes "screen_ok s" "row < srows s" "col < scols s"
  shows "row_cells_of s row ! col = cells s ! cell_index s col row"
  using row_end [OF assms(2), of "scols s"] screen_okD(5) [OF assms(1)] assms(3)
  by (simp add: nth_slice cell_index_def)

lemma units_wholeI:
  assumes "units_whole s" "srows s' = srows s" "\<And>r. r < srows s \<Longrightarrow> r \<noteq> row \<Longrightarrow> row_cells_of s' r = row_cells_of s r"
    "row < srows s \<Longrightarrow> row_whole (row_cells_of s' row)"
  shows "units_whole s'"
  using assms by (metis units_whole_def)

lemma set_unit_rows:
  assumes "screen_ok s" "row < srows s" "col < scols s" "r < srows s"
  shows "row_cells_of (set_unit (cell_index s col row) c a s) r =
    (if r = row then (row_cells_of s r)[col := c] else row_cells_of s r)"
  using row_cells_update [OF assms(1-4), of "set_unit (cell_index s col row) c a s" c] by (simp add: cell_index_def)

lemma clear_unit_rows:
  assumes ok: "canvas_ok cv" and b: "col < scols (scr cv)" "row < srows (scr cv)" "r < srows (scr cv)"
  shows "row_cells_of (scr (fst (clear_unit_at col row cv))) r =
    (if r = row then clear_row (blank (bg (pen (scr cv)))) col (row_cells_of (scr cv) row) else row_cells_of (scr cv) r) \<and>
    pen (scr (fst (clear_unit_at col row cv))) = pen (scr cv) \<and> scursor (scr (fst (clear_unit_at col row cv))) = scursor (scr cv)"
proof -
  let ?s = "scr cv" and ?b = "blank (bg (pen (scr cv)))" and ?cs = "row_cells_of (scr cv) row"
  have sok: "screen_ok ?s" using ok by (simp add: canvas_ok_def)
  have len: "length ?cs = scols ?s" by (rule row_cells_length [OF sok b(2)])
  define lc where "lc = (if role (?cs ! col) = Continuation \<and> col > 0 then col - 1 else col)"
  have lc: "lc < scols ?s" using b(1) by (auto simp: lc_def)
  have n: "cells ?s ! cell_index ?s x row = ?cs ! x" if "x < scols ?s" for x using row_nth [OF sok b(2) that] by simp
  let ?s1 = "set_unit (cell_index ?s lc row) ?b None ?s"
  have s1: "screen_ok ?s1" using set_unit_ok [OF sok _ lc b(2), of ?b None] by (simp add: step_ok_def)
  have r1: "row_cells_of ?s1 x = (if x = row then (row_cells_of ?s x)[lc := ?b] else row_cells_of ?s x)" if "x < srows ?s" for x
    by (rule set_unit_rows [OF sok b(2) lc that])
  have n1: "cells ?s1 ! cell_index ?s (lc + 1) row = ?cs[lc := ?b] ! (lc + 1)" if "lc + 1 < scols ?s"
    using row_nth [OF s1, of row "lc + 1"] that b r1 [OF b(2)] by (simp add: cell_index_def)
  have r2: "row_cells_of (set_unit (cell_index ?s (lc + 1) row) ?b None ?s1) r =
      (if r = row then ?cs[lc := ?b, lc + 1 := ?b] else row_cells_of ?s r)" if "lc + 1 < scols ?s"
    using set_unit_rows [OF s1, of row "lc + 1" r ?b None] that b r1 [OF b(3)] by (auto simp: cell_index_def)
  have r0: "row_cells_of (set_unit (cell_index ?s col row) ?b None ?s) r = (if r = row then ?cs[col := ?b] else row_cells_of ?s r)"
    using set_unit_rows [OF sok b(2,1,3), of ?b None] by auto
  have m: "2 \<le> max (cell_width x) 1 \<longleftrightarrow> 2 \<le> cell_width x" for x :: cell by auto
  have eq: "fst (clear_unit_at col row cv) =
    (if role (?cs ! lc) = Lead then
       cv\<lparr>scr := (if 2 \<le> cell_width (?cs ! lc) \<and> lc + 1 < scols ?s \<and> role (cells ?s1 ! cell_index ?s (lc + 1) row) = Continuation
                  then set_unit (cell_index ?s (lc + 1) row) ?b None ?s1 else ?s1),
          payloads := release_cell (?cs ! lc) (payloads cv)\<rparr>
     else cv\<lparr>scr := set_unit (cell_index ?s col row) ?b None ?s\<rparr>)"
    using b unfolding clear_unit_at_def Let_def n [OF b(1)] lc_def [symmetric] n [OF lc] m by simp
  show ?thesis
  proof (cases "role (?cs ! lc) = Lead")
    case False
    then show ?thesis using r0 by (simp add: eq clear_row_def Let_def lc_def [symmetric])
  next
    case True
    then show ?thesis using r1 [OF b(3)] r2 n1 len
      by (cases "2 \<le> cell_width (?cs ! lc) \<and> lc + 1 < scols ?s \<and> role (cells ?s1 ! cell_index ?s (lc + 1) row) = Continuation")
        (auto simp: eq clear_row_def Let_def lc_def [symmetric])
  qed
qed

lemma clear_unit_whole:
  assumes ok: "canvas_ok cv" and w: "units_whole (scr cv)"
  shows "units_whole (scr (fst (clear_unit_at col row cv)))"
proof (cases "col < scols (scr cv) \<and> row < srows (scr cv)")
  case True
  have "srows (scr (fst (clear_unit_at col row cv))) = srows (scr cv)"
    using op_ok_size [OF clear_unit_at_ok [OF ok]] by blast
  moreover have "row_whole (clear_row (blank b) col (row_cells_of (scr cv) row))" for b
    using clear_row_whole [of "row_cells_of (scr cv) row" col b] w True row_cells_length [of "scr cv" row] ok
    by (simp add: units_whole_def canvas_ok_def)
  ultimately show ?thesis
    using clear_unit_rows [OF ok, of col row] True by (intro units_wholeI [OF w, of _ row]) auto
next
  case False
  then show ?thesis using w by (auto simp: clear_unit_at_def Let_def)
qed

text \<open>Writing a unit into a row.\<close>

definition write_row :: "cell \<Rightarrow> nat \<Rightarrow> cell \<Rightarrow> cell list \<Rightarrow> cell list" where
  "write_row b col lead cs =
    (let w2 = (cell_width lead \<ge> 2);
         cs1 = clear_row b col cs;
         cs2 = (if w2 \<and> col + 1 < length cs then clear_row b (col + 1) cs1 else cs1)
     in if w2 \<and> col + 1 \<ge> length cs then cs2[col := b]
        else if w2 then cs2[col := lead, col + 1 := continuation] else cs2[col := lead])"

lemma put_narrow_whole:
  assumes "row_whole cs" "col < length cs" "role (cs ! col) = Empty" "cell_width c < 2" "role c \<noteq> Continuation"
  shows "row_whole (cs[col := c])"
  using assms by (auto simp: row_whole_def wide_at_def nth_list_update)

lemma put_wide_whole:
  assumes "row_whole cs" "col + 1 < length cs" "role (cs ! col) = Empty" "role (cs ! (col + 1)) = Empty"
    "role c = Lead" "cell_width c \<ge> 2"
  shows "row_whole (cs[col := c, col + 1 := continuation])"
  using assms by (auto simp: row_whole_def wide_at_def nth_list_update less_diff_conv)

lemma clear_row_keeps_empty:
  assumes "row_whole cs" "col + 1 < length cs" "role (cs ! col) = Empty"
  shows "role (clear_row (blank b) (col + 1) cs ! col) = Empty"
  using assms by (auto simp: clear_row_def Let_def row_whole_def wide_at_def nth_list_update)

lemma write_row_whole:
  assumes w: "row_whole cs" "col < length cs" and lead: "role lead = Lead"
  shows "row_whole (write_row (blank b) col lead cs)"
proof -
  let ?c1 = "clear_row (blank b) col cs"
  have c1: "row_whole ?c1" "role (?c1 ! col) = Empty" "length ?c1 = length cs" using clear_row_whole [OF w] by simp_all
  show ?thesis
  proof (cases "cell_width lead \<ge> 2")
    case True
    show ?thesis
    proof (cases "col + 1 < length cs")
      case lt: True
      let ?c2 = "clear_row (blank b) (col + 1) ?c1"
      have c2: "row_whole ?c2" "role (?c2 ! (col + 1)) = Empty" "length ?c2 = length cs"
        using clear_row_whole [of ?c1 "col + 1" b] c1 lt by simp_all
      have "role (?c2 ! col) = Empty" using clear_row_keeps_empty [of ?c1 col b] c1 lt by simp
      then have "row_whole (?c2[col := lead, col + 1 := continuation])"
        using c2 lt lead True by (intro put_wide_whole) simp_all
      then show ?thesis using True lt by (simp add: write_row_def Let_def)
    next
      case False
      then show ?thesis using True put_narrow_whole [of ?c1 col "blank b"] c1 w
        by (simp add: write_row_def Let_def)
    qed
  next
    case False
    then show ?thesis using put_narrow_whole [of ?c1 col lead] c1 w lead by (simp add: write_row_def Let_def)
  qed
qed

lemma write_unit_rows:
  assumes ok: "canvas_ok cv" and lead: "cell_ok lead" and r: "r < srows (scr cv)"
  shows "row_cells_of (scr (fst (write_unit lead wrap m0 wr cv))) r =
    (if r = crow (scr cv) then write_row (blank (bg (pen (scr cv)))) (ccol (scr cv)) lead (row_cells_of (scr cv) r)
     else row_cells_of (scr cv) r)"
proof -
  let ?s = "scr cv"
  let ?col = "ccol ?s" and ?row = "crow ?s" and ?b = "blank (bg (pen (scr cv)))"
  let ?i = "cell_index ?s ?col ?row"
  note b = canvas_region [OF ok]
  have sok: "screen_ok ?s" using ok by (simp add: canvas_ok_def)
  have len: "length (row_cells_of ?s ?row) = scols ?s" by (rule row_cells_length [OF sok b(3)])
  have w2: "2 \<le> max (cell_width lead) 1 \<longleftrightarrow> 2 \<le> cell_width lead" by auto
  define cv1 where "cv1 = fst (clear_unit_at ?col ?row cv)"
  have ok1: "canvas_ok cv1" and sz1: "scols (scr cv1) = scols ?s" "srows (scr cv1) = srows ?s"
    using op_ok_canvas [OF clear_unit_at_ok [OF ok, of ?col ?row]] op_ok_size [OF clear_unit_at_ok [OF ok, of ?col ?row]]
    by (simp_all add: cv1_def)
  have r1: "row_cells_of (scr cv1) x = (if x = ?row then clear_row ?b ?col (row_cells_of ?s x) else row_cells_of ?s x)"
    "pen (scr cv1) = pen ?s" if "x < srows ?s" for x
    using clear_unit_rows [OF ok b(4,3) that] by (simp_all add: cv1_def)
  define cv2 where "cv2 = (if 2 \<le> cell_width lead \<and> ?col + 1 < scols ?s then fst (clear_unit_at (?col + 1) ?row cv1) else cv1)"
  have ok2: "canvas_ok cv2" and sz2: "scols (scr cv2) = scols ?s" "srows (scr cv2) = srows ?s"
    using op_ok_canvas [OF clear_unit_at_ok [OF ok1, of "?col + 1" ?row]] op_ok_size [OF clear_unit_at_ok [OF ok1, of "?col + 1" ?row]] ok1 sz1
    by (simp_all add: cv2_def)
  have r2: "row_cells_of (scr cv2) x = (if x = ?row then
      (if 2 \<le> cell_width lead \<and> ?col + 1 < scols ?s then clear_row ?b (?col + 1) (clear_row ?b ?col (row_cells_of ?s x))
       else clear_row ?b ?col (row_cells_of ?s x)) else row_cells_of ?s x)"
    "pen (scr cv2) = pen ?s" if "x < srows ?s" for x
    using clear_unit_rows [OF ok1, of "?col + 1" ?row x] r1 [OF that] r1 [OF b(3)] that b sz1 by (auto simp: cv2_def)
  define t where "t = scr (fst (write_unit lead wrap m0 wr cv))"
  have t: "scols t = scols ?s" "cells t =
      (if 2 \<le> cell_width lead \<and> ?col + 1 \<ge> scols ?s then (cells (scr cv2))[?i := lead, ?i := blank (bg (pen (scr cv2)))]
       else if 2 \<le> cell_width lead then (cells (scr cv2))[?i := lead, cell_index ?s (?col + 1) ?row := continuation]
       else (cells (scr cv2))[?i := lead])"
    unfolding t_def write_unit_def Let_def case_prod_beta w2 cv2_def cv1_def
    using sz2 [unfolded cv2_def cv1_def] by (auto simp: advance_cursor_def Let_def)
  have sok2: "screen_ok (scr cv2)" using ok2 by (simp add: canvas_ok_def)
  have i: "?i = ?row * scols (scr cv2) + ?col" "cell_index ?s (?col + 1) ?row = ?row * scols (scr cv2) + (?col + 1)"
    by (simp_all add: cell_index_def sz2)
  have up: "row_cells_of u r = (if r = ?row then (row_cells_of (scr cv2) r)[?col := c] else row_cells_of (scr cv2) r)"
    if "scols u = scols ?s" "cells u = (cells (scr cv2))[?i := c]" for u c
    using row_cells_update [OF sok2, of ?row ?col r u c] that b r sz2 i by simp
  have "row_cells_of t r = (if r = ?row then write_row ?b ?col lead (row_cells_of ?s r) else row_cells_of ?s r)"
  proof (cases "2 \<le> cell_width lead")
    case wide: True
    show ?thesis
    proof (cases "?col + 1 < scols ?s")
      case True
      define u where "u = (scr cv2)\<lparr>cells := (cells (scr cv2))[?i := lead]\<rparr>"
      have uok: "screen_ok u" using update_cell_ok [OF sok2 lead, of ?col ?row "cell_anchors (scr cv2)"] b sz2 i
        by (simp add: u_def step_ok_def)
      have "row_cells_of t r = (if r = ?row then (row_cells_of u r)[?col + 1 := continuation] else row_cells_of u r)"
        using row_cells_update [OF uok, of ?row "?col + 1" r t continuation] t True wide b r sz2 i by (simp add: u_def)
      moreover have "row_cells_of u r = (if r = ?row then (row_cells_of (scr cv2) r)[?col := lead] else row_cells_of (scr cv2) r)"
        using up [of u lead] sz2 by (simp add: u_def)
      ultimately show ?thesis using r2 [OF r] wide True len by (auto simp: write_row_def Let_def)
    next
      case False
      then show ?thesis using up [of t "blank (bg (pen (scr cv2)))"] t r2 [OF r] wide len by (auto simp: write_row_def Let_def)
    qed
  next
    case False
    then show ?thesis using up [of t lead] t r2 [OF r] len by (auto simp: write_row_def Let_def)
  qed
  then show ?thesis by (simp add: t_def)
qed

lemma clear_unit_size:
  "srows (scr (fst (clear_unit_at col row cv))) = srows (scr cv)" "scols (scr (fst (clear_unit_at col row cv))) = scols (scr cv)"
  by (simp_all add: clear_unit_at_def Let_def)

lemma write_unit_size: "srows (scr (fst (write_unit lead wrap m0 wr cv))) = srows (scr cv)"
proof -
  have "srows (advance_cursor c w x s) = srows s" for c w x s by (simp add: advance_cursor_def Let_def)
  then show ?thesis by (auto simp: write_unit_def Let_def case_prod_beta clear_unit_size)
qed

lemma write_unit_whole:
  assumes ok: "canvas_ok cv" and lead: "cell_ok lead" "role lead = Lead" and w: "units_whole (scr cv)"
  shows "units_whole (scr (fst (write_unit lead wrap m0 wr cv)))"
proof (rule units_wholeI [OF w, of _ "crow (scr cv)"])
  show "srows (scr (fst (write_unit lead wrap m0 wr cv))) = srows (scr cv)" by (rule write_unit_size)
  show "row_cells_of (scr (fst (write_unit lead wrap m0 wr cv))) r = row_cells_of (scr cv) r"
    if "r < srows (scr cv)" "r \<noteq> crow (scr cv)" for r
    using write_unit_rows [OF ok lead(1) that(1)] that by simp
  show "row_whole (row_cells_of (scr (fst (write_unit lead wrap m0 wr cv))) (crow (scr cv)))"
    using write_unit_rows [OF ok lead(1), of "crow (scr cv)"] canvas_region [OF ok] w lead
      row_cells_length [of "scr cv" "crow (scr cv)"] ok
    by (simp add: write_row_whole units_whole_def canvas_ok_def)
qed

lemma units_whole_cells: "cells s' = cells s \<Longrightarrow> scols s' = scols s \<Longrightarrow> srows s' = srows s \<Longrightarrow> units_whole s' = units_whole s"
  by (simp add: units_whole_def)

lemma quiet_whole: "quiet cv cv' \<Longrightarrow> units_whole (scr cv') = units_whole (scr cv)"
  by (rule units_whole_cells) (simp_all add: quiet_def same_size_def)

lemma renew_row_whole:
  assumes "canvas_ok cv" "row < srows (scr cv)" "units_whole (scr cv)"
  shows "units_whole (scr (fst (renew_row rel row cv)))"
proof -
  have "srows (scr (fst (renew_row rel row cv))) = srows (scr cv)"
    using renew_row_band [OF assms(1,2), of rel] by (simp add: band_def same_size_def)
  then show ?thesis using renew_row_rows [OF assms(1,2), of _ rel] assms(3) by (simp add: units_whole_def)
qed

lemma renew_rows_whole:
  "canvas_ok cv \<Longrightarrow> \<forall>q \<in> set rows. q < srows (scr cv) \<Longrightarrow> units_whole (scr cv) \<Longrightarrow>
     units_whole (scr (fst (renew_rows rel rows cv)))"
proof (induction rows arbitrary: cv)
  case (Cons row rows)
  have b: "band row row cv (fst (renew_row rel row cv))" using renew_row_band [OF Cons.prems(1)] Cons.prems by simp
  have w: "units_whole (scr (fst (renew_row rel row cv)))" using renew_row_whole Cons.prems by simp
  show ?case
  proof (cases "renew_row rel row cv")
    case (Pair cv1 x)
    then show ?thesis using w b Cons.IH [of cv1] Cons.prems
      by (cases x) (simp_all add: bind_res_def band_def same_size_def)
  qed
qed simp

lemma move_rows_whole:
  "screen_ok s \<Longrightarrow> src + keep \<le> srows s \<Longrightarrow> dst + keep \<le> srows s \<Longrightarrow> units_whole s \<Longrightarrow>
     units_whole (move_rows src dst keep s)"
  using row_cells_move [of s src keep dst] by (auto simp: units_whole_def move_rows_def)

lemma bind_res_fst: "fst (bind_res r (\<lambda>s x. (s, Inr (f x)))) = fst r"
  by (cases r; cases "snd r") (auto simp: bind_res_def)

lemma shift_whole:
  assumes ok: "canvas_ok cv" and q: "quiet cv cv1" and w: "units_whole (scr cv)"
    and m: "src + keep \<le> srows (scr cv)" "dst + keep \<le> srows (scr cv)" and rows: "\<forall>r \<in> set rows. r < srows (scr cv)"
  shows "units_whole (scr (fst (renew_rows rel rows (cv1\<lparr>scr := move_rows src dst keep (scr cv1)\<rparr>))))"
proof -
  have sz: "srows (scr cv1) = srows (scr cv)" "canvas_ok cv1" using q ok by (simp_all add: quiet_def same_size_def)
  have pos: "0 < srows (scr cv)" using ok by (simp add: canvas_ok_def screen_ok_def)
  have "band 0 (srows (scr cv) - 1) cv1 (cv1\<lparr>scr := move_rows src dst keep (scr cv1)\<rparr>)"
    using m sz pos by (intro move_rows_band) auto
  then show ?thesis
    using m sz w rows quiet_whole [OF q] move_rows_whole [of "scr cv1" src keep dst]
    by (intro renew_rows_whole) (auto simp: band_def same_size_def canvas_ok_def)
qed

lemma shift_up_whole:
  assumes "canvas_ok cv" "upper \<le> lower" "lower < srows (scr cv)" "units_whole (scr cv)"
  shows "units_whole (scr (fst (shift_region_rows_up lay upper lower n brk cv)))"
proof (cases "n = 0 \<or> n > lower - upper + 1")
  case True
  then show ?thesis using assms(4) by (auto simp: shift_region_rows_up_def)
next
  case False
  let ?cv1 = "if retain_history (scr cv) \<and> region_is_full_screen (scr cv) \<and> upper = 0
    then fold (evict_row lay brk) [upper..<upper + n] cv else fold release_row [upper..<upper + n] cv"
  have "quiet cv ?cv1" using quiet_loops by simp
  from shift_whole [OF assms(1) this assms(4), of "upper + n" "lower - upper + 1 - n" upper "[lower + 1 - n..<lower + 1]" True]
  show ?thesis using False assms(2,3) by (auto simp: shift_region_rows_up_def Let_def bind_res_fst simp del: upt_Suc)
qed

lemma shift_down_whole:
  assumes "canvas_ok cv" "upper \<le> lower" "lower < srows (scr cv)" "units_whole (scr cv)"
  shows "units_whole (scr (fst (shift_region_rows_down upper lower n cv)))"
proof (cases "n = 0 \<or> n > lower - upper + 1")
  case True
  then show ?thesis using assms(4) by (auto simp: shift_region_rows_down_def)
next
  case False
  have "quiet cv (fold release_row [lower + 1 - n..<lower + 1] cv)" using quiet_loops by blast
  from shift_whole [OF assms(1) this assms(4), of upper "lower - upper + 1 - n" "upper + n" "[upper..<upper + n]" False]
  show ?thesis using False assms(2,3) by (auto simp: shift_region_rows_down_def Let_def bind_res_fst simp del: upt_Suc)
qed

lemma no_pending_whole [simp]: "units_whole (scr (no_pending cv)) = units_whole (scr cv)"
  by (rule units_whole_cells) (simp_all add: no_pending_ok)

lemma scroll_whole:
  assumes "canvas_ok cv" "units_whole (scr cv)"
  shows "units_whole (scr (fst (scroll_up lay n brk cv)))" "units_whole (scr (fst (scroll_down n cv)))"
  using assms canvas_region [OF assms(1)] shift_up_whole [of cv] shift_down_whole [of cv]
  by (simp_all add: scroll_up_def scroll_down_def Let_def)

lemma line_feed_whole:
  assumes "canvas_ok cv" "units_whole (scr cv)"
  shows "units_whole (scr (fst (line_feed lay brk cv)))"
proof -
  define s1 where "s1 = (scr (no_pending cv))\<lparr>row_breaks := (row_breaks (scr (no_pending cv)))[crow (scr cv) := Some brk]\<rparr>"
  define s2 where "s2 = s1\<lparr>source_breaks := (source_breaks s1)(current_source_line_id s1 (crow (scr cv)) \<mapsto> brk)\<rparr>"
  define cv2 where "cv2 = (no_pending cv)\<lparr>scr := s2\<rparr>"
  have ok2: "canvas_ok cv2" using assms(1)
    by (simp add: cv2_def s2_def s1_def canvas_ok_def screen_ok_def no_pending_def set_pending_wrap_def)
  have w2: "units_whole (scr cv2)" using assms(2)
    by (simp add: cv2_def s2_def s1_def no_pending_def set_pending_wrap_def units_whole_def)
  have "fst (line_feed lay brk cv) =
    (if crow (scr cv2) = scroll_bottom (scr cv2) then fst (scroll_up lay 1 brk cv2)
     else if crow (scr cv2) < srows (scr cv2) - 1 then
       cv2\<lparr>scr := (scr cv2)\<lparr>scursor := (scursor (scr cv2))\<lparr>cur_row := crow (scr cv2) + 1\<rparr>\<rparr>\<rparr>
     else cv2)"
    by (simp add: line_feed_def Let_def cv2_def s2_def s1_def no_pending_ok)
  then show ?thesis using scroll_whole(1) [OF ok2 w2] w2 by (simp add: units_whole_def)
qed

lemma soft_wrap_whole:
  assumes "canvas_ok cv" "units_whole (scr cv)"
  shows "units_whole (scr (fst (soft_wrap lay cv)))"
  using line_feed_whole [OF assms, of lay SoftWrap]
  by (cases "line_feed lay SoftWrap cv"; cases "snd (line_feed lay SoftWrap cv)")
    (simp_all add: soft_wrap_def bind_res_def units_whole_def)

lemma place_new_unit_whole:
  assumes ok: "canvas_ok cv" and w: "units_whole (scr cv)" and lead: "cell_ok lead" "role lead = Lead"
  shows "units_whole (scr (fst (place_new_unit lay lead wrap cv)))"
proof -
  have wr: "units_whole (scr (fst (write_unit lead wrap m wr cv')))" if "canvas_ok cv'" "units_whole (scr cv')" for cv' m wr
    by (rule write_unit_whole [OF that(1) lead that(2)])
  have sw: "canvas_ok (fst (soft_wrap lay cv'))" "units_whole (scr (fst (soft_wrap lay cv')))"
    if "canvas_ok cv'" "units_whole (scr cv')" for cv'
    using soft_wrap_ok [OF that(1), of lay] soft_wrap_whole [OF that] by (simp_all add: op_ok_def)
  have second: "units_whole (scr (fst ((\<lambda>cv (m, wrapped).
          let s = scr cv in
          if 2 \<le> max (cell_width lead) 1 \<and> ccol s + 1 \<ge> scols s \<and> (ccol s = scols s - 1 \<or> ccol s + 1 > scols s - 1) then
            (if wrap then
               bind_res (soft_wrap lay cv) (\<lambda>cv' m'. write_unit lead wrap (merge m m') True cv')
             else (cv, Inr (m, wrapped, ccol s, crow s)))
          else write_unit lead wrap m wrapped cv) cv1 x)))" if "canvas_ok cv1" "units_whole (scr cv1)" for cv1 x
  proof -
    have "units_whole (scr (fst (bind_res (soft_wrap lay cv1) (\<lambda>cv' m'. write_unit lead wrap (merge (fst x) m') True cv'))))"
      using sw [OF that] wr by (cases "soft_wrap lay cv1"; cases "snd (soft_wrap lay cv1)") (simp_all add: bind_res_def)
    then show ?thesis using that wr by (cases wrap) (simp_all add: case_prod_beta Let_def)
  qed
  define r where "r = (if pending_wrap (scursor (scr cv)) then
          (if wrap then bind_res (soft_wrap lay cv) (\<lambda>cv m. (cv, Inr (merge mutation_none m, True)))
           else (no_pending cv, Inr (mutation_none, False)))
        else (cv, Inr (mutation_none, False)))"
  have r: "canvas_ok (fst r)" "units_whole (scr (fst r))"
    using sw [OF ok w] ok w by (auto simp: r_def bind_res_fst no_pending_ok)
  show ?thesis unfolding place_new_unit_def Let_def r_def [symmetric]
    using r second [unfolded Let_def] by (cases r; cases "snd r") (simp_all add: bind_res_def)
qed

text \<open>
  The sanitising pass makes a row whole when the only possible damage is a half without its partner:
  a continuation that follows a lead follows a wide one.
\<close>

definition pairs_ok :: "cell list \<Rightarrow> bool" where
  "pairs_ok cs \<longleftrightarrow> (\<forall>i. i + 1 < length cs \<longrightarrow> role (cs ! (i + 1)) = Continuation \<longrightarrow> role (cs ! i) = Lead \<longrightarrow> wide_at cs i)"

definition prefix_whole :: "nat \<Rightarrow> cell list \<Rightarrow> bool" where
  "prefix_whole col cs \<longleftrightarrow>
    (\<forall>i < col. i < length cs \<longrightarrow> wide_at cs i \<longrightarrow> i + 1 < col \<and> i + 1 < length cs \<and> role (cs ! (i + 1)) = Continuation) \<and>
    (\<forall>i < col. i < length cs \<longrightarrow> role (cs ! i) = Continuation \<longrightarrow> 0 < i \<and> wide_at cs (i - 1))"

lemma prefix_whole_step:
  assumes "prefix_whole col cs" "col < length cs" "\<not> wide_at cs col"
    "role (cs ! col) = Continuation \<Longrightarrow> 0 < col \<and> wide_at cs (col - 1)"
  shows "prefix_whole (col + 1) cs"
  using assms by (auto simp: prefix_whole_def less_Suc_eq)

lemma blank_at:
  assumes "col < length cs"
  shows "wide_at (cs[col := blank b]) j \<longleftrightarrow> j \<noteq> col \<and> wide_at cs j"
    "role (cs[col := blank b] ! j) = Continuation \<longleftrightarrow> j \<noteq> col \<and> role (cs ! j) = Continuation"
    "role (cs[col := blank b] ! j) = Lead \<longleftrightarrow> j \<noteq> col \<and> role (cs ! j) = Lead"
  using assms by (cases "j = col"; simp add: wide_at_def)+

lemma prefix_whole_blank:
  assumes p: "prefix_whole col cs" "pairs_ok cs" and lt: "col < length cs"
  shows "prefix_whole (col + 1) (cs[col := blank b])" "pairs_ok (cs[col := blank b])"
proof -
  show "pairs_ok (cs[col := blank b])"
    unfolding pairs_ok_def blank_at [OF lt] length_list_update using p(2) by (auto simp: pairs_ok_def)
  show "prefix_whole (col + 1) (cs[col := blank b])"
    unfolding prefix_whole_def blank_at [OF lt] length_list_update
  proof (intro conjI allI impI; elim conjE)
    fix i assume i: "i < col + 1" "i < length cs" "i \<noteq> col" "wide_at cs i"
    then have "i + 1 < col" "role (cs ! (i + 1)) = Continuation" using p(1) by (auto simp: prefix_whole_def)
    then show "i + 1 < col + 1" "i + 1 < length cs" "i + 1 \<noteq> col" "role (cs ! (i + 1)) = Continuation" using lt by simp_all
  next
    fix i assume i: "i < col + 1" "i < length cs" "i \<noteq> col" "role (cs ! i) = Continuation"
    then show "0 < i" "i - 1 \<noteq> col" "wide_at cs (i - 1)" using p(1) by (auto simp: prefix_whole_def)
  qed
qed

lemma prefix_whole_skip:
  assumes "prefix_whole col cs" "wide_at cs col" "col + 1 < length cs" "role (cs ! (col + 1)) = Continuation"
  shows "prefix_whole (col + 2) cs"
  using assms by (auto simp: prefix_whole_def less_Suc_eq wide_at_def)

lemma sanitize_loop_whole:
  "prefix_whole col cs \<Longrightarrow> pairs_ok cs \<Longrightarrow> row_whole (fst (sanitize_loop (blank b) col cs st))"
proof (induction "blank b" col cs st rule: sanitize_loop.induct)
  case (1 col cs st)
  let ?c = "cs ! col"
  show ?case
  proof (cases "col < length cs")
    case False
    then have "row_whole cs" using 1(5) by (auto simp: prefix_whole_def row_whole_def)
    then show ?thesis using False by (subst sanitize_loop.simps) simp
  next
    case lt: True
    show ?thesis
    proof (cases "role ?c = Lead \<and> cell_width ?c \<ge> 2")
      case wide: True
      show ?thesis
      proof (cases "col + 1 \<ge> length cs \<or> role (cs ! (col + 1)) \<noteq> Continuation")
        case True
        then show ?thesis using 1(1) [OF lt refl wide True] prefix_whole_blank [OF 1(5,6) lt] lt wide
          by (subst sanitize_loop.simps) (simp add: Let_def)
      next
        case False
        then show ?thesis using 1(2) [OF lt refl wide False] prefix_whole_skip [OF 1(5)] 1(6) lt wide
          by (subst sanitize_loop.simps) (simp add: Let_def wide_at_def)
      qed
    next
      case narrow: False
      show ?thesis
      proof (cases "role ?c = Continuation \<and> (col = 0 \<or> role (cs ! (col - 1)) \<noteq> Lead)")
        case True
        then show ?thesis using 1(3) [OF lt refl narrow True] prefix_whole_blank [OF 1(5,6) lt] lt narrow
          by (subst sanitize_loop.simps) (simp add: Let_def)
      next
        case False
        have "0 < col \<and> wide_at cs (col - 1)" if "role ?c = Continuation"
          using False that 1(6) lt unfolding pairs_ok_def by (metis Suc_diff_1 Suc_eq_plus1 not_gr_zero)
        then have "prefix_whole (col + 1) cs" using prefix_whole_step [OF 1(5) lt] narrow by (simp add: wide_at_def)
        then show ?thesis using 1(4) [OF lt refl narrow False] 1(6) lt narrow False
          by (subst sanitize_loop.simps) (auto simp: Let_def)
      qed
    qed
  qed
qed

text \<open>Opening a gap inside a whole row leaves only halves without partner.\<close>

lemma gap_pairs_ok:
  assumes w: "row_whole cs" and k: "0 < k" "col + k \<le> length cs"
  shows "pairs_ok (take col cs @ replicate k (blank b) @ take (length cs - k - col) (drop col cs))"
    (is "pairs_ok ?new")
  unfolding pairs_ok_def
proof (intro allI impI)
  fix i assume i: "i + 1 < length ?new" and c: "role (?new ! (i + 1)) = Continuation" and l: "role (?new ! i) = Lead"
  have len: "length ?new = length cs" using k by simp
  have nth: "?new ! j = (if j < col then cs ! j else if j < col + k then blank b else cs ! (j - k))" if "j < length cs" for j
    using that k by (auto simp: nth_append min_def)
  have i1: "i + 1 < length cs" using i len by simp
  have cases: "i + 1 < col \<or> col + k \<le> i"
    using c l nth [of i] nth [of "i + 1"] i1 k by (auto split: if_splits)
  have pair: "role (cs ! (j + 1)) = Continuation \<Longrightarrow> j + 1 < length cs \<Longrightarrow> wide_at cs j" for j
    using w by (auto simp: row_whole_def)
  show "wide_at ?new i"
  proof (cases "i + 1 < col")
    case True
    then have "wide_at cs i" using pair [of i] c nth [of "i + 1"] i1 by simp
    then show ?thesis using nth [of i] True i1 by (simp add: wide_at_def)
  next
    case False
    then have a: "col + k \<le> i" using cases by simp
    then have "i + 1 - k = (i - k) + 1" by simp
    then have "wide_at cs (i - k)" using pair [of "i - k"] c nth [of "i + 1"] i1 a by simp
    then show ?thesis using nth [of i] a i1 by (simp add: wide_at_def)
  qed
qed

lemma insert_row_eq:
  assumes ok: "screen_ok s" and r: "row < srows s" and k: "col < scols s" "col + k \<le> scols s"
    and s': "scols s' = scols s" "cells s' = fill_range (row * scols s + col) (row * scols s + col + k) b
        (copy_within (row * scols s + col) (row * scols s + scols s - k) (row * scols s + col + k) (cells s))"
  shows "row_cells_of s' row = take col (row_cells_of s row) @ replicate k b @ take (scols s - k - col) (drop col (row_cells_of s row))"
proof (rule nth_equalityI)
  let ?C = "scols s" and ?st = "row * scols s"
  have le: "?st + ?C \<le> length (cells s)" using row_end [OF r] screen_okD(5) [OF ok] by simp
  have lc: "length (copy_within (?st + col) (?st + ?C - k) (?st + col + k) (cells s)) = length (cells s)"
    using k le by (simp add: length_copy_within)
  have l': "length (cells s') = length (cells s)" using s'(2) lc k le by (simp add: length_fill_range)
  have rl: "length (row_cells_of s row) = ?C" using le by (simp add: length_slice)
  show len: "length (row_cells_of s' row) =
      length (take col (row_cells_of s row) @ replicate k b @ take (?C - k - col) (drop col (row_cells_of s row)))"
    using l' le s'(1) rl k by (simp add: length_slice)
  fix i assume "i < length (row_cells_of s' row)"
  then have i: "i < ?C" using l' le s'(1) by (simp add: length_slice)
  have "row_cells_of s' row ! i = cells s' ! (?st + i)" using i l' le s'(1) by (simp add: nth_slice)
  also have "\<dots> = (if col \<le> i \<and> i < col + k then b else
      copy_within (?st + col) (?st + ?C - k) (?st + col + k) (cells s) ! (?st + i))"
    unfolding s'(2) using i k le lc by (subst nth_fill_range) auto
  also have "\<dots> = (if col \<le> i \<and> i < col + k then b else if col + k \<le> i then cells s ! (?st + (i - k)) else cells s ! (?st + i))"
    using i k le by (subst nth_copy_within) (auto simp: algebra_simps)
  also have "\<dots> = (take col (row_cells_of s row) @ replicate k b @ take (?C - k - col) (drop col (row_cells_of s row))) ! i"
    using i k le rl by (auto simp: nth_append nth_slice min_def)
  finally show "row_cells_of s' row ! i = \<dots>" .
qed

lemma sanitize_row_rows:
  assumes ok: "canvas_ok cv" and r: "row < srows (scr cv)" "q < srows (scr cv)"
  shows "row_cells_of (scr (sanitize_row row cv)) q =
    (if q = row then fst (sanitize_loop (blank (bg (pen (scr cv)))) 0 (row_cells_of (scr cv) row) (payloads cv))
     else row_cells_of (scr cv) q)"
proof (cases "q = row")
  case True
  let ?s = "scr cv"
  let ?r = "sanitize_loop (blank (bg (pen ?s))) 0 (row_cells_of ?s row) (payloads cv)"
  have sok: "screen_ok ?s" "store_ok (payloads cv)" using ok by (simp_all add: canvas_ok_def)
  have l: "length (fst ?r) = scols ?s"
    using sanitize_loop_ok [OF row_cells_all_ok [OF sok(1), of row] sok(2), of "blank (bg (pen ?s))" 0]
      row_cells_length [OF sok(1) r(1)] by simp
  have le: "row * scols ?s + scols ?s \<le> length (cells ?s)" using row_end [OF r(1)] screen_okD(5) [OF sok(1)] by simp
  then have "min (length (cells ?s)) (row * scols ?s) = row * scols ?s" by simp
  then show ?thesis using l True by (simp add: sanitize_row_def Let_def case_prod_beta slice_def)
next
  case False
  have op: "op_ok cv (sanitize_row row cv, Inr (mutation_row row))" by (rule sanitize_row_ok [OF ok r(1)])
  then have "q \<notin> changed_rows (scr cv) (scr (sanitize_row row cv))" using False by (auto simp: op_ok_def step_ok_def)
  moreover have "screen_ok (scr cv)" "screen_ok (scr (sanitize_row row cv))" "same_size (scr cv) (scr (sanitize_row row cv))"
    using ok op_ok_canvas [OF op] op_ok_size [OF op] by (simp_all add: canvas_ok_def same_size_def)
  ultimately have "row_cells_of (scr (sanitize_row row cv)) q = row_cells_of (scr cv) q"
    using r(2) by (intro row_cells_unchanged)
  then show ?thesis using False by (simp only: if_False)
qed

lemma insert_characters_whole:
  assumes ok: "canvas_ok cv" and w: "units_whole (scr cv)"
  shows "units_whole (scr (fst (insert_characters n cv)))"
proof -
  let ?cv = "no_pending cv" and ?s = "scr (no_pending cv)"
  have ok': "canvas_ok ?cv" and w': "units_whole ?s" using ok w by (simp_all add: no_pending_ok)
  note b = canvas_region [OF ok']
  have sok: "screen_ok ?s" "store_ok (payloads ?cv)" using ok' by (simp_all add: canvas_ok_def)
  define k where "k = min (max n 1) (scols ?s - ccol ?s)"
  have k: "0 < k" "ccol ?s + k \<le> scols ?s" using b by (auto simp: k_def)
  let ?st = "crow ?s * scols ?s" and ?row = "crow ?s"
  define s1 where "s1 = ?s\<lparr>cells := fill_range (?st + ccol ?s) (?st + ccol ?s + k) (blank (bg (pen ?s)))
              (copy_within (?st + ccol ?s) (?st + scols ?s - k) (?st + ccol ?s + k) (cells ?s)),
            cell_anchors := fill_range (?st + ccol ?s) (?st + ccol ?s + k) None
              (copy_within (?st + ccol ?s) (?st + scols ?s - k) (?st + ccol ?s + k) (cell_anchors ?s))\<rparr>"
  define cv1 where "cv1 = ?cv\<lparr>scr := s1, payloads := release_cells (slice (?st + scols ?s - k) (?st + scols ?s) (cells ?s)) (payloads ?cv)\<rparr>"
  have eq: "fst (insert_characters n cv) = sanitize_row ?row cv1"
    using b k by (auto simp: insert_characters_def Let_def no_pending_ok k_def cv1_def s1_def)
  have step: "step_ok ?s s1 (mutation_row ?row)"
    unfolding s1_def using b k by (intro shift_in_row_ok sok) simp_all
  have ok1: "canvas_ok cv1" and sz: "srows (scr cv1) = srows ?s" "scols (scr cv1) = scols ?s"
    using step ok' release_cells_ok [OF sok(2)] by (simp_all add: cv1_def step_ok_def canvas_ok_def same_size_def)
  have row: "row_cells_of (scr cv1) ?row = take (ccol ?s) (row_cells_of ?s ?row) @ replicate k (blank (bg (pen ?s))) @
      take (scols ?s - k - ccol ?s) (drop (ccol ?s) (row_cells_of ?s ?row))"
    unfolding cv1_def using b k by (intro trans [OF _ insert_row_eq [OF sok(1) b(3,4) k(2), of s1]]) (simp_all add: s1_def)
  have len: "length (row_cells_of ?s ?row) = scols ?s" by (rule row_cells_length [OF sok(1) b(3)])
  have "pairs_ok (row_cells_of (scr cv1) ?row)"
    unfolding row using gap_pairs_ok [of "row_cells_of ?s ?row" k "ccol ?s"] k len w' b by (simp add: units_whole_def)
  then have "row_whole (fst (sanitize_loop (blank c) 0 (row_cells_of (scr cv1) ?row) st))" for c st
    by (intro sanitize_loop_whole) (simp_all add: prefix_whole_def)
  then have whole: "row_whole (row_cells_of (scr (sanitize_row ?row cv1)) ?row)"
    using sanitize_row_rows [OF ok1, of ?row ?row] b sz by simp
  have rest: "row_cells_of (scr (sanitize_row ?row cv1)) q = row_cells_of ?s q" if "q < srows ?s" "q \<noteq> ?row" for q
  proof -
    have "q \<notin> changed_rows ?s s1" using step that by (auto simp: step_ok_def)
    moreover have "screen_ok s1" "same_size ?s s1" using step by (simp_all add: step_ok_def)
    ultimately have "row_cells_of s1 q = row_cells_of ?s q"
      using sok(1) that(1) by (intro row_cells_unchanged)
    then show ?thesis using sanitize_row_rows [OF ok1, of ?row q] that b sz by (simp add: cv1_def)
  qed
  have "srows (scr (sanitize_row ?row cv1)) = srows ?s"
    using op_ok_size [OF sanitize_row_ok [OF ok1]] b sz by simp
  then show ?thesis unfolding eq by (rule units_wholeI [where row = ?row, OF w' _ rest whole])
qed

lemma clear_units_whole:
  "canvas_ok cv \<Longrightarrow> units_whole (scr cv) \<Longrightarrow> units_whole (scr (fst (clear_units cs row (cv, m))))"
proof (induction cs arbitrary: cv m)
  case (Cons c cs)
  have "canvas_ok (fst (clear_unit_at c row cv))" using op_ok_canvas [OF clear_unit_at_ok [OF Cons.prems(1)]] .
  then show ?case using Cons.IH clear_unit_whole [OF Cons.prems] by (simp add: case_prod_beta)
qed simp

lemma erase_display_all_whole:
  assumes "canvas_ok cv"
  shows "units_whole (scr (fst (erase_display_all lay cv)))"
proof -
  define cv1 where "cv1 = (if retain_history (scr cv) then fold (seal_screen_row lay) [0..<srows (scr cv)] cv else cv)"
  have q: "quiet cv cv1" using quiet_loops(3) quiet_refl by (simp add: cv1_def)
  have c: "canvas_ok cv1" using q assms by (simp add: quiet_def)
  let ?b = "blank (bg (pen (scr cv1)))"
  let ?s' = "scr (fst (erase_display_all lay cv))"
  have eq: "cells ?s' = replicate (length (cells (scr cv1))) ?b" "scols ?s' = scols (scr cv1)" "srows ?s' = srows (scr cv1)"
    unfolding erase_display_all_def Let_def cv1_def [symmetric]
    by (auto simp: erase_cells_def fill_range_def split: prod.splits sum.splits)
  have "row_cells_of ?s' r = replicate (scols (scr cv1)) ?b" if "r < srows (scr cv1)" for r
    using row_end [OF that, of "scols (scr cv1)"] c that by (simp add: eq slice_def canvas_ok_def screen_ok_def min_def)
  then show ?thesis by (simp add: units_whole_def eq)
qed

end
