(* ===== verification/Screen_Edits.thy ===== *)
theory Screen_Edits
  imports Screen_Units "HOL-Library.Code_Target_Nat"
begin

text \<open>
  The editing interface of a screen as its clients see it.  The locale \<open>canvas_op\<close> is the contract
  between the grid and the dispatcher of control sequences: an operation keeps the canvas well
  formed and reports a mutation that covers what it changed.  Every operation of
  \<open>crates/seyal-terminal/src/screen/ops.rs\<close> interprets it.  The datatype \<open>edit\<close> names the
  operations a byte stream can request, so that sequences of them can be reasoned about.
\<close>

section \<open>The contract\<close>

definition lift_op :: "(canvas \<Rightarrow> canvas \<times> mutation) \<Rightarrow> canvas \<Rightarrow> canvas \<times> mutation res" where
  "lift_op f cv = (let (cv', m) = f cv in (cv', Inr m))"

definition on_screen :: "(screen \<Rightarrow> screen \<times> mutation) \<Rightarrow> canvas \<Rightarrow> canvas \<times> mutation res" where
  "on_screen f cv = (let (s, m) = f (scr cv) in (cv\<lparr>scr := s\<rparr>, Inr m))"

locale canvas_op =
  fixes opn :: "canvas \<Rightarrow> canvas \<times> mutation res"
  assumes opn_ok: "canvas_ok cv \<Longrightarrow> op_ok cv (opn cv)"
begin

lemma opn_canvas: "canvas_ok cv \<Longrightarrow> canvas_ok (fst (opn cv))"
  using opn_ok [of cv] by (simp add: op_ok_def)

lemma opn_covers: "canvas_ok cv \<Longrightarrow> snd (opn cv) = Inr m \<Longrightarrow> changed_rows (scr cv) (scr (fst (opn cv))) \<subseteq> mutation_rows_of m"
  using opn_ok [of cv] by (simp add: op_ok_def step_ok_def)

lemma opn_then:
  assumes "canvas_ok cv" "\<And>cv'. canvas_ok cv' \<Longrightarrow> op_ok cv' (g cv')"
  shows "op_ok cv (bind_res (opn cv) (\<lambda>cv' m. bind_res (g cv') (\<lambda>cv'' m'. (cv'', Inr (merge m m')))))"
proof (cases "opn cv")
  case (Pair cv1 r)
  note op = opn_ok [OF assms(1), unfolded Pair]
  show ?thesis
  proof (cases r)
    case (Inl e)
    then show ?thesis using op Pair by (simp add: bind_res_def)
  next
    case (Inr m)
    obtain cv2 r2 where g: "g cv1 = (cv2, r2)" by fastforce
    note op2 = assms(2) [OF op_ok_canvas [OF op], unfolded g]
    show ?thesis
    proof (cases r2)
      case (Inl e)
      then show ?thesis using op op2 Pair Inr g same_size_trans by (auto simp: bind_res_def op_ok_def)
    next
      case i2: (Inr m2)
      then show ?thesis using op_ok_merge [OF op [unfolded Inr] op2 [unfolded i2]] Pair Inr g by (simp add: bind_res_def)
    qed
  qed
qed

end

text \<open>A cursor operation satisfies the same contract on the screen alone.\<close>

locale screen_op =
  fixes mv :: "screen \<Rightarrow> screen \<times> mutation"
  assumes mv_ok: "screen_ok s \<Longrightarrow> step_ok s (fst (mv s)) (snd (mv s))"
begin

lemma on_screen_ok: "canvas_ok cv \<Longrightarrow> op_ok cv (on_screen mv cv)"
  using mv_ok [of "scr cv"] by (auto simp: on_screen_def op_ok_def canvas_ok_def step_ok_def case_prod_beta)

end

sublocale screen_op \<subseteq> canvas_op "on_screen mv"
  by unfold_locales (rule on_screen_ok)

interpretation up_op: screen_op "cursor_up n" for n by unfold_locales (rule cursor_moves_ok)
interpretation down_op: screen_op "cursor_down n" for n by unfold_locales (rule cursor_moves_ok)
interpretation forward_op: screen_op "cursor_forward n" for n by unfold_locales (rule cursor_moves_ok)
interpretation back_op: screen_op "cursor_back n" for n by unfold_locales (rule cursor_moves_ok)
interpretation cursor_op: screen_op "set_cursor r c" for r c by unfold_locales (rule cursor_moves_ok)
interpretation col_op: screen_op "set_col c" for c by unfold_locales (rule cursor_moves_ok)
interpretation row_op: screen_op "set_row r" for r by unfold_locales (rule cursor_moves_ok)
interpretation restore_op: screen_op restore_cursor by unfold_locales (rule restore_cursor_ok)
interpretation region_op: screen_op "set_scroll_region t b" for t b by unfold_locales (rule set_scroll_region_ok)
interpretation execute_op: canvas_op "execute lay b" for lay b by unfold_locales (rule execute_ok)
interpretation index_op: canvas_op "index_down lay" for lay by unfold_locales (rule index_down_ok)
interpretation rindex_op: canvas_op reverse_index by unfold_locales (rule reverse_index_ok)
interpretation next_line_op: canvas_op "next_line lay" for lay by unfold_locales (rule next_line_ok)
interpretation scroll_up_op: canvas_op "scroll_up lay n brk" for lay n brk by unfold_locales (rule scroll_up_ok)
interpretation scroll_down_op: canvas_op "scroll_down n" for n by unfold_locales (rule scroll_down_ok)
interpretation insert_lines_op: canvas_op "insert_lines n" for n by unfold_locales (rule insert_lines_ok)
interpretation delete_lines_op: canvas_op "delete_lines lay n" for lay n by unfold_locales (rule delete_lines_ok)
interpretation erase_display_op: canvas_op "erase_display lay n" for lay n by unfold_locales (rule erase_display_ok)

lemma lift_op_ok: "op_ok cv (fst (f cv), Inr (snd (f cv))) \<Longrightarrow> op_ok cv (lift_op f cv)"
  by (simp add: lift_op_def case_prod_beta)

interpretation erase_line_op: canvas_op "lift_op (erase_line n)" for n
  by unfold_locales (intro lift_op_ok erase_line_ok)
interpretation insert_chars_op: canvas_op "lift_op (insert_characters n)" for n
  by unfold_locales (intro lift_op_ok insert_characters_ok)
interpretation delete_chars_op: canvas_op "lift_op (delete_characters n)" for n
  by unfold_locales (intro lift_op_ok delete_characters_ok)
interpretation erase_chars_op: canvas_op "lift_op (erase_characters n)" for n
  by unfold_locales (intro lift_op_ok erase_characters_ok)

section \<open>Edits\<close>

datatype edit =
    Put cell bool
  | Cursor_Up nat
  | Cursor_Down nat
  | Cursor_Forward nat
  | Cursor_Back nat
  | Cursor_To nat nat
  | Column_To nat
  | Row_To nat
  | Cursor_Save
  | Cursor_Restore
  | Region nat nat
  | Rendition "nat list"
  | Control byte
  | Index
  | Reverse_Index
  | Next_Line
  | Scroll_Up nat
  | Scroll_Down nat
  | Insert_Lines nat
  | Delete_Lines nat
  | Insert_Chars nat
  | Delete_Chars nat
  | Erase_Chars nat
  | Erase_Line nat
  | Erase_Display nat

definition put_unit :: "layout \<Rightarrow> cell \<Rightarrow> bool \<Rightarrow> canvas \<Rightarrow> canvas \<times> mutation res" where
  "put_unit lay lead wrap cv = bind_res (place_new_unit lay lead wrap cv) (\<lambda>cv' (m, _). (cv', Inr m))"

fun run_edit :: "layout \<Rightarrow> edit \<Rightarrow> canvas \<Rightarrow> canvas \<times> mutation res" where
  "run_edit lay (Put lead wrap) = put_unit lay lead wrap"
| "run_edit lay (Cursor_Up n) = on_screen (cursor_up n)"
| "run_edit lay (Cursor_Down n) = on_screen (cursor_down n)"
| "run_edit lay (Cursor_Forward n) = on_screen (cursor_forward n)"
| "run_edit lay (Cursor_Back n) = on_screen (cursor_back n)"
| "run_edit lay (Cursor_To r c) = on_screen (set_cursor r c)"
| "run_edit lay (Column_To c) = on_screen (set_col c)"
| "run_edit lay (Row_To r) = on_screen (set_row r)"
| "run_edit lay Cursor_Save = on_screen (\<lambda>s. (save_cursor s, mutation_none))"
| "run_edit lay Cursor_Restore = on_screen restore_cursor"
| "run_edit lay (Region t b) = on_screen (set_scroll_region t b)"
| "run_edit lay (Rendition ps) = on_screen (\<lambda>s. (fst (apply_sgr ps s), mutation_none))"
| "run_edit lay (Control b) = execute lay b"
| "run_edit lay Index = index_down lay"
| "run_edit lay Reverse_Index = reverse_index"
| "run_edit lay Next_Line = next_line lay"
| "run_edit lay (Scroll_Up n) = scroll_up lay n HardBreak"
| "run_edit lay (Scroll_Down n) = scroll_down n"
| "run_edit lay (Insert_Lines n) = insert_lines n"
| "run_edit lay (Delete_Lines n) = delete_lines lay n"
| "run_edit lay (Insert_Chars n) = lift_op (insert_characters n)"
| "run_edit lay (Delete_Chars n) = lift_op (delete_characters n)"
| "run_edit lay (Erase_Chars n) = lift_op (erase_characters n)"
| "run_edit lay (Erase_Line n) = lift_op (erase_line n)"
| "run_edit lay (Erase_Display n) = erase_display lay n"

fun edit_ok :: "edit \<Rightarrow> bool" where
  "edit_ok (Put lead wrap) = (cell_ok lead \<and> role lead = Lead)"
| "edit_ok _ = True"

fun run_edits :: "layout \<Rightarrow> edit list \<Rightarrow> canvas \<Rightarrow> canvas \<times> mutation res" where
  "run_edits lay [] cv = (cv, Inr mutation_none)"
| "run_edits lay (e # es) cv =
    bind_res (run_edit lay e cv) (\<lambda>cv' m. bind_res (run_edits lay es cv') (\<lambda>cv'' m'. (cv'', Inr (merge m m'))))"

lemma put_unit_ok:
  assumes "canvas_ok cv" "cell_ok lead"
  shows "op_ok cv (put_unit lay lead wrap cv)"
proof (cases "place_new_unit lay lead wrap cv")
  case (Pair cv1 r)
  with place_new_unit_ok [OF assms, of lay wrap] show ?thesis
    by (cases r) (auto simp: put_unit_def bind_res_def place_ok_def)
qed

lemma pen_op_ok: "screen_ok s \<Longrightarrow> step_ok s (save_cursor s) mutation_none" "screen_ok s \<Longrightarrow> step_ok s (fst (apply_sgr ps s)) mutation_none"
  by (auto simp: save_cursor_def apply_sgr_def step_ok_def same_size_def Let_def case_prod_beta)

interpretation save_op: screen_op "\<lambda>s. (save_cursor s, mutation_none)"
  by unfold_locales (simp add: pen_op_ok)
interpretation sgr_op: screen_op "\<lambda>s. (fst (apply_sgr ps s), mutation_none)" for ps
  by unfold_locales (simp add: pen_op_ok)

lemma run_edit_ok: "canvas_ok cv \<Longrightarrow> edit_ok e \<Longrightarrow> op_ok cv (run_edit lay e cv)"
  by (cases e) (simp_all add: put_unit_ok up_op.opn_ok down_op.opn_ok forward_op.opn_ok back_op.opn_ok
      cursor_op.opn_ok col_op.opn_ok row_op.opn_ok restore_op.opn_ok region_op.opn_ok execute_op.opn_ok
      index_op.opn_ok rindex_op.opn_ok next_line_op.opn_ok scroll_up_op.opn_ok scroll_down_op.opn_ok
      insert_lines_op.opn_ok delete_lines_op.opn_ok erase_display_op.opn_ok erase_line_op.opn_ok
      insert_chars_op.opn_ok delete_chars_op.opn_ok erase_chars_op.opn_ok save_op.opn_ok sgr_op.opn_ok)

text \<open>An admissible edit, seen as an operation; anything else is left out.\<close>

definition guarded_edit :: "layout \<Rightarrow> edit \<Rightarrow> canvas \<Rightarrow> canvas \<times> mutation res" where
  "guarded_edit lay e cv = (if edit_ok e then run_edit lay e cv else (cv, Inr mutation_none))"

interpretation edit_op: canvas_op "guarded_edit lay e" for lay e
  by unfold_locales (simp add: guarded_edit_def run_edit_ok op_ok_none)

lemma run_edits_ok: "canvas_ok cv \<Longrightarrow> list_all edit_ok es \<Longrightarrow> op_ok cv (run_edits lay es cv)"
proof (induction es arbitrary: cv)
  case Nil
  then show ?case by (simp add: op_ok_none)
next
  case (Cons e es)
  then have "guarded_edit lay e = run_edit lay e" by (simp add: guarded_edit_def fun_eq_iff)
  with edit_op.opn_then [OF Cons.prems(1), of "run_edits lay es" lay e] Cons.IH Cons.prems(2) show ?case by simp
qed

section \<open>Wide units under editing\<close>

text \<open>
  The edits that cannot cut a two-cell unit in half.  The partial erasures and the deletion of
  characters are not among them.
\<close>

fun keeps_units :: "edit \<Rightarrow> bool" where
  "keeps_units (Delete_Chars n) = False"
| "keeps_units (Erase_Line n) = (n \<ge> 2)"
| "keeps_units (Erase_Display n) = (n \<ge> 2)"
| "keeps_units _ = True"

lemma on_screen_cells_whole:
  "cells (fst (f (scr cv))) = cells (scr cv) \<Longrightarrow> scols (fst (f (scr cv))) = scols (scr cv) \<Longrightarrow>
   srows (fst (f (scr cv))) = srows (scr cv) \<Longrightarrow> units_whole (scr cv) \<Longrightarrow> units_whole (scr (fst (on_screen f cv)))"
  using units_whole_cells [of "fst (f (scr cv))" "scr cv"] by (simp add: on_screen_def case_prod_beta)

lemma cursor_cells:
  "cells (fst (cursor_up n s)) = cells s" "cells (fst (cursor_down n s)) = cells s" "cells (fst (cursor_forward n s)) = cells s"
  "cells (fst (cursor_back n s)) = cells s" "cells (fst (set_cursor r c s)) = cells s" "cells (fst (set_col c s)) = cells s"
  "cells (fst (set_row r s)) = cells s" "cells (fst (restore_cursor s)) = cells s" "cells (fst (set_scroll_region t b s)) = cells s"
  "cells (save_cursor s) = cells s" "cells (fst (apply_sgr ps s)) = cells s" "cells (fst (backspace s)) = cells s"
  "cells (fst (tab s)) = cells s" "cells (fst (carriage_return s)) = cells s"
  by (simp_all add: cursor_up_def cursor_down_def cursor_forward_def cursor_back_def set_cursor_def set_col_def set_row_def
      restore_cursor_def set_scroll_region_def save_cursor_def apply_sgr_def backspace_def tab_def carriage_return_def
      place_cursor_def Let_def case_prod_beta split: option.splits)

lemma on_screen_whole:
  assumes "canvas_ok cv" "op_ok cv (on_screen f cv)" "cells (fst (f (scr cv))) = cells (scr cv)" "units_whole (scr cv)"
  shows "units_whole (scr (fst (on_screen f cv)))"
  using assms by (intro on_screen_cells_whole) (auto simp: op_ok_def same_size_def on_screen_def case_prod_beta)

lemma cursor_update_whole [simp]: "units_whole (s\<lparr>scursor := c\<rparr>) = units_whole s"
  by (rule units_whole_cells) simp_all

lemma line_ops_whole:
  assumes ok: "canvas_ok cv" and w: "units_whole (scr cv)"
  shows "units_whole (scr (fst (insert_lines n cv)))" "units_whole (scr (fst (delete_lines lay n cv)))"
    "units_whole (scr (fst (reverse_index cv)))" "units_whole (scr (fst (next_line lay cv)))"
    "units_whole (scr (fst (index_down lay cv)))" "units_whole (scr (fst (execute lay b cv)))"
proof -
  have ok': "canvas_ok (no_pending cv)" and w': "units_whole (scr (no_pending cv))" using ok w by (simp_all add: no_pending_ok)
  note b = canvas_region [OF ok] no_pending_ok
  show "units_whole (scr (fst (insert_lines n cv)))"
    using shift_down_whole [OF ok' _ _ w'] b w ok by (auto simp: insert_lines_def Let_def)
  show "units_whole (scr (fst (delete_lines lay n cv)))"
    using shift_up_whole [OF ok' _ _ w'] b w ok by (auto simp: delete_lines_def Let_def)
  show "units_whole (scr (fst (reverse_index cv)))"
    using scroll_whole(2) [OF ok' w'] w' by (simp add: reverse_index_def Let_def)
  have i: "units_whole (scr (fst (index_down lay cv)))" if "canvas_ok cv" "units_whole (scr cv)" for cv
    using line_feed_whole [OF that] by (simp add: index_down_def)
  show "units_whole (scr (fst (index_down lay cv)))" by (rule i [OF ok w])
  let ?c = "cv\<lparr>scr := fst (carriage_return (scr cv))\<rparr>"
  have "canvas_ok ?c" using cursor_moves_ok(10) [of "scr cv"] ok by (simp add: canvas_ok_def step_ok_def)
  moreover have "units_whole (scr ?c)" using w by (simp add: carriage_return_def place_cursor_def)
  ultimately show "units_whole (scr (fst (next_line lay cv)))"
    using i [of ?c] by (simp add: next_line_def case_prod_beta bind_res_fst)
  show "units_whole (scr (fst (execute lay b cv)))"
    using line_feed_whole [OF ok w] w
    by (simp add: execute_def case_prod_beta backspace_def tab_def carriage_return_def place_cursor_def Let_def)
qed


lemma erase_line_all_whole:
  assumes ok: "canvas_ok cv" and w: "units_whole (scr cv)" and n: "2 \<le> n"
  shows "units_whole (scr (fst (erase_line n cv)))"
proof (cases "n = 2")
  case True
  let ?s = "scr cv" and ?s' = "scr (fst (erase_line n cv))"
  have sok: "screen_ok ?s" using ok by (simp add: canvas_ok_def)
  have eq: "?s' = ?s\<lparr>cells := cells (blank_row (crow ?s) ?s)\<rparr>"
    using True by (simp add: erase_line_def Let_def erase_cells_def blank_row_def)
  note b = canvas_region [OF ok]
  have rows: "row_cells_of ?s' r = (if r = crow ?s then replicate (scols ?s) (blank (bg (pen ?s))) else row_cells_of ?s r)"
    if "r < srows ?s" for r
    using row_cells_blank [OF sok b(3) that] by (simp add: eq blank_row_def)
  show ?thesis
    by (rule units_wholeI [where row = "crow ?s", OF w]) (use rows b in \<open>auto simp: eq\<close>)
qed (use assms in \<open>simp add: erase_line_def Let_def\<close>)

lemma erase_chars_whole:
  assumes "canvas_ok cv" "units_whole (scr cv)"
  shows "units_whole (scr (fst (erase_characters n cv)))"
  using clear_units_whole [of "no_pending cv"] assms by (simp add: erase_characters_def Let_def no_pending_ok)

lemma run_edit_whole:
  assumes ok: "canvas_ok cv" and w: "units_whole (scr cv)" and e: "edit_ok e" "keeps_units e"
  shows "units_whole (scr (fst (run_edit lay e cv)))"
proof (cases e)
  case (Put lead wrap)
  have "fst (put_unit lay lead wrap cv) = fst (place_new_unit lay lead wrap cv)"
    by (cases "place_new_unit lay lead wrap cv"; cases "snd (place_new_unit lay lead wrap cv)")
      (auto simp: put_unit_def bind_res_def)
  then show ?thesis using Put e place_new_unit_whole [OF ok w] by simp
next
  case (Erase_Display n)
  then show ?thesis using e w erase_display_all_whole [OF ok] by (simp add: erase_display_def Let_def)
qed (use e in \<open>simp_all add: on_screen_whole [OF ok _ _ w] cursor_cells line_ops_whole [OF ok w] scroll_whole [OF ok w]
      up_op.opn_ok [OF ok] down_op.opn_ok [OF ok] forward_op.opn_ok [OF ok] back_op.opn_ok [OF ok]
      cursor_op.opn_ok [OF ok] col_op.opn_ok [OF ok] row_op.opn_ok [OF ok] restore_op.opn_ok [OF ok] region_op.opn_ok [OF ok]
      save_op.opn_ok [OF ok] sgr_op.opn_ok [OF ok] lift_op_def case_prod_beta
      insert_characters_whole [OF ok w] erase_chars_whole [OF ok w] erase_line_all_whole [OF ok w]\<close>)

lemma run_edits_whole:
  "canvas_ok cv \<Longrightarrow> units_whole (scr cv) \<Longrightarrow> list_all edit_ok es \<Longrightarrow> list_all keeps_units es \<Longrightarrow>
   units_whole (scr (fst (run_edits lay es cv)))"
proof (induction es arbitrary: cv)
  case (Cons e es)
  obtain cv1 r where r: "run_edit lay e cv = (cv1, r)" by fastforce
  have 1: "canvas_ok cv1" "units_whole (scr cv1)"
    using run_edit_ok [OF Cons.prems(1), of e lay] run_edit_whole [OF Cons.prems(1,2), of e lay] Cons.prems r
    by (simp_all add: op_ok_def)
  show ?case
  proof (cases r)
    case (Inr m)
    then show ?thesis using r Cons.IH [OF 1] Cons.prems by (cases "run_edits lay es cv1"; cases "snd (run_edits lay es cv1)")
        (simp_all add: bind_res_def)
  qed (use r 1 in \<open>simp add: bind_res_def\<close>)
qed simp

section \<open>Properties\<close>

definition fresh_canvas :: "nat \<Rightarrow> nat \<Rightarrow> bool \<Rightarrow> canvas option" where
  "fresh_canvas cols rows retain =
    (case new_screen cols rows new_allocator retain of
       (ids, Inr s) \<Rightarrow> Some \<lparr>scr = s, alloc = ids, payloads = new_store\<rparr>
     | (ids, Inl e) \<Rightarrow> None)"

lemma fresh_canvas_ok:
  assumes "fresh_canvas cols rows retain = Some cv"
  shows "canvas_ok cv" "units_whole (scr cv)" "scols (scr cv) = cols" "srows (scr cv) = rows"
proof -
  obtain ids s where n: "new_screen cols rows new_allocator retain = (ids, Inr s)"
    and cv: "cv = \<lparr>scr = s, alloc = ids, payloads = new_store\<rparr>"
    using assms by (auto simp: fresh_canvas_def split: prod.splits sum.splits)
  note s = new_screen_ok [OF n]
  have "allocator_ok ids" using new_screen_alloc_ok [OF new_allocator_ok, of cols rows retain] n by simp
  then show "canvas_ok cv" using s cv by (simp add: canvas_ok_def new_store_ok)
  show "scols (scr cv) = cols" "srows (scr cv) = rows" using s cv by simp_all
  have "cells s = replicate (cols * rows) (blank DefaultColor)"
    using n by (auto simp: new_screen_def bind_res_def default_cell_def split: if_splits prod.splits sum.splits)
  then have "row_cells_of s r = replicate (length (row_cells_of s r)) (blank DefaultColor)" for r
    by (simp add: slice_def)
  then have "row_whole (row_cells_of s r)" for r by (metis row_whole_replicate)
  then show "units_whole (scr cv)" by (simp add: cv units_whole_def)
qed

text \<open>
  C23 (screen_edits_sound): any sequence of edits, in any order and with any parameters, keeps the
  canvas well formed (cursor and scroll region inside the grid, every buffer of the grid's size,
  every cell within the cell discipline, the payload store within its budget) and keeps the size
  of the grid; when no edit fails, the merged mutation covers every row whose cells changed and
  names no row outside the grid.
\<close>

theorem screen_edits_sound:
  assumes "canvas_ok cv" "list_all edit_ok es"
  shows "canvas_ok (fst (run_edits lay es cv)) \<and>
    scols (scr (fst (run_edits lay es cv))) = scols (scr cv) \<and> srows (scr (fst (run_edits lay es cv))) = srows (scr cv) \<and>
    (\<forall>m. snd (run_edits lay es cv) = Inr m \<longrightarrow>
       changed_rows (scr cv) (scr (fst (run_edits lay es cv))) \<subseteq> mutation_rows_of m \<and>
       mutation_rows_of m \<subseteq> {..<srows (scr cv)})"
  using run_edits_ok [OF assms, of lay] by (auto simp: op_ok_def step_ok_def same_size_def)

definition sample_script :: "edit list" where
  "sample_script = [Put (lead_inline 0x41 1 default_style) True, Put (lead_inline 0x4e16 2 default_style) True,
     Control 0x0a, Insert_Chars 1, Cursor_To 0 1, Erase_Chars 1, Insert_Lines 1, Reverse_Index]"

lemma some_the: "\<not> Option.is_none x \<Longrightarrow> x = Some (the x)"
  by (simp add: Option.is_none_def)

theorem screen_edits_sound_witness:
  "canvas_ok (fst (run_edits layout64 sample_script (the (fresh_canvas 4 3 True)))) \<and> list_all edit_ok sample_script"
proof -
  have f: "fresh_canvas 4 3 True = Some (the (fresh_canvas 4 3 True))" by (rule some_the) code_simp
  have s: "list_all edit_ok sample_script" by code_simp
  show ?thesis using screen_edits_sound [OF fresh_canvas_ok(1) [OF f] s, of layout64] s by blast
qed

text \<open>
  C24 (screen_units_stay_whole): printing, scrolling, inserting lines or characters, deleting lines,
  erasing characters and clearing a whole line or the whole display never cut a two-cell unit in
  half: if every wide lead was followed by its continuation and every continuation preceded by a
  wide lead, that is so afterwards.
\<close>

theorem screen_units_stay_whole:
  assumes "canvas_ok cv" "units_whole (scr cv)" "list_all edit_ok es" "list_all keeps_units es"
  shows "units_whole (scr (fst (run_edits lay es cv)))"
  by (rule run_edits_whole [OF assms])

theorem screen_units_stay_whole_witness:
  "units_whole (scr (fst (run_edits layout64 sample_script (the (fresh_canvas 4 3 True)))))"
proof -
  have f: "fresh_canvas 4 3 True = Some (the (fresh_canvas 4 3 True))" by (rule some_the) code_simp
  have s: "list_all edit_ok sample_script" "list_all keeps_units sample_script" by code_simp+
  show ?thesis by (rule screen_units_stay_whole [OF fresh_canvas_ok(1,2) [OF f] s])
qed

section \<open>Operations that cut a unit in half\<close>

lemma erase_right_row:
  assumes ok: "canvas_ok cv"
  shows "row_cells_of (scr (fst (erase_line 0 cv))) (crow (scr cv)) =
    take (ccol (scr cv)) (row_cells_of (scr cv) (crow (scr cv))) @
    replicate (scols (scr cv) - ccol (scr cv)) (blank (bg (pen (scr cv))))"
proof -
  let ?s = "scr cv"
  note b = canvas_region [OF ok]
  have le: "crow ?s * scols ?s + scols ?s \<le> length (cells ?s)"
    using row_end [OF b(3)] screen_okD(5) [of ?s] ok by (simp add: canvas_ok_def)
  then show ?thesis using b(4) by (simp add: erase_line_def erase_cells_def Let_def fill_range_def slice_def min_def drop_take)
qed

text \<open>
  C35 (partial_erase_splits_units): when the cursor stands behind the lead of a wide unit, erasing to
  the end of the line keeps that lead, still two cells wide, and blanks everything from the cursor
  on: the grid then holds a wide lead without its continuation.
\<close>

theorem partial_erase_splits_units:
  assumes "canvas_ok cv" "0 < ccol (scr cv)"
    and "wide_at (row_cells_of (scr cv) (crow (scr cv))) (ccol (scr cv) - 1)"
  shows "row_cells_of (scr (fst (erase_line 0 cv))) (crow (scr cv)) =
      take (ccol (scr cv)) (row_cells_of (scr cv) (crow (scr cv))) @
      replicate (scols (scr cv) - ccol (scr cv)) (blank (bg (pen (scr cv)))) \<and>
    \<not> units_whole (scr (fst (erase_line 0 cv)))"
proof -
  let ?s = "scr cv" and ?s' = "scr (fst (erase_line 0 cv))"
  note b = canvas_region [OF assms(1)]
  have len: "length (row_cells_of ?s (crow ?s)) = scols ?s"
    using row_cells_length [of ?s "crow ?s"] b assms(1) by (simp add: canvas_ok_def)
  note row = erase_right_row [OF assms(1)]
  have "srows ?s' = srows ?s" by (simp add: erase_line_def erase_cells_def Let_def)
  moreover have "\<not> row_whole (row_cells_of ?s' (crow ?s))"
  proof
    assume w: "row_whole (row_cells_of ?s' (crow ?s))"
    have "wide_at (row_cells_of ?s' (crow ?s)) (ccol ?s - 1)"
      unfolding row using assms(2,3) len b(4) by (simp add: wide_at_def nth_append)
    moreover have "length (row_cells_of ?s' (crow ?s)) = scols ?s" unfolding row using len b(4) by simp
    ultimately have "role (row_cells_of ?s' (crow ?s) ! ccol ?s) = Continuation"
      using w b(4) assms(2) unfolding row_whole_def by (metis Suc_eq_plus1 Suc_diff_1 less_imp_diff_less)
    then show False unfolding row using len b(4) by (simp add: nth_append)
  qed
  ultimately show ?thesis using row b(3) by (auto simp: units_whole_def)
qed

theorem partial_erase_splits_units_witness:
  "\<not> units_whole (scr (fst (erase_line 0 (fst (run_edits layout64
      [Put (lead_inline 0x4e16 2 default_style) True, Column_To 1] (the (fresh_canvas 4 2 True)))))))"
proof -
  let ?es = "[Put (lead_inline 0x4e16 2 default_style) True, Column_To 1]"
  let ?cv = "fst (run_edits layout64 ?es (the (fresh_canvas 4 2 True)))"
  have f: "fresh_canvas 4 2 True = Some (the (fresh_canvas 4 2 True))" by (rule some_the) code_simp
  have e: "list_all edit_ok ?es" by code_simp
  have ok: "canvas_ok ?cv" using run_edits_ok [OF fresh_canvas_ok(1) [OF f] e] by (simp add: op_ok_def)
  have c: "0 < ccol (scr ?cv)" "wide_at (row_cells_of (scr ?cv) (crow (scr ?cv))) (ccol (scr ?cv) - 1)" by code_simp+
  show ?thesis using partial_erase_splits_units [OF ok c] by blast
qed

text \<open>Deleting cells of a row, and when \<open>sanitize_row\<close> finds nothing to repair.\<close>

lemma sanitize_loop_id:
  "\<forall>i < length cs. wide_at cs i \<longrightarrow> i + 1 < length cs \<and> role (cs ! (i + 1)) = Continuation \<Longrightarrow>
   \<forall>i < length cs. role (cs ! i) = Continuation \<longrightarrow> 0 < i \<and> role (cs ! (i - 1)) = Lead \<Longrightarrow>
   sanitize_loop b col cs st = (cs, st)"
proof (induction "length cs - col" arbitrary: col rule: less_induct)
  case less
  have IH: "sanitize_loop b c cs st = (cs, st)" if "col < c" "col < length cs" for c
    using less.hyps [of c] less.prems that by simp
  have at: "wide_at cs col \<Longrightarrow> col + 1 < length cs \<and> role (cs ! (col + 1)) = Continuation"
    "role (cs ! col) = Continuation \<Longrightarrow> 0 < col \<and> role (cs ! (col - 1)) = Lead" if "col < length cs"
    using less.prems that by blast+
  show ?case
  proof (cases "col < length cs")
    case True
    then show ?thesis using IH [OF _ True] at [OF True] by (subst sanitize_loop.simps) (auto simp: Let_def wide_at_def)
  next
    case False
    then show ?thesis by (subst sanitize_loop.simps) simp
  qed
qed

lemma delete_row_eq:
  assumes ok: "screen_ok s" and r: "row < srows s" and k: "col + k \<le> scols s"
    and s': "scols s' = scols s" "cells s' = fill_range (row * scols s + scols s - k) (row * scols s + scols s) b
        (copy_within (row * scols s + col + k) (row * scols s + scols s) (row * scols s + col) (cells s))"
  shows "row_cells_of s' row = take col (row_cells_of s row) @ drop (col + k) (row_cells_of s row) @ replicate k b"
proof (rule nth_equalityI)
  let ?C = "scols s" and ?st = "row * scols s"
  have le: "?st + ?C \<le> length (cells s)" using row_end [OF r] screen_okD(5) [OF ok] by simp
  have lc: "length (copy_within (?st + col + k) (?st + ?C) (?st + col) (cells s)) = length (cells s)"
    using k le by (simp add: length_copy_within)
  have l': "length (cells s') = length (cells s)" using s'(2) lc k le by (simp add: length_fill_range)
  have rl: "length (row_cells_of s row) = ?C" using le by (simp add: length_slice)
  show len: "length (row_cells_of s' row) =
      length (take col (row_cells_of s row) @ drop (col + k) (row_cells_of s row) @ replicate k b)"
    using l' le s'(1) rl k by (simp add: length_slice)
  fix i assume "i < length (row_cells_of s' row)"
  then have i: "i < ?C" using l' le s'(1) by (simp add: length_slice)
  have "row_cells_of s' row ! i = cells s' ! (?st + i)" using i l' le s'(1) by (simp add: nth_slice)
  also have "\<dots> = (if ?C - k \<le> i then b else
      copy_within (?st + col + k) (?st + ?C) (?st + col) (cells s) ! (?st + i))"
    unfolding s'(2) using i k le lc by (subst nth_fill_range) auto
  also have "\<dots> = (if ?C - k \<le> i then b else if col \<le> i then cells s ! (?st + (i + k)) else cells s ! (?st + i))"
    using i k le by (subst nth_copy_within) (auto simp: algebra_simps)
  also have "\<dots> = (take col (row_cells_of s row) @ drop (col + k) (row_cells_of s row) @ replicate k b) ! i"
    using i k le rl by (auto simp: nth_append nth_slice min_def algebra_simps)
  finally show "row_cells_of s' row ! i = \<dots>" .
qed

lemma cut_row_settled:
  assumes w: "row_whole cs" and k: "0 < col" "col + k < length cs" and lead: "role (cs ! (col - 1)) = Lead" "cell_width (cs ! (col - 1)) < 2"
  shows "sanitize_loop x c (take col cs @ drop (col + k) cs @ replicate k (blank b)) st =
    (take col cs @ drop (col + k) cs @ replicate k (blank b), st)" (is "sanitize_loop x c ?new st = _")
proof (rule sanitize_loop_id)
  have len: "length ?new = length cs" using k by simp
  have nth: "?new ! j = (if j < col then cs ! j else if j + k < length cs then cs ! (j + k) else blank b)" if "j < length cs" for j
    using that k by (auto simp: nth_append min_def add.commute)
  have wide: "j + 1 < length cs" "role (cs ! (j + 1)) = Continuation" if "wide_at cs j" "j < length cs" for j
    using w that by (auto simp: row_whole_def)
  have cont: "0 < j" "role (cs ! (j - 1)) = Lead" if "role (cs ! j) = Continuation" "j < length cs" for j
    using w that by (auto simp: row_whole_def wide_at_def)
  show "\<forall>i < length ?new. wide_at ?new i \<longrightarrow> i + 1 < length ?new \<and> role (?new ! (i + 1)) = Continuation"
  proof (intro allI impI)
    fix i assume i: "i < length ?new" and wi: "wide_at ?new i"
    show "i + 1 < length ?new \<and> role (?new ! (i + 1)) = Continuation"
    proof (cases "i < col")
      case True
      then have wc: "wide_at cs i" using wi nth [of i] i len by (simp add: wide_at_def)
      then have "i \<noteq> col - 1" using lead(2) by (auto simp: wide_at_def)
      then have "i + 1 < col" using True by simp
      then show ?thesis using wide [OF wc] True i len nth [of "i + 1"] by simp
    next
      case False
      then have "i + k < length cs" "wide_at cs (i + k)" using wi nth [of i] i len by (auto simp: wide_at_def split: if_splits)
      then show ?thesis using wide [of "i + k"] False i len nth [of "i + 1"] by simp
    qed
  qed
  show "\<forall>i < length ?new. role (?new ! i) = Continuation \<longrightarrow> 0 < i \<and> role (?new ! (i - 1)) = Lead"
  proof (intro allI impI)
    fix i assume i: "i < length ?new" and ci: "role (?new ! i) = Continuation"
    show "0 < i \<and> role (?new ! (i - 1)) = Lead"
    proof (cases "i \<le> col")
      case True
      then show ?thesis using cont [of i] lead(1) ci nth [of i] nth [of "i - 1"] i len k by (cases "i = col") (auto split: if_splits)
    next
      case False
      then have c: "i + k < length cs" "role (cs ! (i + k)) = Continuation" using ci nth [of i] i len by (auto split: if_splits)
      have e: "i + k - 1 = (i - 1) + k" "\<not> i - 1 < col" "i - 1 < length cs" "i - 1 + k < length cs" "0 < i" using False c(1) by auto
      have "?new ! (i - 1) = cs ! (i - 1 + k)" unfolding nth [OF e(3)] using e(2,4) by (simp only: if_True if_False)
      then show ?thesis using cont(2) [OF c(2,1)] e(1,5) by (simp only: simp_thms)
    qed
  qed
qed

text \<open>
  C36 (delete_leaves_orphan): when a deletion ends between the two cells of a wide unit and the cell
  before the cursor is a narrow lead, the continuation of that unit stays behind next to a lead it
  does not belong to: the repair of the row looks only for a lead before it, not for a wide one.
\<close>

theorem delete_leaves_orphan:
  assumes "canvas_ok cv" "units_whole (scr cv)"
    and "cs = row_cells_of (scr cv) (crow (scr cv))" "col = ccol (scr cv)" "n = max count 1" "0 < col" "col + n < scols (scr cv)"
    and "role (cs ! (col - 1)) = Lead" "cell_width (cs ! (col - 1)) < 2" "role (cs ! (col + n)) = Continuation"
  shows "row_cells_of (scr (fst (delete_characters count cv))) (crow (scr cv)) =
      take col cs @ drop (col + n) cs @ replicate n (blank (bg (pen (scr cv)))) \<and>
    \<not> units_whole (scr (fst (delete_characters count cv)))"
proof -
  let ?cv = "no_pending cv" and ?s = "scr (no_pending cv)"
  have np: "scols ?s = scols (scr cv)" "srows ?s = srows (scr cv)" "crow ?s = crow (scr cv)" "ccol ?s = ccol (scr cv)"
    "cells ?s = cells (scr cv)" "pen ?s = pen (scr cv)"
    by (simp_all add: no_pending_def set_pending_wrap_def)
  have ok': "canvas_ok ?cv" using assms(1) by (simp add: no_pending_ok)
  note b = canvas_region [OF ok']
  have sok: "screen_ok ?s" "store_ok (payloads ?cv)" using ok' by (simp_all add: canvas_ok_def)
  have n: "0 < n" "n = min (max count 1) (scols ?s - ccol ?s)" using assms(4,5,7) np by auto
  let ?st = "crow ?s * scols ?s" and ?row = "crow ?s" and ?b = "blank (bg (pen (scr cv)))"
  define s1 where "s1 = ?s\<lparr>cells := fill_range (?st + scols ?s - n) (?st + scols ?s) (blank (bg (pen ?s)))
              (copy_within (?st + ccol ?s + n) (?st + scols ?s) (?st + ccol ?s) (cells ?s)),
            cell_anchors := fill_range (?st + scols ?s - n) (?st + scols ?s) None
              (copy_within (?st + ccol ?s + n) (?st + scols ?s) (?st + ccol ?s) (cell_anchors ?s))\<rparr>"
  define cv1 where "cv1 = ?cv\<lparr>scr := s1, payloads := release_cells (slice (?st + ccol ?s) (?st + ccol ?s + n) (cells ?s)) (payloads ?cv)\<rparr>"
  have eq: "fst (delete_characters count cv) = sanitize_row ?row cv1"
    using b n(1) unfolding cv1_def s1_def n(2) by (auto simp: delete_characters_def Let_def np)
  have step: "step_ok ?s s1 (mutation_row ?row)"
    unfolding s1_def using b assms(4,7) np by (intro shift_in_row_ok sok) simp_all
  have ok1: "canvas_ok cv1" and sz: "srows (scr cv1) = srows ?s" "scols (scr cv1) = scols ?s"
    using step ok' release_cells_ok [OF sok(2)] by (simp_all add: cv1_def step_ok_def canvas_ok_def same_size_def)
  have row: "row_cells_of (scr cv1) ?row = take col cs @ drop (col + n) cs @ replicate n ?b"
    using delete_row_eq [OF sok(1) b(3), of col n s1 ?b] assms(3,4,7) np by (simp add: cv1_def s1_def)
  have len: "length cs = scols (scr cv)" using row_cells_length [OF sok(1) b(3)] np assms(3) by simp
  have whole: "row_whole cs" using assms(2,3) b(3) np by (simp add: units_whole_def)
  have res: "row_cells_of (scr (fst (delete_characters count cv))) ?row = take col cs @ drop (col + n) cs @ replicate n ?b"
    unfolding eq using sanitize_row_rows [OF ok1, of ?row ?row] b(3) sz row
      cut_row_settled [OF whole assms(6) _ assms(8,9)] assms(7) len by simp
  have "\<not> row_whole (take col cs @ drop (col + n) cs @ replicate n ?b)"
  proof
    assume w: "row_whole (take col cs @ drop (col + n) cs @ replicate n ?b)" (is "row_whole ?new")
    have "?new ! col = cs ! (col + n)" "?new ! (col - 1) = cs ! (col - 1)" "col < length ?new"
      using assms(6,7) len by (simp_all add: nth_append)
    then show False using w assms(9,10) by (auto simp: row_whole_def wide_at_def)
  qed
  moreover have "srows (scr (fst (delete_characters count cv))) = srows (scr cv)"
    using op_ok_size [OF sanitize_row_ok [OF ok1, of ?row]] b(3) sz np eq by simp
  ultimately show ?thesis using res b(3) np by (auto simp: units_whole_def)
qed

theorem delete_leaves_orphan_witness:
  "\<not> units_whole (scr (fst (delete_characters 1 (fst (run_edits layout64
      [Put (lead_inline 0x41 1 default_style) True, Put (lead_inline 0x4e16 2 default_style) True, Column_To 1]
      (the (fresh_canvas 4 2 True)))))))"
proof -
  let ?es = "[Put (lead_inline 0x41 1 default_style) True, Put (lead_inline 0x4e16 2 default_style) True, Column_To 1]"
  let ?cv = "fst (run_edits layout64 ?es (the (fresh_canvas 4 2 True)))"
  have f: "fresh_canvas 4 2 True = Some (the (fresh_canvas 4 2 True))" by (rule some_the) code_simp
  have e: "list_all edit_ok ?es" "list_all keeps_units ?es" by code_simp+
  have ok: "canvas_ok ?cv" using run_edits_ok [OF fresh_canvas_ok(1) [OF f] e(1)] by (simp add: op_ok_def)
  have w: "units_whole (scr ?cv)" by (rule run_edits_whole [OF fresh_canvas_ok(1,2) [OF f] e])
  have c: "0 < ccol (scr ?cv)" "ccol (scr ?cv) + max 1 1 < scols (scr ?cv)"
    "role (row_cells_of (scr ?cv) (crow (scr ?cv)) ! (ccol (scr ?cv) - 1)) = Lead"
    "cell_width (row_cells_of (scr ?cv) (crow (scr ?cv)) ! (ccol (scr ?cv) - 1)) < 2"
    "role (row_cells_of (scr ?cv) (crow (scr ?cv)) ! (ccol (scr ?cv) + max 1 1)) = Continuation" by code_simp+
  show ?thesis using delete_leaves_orphan [OF ok w refl refl refl c] by blast
qed

text \<open>The closing loop of an upward shift releases whatever the renewed rows still hold.\<close>

lemma release_cells_get:
  "store_ok st \<Longrightarrow> get_payload (release_cells cs st) i =
    (if \<exists>c \<in> set cs. role c = Lead \<and> store_id c = i then None else get_payload st i)"
proof (induction cs arbitrary: st)
  case (Cons c cs)
  have "store_ok (release_cell c st)" by (rule release_cell_ok [OF Cons.prems])
  from Cons.IH [OF this] show ?case using get_release [OF Cons.prems, of "store_id c"] by (auto simp: release_cell_def)
qed simp

lemma renew_row_payloads:
  "payloads (fst (renew_row True row cv)) = release_cells (row_cells_of (scr cv) row) (payloads cv)"
  by (simp add: renew_row_def Let_def release_row_def split: prod.splits sum.splits)

lemma renew_rows_payloads:
  assumes "canvas_ok cv" "\<forall>q \<in> set rows. q < srows (scr cv)" "distinct rows" "renew_rows True rows cv = (cv', Inr u)"
  shows "get_payload (payloads cv') i =
    (if \<exists>r \<in> set rows. \<exists>c \<in> set (row_cells_of (scr cv) r). role c = Lead \<and> store_id c = i then None
     else get_payload (payloads cv) i)"
  using assms
proof (induction rows arbitrary: cv)
  case (Cons row rows)
  obtain cv1 where r1: "renew_row True row cv = (cv1, Inr ())"
    using Cons.prems(4) by (auto simp: bind_res_def split: prod.splits sum.splits)
  have "band row row cv cv1" using renew_row_band [OF Cons.prems(1), of row True] Cons.prems r1 by simp
  then have sz: "srows (scr cv1) = srows (scr cv)" "canvas_ok cv1" by (simp_all add: band_def same_size_def)
  have rest: "renew_rows True rows cv1 = (cv', Inr u)" using Cons.prems(4) r1 by (simp add: bind_res_def)
  have same: "row_cells_of (scr cv1) r = row_cells_of (scr cv) r" if "r \<in> set rows" for r
    using renew_row_rows [OF Cons.prems(1), of row r True] r1 that Cons.prems(2,3) by auto
  have p: "payloads cv1 = release_cells (row_cells_of (scr cv) row) (payloads cv)"
    using renew_row_payloads [of row cv] r1 by simp
  have "store_ok (payloads cv)" using Cons.prems(1) by (simp add: canvas_ok_def)
  note first = release_cells_get [OF this, of "row_cells_of (scr cv) row" i, folded p]
  have "get_payload (payloads cv') i =
    (if \<exists>r \<in> set rows. \<exists>c \<in> set (row_cells_of (scr cv) r). role c = Lead \<and> store_id c = i then None
     else get_payload (payloads cv1) i)"
    using Cons.IH [OF sz(2) _ _ rest] Cons.prems(2,3) sz(1) same by simp
  then show ?case unfolding first by auto
qed simp

lemma shift_up_payloads:
  assumes ok: "canvas_ok cv" and b: "upper \<le> lower" "lower < srows (scr cv)" "0 < n" "n \<le> lower - upper + 1"
    and res: "shift_region_rows_up lay upper lower n brk cv = (cv', Inr m)"
    and c: "lower + 1 - n \<le> r" "r \<le> lower" "c \<in> set (row_cells_of (scr cv) r)" "role c = Lead"
  shows "get_payload (payloads cv') (store_id c) = None"
proof -
  define cv1 where "cv1 = (if retain_history (scr cv) \<and> region_is_full_screen (scr cv) \<and> upper = 0
    then fold (evict_row lay brk) [upper..<upper + n] cv else fold release_row [upper..<upper + n] cv)"
  define cv2 where "cv2 = cv1\<lparr>scr := move_rows (upper + n) upper (lower - upper + 1 - n) (scr cv1)\<rparr>"
  have q: "quiet cv cv1" using quiet_loops by (simp add: cv1_def)
  have ok1: "canvas_ok cv1" and sz1: "scols (scr cv1) = scols (scr cv)" "srows (scr cv1) = srows (scr cv)"
    and cs1: "cells (scr cv1) = cells (scr cv)"
    using q ok by (simp_all add: quiet_def same_size_def)
  have "band 0 (srows (scr cv) - 1) cv1 cv2" unfolding cv2_def
    using b sz1 by (intro move_rows_band ok1) auto
  then have ok2: "canvas_ok cv2" and sz2: "srows (scr cv2) = srows (scr cv)"
    using sz1 by (simp_all add: band_def same_size_def)
  have eq: "shift_region_rows_up lay upper lower n brk cv =
    bind_res (renew_rows True [lower + 1 - n..<lower + 1] cv2) (\<lambda>cv' _. (cv', Inr (mutation_rows upper lower)))"
    using b(3,4) by (simp add: shift_region_rows_up_def Let_def cv1_def cv2_def del: upt_Suc)
  obtain u where rn: "renew_rows True [lower + 1 - n..<lower + 1] cv2 = (cv', Inr u)"
    using res unfolding eq by (auto simp: bind_res_def split: prod.splits sum.splits)
  have "row_cells_of (scr cv2) r = row_cells_of (scr cv1) r"
    unfolding cv2_def using b c(1,2) sz1 ok1 row_cells_move [of "scr cv1" "upper + n" "lower - upper + 1 - n" upper r]
    by (auto simp: canvas_ok_def)
  then have "row_cells_of (scr cv2) r = row_cells_of (scr cv) r" using cs1 sz1 by simp
  moreover have "r \<in> set [lower + 1 - n..<lower + 1]" using c(1,2) by auto
  ultimately have hit: "\<exists>r \<in> set [lower + 1 - n..<lower + 1]. \<exists>c' \<in> set (row_cells_of (scr cv2) r). role c' = Lead \<and> store_id c' = store_id c"
    using c(3,4) by metis
  have "\<forall>q \<in> set [lower + 1 - n..<lower + 1]. q < srows (scr cv2)" using b(2) sz2 by auto
  from renew_rows_payloads [OF ok2 this distinct_upt rn, of "store_id c", unfolded if_P [OF hit]] show ?thesis .
qed

text \<open>
  C37 (scroll_releases_live_payload): an upward scroll by \<open>n\<close> rows moves every row of the region but
  the first \<open>n\<close> up, and then releases the payloads of the last \<open>n\<close> rows, where the moved cells still
  stand.  So a cell of those rows that stays visible keeps its store identity, but the text behind
  it is gone and it reads as its first scalar only.
\<close>

theorem scroll_releases_live_payload:
  assumes "canvas_ok cv" "scroll_up lay count brk cv = (cv', Inr m)"
    and "n = min (max count 1) (region_height (scr cv))"
    and "scroll_top (scr cv) + n \<le> r" "scroll_bottom (scr cv) + 1 - n \<le> r" "r \<le> scroll_bottom (scr cv)"
    and "screen_cell (scr cv) col r = Some c" "role c = Lead" "\<not> cell_overflow c"
  shows "screen_cell (scr cv') col (r - n) = Some c \<and> cell_text (payloads cv') c = utf8_encode (character c)"
proof -
  let ?s = "scr cv" and ?t = "scroll_top (scr cv)" and ?b = "scroll_bottom (scr cv)"
  note b = canvas_region [OF assms(1)]
  have sok: "screen_ok ?s" using assms(1) by (simp add: canvas_ok_def)
  have n: "0 < n" "n \<le> ?b - ?t + 1" unfolding assms(3) region_height_def sat_add_def by (simp, linarith)
  have res: "shift_region_rows_up lay ?t ?b n brk cv = (cv', Inr m)"
    using assms(2) n(1) unfolding scroll_up_def Let_def assms(3) [symmetric] by simp
  have "op_ok cv (cv', Inr m)" using scroll_up_ok [OF assms(1), of lay count brk] assms(2) by simp
  then have sok': "screen_ok (scr cv')" and sz: "scols (scr cv') = scols ?s" "srows (scr cv') = srows ?s"
    by (simp_all add: op_ok_def canvas_ok_def same_size_def)
  have col: "col < scols ?s" "r < srows ?s" and c: "c = row_cells_of ?s r ! col"
    using assms(7) row_nth [OF sok, of r col] by (auto simp: screen_cell_def split: if_splits)
  have "row_cells_of (scr cv') (r - n) = row_cells_of ?s r"
    using shift_up_rows [OF assms(1) b(1,2) n _ res, of "r - n"] assms(4,6) n(1) col(2) by auto
  then have "screen_cell (scr cv') col (r - n) = Some c"
    using row_nth [OF sok', of "r - n" col] col sz c by (simp add: screen_cell_def)
  moreover have "c \<in> set (row_cells_of ?s r)"
    using c col row_cells_length [OF sok col(2)] by simp
  then have "get_payload (payloads cv') (store_id c) = None"
    using shift_up_payloads [OF assms(1) b(1,2) n res assms(5,6)] assms(8) by blast
  ultimately show ?thesis using assms(9) by (simp add: cell_text_def)
qed


definition combined :: "grapheme_store \<times> store_admit" where
  "combined = insert_replacing [0x65, 0xcc, 0x81] None new_store"

definition two_rows :: canvas where
  "two_rows = fst (run_edits layout64
     [Control 0x0a, Put (lead_from_admit 0x65 1 default_style (snd combined)) True]
     ((the (fresh_canvas 2 2 True))\<lparr>payloads := fst combined\<rparr>))"

definition two_rows_scrolled :: "canvas \<times> mutation res" where
  "two_rows_scrolled = scroll_up layout64 1 HardBreak two_rows"

theorem scroll_releases_live_payload_witness:
  "screen_cell (scr (fst two_rows_scrolled)) 0 0 = screen_cell (scr two_rows) 0 1 \<and>
   map_option (cell_text (payloads two_rows)) (screen_cell (scr two_rows) 0 1) = Some [0x65, 0xcc, 0x81] \<and>
   map_option (cell_text (payloads (fst two_rows_scrolled))) (screen_cell (scr (fst two_rows_scrolled)) 0 0) = Some [0x65]"
proof -
  let ?es = "[Control 0x0a, Put (lead_from_admit 0x65 1 default_style (snd combined)) True]"
  let ?c = "the (screen_cell (scr two_rows) 0 1)"
  have f: "fresh_canvas 2 2 True = Some (the (fresh_canvas 2 2 True))" by (rule some_the) code_simp
  have e: "list_all edit_ok ?es" by code_simp
  have "store_ok (fst combined)" unfolding combined_def by (rule insert_ok [OF new_store_ok])
  then have "canvas_ok ((the (fresh_canvas 2 2 True))\<lparr>payloads := fst combined\<rparr>)"
    using fresh_canvas_ok(1) [OF f] by (simp add: canvas_ok_def)
  from run_edits_ok [OF this e] have ok: "canvas_ok two_rows" by (simp add: two_rows_def op_ok_def)
  have v: "\<not> isl (snd two_rows_scrolled)" by code_simp
  have up: "scroll_up layout64 1 HardBreak two_rows = (fst two_rows_scrolled, Inr (projr (snd two_rows_scrolled)))"
    using v unfolding two_rows_scrolled_def by (simp add: prod_eq_iff)
  have n: "1 = min (max 1 1) (region_height (scr two_rows))" by code_simp
  have r: "scroll_top (scr two_rows) + 1 \<le> 1" "scroll_bottom (scr two_rows) + 1 - 1 \<le> 1" "1 \<le> scroll_bottom (scr two_rows)"
    by code_simp+
  have c: "screen_cell (scr two_rows) 0 1 = Some ?c" by (rule some_the) code_simp
  have k: "role ?c = Lead" "\<not> cell_overflow ?c" "utf8_encode (character ?c) = [0x65]"
    "cell_text (payloads two_rows) ?c = [0x65, 0xcc, 0x81]" by code_simp+
  obtain z where z: "screen_cell (scr two_rows) 0 1 = Some z" using c by blast
  then have "?c = z" by simp
  then show ?thesis using scroll_releases_live_payload [OF ok up n r z] k z by simp
qed

end
