(* ===== verification/Screen_History.thy ===== *)
theory Screen_History
  imports Screen_Edits History_Content
begin

text \<open>
  How the grid and the history store work together: a row that leaves the top of the primary screen
  (\<open>append_row_to_history\<close> of \<open>crates/seyal-terminal/src/screen/ops.rs\<close>) arrives in the store
  (\<open>crates/seyal-terminal/src/history/store.rs\<close>) unit by unit, in order.
\<close>

section \<open>The units of a row\<close>

definition lead_units :: "grapheme_store \<Rightarrow> cell list \<Rightarrow> history_unit list" where
  "lead_units st cs = List.map_filter (\<lambda>c. if role c = Lead then unit_of_cell st c else None) cs"

lemma lead_units_simps [simp]:
  "lead_units st [] = []"
  "lead_units st (c # cs) = (if role c = Lead then the (unit_of_cell st c) # lead_units st cs else lead_units st cs)"
  by (simp_all add: lead_units_def List.map_filter_simps unit_of_cell_def)

abbreviation units_of_lines :: "history_line list \<Rightarrow> history_unit list" where
  "units_of_lines ls \<equiv> concat (map hl_units ls)"

lemma from_cells_lead:
  "role c = Lead \<Longrightarrow> hl_units (from_cells lid brk [c] st) = [the (unit_of_cell st c)]"
  by (simp add: from_cells_def unit_of_cell_def List.map_filter_simps)

lemma join_fragment_units: "units_of_lines (join_fragment f frs) = units_of_lines frs @ hl_units f"
  by (cases frs rule: rev_cases) (simp_all add: join_fragment_def)

lemma row_fragments_units:
  "units_of_lines (row_fragments lid st cs frs) = units_of_lines frs @ lead_units st (map fst cs)"
  by (induction lid st cs frs rule: row_fragments.induct)
    (simp_all add: Let_def join_fragment_units from_cells_lead)

lemma row_fragments_empty: "row_fragments lid st cs frs = [] \<Longrightarrow> frs = [] \<and> (\<forall>c \<in> set cs. role (fst c) \<noteq> Lead)"
proof (induction lid st cs frs rule: row_fragments.induct)
  case (2 lid st c oa cs frs)
  have "join_fragment f frs \<noteq> []" for f by (simp add: join_fragment_def)
  then show ?case using 2 by (auto simp: Let_def split: if_splits)
qed simp

lemma last_breaks_shape:
  "units_of_lines (last_breaks brk frs) = units_of_lines frs"
  "(\<forall>f \<in> set frs. source_ok f) \<Longrightarrow> \<forall>f \<in> set (last_breaks brk frs). source_ok f"
  by (induction frs) (auto simp: source_ok_def)

lemma unit_of_cell_ok: "store_ok st \<Longrightarrow> role c = Lead \<Longrightarrow> unit_ok (the (unit_of_cell st c))"
proof -
  assume a: "store_ok st" "role c = Lead"
  have "b \<noteq> [] \<and> length b \<le> MAX_ACTIVE_GRAPHEME_BYTES" if "get_payload st i = Some b" for b i
    using a(1) that by (auto simp: store_ok_def get_payload_def split: if_splits) (metis nth_mem)+
  then have "b \<noteq> [] \<and> length b \<le> 16384" if "get_payload st i = Some b" for b i
    using that by (fastforce simp: MAX_ACTIVE_GRAPHEME_BYTES_def)
  then show ?thesis using a(2) length_utf8_encode [of "character c"] len_utf8_bounds [of "character c"]
    by (auto simp: unit_of_cell_def unit_ok_def HISTORY_SEGMENT_PAYLOAD_TARGET_def
        split: option.splits)
qed

lemma join_fragment_ok:
  assumes "\<forall>g \<in> set frs. source_ok g" "\<forall>u \<in> set (hl_units f). unit_ok u" "length (hl_units f) = 1" "hl_start f < u32_max"
  shows "\<forall>g \<in> set (join_fragment f frs). source_ok g"
proof (cases frs rule: rev_cases)
  case (snoc gs g)
  then show ?thesis using assms
    by (auto simp: join_fragment_def source_ok_def sat_add_def u32_of_def)
qed (use assms in \<open>simp add: join_fragment_def source_ok_def\<close>)

lemma length_join_fragment: "length (join_fragment f frs) \<le> Suc (length frs)"
  by (cases frs rule: rev_cases) (simp_all add: join_fragment_def)

lemma row_fragments_ok:
  assumes "store_ok st" "\<forall>(c, oa) \<in> set cs. \<forall>a. oa = Some a \<longrightarrow> unit_offset a < u32_max"
    "\<forall>g \<in> set frs. source_ok g" "length frs + length cs < u32_max"
  shows "\<forall>g \<in> set (row_fragments lid st cs frs). source_ok g"
  using assms
proof (induction lid st cs frs rule: row_fragments.induct)
  case (2 lid st c oa cs frs)
  show ?case
  proof (cases "role c = Lead")
    case True
    define a where "a = (case oa of Some a \<Rightarrow> a | None \<Rightarrow> \<lparr>anchor_line = lid, unit_offset = length frs mod 2 ^ 32\<rparr>)"
    define f where "f = (from_cells (anchor_line a) SoftWrap [c] st)\<lparr>hl_start := unit_offset a\<rparr>"
    have "unit_offset a < u32_max" using 2(4,6) by (auto simp: a_def split: option.splits)
    then have j: "\<forall>g \<in> set (join_fragment f frs). source_ok g"
      using 2(3,5) True unit_of_cell_ok by (intro join_fragment_ok) (auto simp: f_def from_cells_lead)
    have "row_fragments lid st ((c, oa) # cs) frs = row_fragments lid st cs (join_fragment f frs)"
      using True by (simp add: a_def f_def Let_def)
    moreover have "\<forall>g \<in> set (row_fragments lid st cs (join_fragment f frs)). source_ok g"
      unfolding f_def a_def using 2(2) [OF _ refl refl] True 2(3,4,6) j length_join_fragment [of f frs]
      by (simp add: f_def a_def)
    ultimately show ?thesis by simp
  next
    case False
    then show ?thesis using 2(1,3-6) by simp
  qed
qed simp

section \<open>A row arrives in the store\<close>

definition stored_units :: "history_store \<Rightarrow> history_unit list" where
  "stored_units h = units_of_lines (map to_owned_line (entries_of h))"

lemma append_lines_units:
  "tail_ok h \<Longrightarrow> \<forall>l \<in> set ls. source_ok l \<Longrightarrow>
   tail_ok (fold (append_line lay) ls h) \<and>
   (\<exists>gone. stored_units h @ units_of_lines ls = gone @ stored_units (fold (append_line lay) ls h))"
proof (induction ls arbitrary: h)
  case (Cons l ls)
  let ?h = "append_line lay l h"
  obtain frs gone where f: "fragments_of (hl_id l) (hl_break l) (hl_start l) (hl_units l) frs"
    "map to_owned_line (entries_of h) @ frs = gone @ map to_owned_line (entries_of ?h)" and t: "tail_ok ?h"
    using append_line_content(1,2) [OF Cons.prems(1), of l lay] Cons.prems(2) by auto
  have "units_of_lines (map to_owned_line (entries_of h) @ frs) = units_of_lines (gone @ map to_owned_line (entries_of ?h))"
    unfolding f(2) ..
  then have 1: "stored_units h @ hl_units l = units_of_lines gone @ stored_units ?h"
    using f(1) by (simp add: stored_units_def fragments_of_def)
  obtain gone' where g: "tail_ok (fold (append_line lay) ls ?h)"
    "stored_units ?h @ units_of_lines ls = gone' @ stored_units (fold (append_line lay) ls ?h)"
    using Cons.IH [OF t] Cons.prems(2) by auto
  have "stored_units h @ units_of_lines (l # ls) = (units_of_lines gone @ gone') @ stored_units (fold (append_line lay) (l # ls) h)"
    using 1 g(2) by (metis append.assoc concat.simps(2) fold_simps(2) list.simps(9))
  then show ?case using g(1) by auto
qed simp

definition anchors_bounded :: "screen \<Rightarrow> bool" where
  "anchors_bounded s \<longleftrightarrow>
     (\<forall>oa \<in> set (cell_anchors s). case oa of None \<Rightarrow> True | Some a \<Rightarrow> unit_offset a < u32_max)"

lemma slice_subset: "set (slice a b xs) \<subseteq> set xs"
  by (auto simp: slice_def dest: in_set_dropD in_set_takeD)

lemma no_lead_units: "\<forall>c \<in> set cs. role c \<noteq> Lead \<Longrightarrow> lead_units st cs = []"
  by (induction cs) simp_all

text \<open>
  A row without a lead becomes a line of its own whose units are at most blanks, none when nothing
  but empty cells are in it.
\<close>

lemma content_end_zero: "(\<forall>x \<in> set xs. \<not> P x) \<Longrightarrow> content_end P xs = 0"
  by (induction xs) (auto simp: Let_def)

lemma lead_or_empty:
  assumes "row_whole cs"
  shows "(\<exists>c \<in> set cs. role c = Lead) \<or> (\<forall>c \<in> set cs. role c = Empty)"
proof (rule ccontr)
  assume "\<not> ?thesis"
  then obtain c where c: "\<forall>c \<in> set cs. role c \<noteq> Lead" "c \<in> set cs" "role c \<noteq> Empty" by auto
  then have "role c = Continuation" by (cases "role c") auto
  then obtain i where i: "i < length cs" "role (cs ! i) = Continuation" using c(2) by (metis in_set_conv_nth)
  then have "0 < i" "wide_at cs (i - 1)" "i - 1 < length cs" using assms by (auto simp: row_whole_def)
  then show False using c(1) by (auto simp: wide_at_def)
qed

lemma append_row_units:
  fixes lay :: layout and fb :: history_break_after
  assumes ok: "screen_ok s" "store_ok st" and t: "tail_ok (history s)" and a: "anchors_bounded s" and r: "row < srows s"
    and w: "(\<exists>c \<in> set (row_cells_of s row). role c = Lead) \<or> (\<forall>c \<in> set (row_cells_of s row). role c = Empty)"
  defines "s' \<equiv> append_row_to_history lay row fb st s"
  shows "tail_ok (history s')"
    "\<exists>gone. stored_units (history s) @ lead_units st (row_cells_of s row) = gone @ stored_units (history s')"
proof -
  let ?cs = "zip (row_cells_of s row) (row_anchors_of s row)"
  let ?frs = "row_fragments (line_ids s ! row) st ?cs []"
  have len: "length (row_cells_of s row) = scols s" "length (row_anchors_of s row) = scols s"
    using row_cells_length [OF ok(1) r] row_end [OF r, of "scols s"] screen_okD [OF ok(1)]
    by (simp_all add: length_slice)
  have fst: "map fst ?cs = row_cells_of s row" using len by simp
  have "tail_ok (history s') \<and> (\<exists>gone. stored_units (history s) @ lead_units st (row_cells_of s row) = gone @ stored_units (history s'))"
  proof (cases "?frs = []")
    case True
    then have nl: "\<forall>c \<in> set (row_cells_of s row). role c \<noteq> Lead"
      using row_fragments_empty [OF True] fst by (metis (no_types, lifting) image_iff set_map)
    have "\<forall>c \<in> set (row_cells_of s row). role c = Empty" using w nl by blast
    then have "content_end (\<lambda>c. role c \<noteq> Empty) (row_cells_of s row) = 0" by (intro content_end_zero) simp
    then have l: "hl_units (from_cells lid brk (row_cells_of s row) st) = []" for lid brk
      by (simp add: from_cells_def List.map_filter_simps)
    have "source_ok (from_cells (line_ids s ! row) fb (row_cells_of s row) st)"
      using l by (simp add: source_ok_def) (simp add: from_cells_def)
    from append_lines_units [OF t, of "[from_cells (line_ids s ! row) fb (row_cells_of s row) st]" lay] this
    show ?thesis using True l no_lead_units [OF nl] by (simp add: s'_def append_row_to_history_def Let_def append_row_def)
  next
    case False
    define frs where "frs = last_breaks (\<lambda>l. case source_breaks s l of Some b \<Rightarrow> b | None \<Rightarrow> fb) ?frs"
    have "\<forall>(c, oa) \<in> set ?cs. \<forall>a. oa = Some a \<longrightarrow> unit_offset a < u32_max"
      using a slice_subset [of "row * scols s" "row * scols s + scols s" "cell_anchors s"]
      by (fastforce simp: anchors_bounded_def dest!: set_zip_rightD)
    moreover have "length ?cs < u32_max" using len screen_okD [OF ok(1)] ok(1) by (simp add: screen_ok_def MAX_TERMINAL_COLUMNS_def)
    ultimately have "\<forall>f \<in> set ?frs. source_ok f" using row_fragments_ok [OF ok(2), of ?cs "[]"] by simp
    then have "\<forall>f \<in> set frs. source_ok f" unfolding frs_def by (rule last_breaks_shape)
    moreover have "units_of_lines frs = lead_units st (row_cells_of s row)"
      unfolding frs_def last_breaks_shape(1) row_fragments_units fst by simp
    moreover have "history s' = fold (append_line lay) frs (history s)"
      using False by (simp add: s'_def append_row_to_history_def Let_def frs_def)
    ultimately show ?thesis using append_lines_units [OF t, of frs lay] by simp
  qed
  then show "tail_ok (history s')"
    "\<exists>gone. stored_units (history s) @ lead_units st (row_cells_of s row) = gone @ stored_units (history s')" by auto
qed


lemma renew_rows_history: "history (scr (fst (renew_rows rel rows cv))) = history (scr cv)"
proof (induction rel rows cv rule: renew_rows.induct)
  case (2 rel row rows cv)
  have "history (scr (fst (renew_row rel row cv))) = history (scr cv)"
    by (auto simp: renew_row_def Let_def release_row_def blank_row_def split: prod.splits sum.splits)
  then show ?case using 2 by (auto simp: bind_res_def split: prod.splits sum.splits)
qed simp

lemma scroll_one_shift:
  assumes "canvas_ok cv"
  shows "scroll_up lay 1 brk cv = shift_region_rows_up lay (scroll_top (scr cv)) (scroll_bottom (scr cv)) 1 brk cv"
proof -
  have "min (max 1 1) (region_height (scr cv)) = 1" by (simp add: region_height_def sat_add_def)
  then show ?thesis by (simp add: scroll_up_def Let_def)
qed

lemma scroll_one_history:
  assumes "canvas_ok cv" "retain_history (scr cv)" "region_is_full_screen (scr cv)"
  shows "history (scr (fst (scroll_up lay 1 brk cv))) = history (append_row_to_history lay 0
    (case row_breaks (scr cv) ! 0 of Some b \<Rightarrow> b | None \<Rightarrow> brk) (payloads cv) (scr cv))"
proof -
  have up: "[0..<Suc 0] = [0]" by simp
  show ?thesis unfolding scroll_one_shift [OF assms(1)]
    using assms(2,3)
    by (simp add: bind_res_fst [where f = "\<lambda>_. mutation_rows 0 (scroll_bottom (scr cv))"] shift_region_rows_up_def Let_def region_is_full_screen_def renew_rows_history move_rows_def evict_row_def up
        del: upt_Suc)
qed

section \<open>Properties\<close>



definition sample :: canvas where
  "sample = fst (run_edits layout64 [Put (lead_inline 0x41 1 default_style) True] (the (fresh_canvas 2 2 True)))"

lemma sample_edits: "list_all edit_ok [Put (lead_inline 0x41 1 default_style) True]"
  "list_all keeps_units [Put (lead_inline 0x41 1 default_style) True]" "fresh_canvas 2 2 True = Some (the (fresh_canvas 2 2 True))"
proof -
  have "\<not> Option.is_none (fresh_canvas 2 2 True)" by code_simp
  then show "fresh_canvas 2 2 True = Some (the (fresh_canvas 2 2 True))" by (simp add: Option.is_none_def)
qed simp_all

lemma sample_ok: "canvas_ok sample" "units_whole (scr sample)"
  using op_ok_canvas run_edits_ok [OF fresh_canvas_ok(1) [OF sample_edits(3)] sample_edits(1)]
    run_edits_whole [OF fresh_canvas_ok(1,2) [OF sample_edits(3)] sample_edits(1,2)] by (simp_all add: sample_def op_ok_def)

lemma sample_values: "retain_history (scr sample)" "region_is_full_screen (scr sample)" "tail_ok (history (scr sample))"
  "anchors_bounded (scr sample)" "snd (scroll_up layout64 1 HardBreak sample) = Inr (mutation_rows 0 1)"
  "lead_units (payloads sample) (row_cells_of (scr sample) 0) = [\<lparr>hu_utf8 = [0x41], hu_width = 1, hu_style = default_style\<rparr>]"
  "stored_units (history (scr sample)) = []"
  by code_simp+


end
