(* ===== verification/Screen_Resize.thy ===== *)
theory Screen_Resize
  imports Screen_History
begin

text \<open>
  Resizing of a screen, \<open>crates/seyal-terminal/src/screen/resize.rs\<close>: \<open>prepare_resize\<close> builds the
  next buffers without touching the visible screen, \<open>commit_prepared\<close> swaps them in.  When the
  screen keeps history and its width changes or it loses rows, the active rows are collected as
  source lines behind the last lines of the history, laid out again at the new width, and the last
  rows of the result become the new grid; otherwise the common rectangle is copied.

  A hash map is a map; the loops that only read one are folds in the order of the source.  The
  history of the old screen is returned as well, since reading it may fill its caches.
\<close>

section \<open>State\<close>

record prepared_screen =
  ps_cols :: nat
  ps_rows :: nat
  ps_cells :: "cell list"
  ps_anchors :: "history_anchor option list"
  ps_line_ids :: "line_id list"
  ps_breaks :: "history_break_after option list"
  ps_source_breaks :: "line_id \<rightharpoonup> history_break_after"
  ps_additions :: "history_line list"
  ps_pending :: "(nat \<times> history_unit) list"
  ps_replace_history :: bool
  ps_replace_from :: "history_anchor option"
  ps_cursor :: cursor
  ps_saved :: "saved_cursor option"
  ps_unchanged :: bool

definition prepared_noop :: prepared_screen where
  "prepared_noop = \<lparr>ps_cols = 0, ps_rows = 0, ps_cells = [], ps_anchors = [], ps_line_ids = [], ps_breaks = [],
     ps_source_breaks = Map.empty, ps_additions = [], ps_pending = [], ps_replace_history = False,
     ps_replace_from = None, ps_cursor = default_cursor, ps_saved = None, ps_unchanged = True\<rparr>"

section \<open>The active rows as source lines\<close>

record resize_source =
  src_lines :: "history_line list"
  src_cells :: "history_anchor \<rightharpoonup> cell"
  src_offsets :: "line_id \<rightharpoonup> nat"
  src_breaks :: "line_id \<rightharpoonup> history_break_after"
  src_cursor :: history_anchor

definition last_content_row :: "screen \<Rightarrow> nat option" where
  "last_content_row s =
    List.find (\<lambda>row. list_ex (\<lambda>c. role c \<noteq> Empty) (row_cells_of s row)) (rev [0..<srows s])"

definition last_source_row :: "nat \<Rightarrow> screen \<Rightarrow> nat" where
  "last_source_row rows s =
    (let l = (case last_content_row s of Some r \<Rightarrow> r | None \<Rightarrow> srows s - 1)
     in if rows \<ge> srows s then max l (crow s) else l)"

definition source_anchor :: "screen \<Rightarrow> nat \<Rightarrow> nat \<Rightarrow> resize_source \<Rightarrow> resize_source \<times> history_anchor" where
  "source_anchor s row col src =
    (case cell_anchors s ! cell_index s col row of
       Some a \<Rightarrow> (src, a)
     | None \<Rightarrow>
         let lid = line_ids s ! row; off = (case src_offsets src lid of Some n \<Rightarrow> n | None \<Rightarrow> 0)
         in (src\<lparr>src_offsets := (src_offsets src)(lid \<mapsto> sat_add u32_max off 1)\<rparr>,
             \<lparr>anchor_line = lid, unit_offset = off\<rparr>))"

definition row_break_of :: "screen \<Rightarrow> nat \<Rightarrow> history_break_after" where
  "row_break_of s row = (case row_breaks s ! row of Some b \<Rightarrow> b | None \<Rightarrow> HardBreak)"

text \<open>Whether a unit at this cell stands before the cursor.\<close>

definition before_cursor :: "screen \<Rightarrow> nat \<Rightarrow> nat \<Rightarrow> bool" where
  "before_cursor s row col \<longleftrightarrow> row = crow s \<and> (col < ccol s \<or> pending_wrap (scursor s) \<and> col \<le> ccol s)"

definition add_source_cell ::
  "screen \<Rightarrow> grapheme_store \<Rightarrow> nat \<Rightarrow> nat \<times> cell \<Rightarrow> resize_source \<Rightarrow> resize_source"
where
  "add_source_cell s st row cc src =
    (case cc of (col, c) \<Rightarrow>
     if role c \<noteq> Lead then src
     else
       let (src1, a) = source_anchor s row col src;
           brk = (case source_breaks s (anchor_line a) of Some b \<Rightarrow> b | None \<Rightarrow> row_break_of s row);
           fragment = (from_cells (anchor_line a) SoftWrap [c] st)\<lparr>hl_start := unit_offset a\<rparr>
       in src1\<lparr>src_breaks := (src_breaks src1)(anchor_line a \<mapsto> brk),
               src_cells := (src_cells src1)(a \<mapsto> c),
               src_cursor := (if before_cursor s row col
                              then \<lparr>anchor_line = anchor_line a, unit_offset = sat_add u32_max (unit_offset a) 1\<rparr>
                              else src_cursor src1),
               src_lines := join_fragment fragment (src_lines src1)\<rparr>)"

definition add_source_row :: "screen \<Rightarrow> grapheme_store \<Rightarrow> nat \<Rightarrow> resize_source \<Rightarrow> resize_source" where
  "add_source_row s st row src =
    (let cs = row_cells_of s row;
         src1 = fold (add_source_cell s st row) (enumerate 0 cs) src;
         lid = line_ids s ! row; brk = row_break_of s row
     in if list_ex (\<lambda>c. role c = Lead) cs then src1
        else src1\<lparr>src_breaks := (src_breaks src1)(lid \<mapsto> brk), src_lines := src_lines src1 @ [from_cells lid brk cs st]\<rparr>)"

definition collect_source :: "nat \<Rightarrow> screen \<Rightarrow> grapheme_store \<Rightarrow> resize_source" where
  "collect_source last_row s st =
    (let src = fold (add_source_row s st) [0..<Suc last_row]
       \<lparr>src_lines = [], src_cells = Map.empty, src_offsets = Map.empty, src_breaks = Map.empty,
        src_cursor = \<lparr>anchor_line = line_ids s ! crow s, unit_offset = 0\<rparr>\<rparr>
     in src\<lparr>src_lines := last_breaks (\<lambda>lid. case src_breaks src lid of Some b \<Rightarrow> b | None \<Rightarrow> HardBreak) (src_lines src)\<rparr>)"

section \<open>Laying out again\<close>

definition line_unit_anchors :: "history_line \<Rightarrow> (history_anchor \<times> history_unit) list" where
  "line_unit_anchors l =
    map (\<lambda>(i, u). (\<lparr>anchor_line = hl_id l, unit_offset = sat_add u32_max (hl_start l) (i mod 2 ^ 32)\<rparr>, u))
      (enumerate 0 (hl_units l))"

text \<open>\<open>entry(anchor).or_insert_with(..)\<close>: the first unit of an anchor stays.\<close>

definition history_units :: "history_line list \<Rightarrow> history_anchor \<rightharpoonup> history_unit" where
  "history_units ls = map_of (concat (map line_unit_anchors ls))"

definition active_first :: "nat \<Rightarrow> reflow_row list \<Rightarrow> nat" where
  "active_first rows laid =
    (let start = length laid - rows; hits = filter (\<lambda>i. row_unavailable (laid ! i)) [start..<length laid]
     in if hits = [] then start else last hits + 1)"

definition retained_until :: "nat \<Rightarrow> reflow_row list \<Rightarrow> history_anchor option" where
  "retained_until i laid =
    (if i < length laid then
       (case row_anchors (laid ! i) of
          a # _ \<Rightarrow> Some a
        | [] \<Rightarrow> map_option (\<lambda>lid. \<lparr>anchor_line = lid, unit_offset = 0\<rparr>) (row_source (laid ! i)))
     else None)"

fun prefix_until :: "history_anchor \<Rightarrow> history_line list \<Rightarrow> history_line list" where
  "prefix_until boundary [] = []"
| "prefix_until boundary (l # ls) =
    (if range_entirely_before (hl_id l) (hl_start l) (u32_of (length (hl_units l))) boundary
     then l # prefix_until boundary ls
     else if anchor_line boundary < hl_id l then []
     else let count = min (unit_offset boundary - hl_start l) (length (hl_units l))
          in if count > 0 then [l\<lparr>hl_units := take count (hl_units l), hl_break := SoftWrap\<rparr>] else [])"

definition history_prefix :: "history_line list \<Rightarrow> history_anchor option \<Rightarrow> history_line list" where
  "history_prefix ls until = (case until of None \<Rightarrow> ls | Some boundary \<Rightarrow> prefix_until boundary ls)"

record projection =
  pj_cells :: "cell list"
  pj_anchors :: "history_anchor option list"
  pj_pending :: "(nat \<times> history_unit) list"
  pj_breaks :: "history_break_after option list"
  pj_ids :: "line_id option list"
  pj_source_breaks :: "line_id \<rightharpoonup> history_break_after"
  pj_cursor :: "cursor option"

definition put_projected :: "nat \<Rightarrow> nat \<Rightarrow> cell \<Rightarrow> history_anchor \<Rightarrow> projection \<Rightarrow> projection" where
  "put_projected i width c a pj =
    pj\<lparr>pj_cells := (let cs = (pj_cells pj)[i := c] in if width = 2 then cs[i + 1 := continuation] else cs),
       pj_anchors := (pj_anchors pj)[i := Some a]\<rparr>"

fun project_anchors ::
  "nat \<Rightarrow> nat \<Rightarrow> (history_anchor \<rightharpoonup> cell) \<Rightarrow> (history_anchor \<rightharpoonup> history_unit) \<Rightarrow> nat \<Rightarrow> history_anchor list \<Rightarrow> projection \<Rightarrow> projection"
where
  "project_anchors cols start source units col [] pj = pj"
| "project_anchors cols start source units col (a # as) pj =
    (case source a of
       Some c \<Rightarrow>
         (let width = max (cell_width c) 1 in
          if col + width > cols then pj
          else project_anchors cols start source units (col + width) as (put_projected (start + col) width c a pj))
     | None \<Rightarrow>
         (case units a of
            Some u \<Rightarrow>
              (let width = max (hu_width u) 1 in
               if col + width > cols then pj
               else project_anchors cols start source units (col + width) as
                      (put_projected (start + col) width (lead_inline (first_scalar u) width (hu_style u)) a
                        (pj\<lparr>pj_pending := pj_pending pj @ [(start + col, u)]\<rparr>)))
          | None \<Rightarrow> project_anchors cols start source units col as pj))"

definition project_breaks ::
  "(line_id \<rightharpoonup> history_break_after) \<Rightarrow> reflow_row \<Rightarrow> (line_id \<rightharpoonup> history_break_after) \<Rightarrow> line_id \<rightharpoonup> history_break_after"
where
  "project_breaks breaks r m =
    (let note = (\<lambda>lid m. case breaks lid of Some b \<Rightarrow> m(lid \<mapsto> b) | None \<Rightarrow> m);
         m1 = fold (\<lambda>a. note (anchor_line a)) (row_anchors r) m
     in if row_anchors r = [] then (case row_source r of Some lid \<Rightarrow> note lid m1 | None \<Rightarrow> m1) else m1)"

definition project_row ::
  "screen \<Rightarrow> nat \<Rightarrow> resize_source \<Rightarrow> (history_anchor \<rightharpoonup> history_unit) \<Rightarrow> nat \<times> reflow_row \<Rightarrow> projection \<Rightarrow> projection"
where
  "project_row s cols src units rr pj =
    (case rr of (row, r) \<Rightarrow>
     let pj1 = (if unit_offset (src_cursor src) = 0 \<and> row_source r = Some (anchor_line (src_cursor src)) \<and> row_anchors r = []
                then pj\<lparr>pj_cursor := Some \<lparr>cur_col = min (ccol s) (cols - 1), cur_row = row, pending_wrap = False\<rparr>\<rparr> else pj);
         pj2 = project_anchors cols (row * cols) (src_cells src) units 0 (row_anchors r) pj1
     in pj2\<lparr>pj_breaks := (pj_breaks pj2)[row := row_break r], pj_ids := (pj_ids pj2)[row := row_source r],
            pj_source_breaks := project_breaks (src_breaks src) r (pj_source_breaks pj2)\<rparr>)"

definition blank_projection :: "nat \<Rightarrow> nat \<Rightarrow> projection" where
  "blank_projection cols rows =
    \<lparr>pj_cells = replicate (cols * rows) default_cell, pj_anchors = replicate (cols * rows) None, pj_pending = [],
     pj_breaks = replicate rows (Some HardBreak), pj_ids = replicate rows None, pj_source_breaks = Map.empty,
     pj_cursor = None\<rparr>"

section \<open>The cursor and the line identities\<close>

text \<open>
  The search over the new grid, row by row: the cell of the cursor's unit, or else the last cell of
  the same line before it.
\<close>

fun scan_cursor ::
  "history_anchor \<Rightarrow> nat \<Rightarrow> history_anchor option list \<Rightarrow> nat option \<Rightarrow> nat option \<times> nat option"
where
  "scan_cursor target i [] prior = (None, prior)"
| "scan_cursor target i (None # as) prior = scan_cursor target (Suc i) as prior"
| "scan_cursor target i (Some a # as) prior =
    (if a = target then (Some i, prior)
     else scan_cursor target (Suc i) as
            (if anchor_line a = anchor_line target \<and> unit_offset a < unit_offset target then Some i else prior))"

definition map_cursor :: "screen \<Rightarrow> nat \<Rightarrow> history_anchor \<Rightarrow> projection \<Rightarrow> cursor option" where
  "map_cursor s cols target pj =
    (case scan_cursor target 0 (pj_anchors pj) None of
       (Some i, _) \<Rightarrow> Some \<lparr>cur_col = i mod cols, cur_row = i div cols, pending_wrap = False\<rparr>
     | (None, prior) \<Rightarrow>
         (case (pj_cursor pj, prior) of
            (None, Some i) \<Rightarrow>
              (let after = i mod cols + max (cell_width (pj_cells pj ! i)) 1
               in Some \<lparr>cur_col = min after (cols - 1), cur_row = i div cols,
                        pending_wrap = (pending_wrap (scursor s) \<and> after \<ge> cols)\<rparr>)
          | (c, _) \<Rightarrow> c))"

fun reuse_ids :: "line_id option list \<Rightarrow> line_id list \<Rightarrow> line_id option list" where
  "reuse_ids [] pool = []"
| "reuse_ids (Some l # ls) pool = Some l # reuse_ids ls pool"
| "reuse_ids (None # ls) [] = None # reuse_ids ls []"
| "reuse_ids (None # ls) (p # pool) = Some p # reuse_ids ls pool"

fun fill_ids :: "line_id option list \<Rightarrow> line_id_allocator \<Rightarrow> line_id_allocator \<times> line_id list res" where
  "fill_ids [] ids = (ids, Inr [])"
| "fill_ids (Some l # ls) ids = bind_res (fill_ids ls ids) (\<lambda>ids' rest. (ids', Inr (l # rest)))"
| "fill_ids (None # ls) ids =
    bind_res (allocate ids) (\<lambda>ids1 l. bind_res (fill_ids ls ids1) (\<lambda>ids' rest. (ids', Inr (l # rest))))"

section \<open>Preparing\<close>

text \<open>What the two branches of \<open>prepare_resize\<close> leave for its common end.\<close>

record resize_plan =
  rp_projection :: projection
  rp_additions :: "history_line list"
  rp_replace_history :: bool
  rp_replace_from :: "history_anchor option"

definition reflow_plan :: "layout \<Rightarrow> nat \<Rightarrow> nat \<Rightarrow> screen \<Rightarrow> grapheme_store \<Rightarrow> screen \<times> resize_plan" where
  "reflow_plan lay cols rows s st =
    (let last_row = last_source_row rows s;
         src = collect_source last_row s st;
         (h, suffix, from, start_col) = eager_resize_suffix (history s) cols (eager_resize_row_budget rows);
         units = history_units suffix;
         combined = suffix @ src_lines src;
         laid = snd (reflow_from lay (fold (append_line lay) combined new_history) cols u64_max start_col);
         i = active_first rows laid;
         pj = fold (project_row s cols src units) (enumerate 0 (drop i laid)) (blank_projection cols rows);
         pj' = pj\<lparr>pj_cursor := map_cursor s cols (src_cursor src) pj,
                  pj_ids := reuse_ids (pj_ids pj) (drop (Suc last_row) (line_ids s))\<rparr>
     in (s\<lparr>history := h\<rparr>,
         \<lparr>rp_projection = pj', rp_additions = history_prefix combined (retained_until i laid),
          rp_replace_history = True, rp_replace_from = from\<rparr>))"

text \<open>\<open>xs[d..d + ys.len()].copy_from_slice(ys)\<close>.\<close>

definition copy_from_slice :: "nat \<Rightarrow> 'a list \<Rightarrow> 'a list \<Rightarrow> 'a list" where
  "copy_from_slice d ys xs = take d xs @ ys @ drop (d + length ys) xs"

text \<open>The copied row; a wide lead whose second cell is cut off becomes blank.\<close>

definition copy_resized_row :: "nat \<Rightarrow> screen \<Rightarrow> nat \<Rightarrow> projection \<Rightarrow> projection" where
  "copy_resized_row cols s row pj =
    (let n = min (scols s) cols; old = row * scols s; new = row * cols;
         cs = copy_from_slice new (slice old (old + n) (cells s)) (pj_cells pj);
         as = copy_from_slice new (slice old (old + n) (cell_anchors s)) (pj_anchors pj);
         f = new + (cols - 1);
         cut = (cols < scols s \<and> role (cs ! f) = Lead \<and> cell_width (cs ! f) \<ge> 2)
     in pj\<lparr>pj_cells := (if cut then cs[f := blank (bg (pen s))] else cs),
           pj_anchors := (if cut then as[f := None] else as),
           pj_breaks := (pj_breaks pj)[row := row_breaks s ! row],
           pj_ids := (pj_ids pj)[row := Some (line_ids s ! row)]\<rparr>)"

definition copy_plan :: "nat \<Rightarrow> nat \<Rightarrow> screen \<Rightarrow> resize_plan" where
  "copy_plan cols rows s =
    \<lparr>rp_projection = (fold (copy_resized_row cols s) [0..<min (srows s) rows] (blank_projection cols rows))
       \<lparr>pj_source_breaks := source_breaks s\<rparr>,
     rp_additions = [], rp_replace_history = False, rp_replace_from = None\<rparr>"

definition finish_prepare :: "nat \<Rightarrow> nat \<Rightarrow> screen \<Rightarrow> line_id_allocator \<Rightarrow> resize_plan \<Rightarrow> line_id_allocator \<times> prepared_screen res" where
  "finish_prepare cols rows s ids p =
    (let pj = rp_projection p in
     if \<not> can_allocate ids (length (filter (\<lambda>l. l = None) (pj_ids pj))) then (ids, Inl LineIdentityExhausted)
     else bind_res (fill_ids (pj_ids pj) ids) (\<lambda>ids' row_ids. (ids', Inr
       \<lparr>ps_cols = cols, ps_rows = rows, ps_cells = pj_cells pj, ps_anchors = pj_anchors pj, ps_line_ids = row_ids,
        ps_breaks = pj_breaks pj, ps_source_breaks = pj_source_breaks pj, ps_additions = rp_additions p,
        ps_pending = pj_pending pj, ps_replace_history = rp_replace_history p, ps_replace_from = rp_replace_from p,
        ps_cursor = (case pj_cursor pj of Some c \<Rightarrow> c | None \<Rightarrow> clamp cols rows (scursor s)),
        ps_saved = map_option (\<lambda>sv. sv\<lparr>sc_cursor := clamp cols rows (sc_cursor sv)\<rparr>) (saved s),
        ps_unchanged = False\<rparr>)))"

definition prepare_resize ::
  "layout \<Rightarrow> nat \<Rightarrow> nat \<Rightarrow> screen \<Rightarrow> line_id_allocator \<Rightarrow> grapheme_store \<Rightarrow> screen \<times> line_id_allocator \<times> prepared_screen res"
where
  "prepare_resize lay cols rows s ids st =
    (if cols = 0 \<or> rows = 0 then (s, ids, Inl InvalidSize)
     else if cols > MAX_TERMINAL_COLUMNS \<or> rows > MAX_TERMINAL_ROWS then (s, ids, Inl InvalidSize)
     else if cols = scols s \<and> rows = srows s then (s, ids, Inr prepared_noop)
     else if \<not> can_allocate ids (rows - srows s) then (s, ids, Inl LineIdentityExhausted)
     else
       let (s', p) = (if retain_history s \<and> (cols \<noteq> scols s \<or> rows < srows s)
                      then reflow_plan lay cols rows s st else (s, copy_plan cols rows s))
       in (s', finish_prepare cols rows s ids p))"

section \<open>Committing\<close>

definition settle_pending :: "nat \<times> history_unit \<Rightarrow> cell list \<times> grapheme_store \<Rightarrow> cell list \<times> grapheme_store" where
  "settle_pending iu cst =
    (case (iu, cst) of ((i, u), (cs, st)) \<Rightarrow>
       let (st', admit) = insert_replacing (hu_utf8 u) None st
       in (cs[i := lead_from_admit (first_scalar u) (max (hu_width u) 1) (hu_style u) admit], st'))"

definition commit_history :: "layout \<Rightarrow> prepared_screen \<Rightarrow> history_store \<Rightarrow> history_store" where
  "commit_history lay p h =
    (case ps_replace_from p of
       Some from \<Rightarrow> fold (append_line lay) (ps_additions p) (truncate_from lay from h)
     | None \<Rightarrow>
         if ps_replace_history p then replace_payload lay (ps_additions p) h
         else fold (append_line lay) (ps_additions p) h)"

definition release_dropped :: "cell list \<Rightarrow> cell list \<Rightarrow> grapheme_store \<Rightarrow> grapheme_store" where
  "release_dropped old new st =
    (let retained = map store_id (filter (\<lambda>c. role c = Lead) new)
     in fold (\<lambda>c st. if role c = Lead \<and> store_id c \<notin> set retained then release_cell c st else st) old st)"

definition commit_prepared :: "layout \<Rightarrow> prepared_screen \<Rightarrow> screen \<Rightarrow> grapheme_store \<Rightarrow> screen \<times> grapheme_store \<times> mutation" where
  "commit_prepared lay p s st =
    (if ps_unchanged p then (s, st, mutation_none)
     else
       let (cs, st1) = fold settle_pending (ps_pending p) (ps_cells p, st);
           s1 = s\<lparr>scols := ps_cols p, srows := ps_rows p, cells := cs, cell_anchors := ps_anchors p,
                  line_ids := ps_line_ids p, row_breaks := ps_breaks p, source_breaks := ps_source_breaks p,
                  scursor := ps_cursor p, saved := ps_saved p, history := commit_history lay p (history s)\<rparr>;
           s2 = (if region_is_full_screen s \<and> ps_rows p > 0 then s1\<lparr>scroll_top := 0, scroll_bottom := ps_rows p - 1\<rparr>
                 else clamp_scroll_region_to_geometry s1)
       in (s2, release_dropped (cells s) cs st1, mutation_full (ps_rows p)))"


section \<open>The new buffers are well formed\<close>

definition projection_ok :: "nat \<Rightarrow> nat \<Rightarrow> projection \<Rightarrow> bool" where
  "projection_ok cols rows pj \<longleftrightarrow>
     length (pj_cells pj) = rows * cols \<and> length (pj_anchors pj) = rows * cols \<and>
     length (pj_breaks pj) = rows \<and> length (pj_ids pj) = rows \<and> (\<forall>c \<in> set (pj_cells pj). cell_ok c) \<and>
     (\<forall>iu \<in> set (pj_pending pj). fits (hu_width (snd iu))) \<and>
     (\<forall>c. pj_cursor pj = Some c \<longrightarrow> cur_col c < cols \<and> cur_row c < rows)"

lemma blank_projection_ok: "projection_ok cols rows (blank_projection cols rows)"
  by (simp add: projection_ok_def blank_projection_def mult.commute)

lemma put_projected_ok: "projection_ok cols rows pj \<Longrightarrow> cell_ok c \<Longrightarrow> projection_ok cols rows (put_projected i w c a pj)"
  by (auto simp: projection_ok_def put_projected_def Let_def dest!: subsetD [OF set_update_subset_insert])

lemma project_anchors_ok:
  assumes "projection_ok cols rows pj" "\<And>a c. source a = Some c \<Longrightarrow> cell_ok c" "\<And>a u. units a = Some u \<Longrightarrow> fits (hu_width u)"
  shows "projection_ok cols rows (project_anchors cols start source units col as pj)"
  using assms(1)
proof (induction as arbitrary: col pj)
  case (Cons a as)
  show ?case
  proof (cases "source a")
    case (Some c)
    then show ?thesis using Cons put_projected_ok assms(2) by (simp add: Let_def)
  next
    case None
    then show ?thesis
    proof (cases "units a")
      case (Some u)
      have "cell_ok (lead_inline (first_scalar u) (max (hu_width u) 1) (hu_style u))"
        using assms(3) [OF Some] by (auto simp: fits_def)
      moreover have "projection_ok cols rows (pj\<lparr>pj_pending := pj_pending pj @ [(i, u)]\<rparr>)" for i
        using Cons.prems assms(3) [OF Some] by (simp add: projection_ok_def)
      ultimately show ?thesis using None Some Cons put_projected_ok by (simp add: Let_def)
    qed (use Cons in simp)
  qed
qed simp

lemma project_row_ok:
  assumes "projection_ok cols rows pj" "\<And>a c. src_cells src a = Some c \<Longrightarrow> cell_ok c" "\<And>a u. units a = Some u \<Longrightarrow> fits (hu_width u)"
    "row < rows" "0 < cols"
  shows "projection_ok cols rows (project_row s cols src units (row, r) pj)"
proof -
  let ?pj1 = "if unit_offset (src_cursor src) = 0 \<and> row_source r = Some (anchor_line (src_cursor src)) \<and> row_anchors r = []
    then pj\<lparr>pj_cursor := Some \<lparr>cur_col = min (ccol s) (cols - 1), cur_row = row, pending_wrap = False\<rparr>\<rparr> else pj"
  have "projection_ok cols rows ?pj1" using assms(1,4,5) by (auto simp: projection_ok_def)
  from project_anchors_ok [OF this, of "src_cells src" units] assms(2,3)
  have "projection_ok cols rows (project_anchors cols (row * cols) (src_cells src) units 0 (row_anchors r) ?pj1)" by blast
  then show ?thesis by (simp add: project_row_def Let_def projection_ok_def)
qed

lemma project_rows_ok:
  assumes "projection_ok cols rows pj" "\<And>a c. src_cells src a = Some c \<Longrightarrow> cell_ok c" "\<And>a u. units a = Some u \<Longrightarrow> fits (hu_width u)"
    "0 < cols" "n + length rs \<le> rows"
  shows "projection_ok cols rows (fold (project_row s cols src units) (enumerate n rs) pj)"
  using assms(1,5)
proof (induction rs arbitrary: n pj)
  case (Cons r rs)
  have "projection_ok cols rows (project_row s cols src units (n, r) pj)"
    by (rule project_row_ok) (use Cons.prems assms(2-4) in auto)
  then show ?case using Cons.IH [of _ "Suc n"] Cons.prems by simp
qed simp

lemma active_first_le: "length laid - active_first rows laid \<le> rows"
proof -
  let ?hits = "filter (\<lambda>i. row_unavailable (laid ! i)) [length laid - rows..<length laid]"
  have "length laid - rows \<le> last ?hits" if "?hits \<noteq> []" using last_in_set [OF that] by auto
  then show ?thesis by (auto simp: active_first_def Let_def)
qed

lemma scan_cursor_bound:
  "pred_option (\<lambda>j. j < n) prior \<Longrightarrow> i + length as \<le> n \<Longrightarrow>
   pred_option (\<lambda>j. j < n) (fst (scan_cursor target i as prior)) \<and> pred_option (\<lambda>j. j < n) (snd (scan_cursor target i as prior))"
proof (induction as arbitrary: i prior)
  case (Cons x as)
  show ?case
  proof (cases x)
    case (Some a)
    have "pred_option (\<lambda>j. j < n) (if b then Some i else prior)" for b using Cons.prems by simp
    then show ?thesis using Cons.IH [of _ "Suc i"] Cons.prems Some by (simp only: scan_cursor.simps split: if_split) simp
  qed (use Cons.IH [of prior "Suc i"] Cons.prems in simp)
qed simp

lemma map_cursor_ok:
  assumes "projection_ok cols rows pj" "0 < cols" "map_cursor s cols target pj = Some c"
  shows "cur_col c < cols \<and> cur_row c < rows"
proof -
  obtain found prior where f: "scan_cursor target 0 (pj_anchors pj) None = (found, prior)" by fastforce
  have b: "(\<forall>j. found = Some j \<longrightarrow> j < rows * cols) \<and> (\<forall>j. prior = Some j \<longrightarrow> j < rows * cols)"
    using scan_cursor_bound [of "rows * cols" None 0 "pj_anchors pj" target] f assms(1) by (auto simp: projection_ok_def)
  have d: "i < rows * cols \<Longrightarrow> i mod cols < cols \<and> i div cols < rows" for i
    using assms(2) by (simp add: less_mult_imp_div_less)
  show ?thesis using assms f b d
    by (auto simp: map_cursor_def Let_def projection_ok_def split: option.splits)
qed

lemma length_reuse_ids [simp]: "length (reuse_ids ls pool) = length ls"
  by (induction ls pool rule: reuse_ids.induct) simp_all

lemma fill_ids_ok: "allocator_ok ids \<Longrightarrow> allocator_ok (fst (fill_ids ls ids)) \<and> (\<forall>xs. snd (fill_ids ls ids) = Inr xs \<longrightarrow> length xs = length ls)"
proof (induction ls ids rule: fill_ids.induct)
  case (3 ls ids)
  then show ?case using allocate_ok [of ids] by (fastforce simp: bind_res_def split: prod.splits sum.splits)
qed (auto simp: bind_res_def split: prod.splits sum.splits)


definition source_ok_for :: "resize_source \<Rightarrow> bool" where
  "source_ok_for src \<longleftrightarrow> (\<forall>a c. src_cells src a = Some c \<longrightarrow> cell_ok c) \<and> (\<forall>l \<in> set (src_lines src). line_fits l)"

lemma source_anchor_keeps: "src_cells (fst (source_anchor s row col src)) = src_cells src" "src_lines (fst (source_anchor s row col src)) = src_lines src"
  by (simp_all add: source_anchor_def Let_def split: option.split)

lemma add_source_cell_ok:
  assumes "source_ok_for src" "cell_ok c"
  shows "source_ok_for (add_source_cell s st row (col, c) src)"
proof -
  obtain src1 a where a: "source_anchor s row col src = (src1, a)" by fastforce
  have k: "src_cells src1 = src_cells src" "src_lines src1 = src_lines src" using source_anchor_keeps [of s row col src] a by simp_all
  have "line_fits ((from_cells (anchor_line a) SoftWrap [c] st)\<lparr>hl_start := unit_offset a\<rparr>)"
    using from_cells_fits [of "[c]" "anchor_line a" SoftWrap st] assms(2) by (simp add: line_fits_def)
  from join_fragment_fits [OF _ this, of "src_lines src"] assms show ?thesis
    by (simp add: add_source_cell_def a Let_def source_ok_for_def k)
qed

lemma add_source_cells_ok: "source_ok_for src \<Longrightarrow> \<forall>c \<in> set cs. cell_ok c \<Longrightarrow> source_ok_for (fold (add_source_cell s st row) (enumerate n cs) src)"
  by (induction cs arbitrary: n src) (simp_all add: add_source_cell_ok)

lemma row_cells_ok: "screen_ok s \<Longrightarrow> \<forall>c \<in> set (row_cells_of s row). cell_ok c"
  using slice_subset by (fastforce simp: screen_ok_def)

lemma add_source_row_ok:
  assumes "source_ok_for src" "screen_ok s"
  shows "source_ok_for (add_source_row s st row src)"
proof -
  note c = row_cells_ok [OF assms(2), of row]
  show ?thesis using add_source_cells_ok [OF assms(1) c, of s st row 0] from_cells_fits [OF c]
    by (auto simp: add_source_row_def Let_def source_ok_for_def)
qed

lemma collect_source_ok:
  assumes "screen_ok s"
  shows "source_ok_for (collect_source n s st)"
proof -
  have "source_ok_for (fold (add_source_row s st) rs src)" if "source_ok_for src" for rs src
    using that assms by (induction rs arbitrary: src) (simp_all add: add_source_row_ok)
  from this [of "\<lparr>src_lines = [], src_cells = Map.empty, src_offsets = Map.empty, src_breaks = Map.empty,
        src_cursor = \<lparr>anchor_line = line_ids s ! crow s, unit_offset = 0\<rparr>\<rparr>" "[0..<Suc n]"]
  show ?thesis unfolding collect_source_def Let_def by (auto simp: source_ok_for_def last_breaks_fits)
qed

lemma history_units_fits: "\<forall>l \<in> set ls. line_fits l \<Longrightarrow> history_units ls a = Some u \<Longrightarrow> fits (hu_width u)"
  by (fastforce simp: history_units_def line_unit_anchors_def line_fits_def dest!: map_of_SomeD in_set_enumerate_eq [THEN iffD1])

lemma prefix_until_fits: "\<forall>l \<in> set ls. line_fits l \<Longrightarrow> \<forall>l \<in> set (prefix_until b ls). line_fits l"
  by (induction ls) (auto simp: Let_def line_fits_def dest: in_set_takeD)

lemma history_prefix_fits: "\<forall>l \<in> set ls. line_fits l \<Longrightarrow> \<forall>l \<in> set (history_prefix ls b). line_fits l"
  by (simp add: history_prefix_def prefix_until_fits split: option.split)

definition plan_ok :: "nat \<Rightarrow> nat \<Rightarrow> resize_plan \<Rightarrow> bool" where
  "plan_ok cols rows p \<longleftrightarrow> projection_ok cols rows (rp_projection p) \<and> (\<forall>l \<in> set (rp_additions p). line_fits l)"

lemma reflow_plan_ok:
  assumes ok: "screen_ok s" and c: "0 < cols"
  shows "plan_ok cols rows (snd (reflow_plan lay cols rows s st)) \<and> screen_ok (fst (reflow_plan lay cols rows s st))"
proof -
  define last_row where "last_row = last_source_row rows s"
  define src where "src = collect_source last_row s st"
  obtain h suffix fr start_col where e: "eager_resize_suffix (history s) cols (eager_resize_row_budget rows) = (h, suffix, fr, start_col)"
    by (metis prod_cases4)
  define laid where "laid = snd (reflow_from lay (fold (append_line lay) (suffix @ src_lines src) new_history) cols u64_max start_col)"
  define pj where "pj = fold (project_row s cols src (history_units suffix)) (enumerate 0 (drop (active_first rows laid) laid)) (blank_projection cols rows)"
  have w: "widths_ok (history s)" using ok by (simp add: screen_ok_def)
  have sl: "\<forall>l \<in> set suffix. line_fits l" using suffix_lines_fit [OF w, of cols "eager_resize_row_budget rows"] e by simp
  have src: "source_ok_for src" unfolding src_def by (rule collect_source_ok [OF ok])
  have pj: "projection_ok cols rows pj" unfolding pj_def
    by (rule project_rows_ok)
      (use blank_projection_ok src history_units_fits [OF sl] c active_first_le [of laid rows] in \<open>auto simp: source_ok_for_def\<close>)
  have "widths_ok h" using suffix_history_fits [OF w, of cols "eager_resize_row_budget rows"] e by simp
  then have "screen_ok (s\<lparr>history := h\<rparr>)" using ok by (simp add: screen_ok_def)
  moreover have "projection_ok cols rows (pj\<lparr>pj_cursor := map_cursor s cols t pj, pj_ids := reuse_ids (pj_ids pj) ids\<rparr>)" for t ids
    using pj map_cursor_ok [OF pj c] by (simp add: projection_ok_def)
  moreover have "\<forall>l \<in> set (history_prefix (suffix @ src_lines src) b). line_fits l" for b
    by (rule history_prefix_fits) (use sl src in \<open>auto simp: source_ok_for_def\<close>)
  ultimately show ?thesis
    unfolding reflow_plan_def Let_def plan_ok_def last_row_def [symmetric] src_def [symmetric] e prod.case
      laid_def [symmetric] pj_def [symmetric] by simp
qed

lemma copy_from_slice_length: "d + length ys \<le> length xs \<Longrightarrow> length (copy_from_slice d ys xs) = length xs"
  by (simp add: copy_from_slice_def)

lemma copy_from_slice_set: "set (copy_from_slice d ys xs) \<subseteq> set xs \<union> set ys"
  by (auto simp: copy_from_slice_def dest: in_set_takeD in_set_dropD)

lemma screen_cells_ok: "screen_ok s \<Longrightarrow> \<forall>c \<in> set (cells s). cell_ok c"
  by (simp add: screen_ok_def)

lemma projection_cells_ok: "projection_ok cols rows pj \<Longrightarrow> \<forall>c \<in> set (pj_cells pj). cell_ok c"
  by (simp add: projection_ok_def)

lemma copy_resized_row_ok:
  assumes ok: "screen_ok s" and pj: "projection_ok cols rows pj" and r: "row < rows" "row < srows s"
  shows "projection_ok cols rows (copy_resized_row cols s row pj)"
proof -
  let ?n = "min (scols s) cols" and ?old = "row * scols s"
  have e1: "row * cols + ?n \<le> rows * cols" using mult_le_mono1 [of "Suc row" rows cols] r(1) by simp
  have l: "length (cells s) = srows s * scols s" "length (cell_anchors s) = srows s * scols s" using ok by (simp_all add: screen_ok_def)
  have e2: "?old + ?n \<le> srows s * scols s" using mult_le_mono1 [of "Suc row" "srows s" "scols s"] r(2) by simp
  have n: "length (slice ?old (?old + ?n) xs) = ?n" if "length xs = srows s * scols s" for xs :: "'b list"
    using e2 that by (simp add: slice_def)
  let ?cs = "copy_from_slice (row * cols) (slice ?old (?old + ?n) (cells s)) (pj_cells pj)"
  let ?as = "copy_from_slice (row * cols) (slice ?old (?old + ?n) (cell_anchors s)) (pj_anchors pj)"
  have len: "length ?cs = rows * cols" "length ?as = rows * cols"
    using copy_from_slice_length [of "row * cols" "slice ?old (?old + ?n) (cells s)" "pj_cells pj"]
      copy_from_slice_length [of "row * cols" "slice ?old (?old + ?n) (cell_anchors s)" "pj_anchors pj"] pj e1 n [OF l(1)] n [OF l(2)]
    by (simp_all add: projection_ok_def)
  have "\<forall>c \<in> set ?cs. cell_ok c"
    using copy_from_slice_set [of "row * cols" "slice ?old (?old + ?n) (cells s)" "pj_cells pj"] slice_subset [of ?old "?old + ?n" "cells s"]
      projection_cells_ok [OF pj] screen_cells_ok [OF ok] by blast
  then show ?thesis using pj len unfolding copy_resized_row_def Let_def
    by (auto simp: projection_ok_def dest!: subsetD [OF set_update_subset_insert])
qed

lemma copy_plan_ok:
  assumes "screen_ok s"
  shows "plan_ok cols rows (copy_plan cols rows s)"
proof -
  have "projection_ok cols rows (fold (copy_resized_row cols s) rs pj)" if "projection_ok cols rows pj" "\<forall>r \<in> set rs. r < rows \<and> r < srows s" for rs pj
    using that assms by (induction rs arbitrary: pj) (simp_all add: copy_resized_row_ok)
  from this [OF blank_projection_ok, of "[0..<min (srows s) rows]"] show ?thesis
    by (simp add: plan_ok_def copy_plan_def projection_ok_def)
qed


section \<open>Preparing and committing\<close>

definition prepared_ok :: "nat \<Rightarrow> nat \<Rightarrow> prepared_screen \<Rightarrow> bool" where
  "prepared_ok cols rows p \<longleftrightarrow> ps_cols p = cols \<and> ps_rows p = rows \<and> 0 < cols \<and> cols \<le> MAX_TERMINAL_COLUMNS \<and>
     0 < rows \<and> rows \<le> MAX_TERMINAL_ROWS \<and>
     length (ps_cells p) = rows * cols \<and> length (ps_anchors p) = rows * cols \<and> length (ps_breaks p) = rows \<and>
     length (ps_line_ids p) = rows \<and> (\<forall>c \<in> set (ps_cells p). cell_ok c) \<and>
     (\<forall>iu \<in> set (ps_pending p). fits (hu_width (snd iu))) \<and> (\<forall>l \<in> set (ps_additions p). line_fits l) \<and>
     cur_col (ps_cursor p) < cols \<and> cur_row (ps_cursor p) < rows"

lemma finish_prepare_ok:
  assumes "plan_ok cols rows p" "allocator_ok ids" "0 < cols" "cols \<le> MAX_TERMINAL_COLUMNS" "0 < rows" "rows \<le> MAX_TERMINAL_ROWS"
  shows "allocator_ok (fst (finish_prepare cols rows s ids p)) \<and>
    (\<forall>ps. snd (finish_prepare cols rows s ids p) = Inr ps \<longrightarrow> prepared_ok cols rows ps \<and> \<not> ps_unchanged ps)"
proof -
  note f = fill_ids_ok [OF assms(2), of "pj_ids (rp_projection p)"]
  have c: "cur_col (clamp cols rows x) < cols" "cur_row (clamp cols rows x) < rows" for x
    using assms(3,5) by (auto simp: clamp_def)
  show ?thesis using f assms c
    by (auto simp: finish_prepare_def Let_def bind_res_def prepared_ok_def plan_ok_def projection_ok_def split: prod.splits sum.splits option.splits)
qed

lemma prepare_resize_ok:
  assumes ok: "screen_ok s" "allocator_ok ids" and p: "prepare_resize lay cols rows s ids st = (s1, ids1, r)"
  shows "screen_ok s1" "allocator_ok ids1" "s1 = s\<lparr>history := history s1\<rparr>"
    "r = Inr ps \<Longrightarrow> (if ps_unchanged ps then s1 = s \<and> cols = scols s \<and> rows = srows s else prepared_ok cols rows ps)"
proof -
  define plan where "plan = (if retain_history s \<and> (cols \<noteq> scols s \<or> rows < srows s)
                      then reflow_plan lay cols rows s st else (s, copy_plan cols rows s))"
  have pl: "0 < cols \<Longrightarrow> plan_ok cols rows (snd plan) \<and> screen_ok (fst plan)"
    using reflow_plan_ok [OF ok(1), of cols rows lay st] copy_plan_ok [OF ok(1), of cols rows] ok(1) by (simp add: plan_def)
  have h: "fst plan = s\<lparr>history := history (fst plan)\<rparr>"
    by (simp add: plan_def reflow_plan_def Let_def case_prod_beta)
  let ?size = "cols = 0 \<or> rows = 0 \<or> cols > MAX_TERMINAL_COLUMNS \<or> rows > MAX_TERMINAL_ROWS"
  have eq: "(s1, ids1, r) = (if ?size then (s, ids, Inl InvalidSize)
     else if cols = scols s \<and> rows = srows s then (s, ids, Inr prepared_noop)
     else if \<not> can_allocate ids (rows - srows s) then (s, ids, Inl LineIdentityExhausted)
     else (fst plan, finish_prepare cols rows s ids (snd plan)))"
    unfolding p [symmetric] prepare_resize_def plan_def [symmetric] by (simp add: case_prod_beta)
  note f = finish_prepare_ok [OF conjunct1 [OF pl] ok(2), of s]
  have "screen_ok s1 \<and> allocator_ok ids1 \<and> s1 = s\<lparr>history := history s1\<rparr> \<and>
    (r = Inr ps \<longrightarrow> (if ps_unchanged ps then s1 = s \<and> cols = scols s \<and> rows = srows s else prepared_ok cols rows ps))"
    using eq ok pl h f by (auto split: if_splits simp: prepared_noop_def prod_eq_iff)
  then show "screen_ok s1" "allocator_ok ids1" "s1 = s\<lparr>history := history s1\<rparr>"
    "r = Inr ps \<Longrightarrow> (if ps_unchanged ps then s1 = s \<and> cols = scols s \<and> rows = srows s else prepared_ok cols rows ps)"
    by blast+
qed

lemma settle_pending_ok:
  assumes "\<forall>c \<in> set (fst cst). cell_ok c" "store_ok (snd cst)" "\<forall>iu \<in> set ius. fits (hu_width (snd iu))"
  shows "length (fst (fold settle_pending ius cst)) = length (fst cst) \<and>
    (\<forall>c \<in> set (fst (fold settle_pending ius cst)). cell_ok c) \<and> store_ok (snd (fold settle_pending ius cst))"
  using assms
proof (induction ius arbitrary: cst)
  case (Cons iu ius)
  obtain i u cs st where x: "iu = (i, u)" "cst = (cs, st)" by (cases iu, cases cst)
  obtain st' admit where n: "insert_replacing (hu_utf8 u) None st = (st', admit)" by fastforce
  have st': "store_ok st'" using insert_ok [of st "hu_utf8 u" None] Cons.prems(2) n x by simp
  have "fits (hu_width u)" using Cons.prems(3) x by simp
  then have "cell_ok (lead_from_admit (first_scalar u) (max (hu_width u) 1) (hu_style u) admit)" by (auto simp: fits_def)
  then have "\<forall>c \<in> set (cs[i := lead_from_admit (first_scalar u) (max (hu_width u) 1) (hu_style u) admit]). cell_ok c"
    using Cons.prems(1) x by (auto dest!: subsetD [OF set_update_subset_insert])
  then show ?case using Cons.IH [of "settle_pending iu cst"] Cons.prems(3) st' x n by (simp add: settle_pending_def)
qed simp

lemma release_dropped_ok: "store_ok st \<Longrightarrow> store_ok (release_dropped old new st)"
proof -
  have "store_ok st \<Longrightarrow> store_ok (fold (\<lambda>c st. if P c then release_cell c st else st) cs st)" for P cs st
    by (induction cs arbitrary: st) (simp_all add: release_cell_ok)
  then show "store_ok st \<Longrightarrow> store_ok (release_dropped old new st)" by (simp add: release_dropped_def Let_def)
qed

lemma commit_history_fits: "widths_ok h \<Longrightarrow> \<forall>l \<in> set (ps_additions p). line_fits l \<Longrightarrow> widths_ok (commit_history lay p h)"
  by (simp add: commit_history_def append_lines_fits truncate_from_fits replace_payload_fits split: option.split)

lemma clamp_region_ok:
  "0 < srows s \<Longrightarrow> scroll_top (clamp_scroll_region_to_geometry s) \<le> scroll_bottom (clamp_scroll_region_to_geometry s) \<and>
    scroll_bottom (clamp_scroll_region_to_geometry s) < srows s"
  by (auto simp: clamp_scroll_region_to_geometry_def Let_def)

lemma clamp_region_other [simp]:
  "scols (clamp_scroll_region_to_geometry s) = scols s" "srows (clamp_scroll_region_to_geometry s) = srows s"
  "cells (clamp_scroll_region_to_geometry s) = cells s" "cell_anchors (clamp_scroll_region_to_geometry s) = cell_anchors s"
  "line_ids (clamp_scroll_region_to_geometry s) = line_ids s" "row_breaks (clamp_scroll_region_to_geometry s) = row_breaks s"
  "scursor (clamp_scroll_region_to_geometry s) = scursor s" "history (clamp_scroll_region_to_geometry s) = history s"
  by (simp_all add: clamp_scroll_region_to_geometry_def Let_def)

lemma commit_prepared_ok:
  assumes ok: "screen_ok s" "store_ok st" and p: "prepared_ok cols rows p" "\<not> ps_unchanged p"
  shows "case commit_prepared lay p s st of (s', st', m) \<Rightarrow>
    screen_ok s' \<and> scols s' = cols \<and> srows s' = rows \<and> store_ok st' \<and> m = mutation_full rows"
proof -
  obtain cs st1 where f: "fold settle_pending (ps_pending p) (ps_cells p, st) = (cs, st1)" by fastforce
  have c: "length cs = rows * cols" "\<forall>c \<in> set cs. cell_ok c" "store_ok st1"
    using settle_pending_ok [of "(ps_cells p, st)" "ps_pending p"] p(1) ok(2) f by (simp_all add: prepared_ok_def)
  have h: "widths_ok (commit_history lay p (history s))"
    using commit_history_fits ok(1) p(1) by (simp add: screen_ok_def prepared_ok_def)
  define s1 where "s1 = s\<lparr>scols := ps_cols p, srows := ps_rows p, cells := cs, cell_anchors := ps_anchors p,
                  line_ids := ps_line_ids p, row_breaks := ps_breaks p, source_breaks := ps_source_breaks p,
                  scursor := ps_cursor p, saved := ps_saved p, history := commit_history lay p (history s)\<rparr>"
  define s2 where "s2 = (if region_is_full_screen s \<and> ps_rows p > 0 then s1\<lparr>scroll_top := 0, scroll_bottom := ps_rows p - 1\<rparr>
     else clamp_scroll_region_to_geometry s1)"
  have "screen_ok s2 \<and> scols s2 = cols \<and> srows s2 = rows"
    using p(1) c h clamp_region_ok [of s1] by (auto simp: s2_def s1_def screen_ok_def prepared_ok_def)
  moreover have "commit_prepared lay p s st = (s2, release_dropped (cells s) cs st1, mutation_full (ps_rows p))"
    using p(2) by (simp only: commit_prepared_def f Let_def prod.case s1_def [symmetric] s2_def [symmetric] if_False)
  ultimately show ?thesis using p(1) c(3) release_dropped_ok by (simp add: prepared_ok_def)
qed

end
