(* ===== verification/Resize_Copy.thy ===== *)
theory Resize_Copy
  imports Screen_Resize Screen_Edits
begin

text \<open>
  What a resize keeps of a screen without history: cell by cell, the copying branch of
  \<open>Screen::prepare_resize\<close> (screen/resize.rs) against \<open>resized_cell\<close>, the old cell except for a wide
  unit that the new right margin cuts in two.
\<close>

section \<open>Copied rows\<close>

definition resized_cell :: "nat \<Rightarrow> screen \<Rightarrow> nat \<Rightarrow> nat \<Rightarrow> cell" where
  "resized_cell cols s col row =
    (let c = cells s ! (row * scols s + col)
     in if cols < scols s \<and> col = cols - 1 \<and> role c = Lead \<and> cell_width c \<ge> 2 then blank (bg (pen s)) else c)"

lemma nth_copy_from_slice:
  "d + length ys \<le> length xs \<Longrightarrow> i < length xs \<Longrightarrow>
   copy_from_slice d ys xs ! i = (if d \<le> i \<and> i < d + length ys then ys ! (i - d) else xs ! i)"
  by (auto simp: copy_from_slice_def nth_append)

lemma other_row: "c < (cols :: nat) \<Longrightarrow> r \<noteq> row \<Longrightarrow> r * cols + c < row * cols \<or> row * cols + cols \<le> r * cols + c"
proof -
  assume c: "c < cols" and r: "r \<noteq> row"
  show ?thesis
  proof (cases "r < row")
    case True
    then have "Suc r * cols \<le> row * cols" by (intro mult_le_mono1) simp
    then show ?thesis using c by simp
  next
    case False
    then have "Suc row * cols \<le> r * cols" using r by (intro mult_le_mono1) simp
    then show ?thesis by simp
  qed
qed

lemma nth_update_if: "j < length cs \<Longrightarrow> (if b then cs[f := v] else cs) ! j = (if b \<and> j = f then v else cs ! j)"
  by simp

lemma copy_resized_row_cell:
  assumes ok: "screen_ok s" and pj: "projection_ok cols rows pj" and row: "row < rows" "row < srows s"
    and rc: "r < rows" "c < cols"
  shows "pj_cells (copy_resized_row cols s row pj) ! (r * cols + c) =
    (if r = row \<and> c < scols s then resized_cell cols s c row else pj_cells pj ! (r * cols + c))"
proof -
  let ?n = "min (scols s) cols" and ?old = "row * scols s" and ?i = "r * cols + c"
  define ys where "ys = slice ?old (?old + ?n) (cells s)"
  define cs where "cs = copy_from_slice (row * cols) ys (pj_cells pj)"
  define cut where "cut \<longleftrightarrow> cols < scols s \<and> role (cs ! (row * cols + (cols - 1))) = Lead \<and> cell_width (cs ! (row * cols + (cols - 1))) \<ge> 2"
  have eq: "pj_cells (copy_resized_row cols s row pj) = (if cut then cs[row * cols + (cols - 1) := blank (bg (pen s))] else cs)"
    unfolding copy_resized_row_def Let_def cut_def cs_def ys_def by simp
  have e2: "?old + ?n \<le> srows s * scols s" using mult_le_mono1 [of "Suc row" "srows s" "scols s"] row(2) by simp
  then have ly: "length ys = ?n" using ok by (simp add: ys_def slice_def screen_ok_def)
  have lp: "length (pj_cells pj) = rows * cols" using pj by (simp add: projection_ok_def)
  have e1: "row * cols + ?n \<le> rows * cols" using mult_le_mono1 [of "Suc row" rows cols] row(1) by simp
  have i: "?i < rows * cols" using mult_le_mono1 [of "Suc r" rows cols] rc by simp
  have lc: "length cs = rows * cols" using e1 ly lp by (simp add: cs_def copy_from_slice_def)
  have "length (cells s) = srows s * scols s" using ok by (simp add: screen_ok_def)
  then have le: "?old \<le> length (cells s)" using e2 by linarith
  have yn: "ys ! k = cells s ! (?old + k)" if "k < ?n" for k
    using that le by (simp add: ys_def slice_def)
  have nth: "cs ! ?i = (if r = row \<and> c < scols s then cells s ! (?old + c) else pj_cells pj ! ?i)"
    using nth_copy_from_slice [of "row * cols" ys "pj_cells pj" ?i] e1 ly lp i rc yn other_row [OF rc(2), of r row]
    by (cases "r = row") (auto simp: cs_def)
  have last: "cs ! (row * cols + (cols - 1)) = cells s ! (?old + (cols - 1))" if "cols < scols s"
  proof -
    have "row * cols + (cols - 1) < rows * cols" using mult_le_mono1 [of "Suc row" rows cols] row(1) rc(2) by simp
    then show ?thesis using nth_copy_from_slice [of "row * cols" ys "pj_cells pj" "row * cols + (cols - 1)"] e1 ly lp yn [of "cols - 1"] that rc
      by (simp add: cs_def)
  qed
  have idx: "?i = row * cols + (cols - 1) \<longleftrightarrow> r = row \<and> c = cols - 1" using other_row [OF rc(2), of r row] rc(2) by (cases "r = row") auto
  have ij: "?i < length cs" using i lc by simp
  have u: "(if cut then cs[row * cols + (cols - 1) := blank (bg (pen s))] else cs) ! ?i =
    (if cut \<and> r = row \<and> c = cols - 1 then blank (bg (pen s)) else cs ! ?i)"
    by (simp only: nth_update_if [OF ij] idx)
  have "cut \<longleftrightarrow> cols < scols s \<and> role (cells s ! (?old + (cols - 1))) = Lead \<and> cell_width (cells s ! (?old + (cols - 1))) \<ge> 2"
    unfolding cut_def using last by metis
  then show ?thesis unfolding eq u nth resized_cell_def Let_def using rc(2) by auto
qed

lemma copy_rows_cell:
  assumes ok: "screen_ok s" and k: "k \<le> min (srows s) rows" and rc: "r < rows" "c < cols"
  shows "pj_cells (fold (copy_resized_row cols s) [0..<k] (blank_projection cols rows)) ! (r * cols + c) =
    (if r < k \<and> c < scols s then resized_cell cols s c r else default_cell)"
  using k
proof (induction k)
  case 0
  have "r * cols + c < rows * cols" using mult_le_mono1 [of "Suc r" rows cols] rc by simp
  then show ?case by (simp add: blank_projection_def mult.commute)
next
  case (Suc k)
  let ?pj = "fold (copy_resized_row cols s) [0..<k] (blank_projection cols rows)"
  have "projection_ok cols rows (fold (copy_resized_row cols s) rs pj)" if "projection_ok cols rows pj" "\<forall>r \<in> set rs. r < rows \<and> r < srows s" for rs pj
    using that ok by (induction rs arbitrary: pj) (simp_all add: copy_resized_row_ok)
  from this [OF blank_projection_ok, of "[0..<k]"] have p: "projection_ok cols rows ?pj" using Suc.prems by simp
  show ?case using copy_resized_row_cell [OF ok p, of k r c] Suc rc by (auto simp: less_Suc_eq)
qed

text \<open>
  C11 (resize_keeps_rectangle): a screen that keeps no history, such as the alternate screen, shows
  after a resize exactly the common rectangle of its old and new grid, where only a wide unit whose
  second cell falls outside a narrower grid is blanked, and every cell outside that rectangle is the
  default blank.
\<close>

theorem resize_keeps_rectangle:
  assumes "screen_ok s" "allocator_ok ids" "\<not> retain_history s"
    "prepare_resize lay cols rows s ids st = (s1, ids1, Inr p)" "commit_prepared lay p s1 st = (s2, st2, m)"
    "col < cols" "row < rows"
  shows "scols s2 = cols \<and> srows s2 = rows \<and>
    screen_cell s2 col row = Some (if col < scols s \<and> row < srows s then resized_cell cols s col row else default_cell)"
proof (cases "cols = scols s \<and> rows = srows s")
  case True
  then have "s1 = s" "p = prepared_noop" using assms(4) by (simp_all add: prepare_resize_def split: if_splits)
  then have "s2 = s" using assms(5) by (simp add: commit_prepared_def prepared_noop_def)
  then show ?thesis using True assms(6,7) by (simp add: screen_cell_def cell_index_def resized_cell_def Let_def)
next
  case False
  let ?pj = "rp_projection (copy_plan cols rows s)"
  have f: "s1 = s \<and> finish_prepare cols rows s ids (copy_plan cols rows s) = (ids1, Inr p)"
    using assms(3,4) False by (auto simp: prepare_resize_def split: if_splits)
  then have p: "ps_cells p = pj_cells ?pj \<and> ps_pending p = pj_pending ?pj \<and> \<not> ps_unchanged p \<and> ps_cols p = cols \<and> ps_rows p = rows"
    by (auto simp: finish_prepare_def Let_def bind_res_def split: if_splits prod.splits sum.splits)
  have "pj_pending (fold (copy_resized_row cols s) rs pj) = pj_pending pj" for rs pj
    by (induction rs arbitrary: pj) (simp_all add: copy_resized_row_def Let_def)
  then have pend: "ps_pending p = []" using p by (simp add: copy_plan_def blank_projection_def)
  have c: "cells s2 = pj_cells ?pj \<and> scols s2 = cols \<and> srows s2 = rows"
    using assms(5) p pend by (auto simp: commit_prepared_def Let_def split: if_splits)
  have "cells s2 ! (row * cols + col) = (if col < scols s \<and> row < srows s then resized_cell cols s col row else default_cell)"
    using copy_rows_cell [OF assms(1), of "min (srows s) rows" rows row col cols] assms(6,7) c by (simp add: copy_plan_def)
  then show ?thesis using c False assms(6,7) by (simp add: screen_cell_def cell_index_def)
qed


definition alt_sample :: canvas where
  "alt_sample = fst (run_edits layout64 [Put (lead_inline 0x41 1 default_style) True, Put (lead_inline 0x42 1 default_style) True,
     Put (lead_inline 0x4e16 2 default_style) True] (the (fresh_canvas 4 2 False)))"

definition alt_prepared :: "screen \<times> line_id_allocator \<times> prepared_screen res" where
  "alt_prepared = prepare_resize layout64 3 5 (scr alt_sample) (alloc alt_sample) (payloads alt_sample)"

theorem resize_keeps_rectangle_witness:
  "let s2 = fst (commit_prepared layout64 (projr (snd (snd alt_prepared))) (fst alt_prepared) (payloads alt_sample)) in
   scols s2 = 3 \<and> srows s2 = 5 \<and> screen_cell s2 1 0 = Some (lead_inline 0x42 1 default_style) \<and>
   screen_cell s2 2 0 = Some (blank DefaultColor) \<and> screen_cell s2 0 3 = Some default_cell"
proof -
  have f: "fresh_canvas 4 2 False = Some (the (fresh_canvas 4 2 False))" by (rule some_the) code_simp
  have e: "list_all edit_ok [Put (lead_inline 0x41 1 default_style) True, Put (lead_inline 0x42 1 default_style) True,
     Put (lead_inline 0x4e16 2 default_style) True]" by code_simp
  have ok: "canvas_ok alt_sample" unfolding alt_sample_def using run_edits_ok [OF fresh_canvas_ok(1) [OF f] e] by (simp add: op_ok_def)
  have r: "\<not> retain_history (scr alt_sample)" "scols (scr alt_sample) = 4" "srows (scr alt_sample) = 2"
    "can_allocate (alloc alt_sample) 3" by code_simp+
  have w: "resized_cell 3 (scr alt_sample) 1 0 = lead_inline 0x42 1 default_style"
    "resized_cell 3 (scr alt_sample) 2 0 = blank DefaultColor" by code_simp+
  have q: "\<not> isl (snd (finish_prepare 3 5 (scr alt_sample) (alloc alt_sample) (copy_plan 3 5 (scr alt_sample))))" by code_simp
  have v: "\<not> isl (snd (snd alt_prepared))"
    unfolding alt_prepared_def prepare_resize_def using q r by (simp add: MAX_TERMINAL_COLUMNS_def MAX_TERMINAL_ROWS_def)
  let ?p = "projr (snd (snd alt_prepared))"
  have p: "prepare_resize layout64 3 5 (scr alt_sample) (alloc alt_sample) (payloads alt_sample) =
    (fst alt_prepared, fst (snd alt_prepared), Inr ?p)"
    using v by (simp add: alt_prepared_def [symmetric] prod_eq_iff)
  let ?c = "commit_prepared layout64 ?p (fst alt_prepared) (payloads alt_sample)"
  have c: "?c = (fst ?c, fst (snd ?c), snd (snd ?c))" by simp
  have s: "screen_ok (scr alt_sample)" "allocator_ok (alloc alt_sample)" using ok by (simp_all add: canvas_ok_def)
  show ?thesis
    using resize_keeps_rectangle [OF s r(1) p c, of 1 0] resize_keeps_rectangle [OF s r(1) p c, of 2 0]
      resize_keeps_rectangle [OF s r(1) p c, of 0 3] r(2,3) w by (simp add: Let_def)
qed

end
