(* ===== verification/Replies.thy ===== *)
theory Replies
  imports Vt_Parser Cells "HOL-Library.Monad_Syntax"
begin

text \<open>
  What the terminal sends and what it hands to its host, all of \<open>crates/seyal-terminal/src\<close>: the
  protocol replies written back to the child (\<open>protocol_reply.rs\<close>), the mouse reports
  (\<open>mouse.rs\<close>) and the bounded OSC presentation events (\<open>presentation.rs\<close>).

  A buffer with a length is the list of its first \<open>len\<close> bytes; its capacity stays as the bound
  \<open>write_u16\<close> checks.  Shown: every reply is a control sequence that the parser of
  \<open>Vt_Parser\<close> decodes back to exactly the reported values, within the reply capacity.
\<close>

section \<open>Protocol replies\<close>

abbreviation MAX_PROTOCOL_REPLIES :: nat where "MAX_PROTOCOL_REPLIES \<equiv> 16"

abbreviation MAX_PROTOCOL_REPLY_BYTES :: nat where "MAX_PROTOCOL_REPLY_BYTES \<equiv> 64"

datatype protocol_reply = ProtocolReply (reply_bytes: "byte list")

definition reply_from_slice :: "byte list \<Rightarrow> protocol_reply option" where
  "reply_from_slice data =
    (if data = [] \<or> length data > MAX_PROTOCOL_REPLY_BYTES then None else Some (ProtocolReply data))"

text \<open>The digits of \<open>n\<close>, most significant first, in front of those already written.\<close>

function digits_loop :: "nat \<Rightarrow> byte list \<Rightarrow> byte list" where
  "digits_loop n tmp =
    (let tmp' = (0x30 + of_nat (n mod 10)) # tmp
     in if n div 10 = 0 then tmp' else digits_loop (n div 10) tmp')"
  by pat_completeness auto
termination
  by (relation "measure fst") auto

declare digits_loop.simps [simp del]

definition write_u16 :: "nat \<Rightarrow> nat \<Rightarrow> byte list option" where
  "write_u16 room value =
    (let digits = digits_loop value [] in if room < length digits then None else Some digits)"

text \<open>\<open>len += write_u16(&mut buf[len..], value)?\<close> on the first \<open>len\<close> bytes of a buffer of \<open>cap\<close> bytes.\<close>

definition put_u16 :: "nat \<Rightarrow> nat \<Rightarrow> byte list \<Rightarrow> byte list option" where
  "put_u16 cap value buf = map_option (\<lambda>digits. buf @ digits) (write_u16 (cap - length buf) value)"

definition encode_dsr_cpr :: "nat \<Rightarrow> nat \<Rightarrow> protocol_reply option" where
  "encode_dsr_cpr row col =
    do {
      buf \<leftarrow> put_u16 MAX_PROTOCOL_REPLY_BYTES (sat_add u16_max row 1) [0x1b, 0x5b];
      buf \<leftarrow> put_u16 MAX_PROTOCOL_REPLY_BYTES (sat_add u16_max col 1) (buf @ [0x3b]);
      reply_from_slice (buf @ [0x52])
    }"

definition encode_decrqm_private :: "nat \<Rightarrow> nat \<Rightarrow> protocol_reply option" where
  "encode_decrqm_private mode status =
    do {
      buf \<leftarrow> put_u16 MAX_PROTOCOL_REPLY_BYTES mode [0x1b, 0x5b, 0x3f];
      buf \<leftarrow> put_u16 MAX_PROTOCOL_REPLY_BYTES status (buf @ [0x3b]);
      reply_from_slice (buf @ [0x24, 0x79])
    }"

definition encode_primary_da :: "protocol_reply option" where
  "encode_primary_da = reply_from_slice [0x1b, 0x5b, 0x3f, 0x31, 0x3b, 0x32, 0x63]"

definition encode_kitty_flags :: "byte \<Rightarrow> protocol_reply option" where
  "encode_kitty_flags flags = reply_from_slice [0x1b, 0x5b, 0x3f, 0x30 + (and flags 0x03), 0x75]"

section \<open>Mouse reports\<close>

abbreviation MAX_REPORT_BYTES :: nat where "MAX_REPORT_BYTES \<equiv> 32"

abbreviation X10_COORD_MAX :: nat where "X10_COORD_MAX \<equiv> 223"

datatype mouse_event_kind = Press | Release_Button | Move | Wheel

record mouse_report =
  mr_kind :: mouse_event_kind
  mr_button :: nat
  mr_shift :: bool
  mr_alt :: bool
  mr_control :: bool
  mr_col :: nat
  mr_row :: nat

definition mouse_event_admitted :: "mouse_event_kind \<Rightarrow> nat \<Rightarrow> mode_state \<Rightarrow> bool" where
  "mouse_event_admitted kind button modes =
    (case reporting modes of
       MouseOff \<Rightarrow> False
     | MouseButtonOnly \<Rightarrow> kind = Press \<or> kind = Release_Button \<or> kind = Wheel
     | MouseButtonDrag \<Rightarrow> (case kind of Move \<Rightarrow> button \<le> 2 | _ \<Rightarrow> True)
     | MouseAny \<Rightarrow> True)"

definition mouse_takes_host_override ::
  "mouse_reporting \<Rightarrow> bool \<Rightarrow> 'pos option \<Rightarrow> mouse_event_kind \<Rightarrow> bool"
where
  "mouse_takes_host_override level shift host_anchor kind =
    (let host_latched = host_anchor \<noteq> None \<and> (kind = Move \<or> kind = Release_Button)
     in shift \<or> level = MouseOff \<or> host_latched)"

definition apply_host_mouse_gesture ::
  "'pos option \<Rightarrow> mouse_event_kind \<Rightarrow> 'pos \<Rightarrow> 'pos option \<times> ('pos \<times> 'pos) option"
where
  "apply_host_mouse_gesture host_anchor kind pos =
    (case kind of
       Press \<Rightarrow> (Some pos, Some (pos, pos))
     | Wheel \<Rightarrow> (host_anchor, None)
     | Move \<Rightarrow> (host_anchor, map_option (\<lambda>a. (a, pos)) host_anchor)
     | Release_Button \<Rightarrow> (None, map_option (\<lambda>a. (a, pos)) host_anchor))"

definition report_button :: "mouse_report \<Rightarrow> nat option" where
  "report_button r =
    do {
      b0 \<leftarrow> (case mr_kind r of
          Press \<Rightarrow> (if mr_button r > 2 then None else Some (mr_button r))
        | Release_Button \<Rightarrow> (if mr_button r > 2 then None else Some (mr_button r))
        | Move \<Rightarrow>
            (if mr_button r \<le> 2 then checked_add u8_max (mr_button r) 32
             else if mr_button r = 3 then checked_add u8_max 3 32
             else None)
        | Wheel \<Rightarrow> (if \<not> (64 \<le> mr_button r \<and> mr_button r \<le> 67) then None else Some (mr_button r)));
      b1 \<leftarrow> (if mr_shift r then checked_add u8_max b0 4 else Some b0);
      b2 \<leftarrow> (if mr_alt r then checked_add u8_max b1 8 else Some b1);
      if mr_control r then checked_add u8_max b2 16 else Some b2
    }"

definition encode_sgr :: "nat \<Rightarrow> nat \<Rightarrow> nat \<Rightarrow> bool \<Rightarrow> byte list option" where
  "encode_sgr button col row released =
    do {
      buf \<leftarrow> put_u16 MAX_REPORT_BYTES button [0x1b, 0x5b, 0x3c];
      buf \<leftarrow> put_u16 MAX_REPORT_BYTES col (buf @ [0x3b]);
      buf \<leftarrow> put_u16 MAX_REPORT_BYTES row (buf @ [0x3b]);
      Some (buf @ [if released then 0x6d else 0x4d])
    }"

definition encode_x10 :: "nat \<Rightarrow> nat \<Rightarrow> nat \<Rightarrow> byte list option" where
  "encode_x10 button col row =
    (if col > X10_COORD_MAX \<or> row > X10_COORD_MAX then None
     else Some [0x1b, 0x5b, 0x4d, 32 + of_nat button, 32 + of_nat col, 32 + of_nat row])"

definition encode_mouse_report :: "mouse_report \<Rightarrow> mode_state \<Rightarrow> byte list option" where
  "encode_mouse_report r modes =
    (if \<not> mouse_event_admitted (mr_kind r) (mr_button r) modes then None
     else do {
       button \<leftarrow> report_button r;
       col \<leftarrow> checked_add u16_max (mr_col r) 1;
       row \<leftarrow> checked_add u16_max (mr_row r) 1;
       if mouse_sgr modes then encode_sgr button col row (mr_kind r = Release_Button)
       else encode_x10 (if mr_kind r = Release_Button then 3 + (button - mr_button r) else button) col row
     })"

section \<open>Presentation events\<close>

abbreviation MAX_HOST_PRESENTATION_EVENTS :: nat where "MAX_HOST_PRESENTATION_EVENTS \<equiv> 16"

abbreviation MAX_PRESENTATION_PAYLOAD_BYTES :: nat where "MAX_PRESENTATION_PAYLOAD_BYTES \<equiv> 1024"

definition payload_from_slice :: "byte list \<Rightarrow> byte list" where
  "payload_from_slice data = take (min (length data) MAX_PRESENTATION_PAYLOAD_BYTES) data"

datatype host_presentation_event =
    IconAndWindowTitle "byte list"
  | WindowTitle "byte list"
  | WorkingDirectory "byte list"
  | Hyperlink (link_id: "byte list") (link_uri: "byte list")

text \<open>The loop of \<open>split_osc_code\<close>: \<open>seen\<close> tells whether \<open>idx\<close> has left zero.\<close>

fun split_osc_loop :: "nat \<Rightarrow> bool \<Rightarrow> byte list \<Rightarrow> (nat \<times> byte list) option" where
  "split_osc_loop value seen [] = (if \<not> seen then None else Some (value mod 2 ^ 16, []))"
| "split_osc_loop value seen (b # bs) =
    (if 0x30 \<le> b \<and> b \<le> 0x39 then
       let value' = sat_add u32_max (sat_mul u32_max value 10) (unat (b - 0x30))
       in if value' > u16_max then None else split_osc_loop value' True bs
     else if b = 0x3b then Some (value mod 2 ^ 16, bs)
     else None)"

definition split_osc_code :: "byte list \<Rightarrow> (nat \<times> byte list) option" where
  "split_osc_code bytes = split_osc_loop 0 False bytes"

text \<open>\<open>slice::split\<close>.\<close>

fun split_on :: "byte \<Rightarrow> byte list \<Rightarrow> byte list list" where
  "split_on sep [] = [[]]"
| "split_on sep (b # bs) =
    (if b = sep then [] # split_on sep bs
     else case split_on sep bs of [] \<Rightarrow> [[b]] | f # fs \<Rightarrow> (b # f) # fs)"

text \<open>\<open>slice::strip_prefix\<close>.\<close>

fun strip_prefix :: "byte list \<Rightarrow> byte list \<Rightarrow> byte list option" where
  "strip_prefix [] bs = Some bs"
| "strip_prefix (p # ps) [] = None"
| "strip_prefix (p # ps) (b # bs) = (if p = b then strip_prefix ps bs else None)"

fun find_hyperlink_id :: "byte list list \<Rightarrow> byte list" where
  "find_hyperlink_id [] = payload_from_slice []"
| "find_hyperlink_id (part # parts) =
    (case strip_prefix [0x69, 0x64, 0x3d] part of
       Some v \<Rightarrow> payload_from_slice v
     | None \<Rightarrow> find_hyperlink_id parts)"

definition extract_hyperlink_id :: "byte list \<Rightarrow> byte list" where
  "extract_hyperlink_id ps = find_hyperlink_id (split_on 0x3a ps)"

definition parse_osc8 :: "byte list \<Rightarrow> host_presentation_event option" where
  "parse_osc8 rest =
    (let semi = length (takeWhile (\<lambda>b. b \<noteq> 0x3b) rest)
     in if semi = length rest then None
        else Some (Hyperlink (extract_hyperlink_id (take semi rest)) (payload_from_slice (drop (semi + 1) rest))))"

definition parse_osc_presentation :: "byte list \<Rightarrow> host_presentation_event option" where
  "parse_osc_presentation bytes =
    do {
      (code, rest) \<leftarrow> split_osc_code bytes;
      if code = 0 then Some (IconAndWindowTitle (payload_from_slice rest))
      else if code = 2 then Some (WindowTitle (payload_from_slice rest))
      else if code = 7 then Some (WorkingDirectory (payload_from_slice rest))
      else if code = 8 then parse_osc8 rest
      else None
    }"

section \<open>Decimal numbers through the parser\<close>

definition digit :: "nat \<Rightarrow> byte" where
  "digit d = 0x30 + of_nat d"

lemma digit_unat: "d < 10 \<Longrightarrow> unat (digit d) = 0x30 + d"
  by (simp add: digit_def unat_word_ariths unat_of_nat)

lemma digit_range: "d < 10 \<Longrightarrow> 0x30 \<le> digit d \<and> digit d \<le> 0x39"
  by (simp add: word_le_nat_alt digit_unat)

lemma digits_loop_append: "digits_loop n tmp = digits_loop n [] @ tmp"
proof (induction n arbitrary: tmp rule: less_induct)
  case (less n)
  show ?case
  proof (cases "n div 10 = 0")
    case True
    then show ?thesis by (simp add: digits_loop.simps [of n])
  next
    case False
    then have "n div 10 < n" by simp
    from less [OF this, of "(0x30 + of_nat (n mod 10)) # tmp"] less [OF this, of "[0x30 + of_nat (n mod 10)]"] False
    show ?thesis by (simp add: digits_loop.simps [of n] Let_def)
  qed
qed

lemma digits_loop_rec:
  "digits_loop n [] = (if n < 10 then [digit n] else digits_loop (n div 10) [] @ [digit (n mod 10)])"
  using digits_loop_append [of "n div 10" "[0x30 + of_nat (n mod 10)]"]
  by (subst digits_loop.simps) (simp add: Let_def digit_def div_eq_0_iff)

lemma digits_loop_length: "n \<le> u16_max \<Longrightarrow> length (digits_loop n []) \<le> 5 \<and> digits_loop n [] \<noteq> []"
  by (simp add: digits_loop_rec [of n] digits_loop_rec [of "n div 10"] digits_loop_rec [of "n div 10 div 10"]
      digits_loop_rec [of "n div 10 div 10 div 10"] digits_loop_rec [of "n div 10 div 10 div 10 div 10"])

lemma put_u16_room:
  assumes "n \<le> u16_max" "length buf + 5 \<le> cap"
  shows "put_u16 cap n buf = Some (buf @ digits_loop n [])"
  using digits_loop_length [OF assms(1)] assms(2) by (auto simp: put_u16_def write_u16_def Let_def)


lemma feed_digits:
  assumes "pst p = Csi" "putback p = None" "param_acc p = 0" "n \<le> u16_max"
  shows "feed p (digits_loop n []) = (p\<lparr>param_acc := n, has_param_acc := True\<rparr>, [])"
  using assms(4)
proof (induction n rule: less_induct)
  case (less n)
  have step: "feed q [digit d] = (push_digit q d, [])" if "d < 10" "pst q = Csi" "putback q = None" for q d
  proof -
    have "\<not> c0_execute (digit d)" "digit d \<notin> {0x18, 0x1a, 0x1b}"
      using digit_unat [OF that(1)] by (auto simp: c0_execute_def word_le_nat_alt unat_eq_nat_uint [symmetric])
    then show ?thesis using that digit_range [OF that(1)] digit_unat [OF that(1)]
      by (simp add: feed_unfold step_def csi_byte_def push_digit_def Let_def)
  qed
  show ?case
  proof (cases "n < 10")
    case True
    then show ?thesis using assms(1-3) less.prems step [of n p]
      by (simp add: digits_loop_rec [of n] push_digit_def Let_def sat_mul_def sat_add_def)
  next
    case False
    then have "n div 10 < n" "n div 10 \<le> u16_max" using less.prems by auto
    from less.IH [OF this] have ih: "feed p (digits_loop (n div 10) []) = (p\<lparr>param_acc := n div 10, has_param_acc := True\<rparr>, [])" .
    have "n div 10 * 10 + n mod 10 = n" by simp
    then show ?thesis using False assms(1,2) less.prems step [of "n mod 10" "p\<lparr>param_acc := n div 10, has_param_acc := True\<rparr>"]
      by (simp add: digits_loop_rec [of n] feed_append ih push_digit_def Let_def sat_mul_def sat_add_def min_def)
  qed
qed


fun param_bytes :: "nat list \<Rightarrow> byte list" where
  "param_bytes [] = []"
| "param_bytes [n] = digits_loop n []"
| "param_bytes (n # m # ns) = digits_loop n [] @ [0x3b] @ param_bytes (m # ns)"

lemma feed_separator:
  assumes "pst p = Csi" "putback p = None"
  shows "feed p [0x3b] = (finish_param p, [])"
  using assms by (simp add: feed_unfold step_def csi_byte_def c0_execute_def finish_param_def)

lemma feed_param_bytes:
  assumes "pst p = Csi" "putback p = None" "param_acc p = 0" "ns \<noteq> []" "\<forall>n \<in> set ns. n \<le> u16_max"
    "length (params p) + length ns \<le> MAX_PARAMS"
  shows "feed p (param_bytes ns) = (p\<lparr>params := params p @ butlast ns, param_acc := last ns, has_param_acc := True\<rparr>, [])"
  using assms
proof (induction ns arbitrary: p rule: param_bytes.induct)
  case (2 n)
  then show ?case using feed_digits [of p n] by simp
next
  case (3 n m ns)
  let ?q = "p\<lparr>param_acc := n, has_param_acc := True\<rparr>"
  have d: "feed p (digits_loop n []) = (?q, [])" using 3 feed_digits [of p n] by simp
  have s: "feed ?q [0x3b] = (finish_param ?q, [])" using 3 by (intro feed_separator) simp_all
  have f: "finish_param ?q = p\<lparr>params := params p @ [n], has_param_acc := False\<rparr>"
    using 3 by (cases p) (simp add: finish_param_def)
  have "feed (finish_param ?q) (param_bytes (m # ns)) =
      ((finish_param ?q)\<lparr>params := params p @ [n] @ butlast (m # ns), param_acc := last (m # ns), has_param_acc := True\<rparr>, [])"
    unfolding f using 3 by (subst 3(1)) simp_all
  then have r: "feed (finish_param ?q) (param_bytes (m # ns)) =
      (p\<lparr>params := params p @ [n] @ butlast (m # ns), param_acc := last (m # ns), has_param_acc := True\<rparr>, [])"
    unfolding f by simp
  show ?case by (simp only: param_bytes.simps feed_append d s r fst_conv snd_conv) simp
qed simp

definition csi_sequence :: "byte option \<Rightarrow> nat list \<Rightarrow> byte list \<Rightarrow> byte \<Rightarrow> byte list" where
  "csi_sequence pm ns im fin =
    [0x1b, 0x5b] @ (case pm of None \<Rightarrow> [] | Some m \<Rightarrow> [m]) @ param_bytes ns @ im @ [fin]"

lemma marker_step:
  assumes "m \<in> {0x3c, 0x3d, 0x3e, 0x3f}" "pst p = Csi" "params p = []" "\<not> has_param_acc p" "private_marker p = None"
  shows "step p m = (p\<lparr>private_marker := Some m\<rparr>, [])"
  using assms by (elim insertE emptyE) (simp_all add: step_def csi_byte_def c0_execute_def)

lemma final_step:
  assumes "fin \<in> {0x52, 0x63, 0x6d, 0x4d, 0x75, 0x79}" "pst p = Csi" "has_param_acc p"
  shows "step p fin = (reset_sequence ((finish_param p)\<lparr>pst := Ground\<rparr>),
    [Csi_dispatch (params (finish_param p)) (private_marker (finish_param p)) (ignored (finish_param p)) fin])"
  using assms by (elim insertE emptyE) (simp_all add: step_def csi_byte_def c0_execute_def Let_def)

lemma feed_csi_sequence:
  assumes p: "idle p" and pm: "\<forall>m. pm = Some m \<longrightarrow> m \<in> {0x3c, 0x3d, 0x3e, 0x3f}"
    and ns: "ns \<noteq> []" "\<forall>n \<in> set ns. n \<le> u16_max" "length ns \<le> MAX_PARAMS"
    and im: "im = [] \<or> im = [0x24]" and fin: "fin \<in> {0x52, 0x63, 0x6d, 0x4d, 0x75, 0x79}"
  shows "snd (feed p (csi_sequence pm ns im fin)) = [Csi_dispatch ns pm (im \<noteq> []) fin]"
    "idle (fst (feed p (csi_sequence pm ns im fin)))"
proof -
  define q0 where "q0 = (reset_sequence p)\<lparr>pst := Csi\<rparr>"
  have q0: "pst q0 = Csi" "putback q0 = None" "param_acc q0 = 0" "params q0 = []" "\<not> has_param_acc q0"
    "private_marker q0 = None" "\<not> ignored q0" "utf8_needed q0 = 0" "utf8 q0 = []"
    using p by (simp_all add: q0_def reset_sequence_def idle_def)
  have a: "feed p [0x1b, 0x5b] = (q0, [])"
    using p by (simp add: feed_unfold idle_def step_def ground_def escape_def c0_execute_def q0_def reset_sequence_def)
  define q1 where "q1 = q0\<lparr>private_marker := pm\<rparr>"
  have b: "feed q0 (case pm of None \<Rightarrow> [] | Some m \<Rightarrow> [m]) = (q1, [])"
  proof (cases pm)
    case None
    have "q0\<lparr>private_marker := None\<rparr> = q0" using q0(6) by (cases q0) simp
    then show ?thesis using None q0(2) by (simp add: q1_def feed_unfold)
  next
    case (Some m)
    then show ?thesis using marker_step [OF _ q0(1,4,5,6)] pm q0(2) by (simp add: feed_unfold q1_def)
  qed
  define q2 where "q2 = q1\<lparr>params := butlast ns, param_acc := last ns, has_param_acc := True\<rparr>"
  have c: "feed q1 (param_bytes ns) = (q2, [])"
    using feed_param_bytes [of q1 ns] q0 ns by (simp add: q1_def q2_def)
  define q3 where "q3 = q2\<lparr>ignored := (im \<noteq> [])\<rparr>"
  have d: "feed q2 im = (q3, [])"
  proof (cases "im = []")
    case True
    have "q2\<lparr>ignored := False\<rparr> = q2" using q0(7) by (cases q0) (simp add: q1_def q2_def)
    then show ?thesis using True q0(2) by (simp add: q3_def feed_unfold q1_def q2_def)
  next
    case False
    then show ?thesis using im q0(1,2) by (simp add: feed_unfold step_def csi_byte_def c0_execute_def q1_def q2_def q3_def)
  qed
  have l: "length (butlast ns) \<noteq> MAX_PARAMS" "butlast ns @ [last ns] = ns" "last ns \<le> u16_max" using ns by auto
  have e: "feed q3 [fin] = (reset_sequence ((finish_param q3)\<lparr>pst := Ground\<rparr>), [Csi_dispatch ns pm (im \<noteq> []) fin])"
    using final_step [OF fin, of q3] q0 l by (simp add: feed_unfold q1_def q2_def q3_def finish_param_def reset_sequence_def)
  show "snd (feed p (csi_sequence pm ns im fin)) = [Csi_dispatch ns pm (im \<noteq> []) fin]"
    by (simp only: csi_sequence_def feed_append a b c d e fst_conv snd_conv append_Nil)
  show "idle (fst (feed p (csi_sequence pm ns im fin)))"
    using q0 by (simp only: csi_sequence_def feed_append a b c d e fst_conv snd_conv)
      (simp add: idle_def reset_sequence_def finish_param_def q1_def q2_def q3_def)
qed

section \<open>Replies and reports as control sequences\<close>

lemma sat_u16: "sat_add u16_max a b \<le> u16_max"
  by (simp add: sat_add_def)

lemma encode_dsr_cpr_eq:
  "encode_dsr_cpr row col = Some (ProtocolReply (csi_sequence None [sat_add u16_max row 1, sat_add u16_max col 1] [] 0x52))"
proof -
  note l = digits_loop_length [OF sat_u16 [of row 1]] digits_loop_length [OF sat_u16 [of col 1]]
  have "put_u16 64 (sat_add u16_max row 1) [0x1b, 0x5b] = Some ([0x1b, 0x5b] @ digits_loop (sat_add u16_max row 1) [])"
    by (rule put_u16_room) (simp_all add: sat_u16)
  moreover have "put_u16 64 (sat_add u16_max col 1) (([0x1b, 0x5b] @ digits_loop (sat_add u16_max row 1) []) @ [0x3b]) =
      Some ((([0x1b, 0x5b] @ digits_loop (sat_add u16_max row 1) []) @ [0x3b]) @ digits_loop (sat_add u16_max col 1) [])"
    using l by (intro put_u16_room) (simp_all add: sat_u16)
  ultimately show ?thesis using l by (simp add: encode_dsr_cpr_def csi_sequence_def reply_from_slice_def)
qed

lemma encode_decrqm_eq:
  assumes "mode \<le> u16_max" "status \<le> u16_max"
  shows "encode_decrqm_private mode status = Some (ProtocolReply (csi_sequence (Some 0x3f) [mode, status] [0x24] 0x79))"
proof -
  note l = digits_loop_length [OF assms(1)] digits_loop_length [OF assms(2)]
  have "put_u16 64 mode [0x1b, 0x5b, 0x3f] = Some ([0x1b, 0x5b, 0x3f] @ digits_loop mode [])"
    by (rule put_u16_room) (simp_all add: assms)
  moreover have "put_u16 64 status (([0x1b, 0x5b, 0x3f] @ digits_loop mode []) @ [0x3b]) =
      Some ((([0x1b, 0x5b, 0x3f] @ digits_loop mode []) @ [0x3b]) @ digits_loop status [])"
    using l assms by (intro put_u16_room) simp_all
  ultimately show ?thesis using l by (simp add: encode_decrqm_private_def csi_sequence_def reply_from_slice_def)
qed

lemma encode_sgr_eq:
  assumes "button \<le> u16_max" "col \<le> u16_max" "row \<le> u16_max"
  shows "encode_sgr button col row rel = Some (csi_sequence (Some 0x3c) [button, col, row] [] (if rel then 0x6d else 0x4d))"
proof -
  note l = digits_loop_length [OF assms(1)] digits_loop_length [OF assms(2)] digits_loop_length [OF assms(3)]
  let ?b1 = "[0x1b, 0x5b, 0x3c] @ digits_loop button []"
  let ?b2 = "(?b1 @ [0x3b]) @ digits_loop col []"
  have "put_u16 32 button [0x1b, 0x5b, 0x3c] = Some ?b1" by (rule put_u16_room) (simp_all add: assms)
  moreover have "put_u16 32 col (?b1 @ [0x3b]) = Some ?b2" using l assms by (intro put_u16_room) simp_all
  moreover have "put_u16 32 row (?b2 @ [0x3b]) = Some ((?b2 @ [0x3b]) @ digits_loop row [])"
    using l assms by (intro put_u16_room) simp_all
  ultimately show ?thesis by (simp add: encode_sgr_def csi_sequence_def)
qed

lemma encode_kitty_eq: "encode_kitty_flags f = Some (ProtocolReply (csi_sequence (Some 0x3f) [unat (and f 0x03)] [] 0x75))"
proof -
  have "unat (and f (3::byte)) < 10"
  proof -
    have "and f (3::byte) \<le> 3" by (rule word_and_le1)
    then show ?thesis by (simp add: word_le_nat_alt)
  qed
  then show ?thesis by (simp add: encode_kitty_flags_def reply_from_slice_def csi_sequence_def digits_loop_rec digit_def)
qed

lemma encode_primary_da_eq: "encode_primary_da = Some (ProtocolReply (csi_sequence (Some 0x3f) [1, 2] [] 0x63))"
  by (simp add: encode_primary_da_def reply_from_slice_def csi_sequence_def digits_loop_rec digit_def)

lemma idle_new_parser: "idle new_parser"
  by (simp add: idle_def new_parser_def)

lemma report_button_le: "report_button r = Some b \<Longrightarrow> b \<le> 95 \<and> (mr_kind r = Release_Button \<longrightarrow> mr_button r \<le> 2 \<and> mr_button r \<le> b)"
  by (auto simp: report_button_def checked_add_def Option.bind_eq_Some_conv split: mouse_event_kind.splits if_splits)

section \<open>Properties\<close>

text \<open>
  C26 (protocol_replies_decode): every cursor-position, mode-status, device-attribute and keyboard
  reply is produced, fits the reply buffer, and is one control sequence that a VT parser reads
  back with exactly the reported values: the one-based cursor position (saturated at 65535), the
  queried mode with its status, the attributes 1 and 2, the masked keyboard flags.
\<close>

theorem protocol_replies_decode:
  "(\<exists>r. encode_dsr_cpr row col = Some r \<and> length (reply_bytes r) \<le> MAX_PROTOCOL_REPLY_BYTES \<and>
      snd (feed new_parser (reply_bytes r)) = [Csi_dispatch [min u16_max (row + 1), min u16_max (col + 1)] None False 0x52]) \<and>
   (\<exists>r. encode_decrqm_private (min u16_max mode) (min u16_max status) = Some r \<and> length (reply_bytes r) \<le> MAX_PROTOCOL_REPLY_BYTES \<and>
      snd (feed new_parser (reply_bytes r)) = [Csi_dispatch [min u16_max mode, min u16_max status] (Some 0x3f) True 0x79]) \<and>
   (\<exists>r. encode_primary_da = Some r \<and> length (reply_bytes r) \<le> MAX_PROTOCOL_REPLY_BYTES \<and>
      snd (feed new_parser (reply_bytes r)) = [Csi_dispatch [1, 2] (Some 0x3f) False 0x63]) \<and>
   (\<exists>r. encode_kitty_flags flags = Some r \<and> length (reply_bytes r) \<le> MAX_PROTOCOL_REPLY_BYTES \<and>
      snd (feed new_parser (reply_bytes r)) = [Csi_dispatch [unat (and flags 0x03)] (Some 0x3f) False 0x75])"
proof -
  have s: "min u16_max (x + 1) = sat_add u16_max x 1" for x by (simp add: sat_add_def min.commute)
  note l = digits_loop_length [OF sat_u16 [of row 1]] digits_loop_length [OF sat_u16 [of col 1]]
    digits_loop_length [of "min u16_max mode"] digits_loop_length [of "min u16_max status"]
  have k: "unat (and flags 0x03) \<le> 3" using word_and_le1 [of flags 3] by (simp add: word_le_nat_alt)
  have "length (csi_sequence None [sat_add u16_max row 1, sat_add u16_max col 1] [] 0x52) \<le> 64"
    "length (csi_sequence (Some 0x3f) [min u16_max mode, min u16_max status] [0x24] 0x79) \<le> 64"
    "length (csi_sequence (Some 0x3f) [1, 2] [] 0x63) \<le> 64"
    "length (csi_sequence (Some 0x3f) [unat (and flags 0x03)] [] 0x75) \<le> 64"
    using l k digits_loop_length [of "unat (and flags 0x03)"] digits_loop_length [of 1] digits_loop_length [of 2]
    by (simp_all add: csi_sequence_def)
  moreover have "snd (feed new_parser (csi_sequence None [sat_add u16_max row 1, sat_add u16_max col 1] [] 0x52))
      = [Csi_dispatch [sat_add u16_max row 1, sat_add u16_max col 1] None False 0x52]"
    "snd (feed new_parser (csi_sequence (Some 0x3f) [min u16_max mode, min u16_max status] [0x24] 0x79))
      = [Csi_dispatch [min u16_max mode, min u16_max status] (Some 0x3f) True 0x79]"
    "snd (feed new_parser (csi_sequence (Some 0x3f) [1, 2] [] 0x63)) = [Csi_dispatch [1, 2] (Some 0x3f) False 0x63]"
    "snd (feed new_parser (csi_sequence (Some 0x3f) [unat (and flags 0x03)] [] 0x75))
      = [Csi_dispatch [unat (and flags 0x03)] (Some 0x3f) False 0x75]"
    using k sat_u16 by (subst feed_csi_sequence(1) [OF idle_new_parser]; simp)+
  ultimately show ?thesis
    unfolding s encode_dsr_cpr_eq encode_primary_da_eq encode_kitty_eq encode_decrqm_eq [OF min.cobounded1 min.cobounded1]
    by (simp only: option.inject simp_thms protocol_reply.sel ex_simps)
qed


text \<open>
  C27 (mouse_reports_decode): a mouse event that is reported at all is reported exactly.  In SGR
  mode the bytes are one control sequence that decodes to the button code and the one-based cell,
  closed by \<open>m\<close> for a release and \<open>M\<close> otherwise; in X10 mode the three data bytes carry button,
  column and row without wrapping around.
\<close>

theorem mouse_reports_decode:
  assumes "encode_mouse_report r modes = Some bytes"
  shows "\<exists>button. report_button r = Some button \<and> length bytes \<le> MAX_REPORT_BYTES \<and>
    (if mouse_sgr modes then
       snd (feed new_parser bytes) = [Csi_dispatch [button, mr_col r + 1, mr_row r + 1] (Some 0x3c) False
         (if mr_kind r = Release_Button then 0x6d else 0x4d)]
     else \<exists>b c w. bytes = [0x1b, 0x5b, 0x4d, b, c, w] \<and>
       unat b = 32 + (if mr_kind r = Release_Button then 3 + (button - mr_button r) else button) \<and>
       unat c = 33 + mr_col r \<and> unat w = 33 + mr_row r)"
proof -
  obtain button where b: "report_button r = Some button" and c: "mr_col r + 1 \<le> u16_max" "mr_row r + 1 \<le> u16_max"
    and e: "(if mouse_sgr modes then encode_sgr button (mr_col r + 1) (mr_row r + 1) (mr_kind r = Release_Button)
      else encode_x10 (if mr_kind r = Release_Button then 3 + (button - mr_button r) else button) (mr_col r + 1) (mr_row r + 1)) = Some bytes"
    using assms by (auto simp: encode_mouse_report_def checked_add_def Option.bind_eq_Some_conv split: if_splits)
  note le = report_button_le [OF b]
  show ?thesis
  proof (cases "mouse_sgr modes")
    case True
    let ?fin = "if mr_kind r = Release_Button then 0x6d else 0x4d :: byte"
    have bytes: "bytes = csi_sequence (Some 0x3c) [button, mr_col r + 1, mr_row r + 1] [] ?fin"
      using e True encode_sgr_eq [of button] c le by simp
    have "length bytes \<le> 32"
      using digits_loop_length [of button] digits_loop_length [OF c(1)] digits_loop_length [OF c(2)] le bytes
      by (simp add: csi_sequence_def)
    moreover have "snd (feed new_parser bytes) = [Csi_dispatch [button, mr_col r + 1, mr_row r + 1] (Some 0x3c) ([] \<noteq> ([] :: byte list)) ?fin]"
      unfolding bytes using c le by (intro feed_csi_sequence(1) [OF idle_new_parser]) auto
    ultimately show ?thesis using b True by simp
  next
    case False
    then have x: "mr_col r + 1 \<le> 223" "mr_row r + 1 \<le> 223" and bytes: "bytes = [0x1b, 0x5b, 0x4d,
        32 + of_nat (if mr_kind r = Release_Button then 3 + (button - mr_button r) else button),
        32 + of_nat (mr_col r + 1), 32 + of_nat (mr_row r + 1)]"
      using e by (auto simp: encode_x10_def split: if_splits)
    have u: "unat (32 + of_nat n :: byte) = 32 + n" if "n \<le> 223" for n
      using that by (simp add: unat_word_ariths unat_of_nat)
    have "3 + (button - mr_button r) \<le> 223" "button \<le> 223" using conjunct1 [OF le] by arith+
    then show ?thesis using b False x u u [OF x(1)] u [OF x(2)] bytes by auto
  qed
qed

definition sgr_modes :: mode_state where
  "sgr_modes = default_modes\<lparr>reporting := MouseButtonOnly, mouse_sgr := True\<rparr>"

definition release_event :: mouse_report where
  "release_event = \<lparr>mr_kind = Release_Button, mr_button = 2, mr_shift = True, mr_alt = False, mr_control = True,
     mr_col = 9, mr_row = 4\<rparr>"

theorem mouse_reports_decode_witness:
  "snd (feed new_parser [0x1b, 0x5b, 0x3c, 0x32, 0x32, 0x3b, 0x31, 0x30, 0x3b, 0x35, 0x6d])
     = [Csi_dispatch [22, 10, 5] (Some 0x3c) False 0x6d]"
proof -
  have e: "encode_mouse_report release_event sgr_modes = Some [0x1b, 0x5b, 0x3c, 0x32, 0x32, 0x3b, 0x31, 0x30, 0x3b, 0x35, 0x6d]"
    by (simp add: encode_mouse_report_def release_event_def sgr_modes_def mouse_event_admitted_def report_button_def
        checked_add_def encode_sgr_def put_u16_def write_u16_def digits_loop.simps)
  have "report_button release_event = Some 22" by (simp add: report_button_def release_event_def checked_add_def)
  with mouse_reports_decode [OF e] show ?thesis by (simp add: sgr_modes_def release_event_def)
qed

text \<open>
  A title, icon or directory string of up to 1024 bytes without
  control bytes, sent as an OSC string, reaches the host unchanged and under its own kind.
\<close>

lemma osc_presentation_payload:
  assumes "list_all osc_plain payload" "length payload \<le> MAX_PRESENTATION_PAYLOAD_BYTES"
  shows "(\<exists>bytes. snd (feed new_parser ([0x1b, 0x5d, 0x30, 0x3b] @ payload @ [0x07])) = [Osc_dispatch bytes False] \<and>
      parse_osc_presentation bytes = Some (IconAndWindowTitle payload)) \<and>
    (\<exists>bytes. snd (feed new_parser ([0x1b, 0x5d, 0x32, 0x3b] @ payload @ [0x07])) = [Osc_dispatch bytes False] \<and>
      parse_osc_presentation bytes = Some (WindowTitle payload)) \<and>
    (\<exists>bytes. snd (feed new_parser ([0x1b, 0x5d, 0x37, 0x3b] @ payload @ [0x07])) = [Osc_dispatch bytes False] \<and>
      parse_osc_presentation bytes = Some (WorkingDirectory payload))"
proof -
  have f: "snd (feed new_parser ([0x1b, 0x5d, c, 0x3b] @ payload @ [0x07])) = [Osc_dispatch (c # 0x3b # payload) False]"
    if "osc_plain c" for c
    using feed_osc(1) [OF idle_new_parser, of "c # 0x3b # payload"] assms that by (simp add: osc_plain_def)
  have p: "payload_from_slice payload = payload" using assms(2) by (simp add: payload_from_slice_def)
  show ?thesis using f [where c = "0x30"] f [where c = "0x32"] f [where c = "0x37"] p
    by (simp add: osc_plain_def parse_osc_presentation_def split_osc_code_def Let_def sat_mul_def sat_add_def)
qed

end
