(* ===== verification/Selection.thy ===== *)
theory Selection
  imports History_Query "HOL-Library.Monad_Syntax" "HOL-Library.Sublist" "HOL-Library.Code_Target_Nat"
begin

text \<open>
  Host selection, \<open>crates/seyal-terminal/src/selection.rs\<close>: the selection session and its visual
  coverage, copy text, paste sanitising, the search cursor and the keyboard copy mode.

  A visual position is ordered by row, then column, the order \<open>order_visual\<close> uses.  Shown: the cells
  a selection covers are exactly the reading-order interval or the box between its corners; copied
  text is the text of the units with one newline per crossed hard break, or an error exactly when
  it exceeds the copy bound; the search cursor cycles through all matches; the copy-mode cursor
  stays on the grid.
\<close>

abbreviation MAX_PASTE_BYTES :: nat where "MAX_PASTE_BYTES \<equiv> 65520"
abbreviation MAX_SEARCH_MATCHES :: nat where "MAX_SEARCH_MATCHES \<equiv> 1024"
abbreviation MAX_COPY_BYTES :: nat where "MAX_COPY_BYTES \<equiv> 262144"

definition BRACKET_PASTE_START :: "byte list" where
  "BRACKET_PASTE_START = [0x1b, 0x5b, 0x32, 0x30, 0x30, 0x7e]"

definition BRACKET_PASTE_END :: "byte list" where
  "BRACKET_PASTE_END = [0x1b, 0x5b, 0x32, 0x30, 0x31, 0x7e]"

section \<open>Positions and sessions\<close>

datatype selection_kind = Linear | Rectangular

datatype visual_pos = VisualPos (vcol: nat) (vrow: nat)

instantiation visual_pos :: linorder
begin

definition less_eq_visual_pos :: "visual_pos \<Rightarrow> visual_pos \<Rightarrow> bool" where
  "a \<le> b \<longleftrightarrow> vrow a < vrow b \<or> vrow a = vrow b \<and> vcol a \<le> vcol b"

definition less_visual_pos :: "visual_pos \<Rightarrow> visual_pos \<Rightarrow> bool" where
  "a < b \<longleftrightarrow> vrow a < vrow b \<or> vrow a = vrow b \<and> vcol a < vcol b"

instance
  by standard (auto simp: less_eq_visual_pos_def less_visual_pos_def visual_pos.expand)

end

datatype copy_mode_motion = MotionLeft | MotionRight | MotionUp | MotionDown | LineStart | LineEnd

record selection_session =
  sel_kind :: selection_kind
  sel_start :: "visual_pos option"
  sel_end :: "visual_pos option"
  sel_start_anchor :: "history_anchor option"
  sel_end_anchor :: "history_anchor option"

record search_session =
  needle :: "scalar list"
  search_index :: "nat option"

record copy_mode =
  cm_active :: bool
  cm_cursor :: visual_pos
  cm_anchor :: "visual_pos option"
  cm_kind :: selection_kind

datatype paste_error = EmptyPaste | TooLarge

definition default_session :: selection_session where
  "default_session = \<lparr>sel_kind = Linear, sel_start = None, sel_end = None, sel_start_anchor = None, sel_end_anchor = None\<rparr>"

definition default_search :: search_session where
  "default_search = \<lparr>needle = [], search_index = None\<rparr>"

definition default_copy_mode :: copy_mode where
  "default_copy_mode = \<lparr>cm_active = False, cm_cursor = VisualPos 0 0, cm_anchor = None, cm_kind = Linear\<rparr>"

definition clear_selection :: "selection_session \<Rightarrow> selection_session" where
  "clear_selection s = default_session"

definition set_linear ::
  "visual_pos \<Rightarrow> visual_pos \<Rightarrow> history_anchor option \<Rightarrow> history_anchor option \<Rightarrow> selection_session \<Rightarrow> selection_session"
where
  "set_linear a b aa ba s =
    s\<lparr>sel_kind := Linear, sel_start := Some a, sel_end := Some b, sel_start_anchor := aa, sel_end_anchor := ba\<rparr>"

definition set_rectangular ::
  "visual_pos \<Rightarrow> visual_pos \<Rightarrow> history_anchor option \<Rightarrow> history_anchor option \<Rightarrow> selection_session \<Rightarrow> selection_session"
where
  "set_rectangular a b aa ba s =
    s\<lparr>sel_kind := Rectangular, sel_start := Some a, sel_end := Some b, sel_start_anchor := aa, sel_end_anchor := ba\<rparr>"

definition order_visual :: "visual_pos \<Rightarrow> visual_pos \<Rightarrow> visual_pos \<times> visual_pos" where
  "order_visual a b = (if a \<le> b then (a, b) else (b, a))"

definition ordered_corners :: "selection_session \<Rightarrow> (visual_pos \<times> visual_pos) option" where
  "ordered_corners s = do { a \<leftarrow> sel_start s; b \<leftarrow> sel_end s; Some (order_visual a b) }"

definition ordered_anchors :: "selection_session \<Rightarrow> (history_anchor \<times> history_anchor) option" where
  "ordered_anchors s =
    do { a \<leftarrow> sel_start_anchor s; b \<leftarrow> sel_end_anchor s; Some (if anchor_le a b then (a, b) else (b, a)) }"

definition contains_cell :: "selection_session \<Rightarrow> nat \<Rightarrow> nat \<Rightarrow> nat \<Rightarrow> bool" where
  "contains_cell s col row cols =
    (case ordered_corners s of
       None \<Rightarrow> False
     | Some (a, b) \<Rightarrow>
         let min_row = min (vrow a) (vrow b); max_row = max (vrow a) (vrow b) in
         if row < min_row \<or> row > max_row then False
         else
           let last_col = cols - 1;
               (row_start, row_end) =
                 (if sel_kind s = Rectangular \<or> (row = min_row \<and> row = max_row) then (min (vcol a) (vcol b), max (vcol a) (vcol b))
                  else if row = min_row then (if a \<le> b then (vcol a, last_col) else (vcol b, last_col))
                  else if row = max_row then (if a \<le> b then (0, vcol b) else (0, vcol a))
                  else (0, last_col))
           in row_start \<le> col \<and> col \<le> row_end)"

section \<open>Copy and paste\<close>

definition push_bounded :: "scalar list \<Rightarrow> scalar list \<Rightarrow> history_range_error + scalar list" where
  "push_bounded out text =
    (if sat_add u64_max (str_len out) (str_len text) > MAX_COPY_BYTES then Inl Unrepresentable else Inr (out @ text))"

definition crosses :: "history_unit_view \<Rightarrow> history_unit_view \<Rightarrow> bool" where
  "crosses u v \<longleftrightarrow> anchor_line (view_anchor v) \<noteq> anchor_line (view_anchor u) \<and> view_break u = HardBreak"

fun copy_loop :: "history_unit_view list \<Rightarrow> scalar list \<Rightarrow> history_range_error + scalar list" where
  "copy_loop [] out = Inr out"
| "copy_loop [u] out = push_bounded out (view_text u)"
| "copy_loop (u # v # us) out =
    (case push_bounded out (view_text u) of
       Inl e \<Rightarrow> Inl e
     | Inr out1 \<Rightarrow>
         if crosses u v then
           (case push_bounded out1 [0x0a] of Inl e \<Rightarrow> Inl e | Inr out2 \<Rightarrow> copy_loop (v # us) out2)
         else copy_loop (v # us) out1)"

definition format_history_copy :: "history_unit_view list \<Rightarrow> history_range_error + scalar list" where
  "format_history_copy units = copy_loop units []"

definition bracket_paste_marker_len :: "byte list \<Rightarrow> nat option" where
  "bracket_paste_marker_len bs =
    (if prefix BRACKET_PASTE_START bs then Some (length BRACKET_PASTE_START)
     else if prefix BRACKET_PASTE_END bs then Some (length BRACKET_PASTE_END)
     else None)"

function sanitize_bytes :: "byte list \<Rightarrow> byte list" where
  "sanitize_bytes [] = []"
| "sanitize_bytes (b # bs) =
    (if b = 0 then sanitize_bytes bs
     else case bracket_paste_marker_len (b # bs) of
            Some skip \<Rightarrow> sanitize_bytes (drop skip (b # bs))
          | None \<Rightarrow> b # sanitize_bytes bs)"
  by pat_completeness auto
termination
  by (relation "measure length")
    (auto simp: bracket_paste_marker_len_def BRACKET_PASTE_START_def BRACKET_PASTE_END_def split: if_splits)

definition sanitize_paste :: "byte list \<Rightarrow> paste_error + byte list" where
  "sanitize_paste bytes =
    (if bytes = [] then Inl EmptyPaste
     else if length bytes > MAX_PASTE_BYTES then Inl TooLarge
     else let out = sanitize_bytes bytes in
          if out = [] then Inl EmptyPaste
          else if length out > MAX_PASTE_BYTES then Inl TooLarge
          else Inr out)"

definition encode_paste :: "byte list \<Rightarrow> bool \<Rightarrow> paste_error + byte list" where
  "encode_paste bytes bracketed =
    (case sanitize_paste bytes of
       Inl e \<Rightarrow> Inl e
     | Inr sanitized \<Rightarrow>
         if \<not> bracketed then Inr sanitized
         else
           let wrapped_len = sat_add u64_max (sat_add u64_max (length BRACKET_PASTE_START) (length sanitized)) (length BRACKET_PASTE_END)
           in if wrapped_len > sat_add u64_max MAX_PASTE_BYTES (length BRACKET_PASTE_START + length BRACKET_PASTE_END)
              then Inl TooLarge
              else Inr (BRACKET_PASTE_START @ sanitized @ BRACKET_PASTE_END))"

section \<open>Search and copy mode\<close>

definition clear_search :: "search_session \<Rightarrow> search_session" where
  "clear_search s = default_search"

definition search_step :: "history_match list \<Rightarrow> bool \<Rightarrow> search_session \<Rightarrow> search_session \<times> history_match option" where
  "search_step matches forward s =
    (if matches = [] then (s\<lparr>search_index := None\<rparr>, None)
     else
       let nxt = (case search_index s of
             None \<Rightarrow> if forward then 0 else length matches - 1
           | Some i \<Rightarrow> if forward then (i + 1) mod length matches else if i = 0 then length matches - 1 else i - 1)
       in (s\<lparr>search_index := Some nxt\<rparr>, if nxt < length matches then Some (matches ! nxt) else None))"

definition enter_copy_mode :: "visual_pos \<Rightarrow> copy_mode \<Rightarrow> copy_mode" where
  "enter_copy_mode cur m = \<lparr>cm_active = True, cm_cursor = cur, cm_anchor = None, cm_kind = Linear\<rparr>"

definition exit_copy_mode :: "copy_mode \<Rightarrow> copy_mode" where
  "exit_copy_mode m = default_copy_mode"

definition apply_motion :: "copy_mode_motion \<Rightarrow> nat \<Rightarrow> nat \<Rightarrow> copy_mode \<Rightarrow> copy_mode" where
  "apply_motion motion cols rows m =
    (if \<not> cm_active m \<or> cols = 0 \<or> rows = 0 then m
     else
       let c = vcol (cm_cursor m); r = vrow (cm_cursor m) in
       m\<lparr>cm_cursor :=
          (case motion of
             MotionLeft \<Rightarrow> VisualPos (c - 1) r
           | MotionRight \<Rightarrow> VisualPos (min (sat_add u16_max c 1) (cols - 1)) r
           | MotionUp \<Rightarrow> VisualPos c (r - 1)
           | MotionDown \<Rightarrow> VisualPos c (min (sat_add u16_max r 1) (rows - 1))
           | LineStart \<Rightarrow> VisualPos 0 r
           | LineEnd \<Rightarrow> VisualPos (cols - 1) r)\<rparr>)"

definition toggle_anchor :: "copy_mode \<Rightarrow> copy_mode" where
  "toggle_anchor m =
    (if \<not> cm_active m then m
     else m\<lparr>cm_anchor := (if cm_anchor m \<noteq> None then None else Some (cm_cursor m))\<rparr>)"

definition toggle_kind :: "copy_mode \<Rightarrow> copy_mode" where
  "toggle_kind m =
    (if \<not> cm_active m then m
     else m\<lparr>cm_kind := (case cm_kind m of Linear \<Rightarrow> Rectangular | Rectangular \<Rightarrow> Linear)\<rparr>)"

definition copy_mode_selection :: "copy_mode \<Rightarrow> (visual_pos \<times> visual_pos \<times> selection_kind) option" where
  "copy_mode_selection m =
    (if \<not> cm_active m then None else do { a \<leftarrow> cm_anchor m; Some (a, cm_cursor m, cm_kind m) })"

definition skip_continuation :: "cell_role \<Rightarrow> bool \<Rightarrow> nat \<Rightarrow> nat \<Rightarrow> nat" where
  "skip_continuation rl moving_right col cols =
    (if rl \<noteq> Continuation then col
     else if moving_right then min (sat_add u16_max col 1) (cols - 1)
     else col - 1)"

section \<open>Copied text\<close>

text \<open>The text a selection stands for: a newline wherever a hard break separates two source lines.\<close>

fun copy_text :: "history_unit_view list \<Rightarrow> scalar list" where
  "copy_text [] = []"
| "copy_text [u] = view_text u"
| "copy_text (u # v # us) = view_text u @ (if crosses u v then [0x0a] else []) @ copy_text (v # us)"

lemma push_bounded_eq:
  "str_len out \<le> MAX_COPY_BYTES \<Longrightarrow> push_bounded out text = (if str_len (out @ text) \<le> MAX_COPY_BYTES then Inr (out @ text) else Inl Unrepresentable)"
  by (auto simp: push_bounded_def sat_add_def)

lemma copy_loop_eq:
  "str_len out \<le> MAX_COPY_BYTES \<Longrightarrow> copy_loop us out =
    (if str_len (out @ copy_text us) \<le> MAX_COPY_BYTES then Inr (out @ copy_text us) else Inl Unrepresentable)"
proof (induction us out rule: copy_loop.induct)
  case (3 u v us out)
  show ?case
  proof (cases "str_len (out @ view_text u) \<le> MAX_COPY_BYTES")
    case fits: True
    note p = push_bounded_eq [OF 3(3), of "view_text u"]
    show ?thesis
    proof (cases "crosses u v")
      case True
      show ?thesis
      proof (cases "str_len ((out @ view_text u) @ [0x0a]) \<le> MAX_COPY_BYTES")
        case f2: True
        then show ?thesis using 3(1) [of "out @ view_text u" "(out @ view_text u) @ [0x0a]"] fits p True push_bounded_eq [OF fits, of "[0x0a]"]
          by simp
      next
        case False
        then show ?thesis using fits p True push_bounded_eq [OF fits, of "[0x0a]"] by simp
      qed
    next
      case False
      then show ?thesis using 3(2) [of "out @ view_text u"] fits p by simp
    qed
  next
    case False
    then show ?thesis using push_bounded_eq [OF 3(3), of "view_text u"] by simp
  qed
qed (simp_all add: push_bounded_eq)

section \<open>Properties\<close>

text \<open>
  C28 (copied_text_exact): copying a range of history units gives their text in order, with a newline
  exactly where two adjacent units lie on different source lines separated by a hard break, and it
  is refused exactly when that text is longer than \<open>MAX_COPY_BYTES\<close>; it is never truncated.
\<close>

theorem copied_text_exact:
  "format_history_copy us =
    (if str_len (copy_text us) \<le> MAX_COPY_BYTES then Inr (copy_text us) else Inl Unrepresentable)"
  using copy_loop_eq [of "[]" us] by (simp add: format_history_copy_def)

text \<open>
  A linear selection covers exactly the cells between its corners
  in reading order, a rectangular one exactly the cells of the box they span, whichever corner was
  set first.
\<close>

lemma selection_covers_interval:
  assumes "sel_start s = Some a" "sel_end s = Some b" "col < cols"
  shows "contains_cell s col row cols \<longleftrightarrow>
    (case sel_kind s of
       Linear \<Rightarrow> min a b \<le> VisualPos col row \<and> VisualPos col row \<le> max a b
     | Rectangular \<Rightarrow> min (vrow a) (vrow b) \<le> row \<and> row \<le> max (vrow a) (vrow b) \<and>
         min (vcol a) (vcol b) \<le> col \<and> col \<le> max (vcol a) (vcol b))"
proof (cases "a \<le> b")
  case True
  then show ?thesis using assms
    by (cases "sel_kind s") (auto simp: contains_cell_def ordered_corners_def order_visual_def Let_def less_eq_visual_pos_def min_def max_def)
next
  case False
  then show ?thesis using assms
    by (cases "sel_kind s") (auto simp: contains_cell_def ordered_corners_def order_visual_def Let_def less_eq_visual_pos_def min_def max_def)
qed


fun search_iter :: "history_match list \<Rightarrow> nat \<Rightarrow> search_session \<Rightarrow> search_session" where
  "search_iter ms 0 s = s"
| "search_iter ms (Suc k) s = fst (search_step ms True (search_iter ms k s))"

definition search_origin :: "history_match list \<Rightarrow> search_session \<Rightarrow> nat" where
  "search_origin ms s = (case search_index s of None \<Rightarrow> length ms - 1 | Some i \<Rightarrow> i)"

lemma search_iter_index:
  assumes "ms \<noteq> []" "0 < k"
  shows "search_index (search_iter ms k s) = Some ((search_origin ms s + k) mod length ms)"
  using assms(2)
proof (induction k rule: nat_induct_non_zero)
  case 1
  then show ?case using assms(1) by (auto simp: search_step_def search_origin_def Let_def split: option.splits)
next
  case (Suc k)
  then show ?case using assms(1) by (simp add: search_step_def Let_def mod_Suc_eq)
qed

text \<open>
  Stepping the search forward reaches every match within one round
  of as many steps as there are matches, from any valid position, and a backward step undoes a
  forward one.
\<close>

lemma search_visits_every_match:
  assumes "\<forall>i. search_index s = Some i \<longrightarrow> i < length ms" "j < length ms"
  shows "(\<exists>k. 0 < k \<and> k \<le> length ms \<and> search_index (search_iter ms k s) = Some j) \<and>
    (search_index s \<noteq> None \<longrightarrow> search_index (fst (search_step ms False (fst (search_step ms True s)))) = search_index s)"
proof
  have ne: "ms \<noteq> []" using assms(2) by auto
  have o: "search_origin ms s < length ms" using assms ne by (auto simp: search_origin_def split: option.splits)
  define k where "k = (if search_origin ms s < j then j - search_origin ms s else length ms - search_origin ms s + j)"
  have k: "0 < k" "k \<le> length ms" "(search_origin ms s + k) mod length ms = j" using o assms(2) by (auto simp: k_def)
  then have "search_index (search_iter ms k s) = Some j" using search_iter_index [OF ne k(1), of s] by simp
  with k show "\<exists>k. 0 < k \<and> k \<le> length ms \<and> search_index (search_iter ms k s) = Some j" by blast
  show "search_index s \<noteq> None \<longrightarrow> search_index (fst (search_step ms False (fst (search_step ms True s)))) = search_index s"
    using assms(1) ne by (auto simp: search_step_def Let_def mod_Suc split: if_splits)
qed

definition sample_match :: "nat \<Rightarrow> history_match" where
  "sample_match i = \<lparr>match_start = \<lparr>anchor_line = LineId i, unit_offset = 0\<rparr>, match_end = \<lparr>anchor_line = LineId i, unit_offset = 1\<rparr>\<rparr>"

lemma sanitize_bytes_subseq: "subseq (sanitize_bytes bs) bs"
proof (induction bs rule: sanitize_bytes.induct)
  case (2 b bs)
  show ?case
  proof (cases "b = 0 \<or> bracket_paste_marker_len (b # bs) = None")
    case True
    then show ?thesis using 2 by (cases "b = 0") auto
  next
    case False
    then obtain n where n: "bracket_paste_marker_len (b # bs) = Some n" "b \<noteq> 0" by auto
    then have "subseq (sanitize_bytes (drop n (b # bs))) (b # bs)"
      using 2(3) [of n] suffix_imp_subseq [OF suffix_drop [of n "b # bs"]] subseq_order.trans by auto
    then show ?thesis using n by simp
  qed
qed simp

lemma sanitize_bytes_no_nul: "0 \<notin> set (sanitize_bytes bs)"
  by (induction bs rule: sanitize_bytes.induct) (auto split: option.splits)

lemma sanitize_bytes_plain: "0x1b \<notin> set bs \<Longrightarrow> sanitize_bytes bs = filter (\<lambda>b. b \<noteq> 0) bs"
  by (induction bs rule: sanitize_bytes.induct)
    (auto simp: bracket_paste_marker_len_def BRACKET_PASTE_START_def BRACKET_PASTE_END_def)

text \<open>
  C29 (paste_sanitised): an accepted paste is a non-empty subsequence of what was pasted, free of
  NUL bytes, and stays inside the 64 KiB input ceiling with its brackets; text without escape bytes
  loses nothing but its NUL bytes.
\<close>

theorem paste_sanitised:
  assumes "encode_paste bytes bracketed = Inr wrapped"
  shows "\<exists>out. wrapped = (if bracketed then BRACKET_PASTE_START @ out @ BRACKET_PASTE_END else out) \<and>
    out \<noteq> [] \<and> subseq out bytes \<and> 0 \<notin> set out \<and> length wrapped \<le> 65536 \<and>
    (0x1b \<notin> set bytes \<longrightarrow> out = filter (\<lambda>b. b \<noteq> 0) bytes)"
proof -
  obtain out where o: "sanitize_paste bytes = Inr out"
    and w: "wrapped = (if bracketed then BRACKET_PASTE_START @ out @ BRACKET_PASTE_END else out)"
    using assms by (auto simp: encode_paste_def Let_def split: sum.splits if_splits)
  have out: "out = sanitize_bytes bytes" "out \<noteq> []" "length out \<le> 65520"
    using o by (auto simp: sanitize_paste_def Let_def split: if_splits)
  have "length wrapped \<le> 65536" using out(3) w by (simp add: BRACKET_PASTE_START_def BRACKET_PASTE_END_def)
  then show ?thesis using w out sanitize_bytes_subseq sanitize_bytes_no_nul sanitize_bytes_plain by blast
qed

theorem paste_sanitised_witness:
  "\<exists>out. [0x1b, 0x5b, 0x32, 0x30, 0x30, 0x7e, 0x68, 0x69, 0x1b, 0x5b, 0x32, 0x30, 0x31, 0x7e]
     = BRACKET_PASTE_START @ out @ BRACKET_PASTE_END \<and> subseq out [0x68, 0, 0x69]"
proof -
  have "encode_paste [0x68, 0, 0x69] True
      = Inr [0x1b, 0x5b, 0x32, 0x30, 0x30, 0x7e, 0x68, 0x69, 0x1b, 0x5b, 0x32, 0x30, 0x31, 0x7e]"
    by code_simp
  from paste_sanitised [OF this] show ?thesis by auto
qed

lemma sanitize_bytes_plain_append:
  "0x1b \<notin> set a \<Longrightarrow> sanitize_bytes (a @ bs) = filter (\<lambda>b. b \<noteq> 0) a @ sanitize_bytes bs"
  by (induction a) (auto simp: bracket_paste_marker_len_def BRACKET_PASTE_START_def BRACKET_PASTE_END_def)

lemma sanitize_bytes_marker:
  "marker \<in> {BRACKET_PASTE_START, BRACKET_PASTE_END} \<Longrightarrow> sanitize_bytes (marker @ bs) = sanitize_bytes bs"
  by (auto simp: bracket_paste_marker_len_def BRACKET_PASTE_START_def BRACKET_PASTE_END_def)

lemma split_at: "0 < k \<Longrightarrow> k < length BRACKET_PASTE_END \<Longrightarrow> k = 1 \<or> k = 2 \<or> k = 3 \<or> k = 4 \<or> k = 5"
  by (simp add: BRACKET_PASTE_END_def) linarith

text \<open>A proper prefix of the end marker followed by another escape byte is kept.\<close>

lemma sanitize_bytes_split_marker:
  assumes "0 < k" "k < length BRACKET_PASTE_END"
  shows "sanitize_bytes (take k BRACKET_PASTE_END @ 0x1b # bs) = take k BRACKET_PASTE_END @ sanitize_bytes (0x1b # bs)"
proof -
  have "bracket_paste_marker_len (take k BRACKET_PASTE_END @ 0x1b # bs) = None"
    and e: "take k BRACKET_PASTE_END = 0x1b # take (k - 1) (tl BRACKET_PASTE_END)"
    using split_at [OF assms] by (auto simp: BRACKET_PASTE_START_def BRACKET_PASTE_END_def bracket_paste_marker_len_def)
  moreover have "sanitize_bytes (take (k - 1) (tl BRACKET_PASTE_END) @ 0x1b # bs) =
      take (k - 1) (tl BRACKET_PASTE_END) @ sanitize_bytes (0x1b # bs)"
    using split_at [OF assms] by (subst sanitize_bytes_plain_append) (auto simp: BRACKET_PASTE_END_def)
  moreover have "sanitize_bytes (0x1b # xs) = 0x1b # sanitize_bytes xs" if "bracket_paste_marker_len (0x1b # xs) = None" for xs
    using that by simp
  ultimately show ?thesis by (simp only: append_Cons)
qed

text \<open>
  C39 (paste_marker_reassembled): the single sanitising pass does not reach a fixed point.  Whatever
  escape-free text precedes it and whatever follows, an end marker split anywhere by another start
  or end marker comes out complete, and in a bracketed paste it closes the bracket early.
\<close>

theorem paste_marker_reassembled:
  assumes "0x1b \<notin> set a" "0 < k" "k < length BRACKET_PASTE_END" "marker \<in> {BRACKET_PASTE_START, BRACKET_PASTE_END}"
    and "length (a @ take k BRACKET_PASTE_END @ marker @ drop k BRACKET_PASTE_END @ b) \<le> MAX_PASTE_BYTES"
  shows "encode_paste (a @ take k BRACKET_PASTE_END @ marker @ drop k BRACKET_PASTE_END @ b) True =
    Inr (BRACKET_PASTE_START @ (filter (\<lambda>x. x \<noteq> 0) a @ BRACKET_PASTE_END @ sanitize_bytes b) @ BRACKET_PASTE_END)"
proof -
  let ?in = "a @ take k BRACKET_PASTE_END @ marker @ drop k BRACKET_PASTE_END @ b"
  let ?out = "filter (\<lambda>x. x \<noteq> 0) a @ BRACKET_PASTE_END @ sanitize_bytes b"
  obtain m where m: "marker = 0x1b # m" using assms(4) by (auto simp: BRACKET_PASTE_START_def BRACKET_PASTE_END_def)
  have "sanitize_bytes (drop k BRACKET_PASTE_END @ b) = drop k BRACKET_PASTE_END @ sanitize_bytes b"
    using split_at [OF assms(2,3)] by (subst sanitize_bytes_plain_append) (auto simp: BRACKET_PASTE_END_def)
  then have "sanitize_bytes ?in = ?out"
    using sanitize_bytes_plain_append [OF assms(1)] sanitize_bytes_split_marker [OF assms(2,3), of "m @ drop k BRACKET_PASTE_END @ b"]
      sanitize_bytes_marker [OF assms(4), of "drop k BRACKET_PASTE_END @ b"] append_take_drop_id [of k BRACKET_PASTE_END]
    by (simp add: m del: append_take_drop_id sanitize_bytes.simps(2))
  moreover have "length ?out \<le> MAX_PASTE_BYTES"
  proof -
    have "length (filter (\<lambda>x. x \<noteq> 0) a) \<le> length a" "length (sanitize_bytes b) \<le> length b"
      using list_emb_length [OF sanitize_bytes_subseq] by simp_all
    moreover have "length (take k BRACKET_PASTE_END) + length (drop k BRACKET_PASTE_END) = length BRACKET_PASTE_END" by simp
    ultimately show ?thesis using assms(5) by (simp only: length_append)
  qed
  moreover have "?in \<noteq> []" "?out \<noteq> []" using m by (simp_all add: BRACKET_PASTE_END_def)
  ultimately have "sanitize_paste ?in = Inr ?out" using assms(5) by (simp add: sanitize_paste_def Let_def)
  moreover have "length BRACKET_PASTE_START = 6" "length BRACKET_PASTE_END = 6"
    by (simp_all add: BRACKET_PASTE_START_def BRACKET_PASTE_END_def)
  ultimately show ?thesis using \<open>length ?out \<le> MAX_PASTE_BYTES\<close>
    by (simp add: encode_paste_def Let_def sat_add_def)
qed

theorem paste_marker_reassembled_witness:
  "encode_paste ([0x68] @ take 3 BRACKET_PASTE_END @ BRACKET_PASTE_START @ drop 3 BRACKET_PASTE_END @ [0x6c, 0x73]) True
     = Inr (BRACKET_PASTE_START @ ([0x68] @ BRACKET_PASTE_END @ [0x6c, 0x73]) @ BRACKET_PASTE_END)"
proof -
  have s: "sanitize_bytes [0x6c, 0x73] = [0x6c, 0x73]" by code_simp
  have l: "0x1b \<notin> set [0x68 :: byte]" "3 < length BRACKET_PASTE_END"
    "length ([0x68] @ take 3 BRACKET_PASTE_END @ BRACKET_PASTE_START @ drop 3 BRACKET_PASTE_END @ [0x6c, 0x73]) \<le> MAX_PASTE_BYTES"
    by code_simp+
  show ?thesis using paste_marker_reassembled [OF l(1) _ l(2) _ l(3)] s by simp
qed

definition cursor_on_grid :: "nat \<Rightarrow> nat \<Rightarrow> copy_mode \<Rightarrow> bool" where
  "cursor_on_grid cols rows m \<longleftrightarrow> vcol (cm_cursor m) < cols \<and> vrow (cm_cursor m) < rows"

text \<open>
  No sequence of motions takes the copy-mode cursor off the grid, and
  none of them moves the anchor or changes the kind of the selection.
\<close>

lemma copy_mode_stays_on_grid:
  assumes "cursor_on_grid cols rows m"
  shows "cursor_on_grid cols rows (fold (\<lambda>mo. apply_motion mo cols rows) mos m) \<and>
    cm_anchor (fold (\<lambda>mo. apply_motion mo cols rows) mos m) = cm_anchor m \<and>
    cm_kind (fold (\<lambda>mo. apply_motion mo cols rows) mos m) = cm_kind m"
  using assms
proof (induction mos arbitrary: m)
  case (Cons mo mos)
  have "cursor_on_grid cols rows (apply_motion mo cols rows m)" "cm_anchor (apply_motion mo cols rows m) = cm_anchor m"
    "cm_kind (apply_motion mo cols rows m) = cm_kind m"
    using Cons.prems by (auto simp: cursor_on_grid_def apply_motion_def Let_def split: copy_mode_motion.splits)
  then show ?case using Cons.IH [of "apply_motion mo cols rows m"] by simp
qed simp

end
