(* ===== verification/Terminal.thy ===== *)
theory Terminal
  imports Screen_History Replies Selection
begin

text \<open>
  The terminal core, \<open>crates/seyal-terminal/src/terminal\<close>: the state of \<open>TerminalCore\<close>
  (\<open>vt/mod.rs\<close>), the dispatch of control sequences (\<open>vt/csi.rs\<close>), of C0 bytes
  (\<open>vt/execute.rs\<close>), of OSC strings (\<open>vt/osc.rs\<close>) and of printed scalars (\<open>vt/print.rs\<close>), and
  \<open>TerminalState\<close> with its feed loop and accessors (\<open>state.rs\<close>).

  The methods of \<open>Actions\<close> are one function \<open>perform\<close> on actions; \<open>feed\<close> of \<open>Vt_Parser\<close>
  returns the actions in order and the core performs them in order.  The screen the core works on,
  the line identities and the payload store are passed to an operation together, as a \<open>canvas\<close>.
  A queue created with a capacity holds that many elements.  The Unicode tables \<open>env\<close> and the
  byte accounting \<open>lay\<close> are parameters.
\<close>

section \<open>State\<close>

abbreviation KEYBOARD_STACK_CAPACITY :: nat where "KEYBOARD_STACK_CAPACITY \<equiv> 16"

abbreviation KEYBOARD_FLAGS_MASK :: byte where "KEYBOARD_FLAGS_MASK \<equiv> 3"

abbreviation SHELL_EVENT_CAPACITY :: nat where "SHELL_EVENT_CAPACITY \<equiv> 16"

record diagnostics =
  deferred_sequences :: nat
  unknown_sequences :: nat
  malformed_sequences :: nat
  grapheme_payload_overflow_count :: nat
  grapheme_store_capacity_fallback_count :: nat

definition default_diagnostics :: diagnostics where
  "default_diagnostics = \<lparr>deferred_sequences = 0, unknown_sequences = 0, malformed_sequences = 0,
     grapheme_payload_overflow_count = 0, grapheme_store_capacity_fallback_count = 0\<rparr>"

datatype session_shell_kind = Zsh | Bash

datatype shell_integration_token = Token (token_bytes: "byte list")

datatype shell_integration_event =
    PromptStarted shell_integration_token
  | CommandStarted shell_integration_token line_id
  | CommandFinished shell_integration_token int line_id
  | Readiness shell_integration_token session_shell_kind

definition hex :: "byte \<Rightarrow> byte option" where
  "hex b =
    (if 0x30 \<le> b \<and> b \<le> 0x39 then Some (b - 0x30)
     else if 0x61 \<le> b \<and> b \<le> 0x66 then Some (b - 0x61 + 10)
     else if 0x41 \<le> b \<and> b \<le> 0x46 then Some (b - 0x41 + 10)
     else None)"

fun hex_pairs :: "byte list \<Rightarrow> byte list option" where
  "hex_pairs (a # b # rest) =
    do { x \<leftarrow> hex a; y \<leftarrow> hex b; zs \<leftarrow> hex_pairs rest; Some (or (push_bit 4 x) y # zs) }"
| "hex_pairs _ = Some []"

definition from_hex :: "byte list \<Rightarrow> shell_integration_token option" where
  "from_hex bs = (if length bs \<noteq> 32 then None else map_option Token (hex_pairs bs))"

definition hex_digit :: "byte \<Rightarrow> byte" where
  "hex_digit d = (if d < 10 then 0x30 + d else 0x61 + (d - 10))"

definition write_hex :: "shell_integration_token \<Rightarrow> byte list" where
  "write_hex t = concat (map (\<lambda>b. [hex_digit (drop_bit 4 b), hex_digit (and b 0xf)]) (token_bytes t))"

record terminal_core =
  primary :: screen
  alternate :: "screen option"
  core_ids :: line_id_allocator
  modes :: mode_state
  core_damage :: damage_tracker
  core_diagnostics :: diagnostics
  fault :: "terminal_error option"
  shell_events :: "shell_integration_event list"
  presentation_events :: "host_presentation_event list"
  protocol_replies :: "protocol_reply list"
  primary_keyboard_flags :: byte
  alternate_keyboard_flags :: byte
  primary_keyboard_stack :: "byte list"
  primary_keyboard_stack_len :: nat
  alternate_keyboard_stack :: "byte list"
  alternate_keyboard_stack_len :: nat
  core_store :: grapheme_store
  active_unit :: "active_grapheme option"
  ambiguous_width :: ambiguous_width_policy
  core_selection :: selection_session
  core_search :: search_session
  core_copy_mode :: copy_mode
  copy_buffer :: "scalar list option"

definition new_core :: "nat \<Rightarrow> nat \<Rightarrow> terminal_core res" where
  "new_core cols rows =
    (case new_screen cols rows new_allocator True of
       (ids, Inl e) \<Rightarrow> Inl e
     | (ids, Inr s) \<Rightarrow> Inr
        \<lparr>primary = s, alternate = None, core_ids = ids, modes = default_modes,
         core_damage = commit (mark new_tracker (mutation_full rows)),
         core_diagnostics = default_diagnostics, fault = None, shell_events = [],
         presentation_events = [], protocol_replies = [],
         primary_keyboard_flags = 0, alternate_keyboard_flags = 0,
         primary_keyboard_stack = replicate KEYBOARD_STACK_CAPACITY 0, primary_keyboard_stack_len = 0,
         alternate_keyboard_stack = replicate KEYBOARD_STACK_CAPACITY 0, alternate_keyboard_stack_len = 0,
         core_store = new_store, active_unit = None, ambiguous_width = Narrow,
         core_selection = default_session, core_search = default_search,
         core_copy_mode = default_copy_mode, copy_buffer = None\<rparr>)"

section \<open>The current screen\<close>

definition invalidate_active_grapheme :: "terminal_core \<Rightarrow> terminal_core" where
  "invalidate_active_grapheme t = t\<lparr>active_unit := None\<rparr>"

definition current :: "terminal_core \<Rightarrow> screen" where
  "current t =
    (if alternate_screen (modes t) then (case alternate t of Some s \<Rightarrow> s | None \<Rightarrow> primary t) else primary t)"

text \<open>Writing through \<open>current_mut\<close>.\<close>

definition put_current :: "screen \<Rightarrow> terminal_core \<Rightarrow> terminal_core" where
  "put_current s t =
    (if alternate_screen (modes t) \<and> alternate t \<noteq> None then t\<lparr>alternate := Some s\<rparr> else t\<lparr>primary := s\<rparr>)"

definition apply_mutation :: "mutation \<Rightarrow> terminal_core \<Rightarrow> terminal_core" where
  "apply_mutation m t = t\<lparr>core_damage := mark (core_damage t) m\<rparr>"

definition record_fault :: "terminal_error \<Rightarrow> terminal_core \<Rightarrow> terminal_core" where
  "record_fault e t = (if fault t = None then t\<lparr>fault := Some e\<rparr> else t)"

definition record_deferred :: "terminal_core \<Rightarrow> terminal_core" where
  "record_deferred t = t\<lparr>core_diagnostics := (core_diagnostics t)
     \<lparr>deferred_sequences := sat_add u64_max (deferred_sequences (core_diagnostics t)) 1\<rparr>\<rparr>"

definition record_unknown :: "terminal_core \<Rightarrow> terminal_core" where
  "record_unknown t = t\<lparr>core_diagnostics := (core_diagnostics t)
     \<lparr>unknown_sequences := sat_add u64_max (unknown_sequences (core_diagnostics t)) 1\<rparr>\<rparr>"

definition record_malformed :: "terminal_core \<Rightarrow> terminal_core" where
  "record_malformed t = t\<lparr>core_diagnostics := (core_diagnostics t)
     \<lparr>malformed_sequences := sat_add u64_max (malformed_sequences (core_diagnostics t)) 1\<rparr>\<rparr>"

definition canvas_of :: "terminal_core \<Rightarrow> canvas" where
  "canvas_of t = \<lparr>scr = current t, alloc = core_ids t, payloads = core_store t\<rparr>"

definition put_canvas :: "canvas \<Rightarrow> terminal_core \<Rightarrow> terminal_core" where
  "put_canvas cv t = (put_current (scr cv) t)\<lparr>core_ids := alloc cv, core_store := payloads cv\<rparr>"

definition editing_mutation ::
  "(canvas \<Rightarrow> canvas \<times> mutation res) \<Rightarrow> terminal_core \<Rightarrow> terminal_core \<times> mutation"
where
  "editing_mutation opn t =
    (let (cv, r) = opn (canvas_of t); t' = put_canvas cv t in
     case r of Inr m \<Rightarrow> (t', m) | Inl e \<Rightarrow> (record_fault e t', mutation_none))"

definition on_current :: "(screen \<Rightarrow> screen \<times> mutation) \<Rightarrow> terminal_core \<Rightarrow> terminal_core \<times> mutation" where
  "on_current f t = (let (s, m) = f (current t) in (put_current s t, m))"

definition set_cursor_visible :: "bool \<Rightarrow> terminal_core \<Rightarrow> terminal_core" where
  "set_cursor_visible visible t =
    (if cursor_visible (modes t) = visible then t
     else let t1 = t\<lparr>modes := (modes t)\<lparr>cursor_visible := visible\<rparr>\<rparr>
          in apply_mutation (mutation_row (cs_row (screen_cursor (current t1) visible))) t1)"

definition sync_keyboard_flags :: "terminal_core \<Rightarrow> terminal_core" where
  "sync_keyboard_flags t =
    (let flags = and (keyboard_flags (modes t)) KEYBOARD_FLAGS_MASK in
     if alternate_screen (modes t) then t\<lparr>alternate_keyboard_flags := flags\<rparr>
     else t\<lparr>primary_keyboard_flags := flags\<rparr>)"

text \<open>What both directions of a switch do first.\<close>

definition leave_screen :: "terminal_core \<Rightarrow> terminal_core" where
  "leave_screen t = sync_keyboard_flags ((invalidate_active_grapheme t)
     \<lparr>core_selection := clear_selection (core_selection t), core_copy_mode := exit_copy_mode (core_copy_mode t), copy_buffer := None\<rparr>)"

definition set_alternate_screen :: "bool \<Rightarrow> terminal_core \<Rightarrow> terminal_core \<times> unit res" where
  "set_alternate_screen enabled t0 =
    (if enabled = alternate_screen (modes t0) then (t0, Inr ())
     else
       let t = leave_screen t0
       in if enabled then
            (case new_screen (scols (primary t)) (srows (primary t)) (core_ids t) False of
               (ids, Inl e) \<Rightarrow> (t\<lparr>core_ids := ids\<rparr>, Inl e)
             | (ids, Inr s) \<Rightarrow>
                 let (s', st) = inherit_pen_for_clean_buffer (pen (primary t)) s (core_store t)
                 in (apply_mutation (mutation_full (srows (primary t)))
                      (t\<lparr>core_ids := ids, alternate := Some s', core_store := st,
                         modes := (modes t)\<lparr>alternate_screen := True, keyboard_flags := alternate_keyboard_flags t\<rparr>\<rparr>), Inr ()))
          else
            let st = (case alternate t of Some s \<Rightarrow> release_all_payloads s (core_store t) | None \<Rightarrow> core_store t)
            in (apply_mutation (mutation_full (srows (primary t)))
                 (t\<lparr>alternate := None, core_store := st,
                    modes := (modes t)\<lparr>alternate_screen := False, keyboard_flags := primary_keyboard_flags t\<rparr>\<rparr>), Inr ()))"

section \<open>Keyboard protocol\<close>

definition keyboard_stack :: "terminal_core \<Rightarrow> byte list \<times> nat" where
  "keyboard_stack t =
    (if alternate_screen (modes t) then (alternate_keyboard_stack t, alternate_keyboard_stack_len t)
     else (primary_keyboard_stack t, primary_keyboard_stack_len t))"

definition put_keyboard_stack :: "byte list \<times> nat \<Rightarrow> terminal_core \<Rightarrow> terminal_core" where
  "put_keyboard_stack k t =
    (if alternate_screen (modes t) then t\<lparr>alternate_keyboard_stack := fst k, alternate_keyboard_stack_len := snd k\<rparr>
     else t\<lparr>primary_keyboard_stack := fst k, primary_keyboard_stack_len := snd k\<rparr>)"

definition adopt_flags :: "byte \<Rightarrow> terminal_core \<Rightarrow> terminal_core" where
  "adopt_flags flags t = sync_keyboard_flags (t\<lparr>modes := (modes t)\<lparr>keyboard_flags := flags\<rparr>\<rparr>)"

definition set_keyboard_flags :: "byte \<Rightarrow> nat \<Rightarrow> terminal_core \<Rightarrow> terminal_core \<times> bool" where
  "set_keyboard_flags flags0 mode t =
    (let flags = and flags0 KEYBOARD_FLAGS_MASK;
         chosen = (if mode = 1 then Some flags
                   else if mode = 2 then Some (or (keyboard_flags (modes t)) flags)
                   else if mode = 3 then Some (and (keyboard_flags (modes t)) (not flags))
                   else None)
     in case chosen of
          None \<Rightarrow> (t, False)
        | Some c \<Rightarrow>
            let nxt = and c KEYBOARD_FLAGS_MASK;
                (stack, len) = keyboard_stack t;
                k = (if len = 0 then (stack[0 := nxt], 1) else (stack[len - 1 := nxt], len))
            in (adopt_flags nxt (put_keyboard_stack k t), True))"

definition push_keyboard_flags :: "byte \<Rightarrow> terminal_core \<Rightarrow> terminal_core" where
  "push_keyboard_flags flags0 t =
    (let flags = and flags0 KEYBOARD_FLAGS_MASK;
         (stack, len) = keyboard_stack t;
         (stack1, len1) = (if len = KEYBOARD_STACK_CAPACITY then (copy_within 1 (length stack) 0 stack, len - 1) else (stack, len))
     in adopt_flags flags (put_keyboard_stack (stack1[len1 := flags], len1 + 1) t))"

definition pop_keyboard_flags :: "nat \<Rightarrow> terminal_core \<Rightarrow> terminal_core" where
  "pop_keyboard_flags count t =
    (let (stack, len) = keyboard_stack t;
         len1 = len - min count len;
         cur = (if len1 = 0 then 0 else stack ! (len1 - 1))
     in adopt_flags cur (put_keyboard_stack (stack, len1) t))"

section \<open>Replies\<close>

definition enqueue_protocol_reply :: "protocol_reply \<Rightarrow> terminal_core \<Rightarrow> terminal_core" where
  "enqueue_protocol_reply r t =
    (if length (protocol_replies t) = MAX_PROTOCOL_REPLIES then record_deferred t
     else t\<lparr>protocol_replies := protocol_replies t @ [r]\<rparr>)"

definition reply_or_defer :: "protocol_reply option \<Rightarrow> terminal_core \<Rightarrow> terminal_core" where
  "reply_or_defer r t = (case r of Some x \<Rightarrow> enqueue_protocol_reply x t | None \<Rightarrow> record_deferred t)"

definition reply_kitty_flags :: "terminal_core \<Rightarrow> terminal_core" where
  "reply_kitty_flags t = reply_or_defer (encode_kitty_flags (keyboard_flags (modes t))) t"

definition reply_dsr_cpr :: "terminal_core \<Rightarrow> terminal_core" where
  "reply_dsr_cpr t =
    (let c = screen_cursor (current t) (cursor_visible (modes t))
     in reply_or_defer (encode_dsr_cpr (cs_row c) (cs_col c)) t)"

definition reply_mode :: "nat \<Rightarrow> bool \<Rightarrow> terminal_core \<Rightarrow> terminal_core" where
  "reply_mode mode enabled t = reply_or_defer (encode_decrqm_private mode (if enabled then 1 else 2)) t"

definition reply_mouse_reporting :: "nat \<Rightarrow> mouse_reporting \<Rightarrow> terminal_core \<Rightarrow> terminal_core" where
  "reply_mouse_reporting mode level t = reply_mode mode (reporting (modes t) = level) t"

definition reply_decrqm_one :: "nat \<Rightarrow> terminal_core \<Rightarrow> terminal_core" where
  "reply_decrqm_one mode t =
    (if mode = 7 then reply_mode 7 (wraparound (modes t)) t
     else if mode = 25 then reply_mode 25 (cursor_visible (modes t)) t
     else if mode = 1 then reply_mode 1 (application_cursor (modes t)) t
     else if mode = 66 then reply_mode 66 (application_keypad (modes t)) t
     else if mode = 1049 then reply_mode 1049 (alternate_screen (modes t)) t
     else if mode = 2004 then reply_mode 2004 (bracketed_paste (modes t)) t
     else if mode = 2027 then reply_mode 2027 (unicode_core (modes t)) t
     else if mode = 1000 then reply_mouse_reporting 1000 MouseButtonOnly t
     else if mode = 1002 then reply_mouse_reporting 1002 MouseButtonDrag t
     else if mode = 1003 then reply_mouse_reporting 1003 MouseAny t
     else if mode = 1006 then reply_mode 1006 (mouse_sgr (modes t)) t
     else record_deferred t)"

definition reply_decrqm :: "nat list \<Rightarrow> terminal_core \<Rightarrow> terminal_core" where
  "reply_decrqm ps t = fold reply_decrqm_one ps t"

definition reply_primary_da :: "terminal_core \<Rightarrow> terminal_core" where
  "reply_primary_da t = reply_or_defer encode_primary_da t"

section \<open>Private modes\<close>

definition set_mouse_reporting :: "mouse_reporting \<Rightarrow> bool \<Rightarrow> terminal_core \<Rightarrow> terminal_core" where
  "set_mouse_reporting level enabled t =
    (if enabled then t\<lparr>modes := (modes t)\<lparr>reporting := level\<rparr>\<rparr>
     else if reporting (modes t) = level then t\<lparr>modes := (modes t)\<lparr>reporting := MouseOff\<rparr>\<rparr>
     else t)"

definition set_private_mode :: "bool \<Rightarrow> nat \<Rightarrow> terminal_core \<Rightarrow> terminal_core \<times> unit res" where
  "set_private_mode enabled mode t =
    (if mode = 1 then (t\<lparr>modes := (modes t)\<lparr>application_cursor := enabled\<rparr>\<rparr>, Inr ())
     else if mode = 7 then
       (if wraparound (modes t) \<noteq> enabled
        then (invalidate_active_grapheme (t\<lparr>modes := (modes t)\<lparr>wraparound := enabled\<rparr>\<rparr>), Inr ()) else (t, Inr ()))
     else if mode = 25 then (set_cursor_visible enabled t, Inr ())
     else if mode = 66 then (t\<lparr>modes := (modes t)\<lparr>application_keypad := enabled\<rparr>\<rparr>, Inr ())
     else if mode = 2027 then
       (if unicode_core (modes t) \<noteq> enabled
        then (invalidate_active_grapheme (t\<lparr>modes := (modes t)\<lparr>unicode_core := enabled\<rparr>\<rparr>), Inr ()) else (t, Inr ()))
     else if mode = 1049 then set_alternate_screen enabled t
     else if mode = 2004 then (t\<lparr>modes := (modes t)\<lparr>bracketed_paste := enabled\<rparr>\<rparr>, Inr ())
     else if mode = 1000 then (set_mouse_reporting MouseButtonOnly enabled t, Inr ())
     else if mode = 1002 then (set_mouse_reporting MouseButtonDrag enabled t, Inr ())
     else if mode = 1003 then (set_mouse_reporting MouseAny enabled t, Inr ())
     else if mode = 1006 then (t\<lparr>modes := (modes t)\<lparr>mouse_sgr := enabled\<rparr>\<rparr>, Inr ())
     else (record_deferred t, Inr ()))"

text \<open>The loop over the parameters; a failed switch to the alternate screen ends it.\<close>

fun set_private_modes :: "bool \<Rightarrow> nat list \<Rightarrow> terminal_core \<Rightarrow> terminal_core" where
  "set_private_modes enabled [] t = t"
| "set_private_modes enabled (mode # ms) t =
    (case set_private_mode enabled mode t of
       (t', Inr _) \<Rightarrow> set_private_modes enabled ms t'
     | (t', Inl e) \<Rightarrow> record_fault e t')"

section \<open>CSI and ESC\<close>

definition param_zero :: "nat list \<Rightarrow> nat \<Rightarrow> nat" where
  "param_zero ps i = (if i < length ps then ps ! i else 0)"

definition param_one :: "nat list \<Rightarrow> nat \<Rightarrow> nat" where
  "param_one ps i = (if param_zero ps i = 0 then 1 else param_zero ps i)"

abbreviation no_change :: "terminal_core \<Rightarrow> terminal_core \<times> mutation" where
  "no_change t \<equiv> (t, mutation_none)"

text \<open>
  The final byte of an unmarked sequence selects the operation; the bytes are, in this order,
  \<open>ABCD H f G d J K s u m n c r @ P X L M S T h l\<close>.
\<close>

definition csi_command :: "layout \<Rightarrow> nat list \<Rightarrow> byte \<Rightarrow> terminal_core \<Rightarrow> terminal_core \<times> mutation" where
  "csi_command lay ps final t =
    (let ti = invalidate_active_grapheme t; n = param_one ps 0 in
     if final = 0x41 then on_current (cursor_up n) ti
     else if final = 0x42 then on_current (cursor_down n) ti
     else if final = 0x43 then on_current (cursor_forward n) ti
     else if final = 0x44 then on_current (cursor_back n) ti
     else if final = 0x48 \<or> final = 0x66 then on_current (set_cursor (param_one ps 0 - 1) (param_one ps 1 - 1)) ti
     else if final = 0x47 then on_current (set_col (n - 1)) ti
     else if final = 0x64 then on_current (set_row (n - 1)) ti
     else if final = 0x4a then editing_mutation (erase_display lay (param_zero ps 0)) ti
     else if final = 0x4b then editing_mutation (lift_op (erase_line (param_zero ps 0))) ti
     else if final = 0x73 then no_change (put_current (save_cursor (current t)) t)
     else if final = 0x75 then on_current restore_cursor ti
     else if final = 0x6d then
       (let (s, unsupported) = apply_sgr ps (current t); t' = put_current s t
        in no_change (if unsupported then record_deferred t' else t'))
     else if final = 0x6e then no_change (if param_zero ps 0 = 6 then reply_dsr_cpr t else record_unknown t)
     else if final = 0x63 then no_change (if param_zero ps 0 = 0 then reply_primary_da t else record_unknown t)
     else if final = 0x72 then on_current (set_scroll_region (param_zero ps 0) (param_zero ps 1)) ti
     else if final = 0x40 then editing_mutation (lift_op (insert_characters n)) ti
     else if final = 0x50 then editing_mutation (lift_op (delete_characters n)) ti
     else if final = 0x58 then editing_mutation (lift_op (erase_characters n)) ti
     else if final = 0x4c then editing_mutation (insert_lines n) ti
     else if final = 0x4d then editing_mutation (delete_lines lay n) ti
     else if final = 0x53 then editing_mutation (scroll_up lay n HardBreak) ti
     else if final = 0x54 then editing_mutation (scroll_down n) ti
     else if final = 0x68 \<or> final = 0x6c then no_change (record_deferred t)
     else no_change (record_unknown t))"

definition keyboard_command :: "nat list \<Rightarrow> byte \<Rightarrow> terminal_core \<Rightarrow> terminal_core" where
  "keyboard_command ps marker t =
    (if marker = 0x3d \<and> length ps \<le> 2 then
       (let (t', done) = set_keyboard_flags (of_nat (param_zero ps 0)) (if 1 < length ps then ps ! 1 else 1) t
        in if done then t' else record_deferred t')
     else if marker = 0x3e \<and> length ps \<le> 1 then push_keyboard_flags (of_nat (param_zero ps 0)) t
     else if marker = 0x3c \<and> length ps \<le> 1 then pop_keyboard_flags (if 0 < length ps then ps ! 0 else 1) t
     else record_deferred t)"

definition dispatch_csi ::
  "layout \<Rightarrow> nat list \<Rightarrow> byte option \<Rightarrow> bool \<Rightarrow> byte \<Rightarrow> terminal_core \<Rightarrow> terminal_core"
where
  "dispatch_csi lay ps marker ign final t =
    (if fault t \<noteq> None then t
     else if ign then
       (if marker = Some 0x3f \<and> final = 0x70 then reply_decrqm ps t else record_deferred t)
     else if marker = Some 0x3f \<and> final = 0x75 then
       (if ps = [] then reply_kitty_flags t else record_deferred t)
     else if marker \<in> {Some 0x3d, Some 0x3e, Some 0x3c} \<and> final = 0x75 then keyboard_command ps (the marker) t
     else if marker \<noteq> None then
       (if marker = Some 0x3f \<and> (final = 0x68 \<or> final = 0x6c) then set_private_modes (final = 0x68) ps t
        else record_deferred t)
     else let (t', m) = csi_command lay ps final t in apply_mutation m t')"

definition dispatch_esc :: "layout \<Rightarrow> byte \<Rightarrow> bool \<Rightarrow> terminal_core \<Rightarrow> terminal_core" where
  "dispatch_esc lay final had_intermediate t =
    (if fault t \<noteq> None then t
     else if had_intermediate then record_deferred t
     else
       let ti = invalidate_active_grapheme t;
           (t', m) =
             (if final = 0x3d then no_change (t\<lparr>modes := (modes t)\<lparr>application_keypad := True\<rparr>\<rparr>)
              else if final = 0x3e then no_change (t\<lparr>modes := (modes t)\<lparr>application_keypad := False\<rparr>\<rparr>)
              else if final = 0x37 then no_change (put_current (save_cursor (current t)) t)
              else if final = 0x38 then on_current restore_cursor t
              else if final = 0x44 then editing_mutation (index_down lay) ti
              else if final = 0x4d then editing_mutation reverse_index ti
              else if final = 0x45 then editing_mutation (next_line lay) ti
              else no_change (record_unknown t))
       in apply_mutation m t')"

section \<open>Printing and C0 bytes\<close>

definition cell_store_id :: "nat \<Rightarrow> nat \<Rightarrow> terminal_core \<Rightarrow> nat" where
  "cell_store_id col row t =
    (case screen_cell (current t) col row of Some c \<Rightarrow> store_id c | None \<Rightarrow> INLINE_STORE_ID)"

text \<open>The end of \<open>print_scalar\<close>: a new unit is built, placed and becomes the active one.\<close>

definition start_unit :: "layout \<Rightarrow> scalar list \<Rightarrow> nat \<Rightarrow> style \<Rightarrow> terminal_core \<Rightarrow> terminal_core \<times> mutation res" where
  "start_unit lay text width st t =
    (let (store, lead) = build_lead_cell text width st False (core_store t) None;
         (cv, r) = place_new_unit lay lead (wraparound (modes t)) (canvas_of (t\<lparr>core_store := store\<rparr>));
         t' = put_canvas cv t
     in case r of
          Inl e \<Rightarrow> (t', Inl e)
        | Inr (m, soft_wrapped, col, row) \<Rightarrow>
            (t'\<lparr>active_unit := Some \<lparr>ag_col = col, ag_row = row, ag_utf8 = text, ag_width = width, ag_style = st,
                ag_store_id = cell_store_id col row t', ag_overflow = False\<rparr>\<rparr>, Inr m))"

text \<open>A widened unit that no longer fits at the right edge is cleared and placed on the next row.\<close>

definition replace_on_next_row ::
  "layout \<Rightarrow> active_grapheme \<Rightarrow> nat \<Rightarrow> terminal_core \<Rightarrow> terminal_core \<times> mutation res"
where
  "replace_on_next_row lay a width t =
    (let (cv1, clear_mut) = clear_unit_at (ag_col a) (ag_row a) (canvas_of t);
         cv2 = cv1\<lparr>scr := set_pending_wrap True (scr cv1)\<rparr>;
         (store, lead) = build_lead_cell (ag_utf8 a) width (ag_style a) (ag_overflow a) (payloads cv2) (Some (ag_store_id a));
         (cv3, r) = place_new_unit lay lead (wraparound (modes t)) (cv2\<lparr>payloads := store\<rparr>);
         t' = put_canvas cv3 t
     in case r of
          Inl e \<Rightarrow> (t', Inl e)
        | Inr (place_mut, _, col, row) \<Rightarrow>
            (t'\<lparr>active_unit := Some (a\<lparr>ag_col := col, ag_row := row, ag_width := width,
                ag_store_id := cell_store_id col row t'\<rparr>)\<rparr>, Inr (merge clear_mut place_mut)))"

text \<open>A unit that grows in place; a wider unit also moves the cursor.\<close>

definition cursor_after_widen :: "nat \<Rightarrow> nat \<Rightarrow> screen \<Rightarrow> screen" where
  "cursor_after_widen col width s =
    (let nxt = sat_add u16_max col width in
     if nxt \<ge> scols s then set_pending_wrap True (fst (set_col (scols s - 1) s)) else fst (set_col nxt s))"

definition grow_in_place :: "active_grapheme \<Rightarrow> nat \<Rightarrow> nat \<Rightarrow> terminal_core \<Rightarrow> terminal_core \<times> mutation res" where
  "grow_in_place a0 width previous_width t =
    (let a = a0\<lparr>ag_width := width\<rparr>;
         release_id = (if ag_store_id a \<noteq> INLINE_STORE_ID then Some (ag_store_id a) else None);
         (store, lead) = build_lead_cell (ag_utf8 a) (max (ag_width a) 1) (ag_style a) (ag_overflow a) (core_store t) release_id;
         a' = a\<lparr>ag_store_id := store_id lead, ag_overflow := cell_overflow lead\<rparr>;
         (cv, m) = replace_active_lead (ag_col a') (ag_row a') lead previous_width (canvas_of (t\<lparr>core_store := store\<rparr>));
         s = (if width > previous_width then cursor_after_widen (ag_col a') width (scr cv) else scr cv)
     in ((put_canvas (cv\<lparr>scr := s\<rparr>) t)\<lparr>active_unit := Some a'\<rparr>, Inr m))"

definition append_to_active ::
  "unicode_env \<Rightarrow> layout \<Rightarrow> active_grapheme \<Rightarrow> scalar \<Rightarrow> terminal_core \<Rightarrow> terminal_core \<times> mutation res"
where
  "append_to_active env lay a0 ch t0 =
    (let (a, store, r) = append_payload env a0 ch (core_store t0) (ambiguous_width t0);
         t = t0\<lparr>active_unit := None, core_store := store\<rparr>;
         previous_width = ag_width a0;
         wrap = wraparound (modes t);
         cols = scols (current t)
     in if ar_width_changed r \<and> ar_width r > previous_width then
          (case edge_decision_late_widen (ag_col a) cols (ar_width r) wrap of
             Place \<Rightarrow>
               (if ag_col a + 1 \<ge> cols \<and> wrap then replace_on_next_row lay a (ar_width r) t
                else grow_in_place a (ar_width r) previous_width t)
           | _ \<Rightarrow> (t\<lparr>active_unit := Some (a\<lparr>ag_utf8 := butlast (ag_utf8 a)\<rparr>)\<rparr>, Inr mutation_none))
        else grow_in_place a (ar_width r) previous_width t)"

text \<open>\<open>print_scalar\<close> from the point where no unit is active.\<close>

definition print_new :: "unicode_env \<Rightarrow> layout \<Rightarrow> scalar \<Rightarrow> terminal_core \<Rightarrow> terminal_core \<times> mutation res" where
  "print_new env lay ch t =
    (let core_mode = unicode_core (modes t);
         width1 = grapheme_terminal_width env [ch] (ambiguous_width t);
         width = (if core_mode then width1 else max width1 1)
     in if \<not> core_mode \<and> width1 = 0 then (t, Inr mutation_none)
        else if width = 0 then (t, Inr mutation_none)
        else
          case edge_decision_new_unit (ccol (current t)) (scols (current t)) width (wraparound (modes t)) of
            IgnoreUnit \<Rightarrow> (t, Inr mutation_none)
          | _ \<Rightarrow> start_unit lay [ch] width (pen (current t)) t)"

definition print_scalar :: "unicode_env \<Rightarrow> layout \<Rightarrow> scalar \<Rightarrow> terminal_core \<Rightarrow> terminal_core \<times> mutation res" where
  "print_scalar env lay ch t0 =
    (let core_mode = unicode_core (modes t0);
         width1 = grapheme_terminal_width env [ch] (ambiguous_width t0)
     in case active_unit t0 of
          Some a \<Rightarrow>
            if try_append_scalar env a ch core_mode \<or> (\<not> core_mode \<and> width1 = 0)
            then append_to_active env lay a ch t0
            else print_new env lay ch (t0\<lparr>active_unit := None\<rparr>)
        | None \<Rightarrow> print_new env lay ch t0)"

definition print_current :: "unicode_env \<Rightarrow> layout \<Rightarrow> scalar \<Rightarrow> terminal_core \<Rightarrow> terminal_core \<times> mutation res" where
  "print_current env lay ch t = print_scalar env lay ch t"

definition execute_current :: "layout \<Rightarrow> byte \<Rightarrow> terminal_core \<Rightarrow> terminal_core \<times> mutation res" where
  "execute_current lay b t0 =
    (let t = (if 0x08 \<le> b \<and> b \<le> 0x0d then invalidate_active_grapheme t0 else t0);
         (cv, r) = execute lay b (canvas_of t)
     in (put_canvas cv t, r))"

section \<open>OSC strings\<close>

definition current_line :: "terminal_core \<Rightarrow> line_id" where
  "current_line t =
    (case screen_line_id (current t) (cs_row (screen_cursor (current t) (cursor_visible (modes t)))) of
       Some l \<Rightarrow> l | None \<Rightarrow> LineId 1)"

definition completion_line :: "terminal_core \<Rightarrow> line_id" where
  "completion_line t =
    (let c = screen_cursor (current t) (cursor_visible (modes t));
         row = (if cs_col c = 0 \<and> cs_row c > 0 then cs_row c - 1 else cs_row c)
     in case screen_line_id (current t) row of Some l \<Rightarrow> l | None \<Rightarrow> LineId 1)"

definition enqueue_presentation :: "host_presentation_event \<Rightarrow> terminal_core \<Rightarrow> terminal_core" where
  "enqueue_presentation ev t =
    (if length (presentation_events t) = MAX_HOST_PRESENTATION_EVENTS then record_deferred t
     else t\<lparr>presentation_events := presentation_events t @ [ev]\<rparr>)"

text \<open>\<open>str::parse::<i32>\<close>: an optional sign, at least one digit, the value in range.\<close>

fun decimal_value :: "int \<Rightarrow> byte list \<Rightarrow> int option" where
  "decimal_value acc [] = Some acc"
| "decimal_value acc (b # bs) =
    (if 0x30 \<le> b \<and> b \<le> 0x39 then decimal_value (acc * 10 + int (unat b - 0x30)) bs else None)"

definition parse_i32 :: "byte list \<Rightarrow> int option" where
  "parse_i32 bs =
    (let (negative, digits) = (case bs of b # rest \<Rightarrow> (if b = 0x2d then (True, rest) else if b = 0x2b then (False, rest) else (False, bs)) | [] \<Rightarrow> (False, []))
     in if digits = [] then None
        else do {
          v \<leftarrow> decimal_value 0 digits;
          let w = (if negative then - v else v);
          if - (2 ^ 31) \<le> w \<and> w < 2 ^ 31 then Some w else None
        })"

definition shell_event_of :: "byte list list \<Rightarrow> terminal_core \<Rightarrow> shell_integration_event option" where
  "shell_event_of fs t =
    (case fs of
       [kind, token] \<Rightarrow>
         (if kind = [0x41] then map_option PromptStarted (from_hex token)
          else if kind = [0x43] then map_option (\<lambda>k. CommandStarted k (current_line t)) (from_hex token)
          else None)
     | kind # token # third # rest \<Rightarrow>
         (if kind = [0x44] then
            do {
              k \<leftarrow> from_hex token;
              _ \<leftarrow> from_utf8 third;
              status \<leftarrow> parse_i32 third;
              Some (CommandFinished k status (completion_line t))
            }
          else if kind = [0x52] then
            (if rest \<noteq> [] \<or> length third \<noteq> 1 then None
             else do {
               shell \<leftarrow> (if hd third = 0x7a then Some Zsh else if hd third = 0x62 then Some Bash else None);
               map_option (\<lambda>k. Readiness k shell) (from_hex token)
             })
          else None)
     | _ \<Rightarrow> None)"

definition dispatch_osc :: "byte list \<Rightarrow> bool \<Rightarrow> terminal_core \<Rightarrow> terminal_core" where
  "dispatch_osc bytes truncated t =
    (if fault t \<noteq> None then t
     else if truncated then record_deferred t
     else case parse_osc_presentation bytes of
            Some ev \<Rightarrow> enqueue_presentation ev t
          | None \<Rightarrow>
              if alternate_screen (modes t) then record_deferred t
              else
                case (case strip_prefix [0x31, 0x33, 0x33, 0x3b] bytes of
                        Some payload \<Rightarrow> shell_event_of (split_on 0x3b payload) t
                      | None \<Rightarrow> None) of
                  None \<Rightarrow> record_deferred t
                | Some ev \<Rightarrow>
                    if length (shell_events t) = SHELL_EVENT_CAPACITY then record_deferred t
                    else t\<lparr>shell_events := shell_events t @ [ev]\<rparr>)"

section \<open>Actions and the feed loop\<close>

definition settle :: "terminal_core \<times> mutation res \<Rightarrow> terminal_core" where
  "settle r = (case snd r of Inr m \<Rightarrow> apply_mutation m (fst r) | Inl e \<Rightarrow> record_fault e (fst r))"

fun perform :: "unicode_env \<Rightarrow> layout \<Rightarrow> action \<Rightarrow> terminal_core \<Rightarrow> terminal_core" where
  "perform env lay (Print ch) t = (if fault t \<noteq> None then t else settle (print_current env lay ch t))"
| "perform env lay (Execute b) t = (if fault t \<noteq> None then t else settle (execute_current lay b t))"
| "perform env lay (Csi_dispatch ps marker ign final) t = dispatch_csi lay ps marker ign final t"
| "perform env lay (Esc_dispatch final im) t = dispatch_esc lay final im t"
| "perform env lay (Osc_dispatch bytes truncated) t = dispatch_osc bytes truncated t"
| "perform env lay Deferred_string t = (if fault t = None then record_deferred t else t)"
| "perform env lay Malformed t = (if fault t = None then record_malformed t else t)"

definition perform_all :: "unicode_env \<Rightarrow> layout \<Rightarrow> action list \<Rightarrow> terminal_core \<Rightarrow> terminal_core" where
  "perform_all env lay acts t = fold (perform env lay) acts t"

record terminal_state =
  ts_parser :: parser
  core :: terminal_core

definition new_terminal :: "nat \<Rightarrow> nat \<Rightarrow> terminal_state res" where
  "new_terminal cols rows =
    (case new_core cols rows of Inl e \<Rightarrow> Inl e | Inr c \<Rightarrow> Inr \<lparr>ts_parser = new_parser, core = c\<rparr>)"

definition commit_damage :: "terminal_core \<Rightarrow> terminal_core" where
  "commit_damage t = t\<lparr>core_damage := commit (core_damage t)\<rparr>"

definition fault_result :: "terminal_core \<Rightarrow> unit res" where
  "fault_result t = (case fault t of None \<Rightarrow> Inr () | Some e \<Rightarrow> Inl e)"

definition feed_terminal ::
  "unicode_env \<Rightarrow> layout \<Rightarrow> byte list \<Rightarrow> terminal_state \<Rightarrow> terminal_state \<times> unit res"
where
  "feed_terminal env lay bytes s =
    (case fault (core s) of
       Some e \<Rightarrow> (s, Inl e)
     | None \<Rightarrow>
         let (p, acts) = feed (ts_parser s) bytes;
             c = commit_damage (perform_all env lay acts (core s))
         in (\<lparr>ts_parser = p, core = c\<rparr>, fault_result c))"

definition finish_input :: "unicode_env \<Rightarrow> layout \<Rightarrow> terminal_state \<Rightarrow> terminal_state \<times> unit res" where
  "finish_input env lay s =
    (case fault (core s) of
       Some e \<Rightarrow> (s, Inl e)
     | None \<Rightarrow>
         let (p, acts) = finish (ts_parser s);
             c = commit_damage (perform_all env lay acts (core s))
         in (\<lparr>ts_parser = p, core = c\<rparr>, fault_result c))"

section \<open>Accessors of \<open>TerminalState\<close>\<close>

definition terminal_cols :: "terminal_state \<Rightarrow> nat" where
  "terminal_cols s = scols (current (core s))"

definition terminal_rows :: "terminal_state \<Rightarrow> nat" where
  "terminal_rows s = srows (current (core s))"

definition terminal_cursor :: "terminal_state \<Rightarrow> cursor_state" where
  "terminal_cursor s = screen_cursor (current (core s)) (cursor_visible (modes (core s)))"

definition terminal_diagnostics :: "terminal_state \<Rightarrow> diagnostics" where
  "terminal_diagnostics s =
    (core_diagnostics (core s))
      \<lparr>grapheme_payload_overflow_count := payload_overflow_count (core_store (core s)),
       grapheme_store_capacity_fallback_count := capacity_fallback_count (core_store (core s))\<rparr>"

definition terminal_modes :: "terminal_state \<Rightarrow> mode_state" where
  "terminal_modes s = modes (core s)"

definition terminal_ambiguous_width_policy :: "terminal_state \<Rightarrow> ambiguous_width_policy" where
  "terminal_ambiguous_width_policy s = ambiguous_width (core s)"

definition grapheme_store_live_bytes :: "terminal_state \<Rightarrow> nat" where
  "grapheme_store_live_bytes s = live_bytes (core_store (core s))"

definition terminal_pending_wrap :: "terminal_state \<Rightarrow> bool" where
  "terminal_pending_wrap s = pending_wrap (scursor (current (core s)))"

definition set_ambiguous_width_policy :: "ambiguous_width_policy \<Rightarrow> terminal_state \<Rightarrow> terminal_state" where
  "set_ambiguous_width_policy policy s =
    (if ambiguous_width (core s) \<noteq> policy
     then s\<lparr>core := invalidate_active_grapheme ((core s)\<lparr>ambiguous_width := policy\<rparr>)\<rparr> else s)"

definition terminal_cell :: "terminal_state \<Rightarrow> nat \<Rightarrow> nat \<Rightarrow> cell option" where
  "terminal_cell s col row = screen_cell (current (core s)) col row"

definition lead_utf8 :: "terminal_state \<Rightarrow> nat \<Rightarrow> nat \<Rightarrow> byte list option" where
  "lead_utf8 s col row =
    (case terminal_cell s col row of
       None \<Rightarrow> None
     | Some c \<Rightarrow>
         (case role c of
            Lead \<Rightarrow>
              (if cell_overflow c then Some (utf8_encode REPLACEMENT)
               else case get_payload (core_store (core s)) (store_id c) of
                      Some bytes \<Rightarrow> Some bytes
                    | None \<Rightarrow> Some (utf8_encode (character c)))
          | _ \<Rightarrow> Some []))"

definition terminal_line_id :: "terminal_state \<Rightarrow> nat \<Rightarrow> line_id option" where
  "terminal_line_id s row = screen_line_id (current (core s)) row"

definition row_text :: "terminal_state \<Rightarrow> nat \<Rightarrow> scalar list option" where
  "row_text s row =
    (if row \<ge> terminal_rows s then None
     else Some (map character (List.map_filter (\<lambda>col. terminal_cell s col row) [0..<terminal_cols s])))"

definition damage_generation :: "terminal_state \<Rightarrow> nat" where
  "damage_generation s = t_generation (core_damage (core s))"

definition take_terminal_damage :: "terminal_state \<Rightarrow> terminal_state \<times> damage option" where
  "take_terminal_damage s =
    (let (d, r) = take_damage (core_damage (core s)) in (s\<lparr>core := (core s)\<lparr>core_damage := d\<rparr>\<rparr>, r))"

text \<open>\<open>VecDeque::pop_front\<close>.\<close>

fun pop_front :: "'a list \<Rightarrow> 'a list \<times> 'a option" where
  "pop_front [] = ([], None)"
| "pop_front (x # xs) = (xs, Some x)"

definition take_shell_integration_event :: "terminal_state \<Rightarrow> terminal_state \<times> shell_integration_event option" where
  "take_shell_integration_event s =
    (let (q, r) = pop_front (shell_events (core s)) in (s\<lparr>core := (core s)\<lparr>shell_events := q\<rparr>\<rparr>, r))"

definition take_host_presentation_event :: "terminal_state \<Rightarrow> terminal_state \<times> host_presentation_event option" where
  "take_host_presentation_event s =
    (let (q, r) = pop_front (presentation_events (core s)) in (s\<lparr>core := (core s)\<lparr>presentation_events := q\<rparr>\<rparr>, r))"

definition take_protocol_reply :: "terminal_state \<Rightarrow> terminal_state \<times> protocol_reply option" where
  "take_protocol_reply s =
    (let (q, r) = pop_front (protocol_replies (core s)) in (s\<lparr>core := (core s)\<lparr>protocol_replies := q\<rparr>\<rparr>, r))"

end
