(* ===== verification/Terminal_Ok.thy ===== *)
theory Terminal_Ok
  imports Terminal
begin

text \<open>
  The invariant of the terminal core and the proof that every action keeps it.  \<open>core_step\<close> is what
  an action owes its environment: a well-formed core of the same size, no published damage touched,
  no pending damage lost, and, unless a fault is recorded, every row of the visible screen that
  changed is pending.
\<close>

section \<open>Invariant\<close>

definition keyboard_ok :: "terminal_core \<Rightarrow> bool" where
  "keyboard_ok t \<longleftrightarrow>
     length (primary_keyboard_stack t) = KEYBOARD_STACK_CAPACITY \<and> primary_keyboard_stack_len t \<le> KEYBOARD_STACK_CAPACITY \<and>
     length (alternate_keyboard_stack t) = KEYBOARD_STACK_CAPACITY \<and> alternate_keyboard_stack_len t \<le> KEYBOARD_STACK_CAPACITY"

definition queues_ok :: "terminal_core \<Rightarrow> bool" where
  "queues_ok t \<longleftrightarrow> length (shell_events t) \<le> SHELL_EVENT_CAPACITY \<and>
     length (presentation_events t) \<le> MAX_HOST_PRESENTATION_EVENTS \<and> length (protocol_replies t) \<le> MAX_PROTOCOL_REPLIES"

definition screens_ok :: "terminal_core \<Rightarrow> bool" where
  "screens_ok t \<longleftrightarrow> screen_ok (primary t) \<and>
     (\<forall>s. alternate t = Some s \<longrightarrow> screen_ok s \<and> same_size (primary t) s) \<and>
     (alternate_screen (modes t) \<longleftrightarrow> alternate t \<noteq> None)"

definition active_ok :: "screen \<Rightarrow> active_grapheme option \<Rightarrow> bool" where
  "active_ok s oa \<longleftrightarrow> (\<forall>a. oa = Some a \<longrightarrow> ag_col a < scols s \<and> ag_row a < srows s \<and> ag_width a \<le> 2)"

definition pending :: "terminal_core \<Rightarrow> nat set" where
  "pending t = mutation_rows_of (dirty (core_damage t))"

text \<open>
  What a consumer of damage relies on: the record covers everything, or it names an interval of
  rows of the grid.
\<close>

definition damage_ok :: "nat \<Rightarrow> damage option \<Rightarrow> bool" where
  "damage_ok n od \<longleftrightarrow> (\<forall>d. od = Some d \<longrightarrow> d_full d \<or> d_first_row d \<le> d_last_row d \<and> d_last_row d < n)"

definition core_ok :: "terminal_core \<Rightarrow> bool" where
  "core_ok t \<longleftrightarrow> screens_ok t \<and> allocator_ok (core_ids t) \<and> store_ok (core_store t) \<and> keyboard_ok t \<and> queues_ok t \<and>
     active_ok (current t) (active_unit t) \<and> mutation_ok (dirty (core_damage t)) \<and> pending t \<subseteq> {..<srows (primary t)} \<and>
     damage_ok (srows (primary t)) (published (core_damage t))"

definition core_step :: "terminal_core \<Rightarrow> terminal_core \<Rightarrow> bool" where
  "core_step t t' \<longleftrightarrow> core_ok t' \<and> same_size (primary t) (primary t') \<and>
     published (core_damage t') = published (core_damage t) \<and> pending t \<subseteq> pending t' \<and>
     (fault t \<noteq> None \<longrightarrow> fault t' = fault t) \<and>
     (fault t' = None \<longrightarrow> changed_rows (current t) (current t') \<subseteq> pending t')"

lemma current_eq:
  "current t = (if alternate_screen (modes t) \<and> alternate t \<noteq> None then the (alternate t) else primary t)"
  by (auto simp: current_def split: option.splits)

lemma current_update [simp]:
  "current (t\<lparr>active_unit := a\<rparr>) = current t" "current (t\<lparr>fault := f\<rparr>) = current t" "current (t\<lparr>core_store := st\<rparr>) = current t"
  "current (t\<lparr>core_damage := d\<rparr>) = current t"
  by (simp_all add: current_def cong: option.case_cong)

lemma current_size: "screens_ok t \<Longrightarrow> screen_ok (current t) \<and> same_size (primary t) (current t)"
  by (cases "alternate t") (simp_all add: screens_ok_def current_eq)

lemma core_canvas: "core_ok t \<Longrightarrow> canvas_ok (canvas_of t)"
  using current_size [of t] by (simp add: core_ok_def canvas_ok_def canvas_of_def)

lemma core_step_refl: "core_ok t \<Longrightarrow> core_step t t"
  by (simp add: core_step_def)

lemma core_step_trans: "core_step a b \<Longrightarrow> core_step b c \<Longrightarrow> core_ok a \<Longrightarrow> core_step a c"
proof -
  assume s: "core_step a b" "core_step b c" and a: "core_ok a"
  have "same_size (primary a) (current a)" "same_size (primary b) (current b)" "same_size (primary c) (current c)"
    using current_size s a by (auto simp: core_step_def core_ok_def)
  then have sz: "same_size (current a) (current b)" "same_size (current b) (current c)"
    using s by (auto simp: core_step_def same_size_def)
  have f: "fault c = None \<longrightarrow> fault b = None" using s by (auto simp: core_step_def)
  have "changed_rows (current a) (current c) \<subseteq> changed_rows (current a) (current b) \<union> changed_rows (current b) (current c)"
    using sz changed_rows_trans by blast
  moreover have "changed_rows (current a) (current b) \<subseteq> pending c" "changed_rows (current b) (current c) \<subseteq> pending c"
    if "fault c = None"
  proof -
    show "changed_rows (current b) (current c) \<subseteq> pending c" using s(2) that by (simp add: core_step_def)
    have "changed_rows (current a) (current b) \<subseteq> pending b" using s(1) f that by (simp add: core_step_def)
    also have "pending b \<subseteq> pending c" using s(2) by (simp add: core_step_def)
    finally show "changed_rows (current a) (current b) \<subseteq> pending c" .
  qed
  ultimately have "fault c = None \<longrightarrow> changed_rows (current a) (current c) \<subseteq> pending c" by blast
  moreover have "same_size (primary a) (primary c)" using s same_size_trans by (auto simp: core_step_def)
  ultimately show ?thesis using s by (auto simp: core_step_def)
qed

text \<open>Updates that leave screens, identities, store and damage alone.\<close>

definition same_view :: "terminal_core \<Rightarrow> terminal_core \<Rightarrow> bool" where
  "same_view t t' \<longleftrightarrow> primary t' = primary t \<and> alternate t' = alternate t \<and>
     alternate_screen (modes t') = alternate_screen (modes t) \<and> core_ids t' = core_ids t \<and> core_store t' = core_store t \<and>
     core_damage t' = core_damage t \<and> fault t' = fault t \<and> (active_unit t' = active_unit t \<or> active_unit t' = None)"

lemma same_view_current: "same_view t t' \<Longrightarrow> current t' = current t"
  by (cases "alternate t") (simp_all add: same_view_def current_eq)

lemma same_view_step: "core_ok t \<Longrightarrow> same_view t t' \<Longrightarrow> keyboard_ok t' \<Longrightarrow> queues_ok t' \<Longrightarrow> core_step t t'"
  using same_view_current [of t t']
  by (auto simp: core_step_def core_ok_def same_view_def screens_ok_def active_ok_def pending_def)

lemma counts_step:
  assumes "core_ok t"
  shows "core_step t (record_deferred t)" "core_step t (record_unknown t)" "core_step t (record_malformed t)"
    "core_step t (invalidate_active_grapheme t)"
  using assms
  by (auto intro!: same_view_step simp: same_view_def record_deferred_def record_unknown_def record_malformed_def
      invalidate_active_grapheme_def core_ok_def keyboard_ok_def queues_ok_def)

lemma modes_step:
  assumes "core_ok t" "alternate_screen (f (modes t)) = alternate_screen (modes t)"
  shows "core_step t (t\<lparr>modes := f (modes t)\<rparr>)" "core_step t (invalidate_active_grapheme (t\<lparr>modes := f (modes t)\<rparr>))"
  using assms
  by (auto intro!: same_view_step simp: same_view_def invalidate_active_grapheme_def core_ok_def keyboard_ok_def queues_ok_def)

lemma reply_step: "core_ok t \<Longrightarrow> core_step t (reply_or_defer r t)"
proof (cases r)
  case (Some x)
  assume ok: "core_ok t"
  show ?thesis
  proof (cases "length (protocol_replies t) = MAX_PROTOCOL_REPLIES")
    case True
    then show ?thesis using counts_step(1) [OF ok] Some by (simp add: reply_or_defer_def enqueue_protocol_reply_def)
  next
    case False
    have "core_step t (t\<lparr>protocol_replies := protocol_replies t @ [x]\<rparr>)"
      using ok False by (intro same_view_step) (auto simp: same_view_def core_ok_def keyboard_ok_def queues_ok_def)
    then show ?thesis using Some False by (simp add: reply_or_defer_def enqueue_protocol_reply_def)
  qed
qed (simp add: reply_or_defer_def counts_step)

lemma mark_rows: "mutation_rows_of (dirty d) \<union> mutation_rows_of m \<subseteq> mutation_rows_of (dirty (mark d m))"
  using merge_rows by (simp add: mark_def)


section \<open>Operations on the current screen\<close>

text \<open>A command returns the core and the mutation its caller marks.\<close>

definition cmd_ok :: "terminal_core \<Rightarrow> terminal_core \<times> mutation \<Rightarrow> bool" where
  "cmd_ok t r \<longleftrightarrow> core_step t (apply_mutation (snd r) (fst r))"

lemma current_put [simp]: "current (put_current s t) = s" "current (put_canvas cv t) = scr cv"
  by (auto simp: current_eq put_current_def put_canvas_def split: option.splits)

lemma put_current_other [simp]:
  "modes (put_current s t) = modes t" "core_ids (put_current s t) = core_ids t" "core_store (put_current s t) = core_store t"
  "core_damage (put_current s t) = core_damage t" "fault (put_current s t) = fault t" "active_unit (put_current s t) = active_unit t"
  "keyboard_ok (put_current s t) = keyboard_ok t" "queues_ok (put_current s t) = queues_ok t"
  by (simp_all add: put_current_def keyboard_ok_def queues_ok_def)

lemma put_canvas_other [simp]:
  "modes (put_canvas cv t) = modes t" "core_ids (put_canvas cv t) = alloc cv" "core_store (put_canvas cv t) = payloads cv"
  "core_damage (put_canvas cv t) = core_damage t" "fault (put_canvas cv t) = fault t" "active_unit (put_canvas cv t) = active_unit t"
  "keyboard_ok (put_canvas cv t) = keyboard_ok t" "queues_ok (put_canvas cv t) = queues_ok t"
  by (simp_all add: put_canvas_def) (simp_all add: put_current_def keyboard_ok_def queues_ok_def)

lemma put_screens:
  assumes "screens_ok t" "screen_ok s" "same_size (current t) s"
  shows "screens_ok (put_current s t)" "same_size (primary t) (primary (put_current s t))"
proof -
  have "same_size (primary t) s" using current_size [OF assms(1)] assms(3) same_size_trans by blast
  moreover have "same_size s x" if "same_size (primary t) x" "same_size (primary t) s" for x
    using that by (simp add: same_size_def)
  ultimately show "screens_ok (put_current s t)" "same_size (primary t) (primary (put_current s t))"
    using assms(1,2) by (auto simp: screens_ok_def put_current_def)
qed

lemma put_canvas_screens:
  assumes "screens_ok t" "screen_ok (scr cv)" "same_size (current t) (scr cv)"
  shows "screens_ok (put_canvas cv t)" "same_size (primary t) (primary (put_canvas cv t))"
  using put_screens [OF assms] by (simp_all add: put_canvas_def screens_ok_def)

lemma active_ok_size: "same_size s s' \<Longrightarrow> active_ok s' a = active_ok s a"
  by (simp add: active_ok_def same_size_def)

lemma apply_other [simp]:
  "primary (apply_mutation m t) = primary t" "alternate (apply_mutation m t) = alternate t" "modes (apply_mutation m t) = modes t"
  "current (apply_mutation m t) = current t" "core_ids (apply_mutation m t) = core_ids t" "core_store (apply_mutation m t) = core_store t"
  "fault (apply_mutation m t) = fault t" "active_unit (apply_mutation m t) = active_unit t"
  "keyboard_ok (apply_mutation m t) = keyboard_ok t" "queues_ok (apply_mutation m t) = queues_ok t"
  "screens_ok (apply_mutation m t) = screens_ok t"
  "published (core_damage (apply_mutation m t)) = published (core_damage t)"
  by (auto simp: apply_mutation_def current_eq keyboard_ok_def queues_ok_def screens_ok_def mark_def)

lemma apply_pending: "pending t \<union> mutation_rows_of m \<subseteq> pending (apply_mutation m t)"
  using mark_rows by (simp add: pending_def apply_mutation_def)

lemma apply_core_ok:
  assumes "core_ok t" "mutation_ok m" "mutation_rows_of m \<subseteq> {..<srows (primary t)}"
  shows "core_ok (apply_mutation m t)"
  using assms merge_bounds [of "dirty (core_damage t)" m "srows (primary t)"]
  by (simp add: core_ok_def pending_def) (simp add: apply_mutation_def mark_def)

text \<open>The canvas of an operation put back, with the active unit kept, dropped or replaced.\<close>

lemma put_canvas_ok:
  assumes ok: "core_ok t" and cv: "canvas_ok cv" "same_size (current t) (scr cv)" and a: "active_ok (current t) a"
  shows "core_ok ((put_canvas cv t)\<lparr>active_unit := a\<rparr>)" "same_size (primary t) (primary (put_canvas cv t))"
proof -
  have s: "screens_ok t" "screen_ok (scr cv)" using ok cv by (simp_all add: core_ok_def canvas_ok_def)
  note p = put_canvas_screens [OF s cv(2)]
  show "same_size (primary t) (primary (put_canvas cv t))" by (rule p)
  have c: "current ((put_canvas cv t)\<lparr>active_unit := a\<rparr>) = scr cv" by simp
  have r: "srows (primary (put_canvas cv t)) = srows (primary t)" using p(2) by (simp add: same_size_def)
  show "core_ok ((put_canvas cv t)\<lparr>active_unit := a\<rparr>)"
    using ok cv p(1) a active_ok_size [OF cv(2), of a] put_canvas_other [of cv t] c r
    by (simp add: core_ok_def canvas_ok_def screens_ok_def pending_def keyboard_ok_def queues_ok_def)
qed

lemma edit_step:
  assumes ok: "core_ok t" and op: "op_ok (canvas_of t) (cv, Inr m)" and a: "active_ok (current t) a"
  shows "core_step t (apply_mutation m ((put_canvas cv t)\<lparr>active_unit := a\<rparr>))"
proof -
  have cv: "canvas_ok cv" "same_size (current t) (scr cv)" "step_ok (current t) (scr cv) m"
    using op by (simp_all add: op_ok_def canvas_of_def)
  let ?t = "(put_canvas cv t)\<lparr>active_unit := a\<rparr>"
  note p = put_canvas_ok [OF ok cv(1,2) a]
  have "srows (primary t) = srows (current t)" using ok current_size [of t] by (simp add: core_ok_def same_size_def)
  then have "mutation_ok m" "mutation_rows_of m \<subseteq> {..<srows (primary ?t)}"
    using cv(3) p(2) by (simp_all add: step_ok_def same_size_def)
  then have ok': "core_ok (apply_mutation m ?t)" using apply_core_ok [OF p(1)] by simp
  have c: "current ?t = scr cv" by simp
  have pend: "pending ?t = pending t" by (simp add: pending_def)
  have "changed_rows (current t) (scr cv) \<subseteq> mutation_rows_of m" using cv(3) by (simp add: step_ok_def)
  then show ?thesis using ok' p(2) apply_pending [of ?t m] c pend by (auto simp: core_step_def)
qed

lemma edit_fault_step:
  assumes ok: "core_ok t" and op: "op_ok (canvas_of t) (cv, Inl e)" and a: "active_ok (current t) a"
  shows "core_step t (record_fault e ((put_canvas cv t)\<lparr>active_unit := a\<rparr>))"
proof -
  have cv: "canvas_ok cv" "same_size (current t) (scr cv)" using op by (simp_all add: op_ok_def canvas_of_def)
  note p = put_canvas_ok [OF ok cv a]
  have "core_ok (x\<lparr>fault := f\<rparr>) = core_ok x" for x f
    by (simp add: core_ok_def screens_ok_def current_eq pending_def keyboard_ok_def queues_ok_def)
  then show ?thesis using p by (auto simp: core_step_def record_fault_def pending_def)
qed

lemma apply_step:
  assumes "core_step t t'" "mutation_ok m" "mutation_rows_of m \<subseteq> {..<srows (primary t)}"
  shows "core_step t (apply_mutation m t')"
proof -
  have "core_ok (apply_mutation m t')" using assms apply_core_ok [of t' m] by (auto simp: core_step_def same_size_def)
  then show ?thesis using assms(1) apply_pending [of t' m] by (auto simp: core_step_def)
qed

lemma cmd_okI: "core_step t t' \<Longrightarrow> cmd_ok t (t', mutation_none)"
  using apply_step [of t t' mutation_none] by (simp add: cmd_ok_def)

context canvas_op
begin

lemma editing_ok: "core_ok t \<Longrightarrow> cmd_ok t (editing_mutation opn t)"
proof -
  assume ok: "core_ok t"
  obtain cv r where r: "opn (canvas_of t) = (cv, r)" by fastforce
  have op: "op_ok (canvas_of t) (cv, r)" using opn_ok [OF core_canvas [OF ok]] r by simp
  have a: "active_ok (current t) (active_unit t)" and e: "(put_canvas cv t)\<lparr>active_unit := active_unit t\<rparr> = put_canvas cv t"
    using ok put_canvas_other(6) [of cv t] by (simp_all add: core_ok_def)
  show ?thesis
  proof (cases r)
    case (Inr m)
    then show ?thesis using edit_step [OF ok op [unfolded Inr] a] r e by (simp add: editing_mutation_def cmd_ok_def)
  next
    case (Inl x)
    have "core_step t (record_fault x (put_canvas cv t))" using edit_fault_step [OF ok op [unfolded Inl] a] e by simp
    then show ?thesis using Inl r cmd_okI by (simp add: editing_mutation_def)
  qed
qed

end


lemma on_current_editing: "on_current f t = editing_mutation (on_screen f) t"
proof -
  have "put_canvas ((canvas_of t)\<lparr>scr := s\<rparr>) t = put_current s t" for s
    by (cases t) (simp add: put_canvas_def canvas_of_def put_current_def)
  then show ?thesis by (simp add: on_current_def editing_mutation_def on_screen_def canvas_of_def case_prod_beta Let_def)
qed

context screen_op
begin

lemma current_ok: "core_ok t \<Longrightarrow> cmd_ok t (on_current mv t)"
  unfolding on_current_editing by (rule editing_ok)

end

lemma core_ok_invalidate: "core_ok t \<Longrightarrow> core_ok (invalidate_active_grapheme t)"
  using counts_step(4) by (simp add: core_step_def)

lemma cmd_ok_invalidate: "core_ok t \<Longrightarrow> cmd_ok (invalidate_active_grapheme t) r \<Longrightarrow> cmd_ok t r"
  unfolding cmd_ok_def using core_step_trans [OF counts_step(4)] by blast

lemma cmd_ok_deferred: "cmd_ok t (t', m) \<Longrightarrow> core_ok t \<Longrightarrow> cmd_ok t (record_deferred t', m)"
proof -
  assume c: "cmd_ok t (t', m)" and ok: "core_ok t"
  have s: "core_step t (apply_mutation m t')" using c by (simp add: cmd_ok_def)
  then have "core_ok (apply_mutation m t')" by (simp add: core_step_def)
  from core_step_trans [OF s counts_step(1) [OF this] ok]
  have "core_step t (record_deferred (apply_mutation m t'))" .
  moreover have "apply_mutation m (record_deferred t') = record_deferred (apply_mutation m t')"
    by (simp add: apply_mutation_def record_deferred_def)
  ultimately show ?thesis by (simp add: cmd_ok_def)
qed

section \<open>Keyboard and modes\<close>

lemma keyboard_step:
  assumes ok: "core_ok t" and k: "length (fst k) = KEYBOARD_STACK_CAPACITY" "snd k \<le> KEYBOARD_STACK_CAPACITY"
  shows "core_step t (adopt_flags f (put_keyboard_stack k t))"
  using ok k by (intro same_view_step)
    (auto simp: same_view_def adopt_flags_def sync_keyboard_flags_def put_keyboard_stack_def Let_def core_ok_def keyboard_ok_def queues_ok_def)

lemma keyboard_stack_ok: "core_ok t \<Longrightarrow> length (fst (keyboard_stack t)) = KEYBOARD_STACK_CAPACITY \<and> snd (keyboard_stack t) \<le> KEYBOARD_STACK_CAPACITY"
  by (simp add: keyboard_stack_def core_ok_def keyboard_ok_def)

lemma keyboard_ops_step:
  assumes ok: "core_ok t"
  shows "core_step t (fst (set_keyboard_flags f mode t))" "core_step t (push_keyboard_flags f t)" "core_step t (pop_keyboard_flags n t)"
proof -
  note k = keyboard_stack_ok [OF ok]
  show "core_step t (fst (set_keyboard_flags f mode t))"
    using k core_step_refl [OF ok] by (auto simp: set_keyboard_flags_def Let_def case_prod_beta intro!: keyboard_step [OF ok])
  have "length (copy_within 1 (length (fst (keyboard_stack t))) 0 (fst (keyboard_stack t))) = KEYBOARD_STACK_CAPACITY"
    using k by (subst length_copy_within) auto
  then show "core_step t (push_keyboard_flags f t)"
    using k by (auto simp: push_keyboard_flags_def Let_def case_prod_beta intro!: keyboard_step [OF ok])
  show "core_step t (pop_keyboard_flags n t)"
    using k by (auto simp: pop_keyboard_flags_def Let_def case_prod_beta intro!: keyboard_step [OF ok])
qed

lemma keyboard_command_step: "core_ok t \<Longrightarrow> core_step t (keyboard_command ps marker t)"
proof -
  assume ok: "core_ok t"
  have d: "core_step t (record_deferred t')" if "core_step t t'" for t'
    using core_step_trans [OF that counts_step(1) ok] that by (simp add: core_step_def)
  show ?thesis
    using keyboard_ops_step [OF ok] d [OF keyboard_ops_step(1) [OF ok]] counts_step(1) [OF ok]
    by (auto simp: keyboard_command_def Let_def case_prod_beta)
qed

lemma decrqm_step: "core_ok t \<Longrightarrow> core_step t (reply_decrqm ps t)"
proof (induction ps arbitrary: t)
  case Nil
  then show ?case by (simp add: reply_decrqm_def core_step_refl)
next
  case (Cons p ps)
  have 1: "core_step t (reply_decrqm_one p t)"
    using reply_step [OF Cons.prems] counts_step(1) [OF Cons.prems]
    by (simp add: reply_decrqm_one_def reply_mode_def reply_mouse_reporting_def)
  then have "core_step (reply_decrqm_one p t) (reply_decrqm ps (reply_decrqm_one p t))"
    using Cons.IH by (simp add: core_step_def)
  from core_step_trans [OF 1 this Cons.prems] show ?case by (simp add: reply_decrqm_def)
qed

lemma cursor_row_in_grid: "core_ok t \<Longrightarrow> crow (current t) < srows (primary t)"
  using current_size [of t] by (simp add: core_ok_def screen_ok_def same_size_def)

lemma set_cursor_visible_step: "core_ok t \<Longrightarrow> core_step t (set_cursor_visible v t)"
proof -
  assume ok: "core_ok t"
  let ?t = "t\<lparr>modes := (modes t)\<lparr>cursor_visible := v\<rparr>\<rparr>"
  have s: "core_step t ?t" using modes_step(1) [OF ok, of "\<lambda>m. m\<lparr>cursor_visible := v\<rparr>"] by simp
  have "crow (current ?t) < srows (primary t)" using cursor_row_in_grid [of ?t] s by (simp add: core_step_def)
  then have "core_step t (apply_mutation (mutation_row (cs_row (screen_cursor (current ?t) v))) ?t)"
    by (intro apply_step [OF s]) (simp_all add: screen_cursor_def)
  then show ?thesis using core_step_refl [OF ok] by (simp add: set_cursor_visible_def Let_def)
qed

lemma changed_within: "changed_rows s s' \<subseteq> {..<srows s}"
  by (auto simp: changed_rows_def)

text \<open>Switching between the screens repaints everything.\<close>

lemma switch_step:
  assumes ok: "core_ok t" and t': "core_ok t'" "same_size (primary t) (primary t')" "core_damage t' = core_damage t" "fault t' = fault t"
  shows "core_step t (apply_mutation (mutation_full (srows (primary t))) t')"
proof -
  let ?m = "mutation_full (srows (primary t))"
  have n: "0 < srows (primary t)" "srows (primary t') = srows (primary t)"
    using ok t'(2) by (simp_all add: core_ok_def screens_ok_def screen_ok_def same_size_def)
  have rows: "mutation_rows_of ?m = {..<srows (primary t)}" using n by auto
  have "core_ok (apply_mutation ?m t')" using apply_core_ok [OF t'(1)] n rows by simp
  moreover have "changed_rows (current t) (current t') \<subseteq> mutation_rows_of ?m"
    using changed_within [of "current t"] current_size [of t] ok rows by (simp add: core_ok_def same_size_def)
  moreover have "pending t' = pending t" using t'(3) by (simp add: pending_def)
  ultimately show ?thesis using apply_pending [of t' ?m] t' unfolding core_step_def by auto
qed

lemma inherit_pen_ok:
  assumes "screen_ok s" "store_ok st"
  shows "screen_ok (fst (inherit_pen_for_clean_buffer p s st))" "store_ok (snd (inherit_pen_for_clean_buffer p s st))"
    "same_size s (fst (inherit_pen_for_clean_buffer p s st))"
  using assms release_cells_ok by (auto simp: inherit_pen_for_clean_buffer_def screen_ok_def release_all_payloads_def same_size_def)


lemma leave_screen_step: "core_ok t \<Longrightarrow> core_step t (leave_screen t)"
  by (rule same_view_step)
    (auto simp: leave_screen_def same_view_def sync_keyboard_flags_def invalidate_active_grapheme_def Let_def core_ok_def keyboard_ok_def queues_ok_def)

lemma leave_screen_shape: "active_unit (leave_screen t) = None" "alternate_screen (modes (leave_screen t)) = alternate_screen (modes t)"
  by (simp_all add: leave_screen_def sync_keyboard_flags_def invalidate_active_grapheme_def Let_def)

lemma set_alternate_screen_step:
  assumes ok: "core_ok t"
  shows "core_step t (fst (set_alternate_screen enabled t))"
proof (cases "enabled = alternate_screen (modes t)")
  case True
  then show ?thesis using core_step_refl [OF ok] by (simp add: set_alternate_screen_def)
next
  case False
  define l where "l = leave_screen t"
  have s: "core_step t l" using leave_screen_step [OF ok] by (simp add: l_def)
  then have lok: "core_ok l" by (simp add: core_step_def)
  have sh: "active_unit l = None" "alternate_screen (modes l) = alternate_screen (modes t)" by (simp_all add: l_def leave_screen_shape)
  show ?thesis
  proof (cases enabled)
    case True
    obtain ids r where n: "new_screen (scols (primary l)) (srows (primary l)) (core_ids l) False = (ids, r)" by fastforce
    have ids: "allocator_ok ids" using new_screen_alloc_ok [of "core_ids l"] lok n by (metis core_ok_def fst_conv)
    show ?thesis
    proof (cases r)
      case (Inl e)
      have "core_step l (l\<lparr>core_ids := ids\<rparr>)"
        using lok ids by (auto simp: core_step_def core_ok_def screens_ok_def current_eq pending_def keyboard_ok_def queues_ok_def)
      from core_step_trans [OF s this ok] show ?thesis
        using False True n Inl by (simp add: set_alternate_screen_def l_def [symmetric])
    next
      case (Inr sc)
      note ns = new_screen_ok [OF n [unfolded Inr]]
      let ?i = "inherit_pen_for_clean_buffer (pen (primary l)) sc (core_store l)"
      let ?t = "l\<lparr>core_ids := ids, alternate := Some (fst ?i), core_store := snd ?i,
        modes := (modes l)\<lparr>alternate_screen := True, keyboard_flags := alternate_keyboard_flags l\<rparr>\<rparr>"
      note i = inherit_pen_ok [OF conjunct1 [OF ns], of "core_store l" "pen (primary l)"]
      have "core_ok ?t" using lok ids i ns sh
        by (simp add: core_ok_def screens_ok_def pending_def keyboard_ok_def queues_ok_def active_ok_def same_size_def)
      then have "core_step l (apply_mutation (mutation_full (srows (primary l))) ?t)" by (intro switch_step lok) simp_all
      from core_step_trans [OF s this ok] show ?thesis
        using False True n Inr by (simp add: set_alternate_screen_def l_def [symmetric] case_prod_beta)
    qed
  next
    case dis: False
    let ?st = "case alternate l of Some s \<Rightarrow> release_all_payloads s (core_store l) | None \<Rightarrow> core_store l"
    let ?t = "l\<lparr>alternate := None, core_store := ?st,
      modes := (modes l)\<lparr>alternate_screen := False, keyboard_flags := primary_keyboard_flags l\<rparr>\<rparr>"
    have "store_ok ?st" using lok release_cells_ok by (auto simp: core_ok_def release_all_payloads_def split: option.splits)
    then have "core_ok ?t" using lok sh
      by (simp add: core_ok_def screens_ok_def pending_def keyboard_ok_def queues_ok_def active_ok_def)
    then have "core_step l (apply_mutation (mutation_full (srows (primary l))) ?t)" by (intro switch_step lok) simp_all
    from core_step_trans [OF s this ok] show ?thesis
      using False dis by (simp add: set_alternate_screen_def l_def [symmetric])
  qed
qed

lemma set_private_mode_step:
  assumes ok: "core_ok t"
  shows "core_step t (fst (set_private_mode enabled mode t))"
proof -
  note m = modes_step [OF ok]
  show ?thesis
    using core_step_refl [OF ok] counts_step(1) [OF ok] set_alternate_screen_step [OF ok] set_cursor_visible_step [OF ok]
      m(1) [of "\<lambda>m. m\<lparr>application_cursor := enabled\<rparr>"] m(2) [of "\<lambda>m. m\<lparr>wraparound := enabled\<rparr>"]
      m(1) [of "\<lambda>m. m\<lparr>application_keypad := enabled\<rparr>"] m(2) [of "\<lambda>m. m\<lparr>unicode_core := enabled\<rparr>"]
      m(1) [of "\<lambda>m. m\<lparr>bracketed_paste := enabled\<rparr>"] m(1) [of "\<lambda>m. m\<lparr>mouse_sgr := enabled\<rparr>"]
      m(1) [of "\<lambda>m. m\<lparr>reporting := MouseOff\<rparr>"] m(1) [of "\<lambda>m. m\<lparr>reporting := MouseButtonOnly\<rparr>"]
      m(1) [of "\<lambda>m. m\<lparr>reporting := MouseButtonDrag\<rparr>"] m(1) [of "\<lambda>m. m\<lparr>reporting := MouseAny\<rparr>"]
    by (cases enabled) (simp_all add: set_private_mode_def set_mouse_reporting_def)
qed

lemma record_fault_step: "core_ok t \<Longrightarrow> core_step t (record_fault e t)"
  by (simp add: core_step_def record_fault_def core_ok_def screens_ok_def pending_def keyboard_ok_def queues_ok_def)

lemma set_private_modes_step: "core_ok t \<Longrightarrow> core_step t (set_private_modes enabled ps t)"
proof (induction ps arbitrary: t)
  case (Cons p ps)
  obtain t1 r where r: "set_private_mode enabled p t = (t1, r)" by fastforce
  have s: "core_step t t1" using set_private_mode_step [OF Cons.prems, of enabled p] r by simp
  then have ok1: "core_ok t1" by (simp add: core_step_def)
  show ?case
    using core_step_trans [OF s Cons.IH [OF ok1] Cons.prems] core_step_trans [OF s record_fault_step [OF ok1] Cons.prems] r
    by (cases r) simp_all
qed (simp add: core_step_refl)

section \<open>Control sequences\<close>

lemma csi_command_ok:
  assumes ok: "core_ok t"
  shows "cmd_ok t (csi_command lay ps final t)"
proof -
  let ?i = "invalidate_active_grapheme t"
  note iok = core_ok_invalidate [OF ok]
  note lift = cmd_ok_invalidate [OF ok]
  have sgr: "cmd_ok t (put_current (fst (apply_sgr ps (current t))) t, mutation_none)"
    using sgr_op.current_ok [OF ok, of ps] by (simp add: on_current_def)
  have save: "cmd_ok t (put_current (save_cursor (current t)) t, mutation_none)"
    using save_op.current_ok [OF ok] by (simp add: on_current_def)
  show ?thesis
    unfolding csi_command_def Let_def
    using lift [OF up_op.current_ok [OF iok]] lift [OF down_op.current_ok [OF iok]] lift [OF forward_op.current_ok [OF iok]]
      lift [OF back_op.current_ok [OF iok]] lift [OF cursor_op.current_ok [OF iok]] lift [OF col_op.current_ok [OF iok]]
      lift [OF row_op.current_ok [OF iok]] lift [OF erase_display_op.editing_ok [OF iok]] lift [OF erase_line_op.editing_ok [OF iok]]
      save lift [OF restore_op.current_ok [OF iok]] sgr cmd_ok_deferred [OF sgr ok]
      cmd_okI [OF counts_step(1) [OF ok]] cmd_okI [OF counts_step(2) [OF ok]] cmd_okI [OF reply_step [OF ok]]
      lift [OF region_op.current_ok [OF iok]] lift [OF insert_chars_op.editing_ok [OF iok]]
      lift [OF delete_chars_op.editing_ok [OF iok]] lift [OF erase_chars_op.editing_ok [OF iok]]
      lift [OF insert_lines_op.editing_ok [OF iok]] lift [OF delete_lines_op.editing_ok [OF iok]]
      lift [OF scroll_up_op.editing_ok [OF iok]] lift [OF scroll_down_op.editing_ok [OF iok]]
    by (simp add: case_prod_beta reply_dsr_cpr_def reply_primary_da_def Let_def)
qed

lemma dispatch_csi_step:
  assumes ok: "core_ok t"
  shows "core_step t (dispatch_csi lay ps marker ign final t)"
  using core_step_refl [OF ok] decrqm_step [OF ok] counts_step(1) [OF ok] reply_step [OF ok] keyboard_command_step [OF ok]
    set_private_modes_step [OF ok] csi_command_ok [OF ok, of lay ps final]
  by (simp add: dispatch_csi_def cmd_ok_def reply_kitty_flags_def case_prod_beta)

lemma dispatch_esc_step:
  assumes ok: "core_ok t"
  shows "core_step t (dispatch_esc lay final im t)"
proof -
  note iok = core_ok_invalidate [OF ok]
  note lift = cmd_ok_invalidate [OF ok]
  have save: "cmd_ok t (put_current (save_cursor (current t)) t, mutation_none)"
    using save_op.current_ok [OF ok] by (simp add: on_current_def)
  let ?r = "if final = 0x3d then no_change (t\<lparr>modes := (modes t)\<lparr>application_keypad := True\<rparr>\<rparr>)
              else if final = 0x3e then no_change (t\<lparr>modes := (modes t)\<lparr>application_keypad := False\<rparr>\<rparr>)
              else if final = 0x37 then no_change (put_current (save_cursor (current t)) t)
              else if final = 0x38 then on_current restore_cursor t
              else if final = 0x44 then editing_mutation (index_down lay) (invalidate_active_grapheme t)
              else if final = 0x4d then editing_mutation reverse_index (invalidate_active_grapheme t)
              else if final = 0x45 then editing_mutation (next_line lay) (invalidate_active_grapheme t)
              else no_change (record_unknown t)"
  have "cmd_ok t ?r"
    using cmd_okI [OF modes_step(1) [OF ok, of "\<lambda>m. m\<lparr>application_keypad := True\<rparr>"]]
      cmd_okI [OF modes_step(1) [OF ok, of "\<lambda>m. m\<lparr>application_keypad := False\<rparr>"]] save restore_op.current_ok [OF ok]
      lift [OF index_op.editing_ok [OF iok]] lift [OF rindex_op.editing_ok [OF iok]] lift [OF next_line_op.editing_ok [OF iok]]
      cmd_okI [OF counts_step(2) [OF ok]]
    by simp
  then show ?thesis using core_step_refl [OF ok] counts_step(1) [OF ok]
    by (simp add: dispatch_esc_def cmd_ok_def case_prod_beta Let_def)
qed

lemma dispatch_osc_step:
  assumes ok: "core_ok t"
  shows "core_step t (dispatch_osc bytes tr t)"
proof -
  have p: "core_step t (enqueue_presentation ev t)" for ev
    using counts_step(1) [OF ok] ok
    by (auto simp: enqueue_presentation_def same_view_def core_ok_def keyboard_ok_def queues_ok_def intro!: same_view_step)
  have q: "core_step t (t\<lparr>shell_events := shell_events t @ [ev]\<rparr>)" if "length (shell_events t) \<noteq> SHELL_EVENT_CAPACITY" for ev
    using ok that by (intro same_view_step) (auto simp: same_view_def core_ok_def keyboard_ok_def queues_ok_def)
  show ?thesis using core_step_refl [OF ok] counts_step(1) [OF ok] p q
    by (simp add: dispatch_osc_def split: option.splits)
qed


section \<open>Printing\<close>

definition outcome_ok :: "terminal_core \<Rightarrow> terminal_core \<times> mutation res \<Rightarrow> bool" where
  "outcome_ok t r \<longleftrightarrow> core_step t (settle r)"

lemma op_ok_scr: "scr cv = scr cv' \<Longrightarrow> op_ok cv r = op_ok cv' r"
  by (simp add: op_ok_def)

lemma canvas_of_store [simp]: "scr (canvas_of (t\<lparr>core_store := st\<rparr>)) = scr (canvas_of t)" "scr (canvas_of t) = current t"
  "payloads (canvas_of t) = core_store t" "alloc (canvas_of t) = core_ids t"
  "payloads (canvas_of (t\<lparr>core_store := st\<rparr>)) = st" "alloc (canvas_of (t\<lparr>core_store := st\<rparr>)) = core_ids t"
  by (simp_all add: canvas_of_def)

lemma canvas_of_store_ok: "core_ok t \<Longrightarrow> store_ok st \<Longrightarrow> canvas_ok (canvas_of (t\<lparr>core_store := st\<rparr>))"
  using core_canvas [of t] by (simp add: canvas_ok_def)

lemma active_ok_None [simp]: "active_ok s None"
  by (simp add: active_ok_def)

lemma active_ok_Some: "active_ok s (Some a) \<longleftrightarrow> ag_col a < scols s \<and> ag_row a < srows s \<and> ag_width a \<le> 2"
  by (simp add: active_ok_def)

lemma put_canvas_active [simp]: "(put_canvas cv t)\<lparr>active_unit := active_unit t\<rparr> = put_canvas cv t"
  using put_canvas_other(6) [of cv t] by (cases "put_canvas cv t") simp

lemma fault_outcome: "core_ok t \<Longrightarrow> op_ok (canvas_of t) (cv, Inl e) \<Longrightarrow> outcome_ok t (put_canvas cv t, Inl e)"
  using edit_fault_step [of t cv e "active_unit t"] by (simp add: outcome_ok_def settle_def core_ok_def)

lemma edit_outcome:
  "core_ok t \<Longrightarrow> op_ok (canvas_of t) (cv, Inr m) \<Longrightarrow> active_ok (current t) a \<Longrightarrow> outcome_ok t ((put_canvas cv t)\<lparr>active_unit := a\<rparr>, Inr m)"
  using edit_step [of t cv m a] by (simp add: outcome_ok_def settle_def)

lemma start_unit_ok:
  assumes ok: "core_ok t" and w: "width \<le> 2"
  shows "outcome_ok t (start_unit lay us width st t)"
proof -
  obtain store lead where l: "build_lead_cell us width st False (core_store t) None = (store, lead)" by fastforce
  have s: "store_ok store" "cell_ok lead"
    using build_lead_cell_ok [of "core_store t" us width st False None] build_lead_cell_lead [OF w, of us st False "core_store t" None] l ok
    by (simp_all add: core_ok_def)
  obtain cv r where p: "place_new_unit lay lead (wraparound (modes t)) (canvas_of (t\<lparr>core_store := store\<rparr>)) = (cv, r)" by fastforce
  have pl: "place_ok (canvas_of (t\<lparr>core_store := store\<rparr>)) (cv, r)"
    using place_new_unit_ok [OF canvas_of_store_ok [OF ok s(1)] s(2), of lay "wraparound (modes t)"] p by simp
  then have op: "op_ok (canvas_of t) (cv, map_sum id fst r)"
    using op_ok_scr [of "canvas_of (t\<lparr>core_store := store\<rparr>)" "canvas_of t"] by (simp add: place_ok_def)
  show ?thesis
  proof (cases r)
    case (Inl e)
    then show ?thesis using fault_outcome [OF ok, of cv e] op l p by (simp add: start_unit_def)
  next
    case (Inr x)
    obtain m sw col row where x: "x = (m, sw, col, row)" by (cases x)
    have "col < scols (current t)" "row < srows (current t)" using pl Inr x by (auto simp: place_ok_def)
    then show ?thesis using op l p Inr x w
      by (simp add: start_unit_def Let_def) (rule edit_outcome [OF ok], simp_all add: active_ok_Some)
  qed
qed

lemma pending_wrap_ok: "op_ok cv (cv', Inr m) \<Longrightarrow> store_ok st \<Longrightarrow>
  op_ok cv (cv'\<lparr>scr := set_pending_wrap b (scr cv'), payloads := st\<rparr>, Inr m)"
  by (auto simp: op_ok_def canvas_ok_def set_pending_wrap_def step_ok_def same_size_def screen_ok_def changed_rows_def)

lemma replace_on_next_row_ok:
  assumes ok: "core_ok t" and a: "active_ok (current t) (Some a)" and w: "width \<le> 2"
  shows "outcome_ok t (replace_on_next_row lay a width t)"
proof -
  obtain cv1 cm where c: "clear_unit_at (ag_col a) (ag_row a) (canvas_of t) = (cv1, cm)" by fastforce
  have op1: "op_ok (canvas_of t) (cv1, Inr cm)" using clear_unit_at_ok [OF core_canvas [OF ok], of "ag_col a" "ag_row a"] c by simp
  define cv2 where "cv2 = cv1\<lparr>scr := set_pending_wrap True (scr cv1)\<rparr>"
  have st1: "store_ok (payloads cv2)" using op_ok_canvas [OF op1] by (simp add: canvas_ok_def cv2_def)
  obtain store lead where l: "build_lead_cell (ag_utf8 a) width (ag_style a) (ag_overflow a) (payloads cv2) (Some (ag_store_id a)) = (store, lead)"
    by fastforce
  have s: "store_ok store" "cell_ok lead"
    using build_lead_cell_ok [OF st1, of "ag_utf8 a" width "ag_style a" "ag_overflow a" "Some (ag_store_id a)"]
      build_lead_cell_lead [OF w, of "ag_utf8 a" "ag_style a" "ag_overflow a" "payloads cv2" "Some (ag_store_id a)"] l by simp_all
  have op2: "op_ok (canvas_of t) (cv2\<lparr>payloads := store\<rparr>, Inr cm)" using pending_wrap_ok [OF op1 s(1)] by (simp add: cv2_def)
  obtain cv3 r where p: "place_new_unit lay lead (wraparound (modes t)) (cv2\<lparr>payloads := store\<rparr>) = (cv3, r)" by fastforce
  have pl: "place_ok (cv2\<lparr>payloads := store\<rparr>) (cv3, r)"
    using place_new_unit_ok [OF op_ok_canvas [OF op2] s(2), of lay "wraparound (modes t)"] p by simp
  have sz: "same_size (current t) (scr cv2)" using op2 by (simp add: op_ok_def)
  show ?thesis
  proof (cases r)
    case (Inl e)
    have "op_ok (canvas_of t) (cv3, Inl e)" using op2 pl Inl same_size_trans by (auto simp: place_ok_def op_ok_def)
    then show ?thesis using fault_outcome [OF ok] l p Inl c by (simp add: replace_on_next_row_def cv2_def Let_def)
  next
    case (Inr x)
    obtain m sw col row where x: "x = (m, sw, col, row)" by (cases x)
    have op3: "op_ok (canvas_of t) (cv3, Inr (merge cm m))" using op_ok_merge [OF op2, of cv3 m] pl Inr x by (simp add: place_ok_def)
    have "col < scols (current t)" "row < srows (current t)" using pl Inr x sz by (auto simp: place_ok_def same_size_def)
    then show ?thesis using l p c Inr x w
      by (simp add: replace_on_next_row_def cv2_def Let_def) (rule edit_outcome [OF ok op3], simp add: active_ok_Some)
  qed
qed

lemma pending_wrap_screen: "screen_ok (set_pending_wrap b s) = screen_ok s" "cells (set_pending_wrap b s) = cells s"
  "same_size s' (set_pending_wrap b s) = same_size s' s"
  by (simp_all add: set_pending_wrap_def screen_ok_def same_size_def)

lemma cursor_after_widen_ok: "screen_ok s \<Longrightarrow> screen_ok (cursor_after_widen col w s) \<and> cells (cursor_after_widen col w s) = cells s \<and>
  same_size s (cursor_after_widen col w s)"
proof -
  assume ok: "screen_ok s"
  have "screen_ok (fst (set_col c s)) \<and> cells (fst (set_col c s)) = cells s \<and> same_size s (fst (set_col c s))" for c
    using cursor_moves_ok(6) [OF ok, of c] by (simp add: step_ok_def cursor_cells)
  then show ?thesis by (simp add: cursor_after_widen_def Let_def pending_wrap_screen)
qed

lemma op_ok_move_cursor:
  assumes "op_ok cv (cv', Inr m)"
  shows "op_ok cv (cv'\<lparr>scr := cursor_after_widen col w (scr cv')\<rparr>, Inr m)"
proof -
  have "screen_ok (scr cv')" using op_ok_canvas [OF assms] by (simp add: canvas_ok_def)
  from cursor_after_widen_ok [OF this, of col w] assms show ?thesis
    by (auto simp: op_ok_def canvas_ok_def step_ok_def same_size_def changed_rows_def)
qed

lemma grow_in_place_ok:
  assumes ok: "core_ok t" and a: "active_ok (current t) (Some a)" and w: "width \<le> 2"
  shows "outcome_ok t (grow_in_place a width pw t)"
proof -
  define rel where "rel = (if ag_store_id a \<noteq> INLINE_STORE_ID then Some (ag_store_id a) else None)"
  obtain store lead where l: "build_lead_cell (ag_utf8 a) (max width 1) (ag_style a) (ag_overflow a) (core_store t) rel = (store, lead)"
    by fastforce
  have w2: "max width 1 \<le> 2" using w by simp
  have s: "store_ok store" "cell_ok lead"
    using build_lead_cell_ok [of "core_store t" "ag_utf8 a" "max width 1" "ag_style a" "ag_overflow a" rel]
      build_lead_cell_lead [OF w2, of "ag_utf8 a" "ag_style a" "ag_overflow a" "core_store t" rel] l ok by (simp_all add: core_ok_def)
  obtain cv m where r: "replace_active_lead (ag_col a) (ag_row a) lead pw (canvas_of (t\<lparr>core_store := store\<rparr>)) = (cv, m)" by fastforce
  have op: "op_ok (canvas_of t) (cv, Inr m)"
    using replace_active_lead_ok [OF canvas_of_store_ok [OF ok s(1)] s(2), of "ag_col a" "ag_row a" pw] a r
      op_ok_scr [of "canvas_of (t\<lparr>core_store := store\<rparr>)" "canvas_of t"] by (simp add: active_ok_Some)
  let ?s = "if width > pw then cursor_after_widen (ag_col a) width (scr cv) else scr cv"
  have "op_ok (canvas_of t) (cv\<lparr>scr := ?s\<rparr>, Inr m)" using op op_ok_move_cursor [OF op] by (cases cv) simp
  note e = edit_outcome [OF ok this, of "Some (a\<lparr>ag_width := width, ag_store_id := store_id lead, ag_overflow := cell_overflow lead\<rparr>)"]
  have "grow_in_place a width pw t = ((put_canvas (cv\<lparr>scr := ?s\<rparr>) t)\<lparr>active_unit :=
      Some (a\<lparr>ag_width := width, ag_store_id := store_id lead, ag_overflow := cell_overflow lead\<rparr>)\<rparr>, Inr m)"
    using l r unfolding grow_in_place_def Let_def rel_def
    by (cases "ag_store_id a = INLINE_STORE_ID") simp_all
  then show ?thesis using e a w by (simp add: active_ok_Some)
qed

lemma append_payload_shape:
  assumes "ag_width a \<le> 2"
  shows "ag_col (fst (append_payload env a ch st pol)) = ag_col a" "ag_row (fst (append_payload env a ch st pol)) = ag_row a"
    "ag_width (fst (append_payload env a ch st pol)) = ag_width a" "ar_width (snd (snd (append_payload env a ch st pol))) \<le> 2"
  using assms grapheme_terminal_width_le by (auto simp: append_payload_def Let_def)

lemma append_to_active_ok:
  assumes ok: "core_ok t" and a: "active_unit t = Some a"
  shows "outcome_ok t (append_to_active env lay a ch t)"
proof -
  have aok: "active_ok (current t) (Some a)" using ok a by (simp add: core_ok_def)
  obtain a' store r where p: "append_payload env a ch (core_store t) (ambiguous_width t) = (a', store, r)" by (metis prod_cases3)
  have sh: "ag_col a' = ag_col a" "ag_row a' = ag_row a" "ag_width a' = ag_width a" "ar_width r \<le> 2"
    using append_payload_shape [of a env ch "core_store t" "ambiguous_width t"] aok p by (simp_all add: active_ok_Some)
  have st: "store_ok store" using append_payload_ok [of "core_store t" env a ch "ambiguous_width t"] ok p by (simp add: core_ok_def)
  define t1 where "t1 = t\<lparr>active_unit := None, core_store := store\<rparr>"
  have ok1: "core_ok t1" using ok st
    by (simp add: t1_def core_ok_def screens_ok_def pending_def keyboard_ok_def queues_ok_def)
  have s1: "core_step t t1" using ok1 by (simp add: core_step_def) (simp add: t1_def pending_def)
  have lift: "outcome_ok t x" if "outcome_ok t1 x" for x using core_step_trans [OF s1 _ ok] that by (simp add: outcome_ok_def)
  have cur: "current t1 = current t" by (simp add: t1_def)
  have a1: "active_ok (current t1) (Some a')" using aok sh cur by (simp add: active_ok_Some)
  let ?rej = "t1\<lparr>active_unit := Some (a'\<lparr>ag_utf8 := butlast (ag_utf8 a')\<rparr>)\<rparr>"
  have "core_step t1 ?rej" using ok1 a1
    by (simp add: core_step_def core_ok_def screens_ok_def pending_def keyboard_ok_def queues_ok_def active_ok_Some)
  then have "outcome_ok t1 (?rej, Inr mutation_none)" using apply_step [of t1 ?rej mutation_none] by (simp add: outcome_ok_def settle_def)
  note all = lift [OF this] lift [OF replace_on_next_row_ok [OF ok1 a1 sh(4), of lay]] lift [OF grow_in_place_ok [OF ok1 a1 sh(4)]]
  have eq: "append_to_active env lay a ch t =
    (if ar_width_changed r \<and> ar_width r > ag_width a then
          (case edge_decision_late_widen (ag_col a') (scols (current t1)) (ar_width r) (wraparound (modes t1)) of
             Place \<Rightarrow>
               (if ag_col a' + 1 \<ge> scols (current t1) \<and> wraparound (modes t1) then replace_on_next_row lay a' (ar_width r) t1
                else grow_in_place a' (ar_width r) (ag_width a) t1)
           | _ \<Rightarrow> (?rej, Inr mutation_none))
        else grow_in_place a' (ar_width r) (ag_width a) t1)"
    unfolding append_to_active_def Let_def p prod.case t1_def [symmetric] by (rule refl)
  show ?thesis unfolding eq using all by (simp split: edge_decision.split)
qed

lemma print_new_ok: "core_ok t \<Longrightarrow> outcome_ok t (print_new env lay ch t)"
proof -
  assume ok: "core_ok t"
  have n: "outcome_ok t (t, Inr mutation_none)"
    using apply_step [OF core_step_refl [OF ok], of mutation_none] by (simp add: outcome_ok_def settle_def)
  have w: "grapheme_terminal_width env [ch] (ambiguous_width t) \<le> 2" by (rule grapheme_terminal_width_le)
  then have "max (grapheme_terminal_width env [ch] (ambiguous_width t)) 1 \<le> 2" by simp
  with n w start_unit_ok [OF ok] show ?thesis
    by (simp add: print_new_def Let_def split: edge_decision.split)
qed

lemma print_current_ok: "core_ok t \<Longrightarrow> outcome_ok t (print_current env lay ch t)"
proof -
  assume ok: "core_ok t"
  have s: "core_step t (t\<lparr>active_unit := None\<rparr>)" using counts_step(4) [OF ok] by (simp add: invalidate_active_grapheme_def)
  then have "core_ok (t\<lparr>active_unit := None\<rparr>)" by (simp add: core_step_def)
  from print_new_ok [OF this, of env lay ch] have "outcome_ok t (print_new env lay ch (t\<lparr>active_unit := None\<rparr>))"
    using core_step_trans [OF s _ ok] by (simp add: outcome_ok_def)
  with print_new_ok [OF ok] append_to_active_ok [OF ok] show ?thesis
    by (simp add: print_current_def print_scalar_def Let_def split: option.split)
qed

lemma execute_current_ok: "core_ok t \<Longrightarrow> outcome_ok t (execute_current lay b t)"
proof -
  assume ok: "core_ok t"
  define t1 where "t1 = (if 0x08 \<le> b \<and> b \<le> 0x0d then invalidate_active_grapheme t else t)"
  have s: "core_step t t1" using counts_step(4) [OF ok] core_step_refl [OF ok] by (simp add: t1_def)
  then have ok1: "core_ok t1" by (simp add: core_step_def)
  obtain cv r where e: "execute lay b (canvas_of t1) = (cv, r)" by fastforce
  have op: "op_ok (canvas_of t1) (cv, r)" using execute_op.opn_ok [OF core_canvas [OF ok1], of lay b] e by simp
  have "outcome_ok t1 (put_canvas cv t1, r)"
    using op fault_outcome [OF ok1, of cv] edit_outcome [OF ok1, of cv _ "active_unit t1"] ok1 by (cases r) (simp_all add: core_ok_def)
  then have "outcome_ok t (put_canvas cv t1, r)" using core_step_trans [OF s _ ok] by (simp add: outcome_ok_def)
  then show ?thesis using e by (simp add: execute_current_def t1_def Let_def)
qed

section \<open>The feed loop\<close>

lemma perform_step: "core_ok t \<Longrightarrow> core_step t (perform env lay act t)"
  using core_step_refl [of t] print_current_ok [of t env lay] execute_current_ok [of t lay] dispatch_csi_step [of t lay]
    dispatch_esc_step [of t lay] dispatch_osc_step [of t] counts_step [of t]
  by (cases act) (simp_all add: outcome_ok_def)

lemma perform_all_step: "core_ok t \<Longrightarrow> core_step t (perform_all env lay acts t)"
proof (induction acts arbitrary: t)
  case (Cons act acts)
  have s: "core_step t (perform env lay act t)" by (rule perform_step [OF Cons.prems])
  then have "core_ok (perform env lay act t)" by (simp add: core_step_def)
  from core_step_trans [OF s Cons.IH [OF this] Cons.prems] show ?case by (simp add: perform_all_def)
qed (simp add: perform_all_def core_step_refl)

end
