(* ===== verification/Terminal_Resize.thy ===== *)
theory Terminal_Resize
  imports Terminal_Ok Screen_Resize
begin

text \<open>
  Resizing of the terminal, \<open>crates/seyal-terminal/src/terminal/resize.rs\<close>: both screens are prepared
  first, and only when neither fails are they swapped in and the whole grid reported as damaged.
\<close>

record prepared_resize =
  pr_rows :: nat
  pr_primary :: prepared_screen
  pr_alternate :: "prepared_screen option"

text \<open>The two screens, after the checks of \<open>prepare_resize\<close>; the first error ends it.\<close>

definition prepare_screens :: "layout \<Rightarrow> nat \<Rightarrow> nat \<Rightarrow> terminal_core \<Rightarrow> terminal_core \<times> prepared_resize res" where
  "prepare_screens lay cols rows t =
    (let (s, ids, r) = prepare_resize lay cols rows (primary t) (core_ids t) (core_store t);
         t1 = t\<lparr>primary := s, core_ids := ids\<rparr>
     in case r of
          Inl e \<Rightarrow> (t1, Inl e)
        | Inr p \<Rightarrow>
            (case alternate t1 of
               None \<Rightarrow> (t1, Inr \<lparr>pr_rows = rows, pr_primary = p, pr_alternate = None\<rparr>)
             | Some a \<Rightarrow>
                 let (a', ids', r') = prepare_resize lay cols rows a (core_ids t1) (core_store t1);
                     t2 = t1\<lparr>alternate := Some a', core_ids := ids'\<rparr>
                 in case r' of
                      Inl e \<Rightarrow> (t2, Inl e)
                    | Inr q \<Rightarrow> (t2, Inr \<lparr>pr_rows = rows, pr_primary = p, pr_alternate = Some q\<rparr>)))"

definition core_prepare_resize :: "layout \<Rightarrow> nat \<Rightarrow> nat \<Rightarrow> terminal_core \<Rightarrow> terminal_core \<times> prepared_resize res" where
  "core_prepare_resize lay cols rows t =
    (case fault t of
       Some e \<Rightarrow> (t, Inl e)
     | None \<Rightarrow>
         if cols = 0 \<or> rows = 0 then (t, Inl InvalidSize)
         else if cols > MAX_TERMINAL_COLUMNS \<or> rows > MAX_TERMINAL_ROWS then (t, Inl InvalidSize)
         else if \<not> can_allocate (core_ids t)
                  ((rows - srows (primary t)) + (case alternate t of Some s \<Rightarrow> rows - srows s | None \<Rightarrow> 0))
         then (t, Inl LineIdentityExhausted)
         else prepare_screens lay cols rows t)"

definition commit_alternate :: "layout \<Rightarrow> prepared_resize \<Rightarrow> terminal_core \<Rightarrow> terminal_core \<times> mutation" where
  "commit_alternate lay p t =
    (case (pr_alternate p, alternate t) of
       (Some q, Some a) \<Rightarrow>
         let (a', st, m) = commit_prepared lay q a (core_store t)
         in (t\<lparr>alternate := Some a', core_store := st\<rparr>, m)
     | _ \<Rightarrow> (t, mutation_none))"

definition core_commit_resize :: "layout \<Rightarrow> prepared_resize \<Rightarrow> terminal_core \<Rightarrow> terminal_core" where
  "core_commit_resize lay p t =
    (let t0 = invalidate_active_grapheme t;
         (s, st, m) = commit_prepared lay (pr_primary p) (primary t0) (core_store t0);
         (t1, m') = commit_alternate lay p (t0\<lparr>primary := s, core_store := st\<rparr>)
     in commit_damage (apply_mutation (merge (merge m m') (mutation_full (pr_rows p))) t1))"

definition terminal_resize :: "layout \<Rightarrow> nat \<Rightarrow> nat \<Rightarrow> terminal_state \<Rightarrow> terminal_state \<times> unit res" where
  "terminal_resize lay cols rows s =
    (case core_prepare_resize lay cols rows (core s) of
       (t, Inl e) \<Rightarrow> (s\<lparr>core := t\<rparr>, Inl e)
     | (t, Inr p) \<Rightarrow> (s\<lparr>core := core_commit_resize lay p t\<rparr>, Inr ()))"

section \<open>Preparing changes nothing visible\<close>

text \<open>The screens up to the caches of their history, and everything but the line identities.\<close>

definition same_but_caches :: "terminal_core \<Rightarrow> terminal_core \<Rightarrow> bool" where
  "same_but_caches t t' \<longleftrightarrow>
     t'\<lparr>primary := primary t, alternate := alternate t, core_ids := core_ids t\<rparr> = t \<and>
     (primary t')\<lparr>history := history (primary t)\<rparr> = primary t \<and>
     rel_option (\<lambda>s s'. s'\<lparr>history := history s\<rparr> = s) (alternate t) (alternate t')"

definition prepared_for :: "nat \<Rightarrow> nat \<Rightarrow> screen \<Rightarrow> prepared_screen \<Rightarrow> bool" where
  "prepared_for cols rows s p \<longleftrightarrow>
     (if ps_unchanged p then cols = scols s \<and> rows = srows s else prepared_ok cols rows p)"

lemma screens_core_ok:
  assumes "core_ok t" "screen_ok p" "same_size (primary t) p" "allocator_ok ids"
    "\<And>a. alternate t = Some a \<Longrightarrow> \<exists>a'. al = Some a' \<and> screen_ok a' \<and> same_size a a'" "alternate t = None \<Longrightarrow> al = None"
  shows "core_ok (t\<lparr>primary := p, alternate := al, core_ids := ids\<rparr>)"
proof -
  let ?t = "t\<lparr>primary := p, alternate := al, core_ids := ids\<rparr>"
  have s: "screens_ok t" using assms(1) by (simp add: core_ok_def)
  have s': "screens_ok ?t"
    using assms s by (cases "alternate t") (auto simp: screens_ok_def same_size_def)
  have "same_size (current t) (current ?t)"
    using assms(3,5,6) by (cases "alternate t") (auto simp: current_eq)
  from active_ok_size [OF this, of "active_unit t"] have a: "active_ok (current ?t) (active_unit t)"
    using assms(1) by (simp add: core_ok_def)
  show ?thesis using assms(1,3,4) s' a
    by (simp add: core_ok_def keyboard_ok_def queues_ok_def pending_def same_size_def)
qed

lemma prepare_screen:
  assumes "screen_ok s" "allocator_ok ids" "prepare_resize lay cols rows s ids st = (s', ids', r)"
  shows "screen_ok s'" "allocator_ok ids'" "s' = s\<lparr>history := history s'\<rparr>" "same_size s s'"
    "r = Inr p \<Longrightarrow> prepared_for cols rows s' p"
proof -
  note p = prepare_resize_ok [OF assms]
  show "screen_ok s'" "allocator_ok ids'" "s' = s\<lparr>history := history s'\<rparr>" by (rule p)+
  show "same_size s s'" by (subst p(3)) (simp add: same_size_def)
  then show "r = Inr p \<Longrightarrow> prepared_for cols rows s' p" using p(4) by (simp add: prepared_for_def split: if_splits)
qed

lemma history_back: "s' = s\<lparr>history := history s'\<rparr> \<Longrightarrow> s'\<lparr>history := history s\<rparr> = (s :: screen)"
  by (cases s, cases s') simp

lemma same_but_caches_refl: "same_but_caches t t"
  by (simp add: same_but_caches_def option.rel_refl)

lemma same_but_caches_damage: "same_but_caches t t' \<Longrightarrow> core_damage t' = core_damage t"
  by (drule same_but_caches_def [THEN iffD1, THEN conjunct1, THEN arg_cong [where f = core_damage]]) simp

lemma core_prepare_ok:
  assumes ok: "core_ok t" and p: "core_prepare_resize lay cols rows t = (t', r)"
  shows "core_ok t' \<and> same_but_caches t t' \<and>
    (\<forall>pr. r = Inr pr \<longrightarrow> pr_rows pr = rows \<and> prepared_for cols rows (primary t') (pr_primary pr) \<and>
       (\<forall>a. alternate t' = Some a \<longrightarrow> (\<exists>q. pr_alternate pr = Some q \<and> prepared_for cols rows a q)))"
proof (cases "t' = t \<and> (\<exists>e. r = Inl e)")
  case True
  then show ?thesis using ok same_but_caches_refl by auto
next
  case False
  obtain s ids rs where s: "prepare_resize lay cols rows (primary t) (core_ids t) (core_store t) = (s, ids, rs)" by (metis prod_cases3)
  define t1 where "t1 = t\<lparr>primary := s, core_ids := ids\<rparr>"
  have "screen_ok (primary t)" "allocator_ok (core_ids t)" using ok by (simp_all add: core_ok_def screens_ok_def)
  note ps = prepare_screen [OF this s]
  have ok1: "core_ok t1" unfolding t1_def using screens_core_ok [OF ok ps(1,4,2), of "alternate t"] ok
    by (auto simp: core_ok_def screens_ok_def)
  have c1: "same_but_caches t t1" using history_back [OF ps(3)] by (simp add: same_but_caches_def t1_def option.rel_refl)
  have "prepare_screens lay cols rows t = (t', r)"
    using p False by (auto simp: core_prepare_resize_def split: option.splits if_splits)
  note eq = this [unfolded prepare_screens_def Let_def s prod.case, folded t1_def]
  show ?thesis
  proof (cases rs)
    case (Inl e)
    then show ?thesis using eq ok1 c1 by auto
  next
    case (Inr q)
    have q: "prepared_for cols rows (primary t1) q" using ps(5) [OF Inr] by (simp add: t1_def)
    show ?thesis
    proof (cases "alternate t1")
      case None
      then show ?thesis using eq ok1 c1 q Inr by auto
    next
      case (Some a)
      obtain a' ids' r' where a: "prepare_resize lay cols rows a (core_ids t1) (core_store t1) = (a', ids', r')" by (metis prod_cases3)
      have "screen_ok a" "allocator_ok (core_ids t1)" using ok1 Some by (simp_all add: core_ok_def screens_ok_def)
      note pa = prepare_screen [OF this a]
      let ?t2 = "t1\<lparr>alternate := Some a', core_ids := ids'\<rparr>"
      have ok2: "core_ok ?t2" using screens_core_ok [OF ok1, of "primary t1" ids' "Some a'"] ok1 pa(1,2,4) Some
        by (simp add: core_ok_def screens_ok_def)
      have "alternate t = Some a" using Some by (simp add: t1_def)
      then have c2: "same_but_caches t ?t2" using c1 history_back [OF pa(3)] by (simp add: same_but_caches_def)
      have "t' = ?t2 \<and> r = (case r' of Inl e \<Rightarrow> Inl e | Inr q' \<Rightarrow> Inr \<lparr>pr_rows = rows, pr_primary = q, pr_alternate = Some q'\<rparr>)"
        using eq Inr Some a by (auto split: sum.splits)
      then show ?thesis using ok2 c2 q pa(5) by (auto split: sum.splits)
    qed
  qed
qed


section \<open>Committing\<close>

lemma commit_prepared_for:
  assumes "screen_ok s" "store_ok st" "prepared_for cols rows s p" "commit_prepared lay p s st = (s', st', m)"
  shows "screen_ok s'" "scols s' = cols" "srows s' = rows" "store_ok st'" "mutation_ok m"
    "mutation_rows_of m \<subseteq> {..<rows}"
proof -
  have r: "0 < rows" if "\<not> ps_unchanged p" using assms(3) that by (simp add: prepared_for_def prepared_ok_def)
  have "screen_ok s' \<and> scols s' = cols \<and> srows s' = rows \<and> store_ok st' \<and> mutation_ok m \<and> mutation_rows_of m \<subseteq> {..<rows}"
    using assms commit_prepared_ok [OF assms(1,2), of cols rows p lay] r
    by (cases "ps_unchanged p") (auto simp: prepared_for_def commit_prepared_def)
  then show "screen_ok s'" "scols s' = cols" "srows s' = rows" "store_ok st'" "mutation_ok m" "mutation_rows_of m \<subseteq> {..<rows}"
    by auto
qed

lemma commit_alternate_ok:
  assumes "store_ok (core_store t)" "\<forall>a. alternate t = Some a \<longrightarrow> screen_ok a \<and> (\<exists>q. pr_alternate p = Some q \<and> prepared_for cols rows a q)"
    "commit_alternate lay p t = (t', m)"
  shows "\<exists>al st. t' = t\<lparr>alternate := al, core_store := st\<rparr> \<and> store_ok st \<and> (al = None \<longleftrightarrow> alternate t = None) \<and>
      (\<forall>a. al = Some a \<longrightarrow> screen_ok a \<and> scols a = cols \<and> srows a = rows)"
    "mutation_ok m" "mutation_rows_of m \<subseteq> {..<rows}"
proof -
  have "(\<exists>al st. t' = t\<lparr>alternate := al, core_store := st\<rparr> \<and> store_ok st \<and> (al = None \<longleftrightarrow> alternate t = None) \<and>
      (\<forall>a. al = Some a \<longrightarrow> screen_ok a \<and> scols a = cols \<and> srows a = rows)) \<and> mutation_ok m \<and> mutation_rows_of m \<subseteq> {..<rows}"
  proof (cases "alternate t")
    case None
    then have "t' = t \<and> m = mutation_none" using assms(3) by (simp add: commit_alternate_def split: option.splits)
    moreover have "t = t\<lparr>alternate := None, core_store := core_store t\<rparr>" using None by simp
    ultimately show ?thesis using None assms(1) by (metis empty_subsetI mutation_ok_simps(1) option.distinct(1) rows_of_simps(1))
  next
    case (Some a)
    obtain q where q: "screen_ok a" "pr_alternate p = Some q" "prepared_for cols rows a q" using assms(2) Some by blast
    obtain a' st' m' where ca: "commit_prepared lay q a (core_store t) = (a', st', m')" by (metis prod_cases3)
    note a = commit_prepared_for [OF q(1) assms(1) q(3) ca]
    have "t' = t\<lparr>alternate := Some a', core_store := st'\<rparr> \<and> m = m'" using assms(3) Some q(2) ca by (simp add: commit_alternate_def Let_def)
    then show ?thesis using a Some by auto
  qed
  then show "\<exists>al st. t' = t\<lparr>alternate := al, core_store := st\<rparr> \<and> store_ok st \<and> (al = None \<longleftrightarrow> alternate t = None) \<and>
      (\<forall>a. al = Some a \<longrightarrow> screen_ok a \<and> scols a = cols \<and> srows a = rows)"
    "mutation_ok m" "mutation_rows_of m \<subseteq> {..<rows}" by blast+
qed

lemma commit_full:
  assumes "mutation_ok (dirty d)" "m_full (dirty d)"
  shows "dirty (commit d) = mutation_none" "\<exists>x. published (commit d) = Some x \<and> d_full x"
  using assms by (auto simp: commit_def mutation_ok_def Let_def split: option.splits)

lemma core_commit_ok:
  assumes ok: "core_ok t" and p: "prepared_for cols rows (primary t) (pr_primary pr)" "pr_rows pr = rows"
    "\<And>a. alternate t = Some a \<Longrightarrow> \<exists>q. pr_alternate pr = Some q \<and> prepared_for cols rows a q"
  shows "core_ok (core_commit_resize lay pr t) \<and> pending (core_commit_resize lay pr t) = {} \<and>
    scols (primary (core_commit_resize lay pr t)) = cols \<and> srows (primary (core_commit_resize lay pr t)) = rows \<and>
    fault (core_commit_resize lay pr t) = fault t \<and>
    (\<exists>d. published (core_damage (core_commit_resize lay pr t)) = Some d \<and> d_full d)"
proof -
  have base: "screen_ok (primary t)" "store_ok (core_store t)" using ok by (simp_all add: core_ok_def screens_ok_def)
  obtain s st m where c: "commit_prepared lay (pr_primary pr) (primary t) (core_store t) = (s, st, m)" by (metis prod_cases3)
  note s = commit_prepared_for [OF base p(1) c]
  define t1 where "t1 = (invalidate_active_grapheme t)\<lparr>primary := s, core_store := st\<rparr>"
  obtain t2 m' where t2: "commit_alternate lay pr t1 = (t2, m')" by fastforce
  have al: "alternate t1 = alternate t" "core_store t1 = st" by (simp_all add: t1_def invalidate_active_grapheme_def)
  have "store_ok (core_store t1)" "\<forall>a. alternate t1 = Some a \<longrightarrow> screen_ok a \<and> (\<exists>q. pr_alternate pr = Some q \<and> prepared_for cols rows a q)"
    using s(4) al ok p(3) by (simp_all add: core_ok_def screens_ok_def)
  note ca = commit_alternate_ok [OF this t2]
  from ca(1) obtain al where "\<exists>st. t2 = t1\<lparr>alternate := al, core_store := st\<rparr> \<and> store_ok st \<and> (al = None \<longleftrightarrow> alternate t1 = None) \<and>
    (\<forall>a. al = Some a \<longrightarrow> screen_ok a \<and> scols a = cols \<and> srows a = rows)" by (rule exE)
  then obtain st' where "t2 = t1\<lparr>alternate := al, core_store := st'\<rparr> \<and> store_ok st' \<and> (al = None \<longleftrightarrow> alternate t1 = None) \<and>
    (\<forall>a. al = Some a \<longrightarrow> screen_ok a \<and> scols a = cols \<and> srows a = rows)" by (rule exE)
  then have t2': "t2 = t1\<lparr>alternate := al, core_store := st'\<rparr>" "store_ok st'" "al = None \<longleftrightarrow> alternate t = None"
    "\<forall>a. al = Some a \<longrightarrow> screen_ok a \<and> scols a = cols \<and> srows a = rows" by (simp_all add: al(1))
  let ?m = "merge (merge m m') (mutation_full rows)"
  let ?r = "commit_damage (apply_mutation ?m t2)"
  have res: "core_commit_resize lay pr t = ?r"
    unfolding core_commit_resize_def Let_def using c t2 p(2) by (simp add: t1_def invalidate_active_grapheme_def)
  have rows: "0 < rows" using s(1,3) by (simp add: screen_ok_def)
  have mo: "mutation_ok ?m" using s(5) ca(2) by simp
  have d: "core_damage t2 = core_damage t" by (simp add: t2'(1) t1_def invalidate_active_grapheme_def)
  have dok: "mutation_ok (dirty (core_damage t))" using ok by (simp add: core_ok_def)
  have "m_full (mutation_full rows)" by (simp add: mutation_full_def)
  then have mf: "m_full ?m" using s(5) ca(2) by (simp add: merge_full)
  have dm: "mutation_ok (dirty (mark (core_damage t) ?m))" "m_full (dirty (mark (core_damage t) ?m))"
    using dok mo mf by (simp_all add: mark_def merge_full)
  note cf = commit_full [OF dm]
  have cd: "core_damage ?r = commit (mark (core_damage t) ?m)" by (simp add: commit_damage_def apply_mutation_def d)
  have sc: "primary ?r = s" "alternate ?r = al" "modes ?r = modes t" "core_ids ?r = core_ids t" "core_store ?r = st'" "active_unit ?r = None"
    "fault ?r = fault t" "keyboard_ok ?r = keyboard_ok t" "queues_ok ?r = queues_ok t"
    by (simp_all add: commit_damage_def apply_mutation_def t2'(1) t1_def invalidate_active_grapheme_def keyboard_ok_def queues_ok_def)
  have "screens_ok ?r" using ok s(1,2,3) t2'(3,4) by (auto simp: screens_ok_def sc same_size_def core_ok_def)
  then have "core_ok ?r" using ok t2'(2) cf s(3)
    by (auto simp: core_ok_def sc pending_def cd damage_ok_def)
  moreover have "pending ?r = {}" by (simp add: pending_def cd cf(1))
  ultimately show ?thesis unfolding res using s(2,3) cf(2) by (simp add: sc cd)
qed

end
