(* ===== verification/Terminal_Feed.thy ===== *)
theory Terminal_Feed
  imports Terminal_Resize
begin

text \<open>
  The terminal as its host sees it: every sequence of \<open>feed\<close>, \<open>finish_input\<close>, \<open>resize\<close> and of the calls
  that drain its queues, from a new terminal.  \<open>reachable\<close> is the step relation of these calls; the
  invariant of \<open>Terminal_Ok\<close> holds in every reachable state.  The second part shows that the damage
  tracker is write-only for the actions, so that a stream may be cut into feeds anywhere.
\<close>

section \<open>Damage is only written\<close>

definition with_damage :: "damage_tracker \<Rightarrow> terminal_core \<Rightarrow> terminal_core" where
  "with_damage d t = t\<lparr>core_damage := d\<rparr>"

lemma with_damage_sel [simp]:
  "primary (with_damage d t) = primary t" "alternate (with_damage d t) = alternate t" "core_ids (with_damage d t) = core_ids t"
  "modes (with_damage d t) = modes t" "core_diagnostics (with_damage d t) = core_diagnostics t" "fault (with_damage d t) = fault t"
  "shell_events (with_damage d t) = shell_events t" "presentation_events (with_damage d t) = presentation_events t" "protocol_replies (with_damage d t) = protocol_replies t"
  "primary_keyboard_flags (with_damage d t) = primary_keyboard_flags t" "alternate_keyboard_flags (with_damage d t) = alternate_keyboard_flags t" "primary_keyboard_stack (with_damage d t) = primary_keyboard_stack t"
  "primary_keyboard_stack_len (with_damage d t) = primary_keyboard_stack_len t" "alternate_keyboard_stack (with_damage d t) = alternate_keyboard_stack t" "alternate_keyboard_stack_len (with_damage d t) = alternate_keyboard_stack_len t"
  "core_store (with_damage d t) = core_store t" "active_unit (with_damage d t) = active_unit t" "ambiguous_width (with_damage d t) = ambiguous_width t"
  "core_selection (with_damage d t) = core_selection t" "core_search (with_damage d t) = core_search t" "core_copy_mode (with_damage d t) = core_copy_mode t"
  "copy_buffer (with_damage d t) = copy_buffer t"
  "core_damage (with_damage d t) = d"
  by (simp_all add: with_damage_def)

lemma with_damage_upd [simp]:
  "primary_update f1 (with_damage d t) = with_damage d (primary_update f1 t)" "alternate_update f2 (with_damage d t) = with_damage d (alternate_update f2 t)"
  "core_ids_update f3 (with_damage d t) = with_damage d (core_ids_update f3 t)" "modes_update f4 (with_damage d t) = with_damage d (modes_update f4 t)"
  "core_diagnostics_update f5 (with_damage d t) = with_damage d (core_diagnostics_update f5 t)" "fault_update f6 (with_damage d t) = with_damage d (fault_update f6 t)"
  "shell_events_update f7 (with_damage d t) = with_damage d (shell_events_update f7 t)" "presentation_events_update f8 (with_damage d t) = with_damage d (presentation_events_update f8 t)"
  "protocol_replies_update f9 (with_damage d t) = with_damage d (protocol_replies_update f9 t)" "primary_keyboard_flags_update f10 (with_damage d t) = with_damage d (primary_keyboard_flags_update f10 t)"
  "alternate_keyboard_flags_update f11 (with_damage d t) = with_damage d (alternate_keyboard_flags_update f11 t)" "primary_keyboard_stack_update f12 (with_damage d t) = with_damage d (primary_keyboard_stack_update f12 t)"
  "primary_keyboard_stack_len_update f13 (with_damage d t) = with_damage d (primary_keyboard_stack_len_update f13 t)" "alternate_keyboard_stack_update f14 (with_damage d t) = with_damage d (alternate_keyboard_stack_update f14 t)"
  "alternate_keyboard_stack_len_update f15 (with_damage d t) = with_damage d (alternate_keyboard_stack_len_update f15 t)" "core_store_update f16 (with_damage d t) = with_damage d (core_store_update f16 t)"
  "active_unit_update f17 (with_damage d t) = with_damage d (active_unit_update f17 t)" "ambiguous_width_update f18 (with_damage d t) = with_damage d (ambiguous_width_update f18 t)"
  "core_selection_update f19 (with_damage d t) = with_damage d (core_selection_update f19 t)" "core_search_update f20 (with_damage d t) = with_damage d (core_search_update f20 t)"
  "core_copy_mode_update f21 (with_damage d t) = with_damage d (core_copy_mode_update f21 t)" "copy_buffer_update f22 (with_damage d t) = with_damage d (copy_buffer_update f22 t)"
  by (simp_all add: with_damage_def)

lemma with_damage_with [simp]: "with_damage d (with_damage d' t) = with_damage d t" "with_damage (core_damage t) t = t"
  by (simp_all add: with_damage_def)

lemma with_damage_apply [simp]: "apply_mutation m (with_damage d t) = with_damage (mark d m) (apply_mutation m t)"
  by (simp add: with_damage_def apply_mutation_def)

lemma with_damage_current [simp]: "current (with_damage d t) = current t" "canvas_of (with_damage d t) = canvas_of t"
  "put_current s (with_damage d t) = with_damage d (put_current s t)" "put_canvas cv (with_damage d t) = with_damage d (put_canvas cv t)"
  by (auto simp: current_eq canvas_of_def put_canvas_def put_current_def)

text \<open>A function that returns the core with a value and leaves the tracker alone.\<close>

definition damage_blind :: "(terminal_core \<Rightarrow> terminal_core \<times> 'a) \<Rightarrow> bool" where
  "damage_blind f \<longleftrightarrow> (\<forall>d t. f (with_damage d t) = map_prod (with_damage d) id (f t))"

lemma damage_blindD: "damage_blind f \<Longrightarrow> f (with_damage d t) = (with_damage d (fst (f t)), snd (f t))"
  by (cases "f t") (simp add: damage_blind_def)

lemma with_damage_records [simp]:
  "record_fault e (with_damage d t) = with_damage d (record_fault e t)"
  "record_deferred (with_damage d t) = with_damage d (record_deferred t)"
  "record_unknown (with_damage d t) = with_damage d (record_unknown t)"
  "record_malformed (with_damage d t) = with_damage d (record_malformed t)"
  "invalidate_active_grapheme (with_damage d t) = with_damage d (invalidate_active_grapheme t)"
  "sync_keyboard_flags (with_damage d t) = with_damage d (sync_keyboard_flags t)"
  "leave_screen (with_damage d t) = with_damage d (leave_screen t)"
  by (simp_all add: record_fault_def record_deferred_def record_unknown_def record_malformed_def
      invalidate_active_grapheme_def sync_keyboard_flags_def leave_screen_def Let_def)

lemma damage_blind_editing: "damage_blind (editing_mutation opn)" "damage_blind (on_current f)"
  by (auto simp: damage_blind_def editing_mutation_def on_current_def Let_def split: prod.split sum.split)

lemma with_damage_keyboard [simp]:
  "keyboard_stack (with_damage d t) = keyboard_stack t"
  "put_keyboard_stack k (with_damage d t) = with_damage d (put_keyboard_stack k t)"
  "adopt_flags fl (with_damage d t) = with_damage d (adopt_flags fl t)"
  "push_keyboard_flags fl (with_damage d t) = with_damage d (push_keyboard_flags fl t)"
  "pop_keyboard_flags n (with_damage d t) = with_damage d (pop_keyboard_flags n t)"
  by (simp_all add: keyboard_stack_def put_keyboard_stack_def adopt_flags_def push_keyboard_flags_def pop_keyboard_flags_def
      Let_def split: prod.split)

lemma damage_blind_set_keyboard: "damage_blind (set_keyboard_flags fl mode)"
  by (simp add: damage_blind_def set_keyboard_flags_def Let_def split: prod.split)

lemma with_damage_keyboard_command [simp]: "keyboard_command ps mk (with_damage d t) = with_damage d (keyboard_command ps mk t)"
  by (simp add: keyboard_command_def damage_blindD [OF damage_blind_set_keyboard] Let_def split: prod.split)

lemma with_damage_enqueue [simp]:
  "enqueue_protocol_reply r (with_damage d t) = with_damage d (enqueue_protocol_reply r t)"
  "enqueue_presentation ev (with_damage d t) = with_damage d (enqueue_presentation ev t)"
  "set_mouse_reporting l b (with_damage d t) = with_damage d (set_mouse_reporting l b t)"
  by (simp_all add: enqueue_protocol_reply_def enqueue_presentation_def set_mouse_reporting_def)

lemma with_damage_reply [simp]: "reply_or_defer ro (with_damage d t) = with_damage d (reply_or_defer ro t)"
  by (simp add: reply_or_defer_def split: option.split)

lemma with_damage_replies [simp]:
  "reply_kitty_flags (with_damage d t) = with_damage d (reply_kitty_flags t)"
  "reply_dsr_cpr (with_damage d t) = with_damage d (reply_dsr_cpr t)"
  "reply_mode n b (with_damage d t) = with_damage d (reply_mode n b t)"
  "reply_primary_da (with_damage d t) = with_damage d (reply_primary_da t)"
  by (simp_all add: reply_kitty_flags_def reply_dsr_cpr_def reply_mode_def reply_primary_da_def Let_def)

lemma with_damage_mouse [simp]:
  "reply_mouse_reporting n l (with_damage d t) = with_damage d (reply_mouse_reporting n l t)"
  by (simp add: reply_mouse_reporting_def)

lemma with_damage_decrqm_one [simp]: "reply_decrqm_one n (with_damage d t) = with_damage d (reply_decrqm_one n t)"
  unfolding reply_decrqm_one_def by (simp only: with_damage_sel with_damage_replies with_damage_mouse with_damage_records if_distrib [of "with_damage d"])

lemma with_damage_decrqm [simp]: "reply_decrqm ps (with_damage d t) = with_damage d (reply_decrqm ps t)"
  by (induction ps arbitrary: t) (simp_all add: reply_decrqm_def)

lemma with_damage_if: "(if b then with_damage d x else with_damage d y) = with_damage d (if b then x else y)"
  "(if b then (with_damage d x, z) else (with_damage d y, z')) = (with_damage d (if b then x else y), if b then z else z')"
  by simp_all

lemma damage_blind_csi: "damage_blind (csi_command lay ps final)"
  unfolding damage_blind_def csi_command_def Let_def
  by (intro allI) (simp only: with_damage_records with_damage_current damage_blindD [OF damage_blind_editing(1)] damage_blindD [OF damage_blind_editing(2)]
      with_damage_replies map_prod_def id_apply prod.case_eq_if fst_conv snd_conv with_damage_if if_distrib [of fst] if_distrib [of snd])


lemma with_damage_store_id [simp]: "cell_store_id col row (with_damage d t) = cell_store_id col row t"
  by (simp add: cell_store_id_def)

lemma damage_blind_print_parts:
  "damage_blind (start_unit lay us width st)" "damage_blind (replace_on_next_row lay a width)" "damage_blind (grow_in_place a width pw)"
  by (simp_all add: damage_blind_def start_unit_def replace_on_next_row_def grow_in_place_def Let_def split: prod.split sum.split)

lemma damage_blindI: "(\<And>d t. f (with_damage d t) = (with_damage d (fst (f t)), snd (f t))) \<Longrightarrow> damage_blind f"
  by (simp add: damage_blind_def prod_eq_iff)

lemma damage_blind_append: "damage_blind (append_to_active env lay a ch)"
proof (rule damage_blindI)
  fix d and t :: terminal_core
  obtain a' store r where p: "append_payload env a ch (core_store t) (ambiguous_width t) = (a', store, r)" by (metis prod_cases3)
  show "append_to_active env lay a ch (with_damage d t) =
    (with_damage d (fst (append_to_active env lay a ch t)), snd (append_to_active env lay a ch t))"
    unfolding append_to_active_def Let_def
    by (auto simp: p damage_blindD [OF damage_blind_print_parts(2)] damage_blindD [OF damage_blind_print_parts(3)] split: edge_decision.split)
qed

lemma damage_blind_print_new: "damage_blind (print_new env lay ch)"
  by (rule damage_blindI) (simp add: print_new_def Let_def damage_blindD [OF damage_blind_print_parts(1)] split: edge_decision.split)

lemma damage_blind_print: "damage_blind (print_current env lay ch)"
  by (rule damage_blindI) (simp add: print_current_def print_scalar_def Let_def damage_blindD [OF damage_blind_append] damage_blindD [OF damage_blind_print_new]
      split: option.split)

lemma damage_blind_execute: "damage_blind (execute_current lay b)"
  by (simp add: damage_blind_def execute_current_def Let_def split: prod.split)

text \<open>Actions that mark damage agree up to the tracker.\<close>

definition same_view_of :: "terminal_core \<Rightarrow> terminal_core \<Rightarrow> bool" where
  "same_view_of t t' \<longleftrightarrow> t' = with_damage (core_damage t') t"

lemma same_view_with [simp]: "same_view_of t (with_damage d t)" "same_view_of t t"
  by (simp_all add: same_view_of_def)

lemma same_view_apply: "same_view_of t t' \<Longrightarrow> same_view_of (apply_mutation m t) (apply_mutation m t')"
  by (metis same_view_of_def with_damage_apply with_damage_sel(23))

lemma settle_damage_blind: "damage_blind f \<Longrightarrow> same_view_of (settle (f t)) (settle (f (with_damage d t)))"
  by (auto simp: damage_blindD settle_def split: sum.split)

lemma cursor_visible_view: "same_view_of (set_cursor_visible b t) (set_cursor_visible b (with_damage d t))"
  by (simp add: set_cursor_visible_def Let_def)

definition agree :: "terminal_core \<times> 'a \<Rightarrow> terminal_core \<times> 'a \<Rightarrow> bool" where
  "agree r r' \<longleftrightarrow> same_view_of (fst r) (fst r') \<and> snd r' = snd r"

lemma alternate_screen_view: "agree (set_alternate_screen b t) (set_alternate_screen b (with_damage d t))"
  by (cases b) (simp_all add: agree_def set_alternate_screen_def Let_def cong: option.case_cong split: prod.split sum.split)

lemma private_mode_view: "agree (set_private_mode b n t) (set_private_mode b n (with_damage d t))"
  unfolding set_private_mode_def
  using alternate_screen_view [of b t d] cursor_visible_view [of b t d] by (simp add: agree_def)

lemma private_modes_view: "same_view_of (set_private_modes b ns t) (set_private_modes b ns (with_damage d t))"
proof (induction ns arbitrary: t d)
  case (Cons n ns)
  obtain t1 r where 1: "set_private_mode b n t = (t1, r)" by fastforce
  obtain d1 where 2: "set_private_mode b n (with_damage d t) = (with_damage d1 t1, r)"
    using private_mode_view [of b n t d] 1 by (cases "set_private_mode b n (with_damage d t)") (auto simp: agree_def same_view_of_def)
  show ?case using 1 2 Cons [of t1 d1] by (simp split: sum.split)
qed simp

lemma dispatch_csi_view: "same_view_of (dispatch_csi lay ps mk ign final t) (dispatch_csi lay ps mk ign final (with_damage d t))"
  using private_modes_view [of "final = 0x68" ps t d]
  by (simp add: dispatch_csi_def damage_blindD [OF damage_blind_csi] case_prod_beta)

lemma dispatch_esc_view: "same_view_of (dispatch_esc lay final im t) (dispatch_esc lay final im (with_damage d t))"
  by (simp add: dispatch_esc_def Let_def damage_blindD [OF damage_blind_editing(1)] damage_blindD [OF damage_blind_editing(2)] case_prod_beta)

lemma with_damage_lines [simp]: "current_line (with_damage d t) = current_line t" "completion_line (with_damage d t) = completion_line t"
  by (simp_all add: current_line_def completion_line_def)

lemma with_damage_shell [simp]: "shell_event_of fs (with_damage d t) = shell_event_of fs t"
  unfolding shell_event_of_def with_damage_lines by (rule refl)

lemma with_damage_osc [simp]: "dispatch_osc bs tr (with_damage d t) = with_damage d (dispatch_osc bs tr t)"
  by (simp add: dispatch_osc_def split: option.split)

lemma perform_view: "same_view_of (perform env lay act t) (perform env lay act (with_damage d t))"
  by (cases act) (simp_all add: dispatch_csi_view dispatch_esc_view settle_damage_blind [OF damage_blind_print] settle_damage_blind [OF damage_blind_execute])

lemma perform_all_view: "same_view_of (perform_all env lay acts t) (perform_all env lay acts (with_damage d t))"
proof (induction acts arbitrary: t d)
  case (Cons act acts)
  obtain d' where "perform env lay act (with_damage d t) = with_damage d' (perform env lay act t)"
    using perform_view [of env lay act t d] by (auto simp: same_view_of_def)
  with Cons [of "perform env lay act t" d'] show ?case by (simp add: perform_all_def)
qed (simp add: perform_all_def)


lemma perform_all_faulted: "fault t \<noteq> None \<Longrightarrow> perform_all env lay acts t = t"
proof (induction acts)
  case (Cons act acts)
  then have "perform env lay act t = t" by (cases act) (auto simp: dispatch_csi_def dispatch_esc_def dispatch_osc_def)
  with Cons show ?case by (simp add: perform_all_def)
qed (simp add: perform_all_def)

lemma perform_all_append: "perform_all env lay (as @ bs) t = perform_all env lay bs (perform_all env lay as t)"
  by (simp add: perform_all_def)

section \<open>Commit and the host calls\<close>

lemma commit_rows: "mutation_rows_of (dirty d) \<union> damage_rows_of (published d) \<subseteq> damage_rows_of (published (commit d))"
  using tracker.commit_visible [of d] by blast

lemma commit_within:
  assumes "mutation_ok (dirty d)" "mutation_rows_of (dirty d) \<subseteq> {..<n}" "damage_ok n (published d)"
  shows "damage_ok n (published (commit d)) \<and> mutation_ok (dirty (commit d)) \<and> mutation_rows_of (dirty (commit d)) \<subseteq> {..<n}"
proof (cases "m_first_row (dirty d)")
  case None
  then show ?thesis using assms by (simp add: commit_def)
next
  case (Some f)
  have m: "f \<le> m_last_row (dirty d)" "m_last_row (dirty d) < n"
    using assms(1,2) Some by (auto simp: mutation_ok_def mutation_rows_of_def)
  show ?thesis using m assms(3) Some by (auto simp: commit_def damage_ok_def Let_def split: option.split)
qed

text \<open>Between two calls nothing is pending: every feed ends with a commit.\<close>

definition terminal_ok :: "terminal_state \<Rightarrow> bool" where
  "terminal_ok s \<longleftrightarrow> core_ok (core s) \<and> parser_ok (ts_parser s) \<and> putback (ts_parser s) = None \<and>
     pending (core s) = {}"

lemma commit_damage_other [simp]:
  "current (commit_damage t) = current t" "primary (commit_damage t) = primary t" "fault (commit_damage t) = fault t"
  by (auto simp: commit_damage_def current_eq)

lemma core_ok_damage: "core_ok t \<Longrightarrow> mutation_ok (dirty d) \<Longrightarrow> mutation_rows_of (dirty d) \<subseteq> {..<srows (primary t)} \<Longrightarrow>
   damage_ok (srows (primary t)) (published d) \<Longrightarrow> core_ok (t\<lparr>core_damage := d\<rparr>)"
  using with_damage_current(1) [of d t] by (simp add: with_damage_def core_ok_def screens_ok_def keyboard_ok_def queues_ok_def pending_def)

lemma commit_damage_ok:
  assumes "core_ok t"
  shows "core_ok (commit_damage t)" "pending (commit_damage t) = {}"
proof -
  show "core_ok (commit_damage t)" unfolding commit_damage_def
    using commit_within [of "core_damage t" "srows (primary t)"] assms
    by (intro core_ok_damage) (simp_all add: core_ok_def pending_def)
  show "pending (commit_damage t) = {}"
    by (auto simp: pending_def commit_damage_def commit_def Let_def mutation_rows_of_def mutation_none_def split: option.splits)
qed

lemma abort_utf8_shape: "parser_ok (fst (finish p)) \<and> putback (fst (finish p)) = None" if "parser_ok p"
proof -
  have "parser_ok (reset_sequence (q\<lparr>pst := Ground, putback := None\<rparr>))" if "parser_ok q" "utf8_needed q = 0 \<and> utf8 q = []" for q
    using that by (simp add: parser_ok_def reset_sequence_def)
  moreover have "parser_ok (fst (abort_utf8 p)) \<and> utf8_needed (fst (abort_utf8 p)) = 0 \<and> utf8 (fst (abort_utf8 p)) = []"
    using that by (auto simp: abort_utf8_def parser_ok_def Let_def)
  ultimately show ?thesis using that
    by (auto simp: finish_def Let_def parser_ok_def case_prod_beta reset_sequence_def)
qed

lemma run_actions_ok:
  assumes "terminal_ok s" "parser_ok p" "putback p = None"
  shows "terminal_ok \<lparr>ts_parser = p, core = commit_damage (perform_all env lay acts (core s))\<rparr>"
    "same_size (primary (core s)) (primary (commit_damage (perform_all env lay acts (core s))))"
proof -
  have st: "core_step (core s) (perform_all env lay acts (core s))" using perform_all_step assms(1) by (simp add: terminal_ok_def)
  then have "core_ok (perform_all env lay acts (core s))" by (simp add: core_step_def)
  from commit_damage_ok [OF this] assms show "terminal_ok \<lparr>ts_parser = p, core = commit_damage (perform_all env lay acts (core s))\<rparr>"
    by (simp add: terminal_ok_def)
  show "same_size (primary (core s)) (primary (commit_damage (perform_all env lay acts (core s))))"
    using st by (simp add: core_step_def)
qed

lemma feed_terminal_ok:
  assumes "terminal_ok s"
  shows "terminal_ok (fst (feed_terminal env lay bs s))" "same_size (primary (core s)) (primary (core (fst (feed_terminal env lay bs s))))"
proof -
  have p: "parser_ok (fst (feed (ts_parser s) bs))" using assms feed_ok [of "ts_parser s" bs] by (simp add: terminal_ok_def res_ok_def)
  note r = run_actions_ok [OF assms p feed_putback, of env lay "snd (feed (ts_parser s) bs)"]
  show "terminal_ok (fst (feed_terminal env lay bs s))" using r(1) assms by (simp add: feed_terminal_def Let_def case_prod_beta split: option.split)
  show "same_size (primary (core s)) (primary (core (fst (feed_terminal env lay bs s))))" using r(2)
    by (simp add: feed_terminal_def Let_def case_prod_beta same_size_def split: option.split)
qed

lemma finish_input_ok:
  assumes "terminal_ok s"
  shows "terminal_ok (fst (finish_input env lay s))" "same_size (primary (core s)) (primary (core (fst (finish_input env lay s))))"
proof -
  have p: "parser_ok (fst (finish (ts_parser s)))" "putback (fst (finish (ts_parser s))) = None"
    using assms abort_utf8_shape [of "ts_parser s"] by (simp_all add: terminal_ok_def)
  note r = run_actions_ok [OF assms p, of env lay "snd (finish (ts_parser s))"]
  show "terminal_ok (fst (finish_input env lay s))" using r(1) assms by (simp add: finish_input_def Let_def case_prod_beta split: option.split)
  show "same_size (primary (core s)) (primary (core (fst (finish_input env lay s))))" using r(2)
    by (simp add: finish_input_def Let_def case_prod_beta same_size_def split: option.split)
qed

lemma new_terminal_ok:
  assumes "new_terminal cols rows = Inr s"
  shows "terminal_ok s \<and> scols (primary (core s)) = cols \<and> srows (primary (core s)) = rows"
proof -
  obtain ids sc where n: "new_screen cols rows new_allocator True = (ids, Inr sc)"
    using assms by (auto simp: new_terminal_def new_core_def split: prod.splits sum.splits)
  have a: "allocator_ok ids" using new_screen_alloc_ok [OF new_allocator_ok, of cols rows True] n by simp
  note sc = new_screen_ok [OF n]
  then have rows: "0 < rows" by (simp add: screen_ok_def)
  have d: "dirty (commit (mark new_tracker (mutation_full rows))) = mutation_none"
    "published (commit (mark new_tracker (mutation_full rows))) = Some \<lparr>d_generation = sat_add u64_max 0 1, d_full = True, d_first_row = 0, d_last_row = rows - 1\<rparr>"
    by (simp_all add: commit_def mark_def new_tracker_def Let_def) (simp_all add: mutation_full_def Let_def)
  have pb: "putback new_parser = None" by (simp add: new_parser_def)
  show ?thesis using assms n a sc d rows pb
    by (auto simp: new_terminal_def new_core_def terminal_ok_def core_ok_def screens_ok_def keyboard_ok_def queues_ok_def damage_ok_def
        pending_def current_eq new_store_ok new_parser_ok default_modes_def)
qed


section \<open>Reachable terminals\<close>

inductive reachable :: "unicode_env \<Rightarrow> layout \<Rightarrow> terminal_state \<Rightarrow> bool" for env lay where
  start: "new_terminal cols rows = Inr s \<Longrightarrow> reachable env lay s"
| feeding: "reachable env lay s \<Longrightarrow> reachable env lay (fst (feed_terminal env lay bs s))"
| finishing: "reachable env lay s \<Longrightarrow> reachable env lay (fst (finish_input env lay s))"
| resizing: "reachable env lay s \<Longrightarrow> reachable env lay (fst (terminal_resize lay cols rows s))"
| damage_taken: "reachable env lay s \<Longrightarrow> reachable env lay (fst (take_terminal_damage s))"
| reply_taken: "reachable env lay s \<Longrightarrow> reachable env lay (fst (take_protocol_reply s))"
| shell_event_taken: "reachable env lay s \<Longrightarrow> reachable env lay (fst (take_shell_integration_event s))"
| host_event_taken: "reachable env lay s \<Longrightarrow> reachable env lay (fst (take_host_presentation_event s))"
| policy_set: "reachable env lay s \<Longrightarrow> reachable env lay (set_ambiguous_width_policy pol s)"

lemma pop_front_length: "length (fst (pop_front q)) \<le> length q"
  by (cases q) simp_all

lemma take_damage_ok: "terminal_ok s \<Longrightarrow> terminal_ok (fst (take_terminal_damage s))"
  using core_ok_damage [of "core s" "(core_damage (core s))\<lparr>published := None\<rparr>"]
  by (simp add: terminal_ok_def take_terminal_damage_def take_damage_def Let_def pending_def core_ok_def damage_ok_def)

lemma current_queue [simp]: "current (t\<lparr>protocol_replies := a\<rparr>) = current t" "current (t\<lparr>shell_events := b\<rparr>) = current t"
  "current (t\<lparr>presentation_events := c\<rparr>) = current t" "current (t\<lparr>ambiguous_width := w\<rparr>) = current t"
  by (simp_all add: current_def cong: option.case_cong)

lemma take_queue_ok:
  assumes "terminal_ok s"
  shows "terminal_ok (fst (take_protocol_reply s))" "terminal_ok (fst (take_shell_integration_event s))"
    "terminal_ok (fst (take_host_presentation_event s))"
  using assms pop_front_length [of "protocol_replies (core s)"] pop_front_length [of "shell_events (core s)"]
    pop_front_length [of "presentation_events (core s)"]
  by (auto simp: terminal_ok_def take_protocol_reply_def take_shell_integration_event_def take_host_presentation_event_def case_prod_beta Let_def
      core_ok_def screens_ok_def keyboard_ok_def queues_ok_def pending_def)

lemma policy_ok: "terminal_ok s \<Longrightarrow> terminal_ok (set_ambiguous_width_policy pol s)"
  by (auto simp: terminal_ok_def set_ambiguous_width_policy_def invalidate_active_grapheme_def
      core_ok_def screens_ok_def keyboard_ok_def queues_ok_def pending_def)

lemma terminal_resize_ok:
  assumes "terminal_ok s"
  shows "terminal_ok (fst (terminal_resize lay cols rows s))"
    "snd (terminal_resize lay cols rows s) = Inr () \<Longrightarrow> scols (primary (core (fst (terminal_resize lay cols rows s)))) = cols \<and>
      srows (primary (core (fst (terminal_resize lay cols rows s)))) = rows \<and>
      (\<exists>d. published (core_damage (core (fst (terminal_resize lay cols rows s)))) = Some d \<and> d_full d)"
    "snd (terminal_resize lay cols rows s) = Inl e \<Longrightarrow> same_but_caches (core s) (core (fst (terminal_resize lay cols rows s)))"
proof -
  obtain t r where p: "core_prepare_resize lay cols rows (core s) = (t, r)" by fastforce
  have ok: "core_ok (core s)" "pending (core s) = {}" using assms by (simp_all add: terminal_ok_def)
  note pr = core_prepare_ok [OF ok(1) p]
  have "core_damage t = core_damage (core s)" using pr same_but_caches_damage by blast
  then have t: "pending t = {}" using ok(2) by (simp add: pending_def)
  have c: "core_ok (core_commit_resize lay q t) \<and> pending (core_commit_resize lay q t) = {} \<and>
    scols (primary (core_commit_resize lay q t)) = cols \<and> srows (primary (core_commit_resize lay q t)) = rows \<and>
    (\<exists>d. published (core_damage (core_commit_resize lay q t)) = Some d \<and> d_full d)" if "r = Inr q" for q
    using core_commit_ok [of t cols rows q lay] pr that by blast
  show "terminal_ok (fst (terminal_resize lay cols rows s))"
    "snd (terminal_resize lay cols rows s) = Inr () \<Longrightarrow> scols (primary (core (fst (terminal_resize lay cols rows s)))) = cols \<and>
      srows (primary (core (fst (terminal_resize lay cols rows s)))) = rows \<and>
      (\<exists>d. published (core_damage (core (fst (terminal_resize lay cols rows s)))) = Some d \<and> d_full d)"
    "snd (terminal_resize lay cols rows s) = Inl e \<Longrightarrow> same_but_caches (core s) (core (fst (terminal_resize lay cols rows s)))"
    using assms p pr t c by (cases r; simp add: terminal_resize_def terminal_ok_def)+
qed

lemma reachable_ok: "reachable env lay s \<Longrightarrow> terminal_ok s"
proof (induction rule: reachable.induct)
  case (start cols rows s)
  then show ?case using new_terminal_ok by blast
qed (simp_all add: feed_terminal_ok finish_input_ok terminal_resize_ok take_damage_ok take_queue_ok policy_ok)

lemma current_grid: "core_ok t \<Longrightarrow> screen_ok (current t) \<and> scols (current t) = scols (primary t) \<and> srows (current t) = srows (primary t)"
  using current_size [of t] core_canvas [of t] by (simp add: canvas_ok_def canvas_of_def core_ok_def same_size_def)


lemma same_but_caches_view:
  assumes "same_but_caches t t'"
  shows "modes t' = modes t \<and> fault t' = fault t \<and> core_store t' = core_store t \<and> screen_cell (current t') = screen_cell (current t) \<and>
    scursor (current t') = scursor (current t) \<and> scols (current t') = scols (current t) \<and> srows (current t') = srows (current t)"
proof -
  note a = assms [unfolded same_but_caches_def]
  have f: "modes t' = modes t" "fault t' = fault t" "core_store t' = core_store t"
    using arg_cong [where f = modes, OF conjunct1 [OF a]] arg_cong [where f = fault, OF conjunct1 [OF a]] arg_cong [where f = core_store, OF conjunct1 [OF a]]
    by simp_all
  have "(current t')\<lparr>history := history (current t)\<rparr> = current t"
    using a f(1) by (cases "alternate t"; cases "alternate t'") (auto simp: current_eq)
  then obtain h where "current t' = (current t)\<lparr>history := h\<rparr>"
    by (cases "current t"; cases "current t'") simp
  with f show ?thesis by (simp add: screen_cell_def cell_index_def fun_eq_iff)
qed

section \<open>Reads of any size\<close>

text \<open>The host loop: one \<open>feed\<close> per read; its result is that of the last call.\<close>

fun feed_reads ::
  "unicode_env \<Rightarrow> layout \<Rightarrow> byte list list \<Rightarrow> terminal_state \<Rightarrow> terminal_state \<times> unit res"
where
  "feed_reads env lay [] s = (s, fault_result (core s))"
| "feed_reads env lay (bs # rest) s = feed_reads env lay rest (fst (feed_terminal env lay bs s))"

lemma feed_terminal_eq:
  "feed_terminal env lay bs s =
    (if fault (core s) = None
     then let c = commit_damage (perform_all env lay (snd (feed (ts_parser s) bs)) (core s))
          in (\<lparr>ts_parser = fst (feed (ts_parser s) bs), core = c\<rparr>, fault_result c)
     else (s, fault_result (core s)))"
  by (auto simp: feed_terminal_def Let_def case_prod_beta fault_result_def split: option.split)

lemma same_view_cong:
  assumes "same_view_of t t'"
  shows "fault t' = fault t" "current t' = current t" "fault_result t' = fault_result t"
    "same_view_of t (commit_damage t')" "same_view_of (perform_all env lay acts t) (perform_all env lay acts t')"
proof -
  obtain d where t': "t' = with_damage d t" using assms by (auto simp: same_view_of_def)
  show "fault t' = fault t" "current t' = current t" "fault_result t' = fault_result t" by (simp_all add: t' fault_result_def)
  show "same_view_of t (commit_damage t')" by (simp add: t' same_view_of_def commit_damage_def with_damage_def)
  show "same_view_of (perform_all env lay acts t) (perform_all env lay acts t')" unfolding t' by (rule perform_all_view)
qed

lemma same_view_sym: "same_view_of t t' \<Longrightarrow> same_view_of t' t"
  by (metis same_view_of_def with_damage_with)

lemma same_view_trans: "same_view_of a b \<Longrightarrow> same_view_of b c \<Longrightarrow> same_view_of a c"
  by (metis same_view_of_def with_damage_with(1))

lemma same_view_commit: "same_view_of (commit_damage t) t"
  using same_view_cong(4) [of t t] same_view_sym by simp

lemma feed_two:
  defines "split env lay xs ys s \<equiv> feed_terminal env lay ys (fst (feed_terminal env lay xs s))"
  shows "snd (split env lay xs ys s) = snd (feed_terminal env lay (xs @ ys) s)"
    "same_view_of (core (fst (split env lay xs ys s))) (core (fst (feed_terminal env lay (xs @ ys) s)))"
    "snd (split env lay xs ys s) = Inr () \<Longrightarrow> ts_parser (fst (split env lay xs ys s)) = ts_parser (fst (feed_terminal env lay (xs @ ys) s))"
proof -
  define t where "t = perform_all env lay (snd (feed (ts_parser s) xs)) (core s)"
  define acts where "acts = snd (feed (fst (feed (ts_parser s) xs)) ys)"
  have v: "same_view_of (perform_all env lay acts (commit_damage t)) (perform_all env lay acts t)"
    by (rule same_view_cong(5) [OF same_view_commit])
  have w: "same_view_of (commit_damage (perform_all env lay acts (commit_damage t))) (commit_damage (perform_all env lay acts t))"
    by (rule same_view_trans [OF same_view_commit same_view_cong(4) [OF v]])
  have one: "feed_terminal env lay (xs @ ys) s = (if fault (core s) = None
    then let c = commit_damage (perform_all env lay acts t)
         in (\<lparr>ts_parser = fst (feed (fst (feed (ts_parser s) xs)) ys), core = c\<rparr>, fault_result c) else (s, fault_result (core s)))"
    by (simp add: feed_terminal_eq feed_append perform_all_append t_def acts_def)
  have two: "split env lay xs ys s = (if fault (core s) = None
    then if fault t = None then let c = commit_damage (perform_all env lay acts (commit_damage t))
         in (\<lparr>ts_parser = fst (feed (fst (feed (ts_parser s) xs)) ys), core = c\<rparr>, fault_result c)
      else (\<lparr>ts_parser = fst (feed (ts_parser s) xs), core = commit_damage t\<rparr>, fault_result t) else (s, fault_result (core s)))"
    unfolding split_def by (simp add: feed_terminal_eq t_def acts_def Let_def fault_result_def)
  have f: "fault t \<noteq> None \<Longrightarrow> perform_all env lay acts t = t" by (rule perform_all_faulted)
  show "snd (split env lay xs ys s) = snd (feed_terminal env lay (xs @ ys) s)"
    "same_view_of (core (fst (split env lay xs ys s))) (core (fst (feed_terminal env lay (xs @ ys) s)))"
    unfolding one two using same_view_cong(3) [OF w] w f by (auto simp: Let_def fault_result_def)
  show "snd (split env lay xs ys s) = Inr () \<Longrightarrow> ts_parser (fst (split env lay xs ys s)) = ts_parser (fst (feed_terminal env lay (xs @ ys) s))"
    unfolding one two by (auto simp: Let_def fault_result_def split: option.splits)
qed


lemma feed_reads_concat:
  assumes "putback (ts_parser s) = None"
  shows "snd (feed_reads env lay chunks s) = snd (feed_terminal env lay (concat chunks) s) \<and>
    same_view_of (core (fst (feed_reads env lay chunks s))) (core (fst (feed_terminal env lay (concat chunks) s))) \<and>
    (snd (feed_reads env lay chunks s) = Inr () \<longrightarrow>
      ts_parser (fst (feed_reads env lay chunks s)) = ts_parser (fst (feed_terminal env lay (concat chunks) s)))"
  using assms
proof (induction chunks arbitrary: s)
  case Nil
  then show ?case using same_view_cong(4) [of "core s" "core s"]
    by (simp add: feed_terminal_eq feed_unfold Let_def fault_result_def perform_all_def)
next
  case (Cons bs rest)
  let ?s1 = "fst (feed_terminal env lay bs s)"
  have "putback (ts_parser ?s1) = None" using Cons.prems feed_putback by (simp add: feed_terminal_eq Let_def)
  note ih = Cons.IH [OF this]
  note two = feed_two [of env lay "concat rest" bs s]
  show ?case using ih two same_view_trans by (auto intro: same_view_trans)
qed

section \<open>Properties\<close>

definition sample_env :: unicode_env where
  "sample_env = \<lparr>uwidth = (\<lambda>c. if c = 0x301 then Some 0 else if c \<ge> 0x4e00 then Some 2 else Some 1),
     uwidth_cjk = (\<lambda>c. if c = 0x301 then Some 0 else if c \<ge> 0x4e00 then Some 2 else Some 1),
     grapheme_count = (\<lambda>cs. max 1 (length (filter (\<lambda>c. c \<noteq> 0x301) cs)))\<rparr>"

definition sample_terminal :: terminal_state where
  "sample_terminal = projr (new_terminal 4 2)"

lemma sample_reachable: "reachable env lay sample_terminal"
proof (rule reachable.start)
  have "\<not> isl (new_terminal 4 2)" by code_simp
  then show "new_terminal 4 2 = Inr sample_terminal" by (simp add: sample_terminal_def)
qed

text \<open>A wide character and a narrow one on two rows.\<close>

definition sample_bytes :: "byte list" where
  "sample_bytes = [0xe4, 0xb8, 0x96, 0x0d, 0x0a, 0x43]"

text \<open>
  C1 (terminal_always_well_formed): whatever bytes a program writes and in whatever order the host
  feeds, finishes, resizes and drains, the terminal stays well formed: both screens have the same
  size within the limits, every table has the length of the grid, cursor and scroll region lie
  inside it, payload store and line identities keep their invariants, every queue and keyboard
  stack keeps its bound, and the damage handed out is full or an interval of rows of the grid,
  which is what the projection of updates asserts.
\<close>

theorem terminal_always_well_formed:
  assumes "reachable env lay s"
  shows "core_ok (core s) \<and> parser_ok (ts_parser s) \<and>
    0 < terminal_cols s \<and> terminal_cols s \<le> MAX_TERMINAL_COLUMNS \<and> 0 < terminal_rows s \<and> terminal_rows s \<le> MAX_TERMINAL_ROWS \<and>
    cs_col (terminal_cursor s) < terminal_cols s \<and> cs_row (terminal_cursor s) < terminal_rows s \<and>
    damage_ok (terminal_rows s) (snd (take_terminal_damage s))"
proof -
  have ok: "core_ok (core s)" "parser_ok (ts_parser s)" using reachable_ok [OF assms] by (simp_all add: terminal_ok_def)
  note g = current_grid [OF ok(1)]
  have "damage_ok (srows (primary (core s))) (published (core_damage (core s)))" using ok(1) by (simp add: core_ok_def)
  with ok g show ?thesis
    by (simp add: terminal_cols_def terminal_rows_def terminal_cursor_def screen_cursor_def screen_ok_def take_terminal_damage_def take_damage_def)
qed

theorem terminal_always_well_formed_witness:
  "core_ok (core (fst (terminal_resize layout64 3 5 (fst (feed_terminal sample_env layout64 sample_bytes sample_terminal)))))"
  using terminal_always_well_formed [OF reachable.resizing [OF reachable.feeding [OF sample_reachable]], of layout64 3 5 sample_env sample_bytes]
  by simp

text \<open>
  C2 (terminal_damage_sound): after a feed that succeeds, a row of the visible screen that is not
  named by the damage the host takes shows the same cells as before the feed.  This covers every
  control sequence, scrolling and a switch of screens in either direction.
\<close>

theorem terminal_damage_sound:
  assumes "reachable env lay s" "feed_terminal env lay bs s = (s', Inr ())"
    "row \<notin> damage_rows_of (snd (take_terminal_damage s'))"
  shows "terminal_cell s' col row = terminal_cell s col row"
proof -
  have ok: "core_ok (core s)" using reachable_ok [OF assms(1)] by (simp add: terminal_ok_def)
  define t where "t = perform_all env lay (snd (feed (ts_parser s) bs)) (core s)"
  have st: "core_step (core s) t" unfolding t_def by (rule perform_all_step [OF ok])
  have s': "core s' = commit_damage t \<and> fault t = None"
    using assms(2) by (auto simp: feed_terminal_eq t_def Let_def fault_result_def split: if_splits option.splits)
  have "row \<notin> pending t" using assms(3) s' commit_rows [of "core_damage t"]
    by (auto simp: take_terminal_damage_def take_damage_def pending_def commit_damage_def)
  then have "row \<notin> changed_rows (current (core s)) (current t)" using st s' by (auto simp: core_step_def)
  moreover have "scols (current t) = scols (current (core s)) \<and> srows (current t) = srows (current (core s))"
    using current_grid [OF ok] current_grid [of t] st by (simp add: core_step_def same_size_def)
  ultimately show ?thesis using s' by (auto simp: terminal_cell_def screen_cell_def cell_index_def changed_rows_def)
qed


definition sample_fed :: terminal_state where
  "sample_fed = fst (take_terminal_damage (fst (feed_terminal sample_env layout64 sample_bytes sample_terminal)))"

definition sample_probe :: "unit res \<times> (nat \<times> nat) option" where
  "sample_probe = (let r = feed_terminal sample_env layout64 [0x44] sample_fed
     in (snd r, map_option (\<lambda>d. (d_first_row d, d_last_row d)) (snd (take_terminal_damage (fst r)))))"

theorem terminal_damage_sound_witness:
  "let s' = fst (feed_terminal sample_env layout64 [0x44] sample_fed) in
   1 \<in> damage_rows_of (snd (take_terminal_damage s')) \<and> 0 \<notin> damage_rows_of (snd (take_terminal_damage s')) \<and>
   terminal_cell s' 0 0 = terminal_cell sample_fed 0 0 \<and> terminal_cell s' 1 0 = terminal_cell sample_fed 1 0"
proof -
  let ?s' = "fst (feed_terminal sample_env layout64 [0x44] sample_fed)"
  have r: "reachable sample_env layout64 sample_fed" unfolding sample_fed_def
    by (intro reachable.damage_taken reachable.feeding sample_reachable)
  have "sample_probe = (Inr (), Some (1, 1))" by code_simp
  then have p: "snd (feed_terminal sample_env layout64 [0x44] sample_fed) = Inr ()"
    "map_option (\<lambda>d. (d_first_row d, d_last_row d)) (snd (take_terminal_damage ?s')) = Some (1, 1)"
    by (simp_all add: sample_probe_def Let_def)
  have f: "feed_terminal sample_env layout64 [0x44] sample_fed = (?s', Inr ())" using p(1) by (metis prod.collapse)
  have m: "1 \<in> damage_rows_of (snd (take_terminal_damage ?s'))" "0 \<notin> damage_rows_of (snd (take_terminal_damage ?s'))"
    using p(2) by (auto simp: damage_rows_of_def split: option.splits)
  show ?thesis using m terminal_damage_sound [OF r f m(2)] by (simp add: Let_def)
qed

text \<open>
  C3 (terminal_read_sizes_irrelevant): cutting a stream into reads in any way gives the same
  result as one feed of the whole stream and the same terminal in every field but the damage
  tracker: screens, modes, replies, events, diagnostics and recorded fault; while no fault occurs,
  also the same parser state.
\<close>

theorem terminal_read_sizes_irrelevant:
  assumes "reachable env lay s"
  shows "snd (feed_reads env lay chunks s) = snd (feed_terminal env lay (concat chunks) s) \<and>
    (core (fst (feed_reads env lay chunks s)))\<lparr>core_damage := d\<rparr> =
      (core (fst (feed_terminal env lay (concat chunks) s)))\<lparr>core_damage := d\<rparr> \<and>
    (snd (feed_reads env lay chunks s) = Inr () \<longrightarrow>
      ts_parser (fst (feed_reads env lay chunks s)) = ts_parser (fst (feed_terminal env lay (concat chunks) s)))"
proof -
  have "putback (ts_parser s) = None" using reachable_ok [OF assms] by (simp add: terminal_ok_def)
  note r = feed_reads_concat [OF this, of env lay chunks]
  have "(t\<lparr>core_damage := d\<rparr>) = t'\<lparr>core_damage := d\<rparr>" if "same_view_of t t'" for t t'
    using that by (metis same_view_of_def with_damage_def with_damage_with(1))
  then show ?thesis using r by blast
qed

theorem terminal_read_sizes_irrelevant_witness:
  "snd (feed_reads sample_env layout64 [[0x41, 0xe4], [], [0xb8, 0x96, 0x1b], [0x5b, 0x36, 0x6e]] sample_terminal) =
   snd (feed_terminal sample_env layout64 [0x41, 0xe4, 0xb8, 0x96, 0x1b, 0x5b, 0x36, 0x6e] sample_terminal)"
  using terminal_read_sizes_irrelevant [OF sample_reachable, of sample_env layout64 "[[0x41, 0xe4], [], [0xb8, 0x96, 0x1b], [0x5b, 0x36, 0x6e]]"]
  by simp

text \<open>
  C4 (terminal_resize_atomic): a resize happens as a whole or not at all.  On success the terminal
  has exactly the requested size and the host is told to redraw everything; on any error the grid,
  its text, the cursor, the damage to take and the recorded fault are as before.
\<close>

theorem terminal_resize_atomic:
  assumes "reachable env lay s" "terminal_resize lay cols rows s = (s', r)"
  shows "case r of
      Inr _ \<Rightarrow> terminal_cols s' = cols \<and> terminal_rows s' = rows \<and> (\<exists>d. snd (take_terminal_damage s') = Some d \<and> d_full d)
    | Inl e \<Rightarrow> terminal_cols s' = terminal_cols s \<and> terminal_rows s' = terminal_rows s \<and>
        (\<forall>col row. terminal_cell s' col row = terminal_cell s col row \<and> lead_utf8 s' col row = lead_utf8 s col row) \<and>
        terminal_cursor s' = terminal_cursor s \<and> snd (take_terminal_damage s') = snd (take_terminal_damage s) \<and>
        fault (core s') = fault (core s)"
proof -
  have ok: "terminal_ok s" by (rule reachable_ok [OF assms(1)])
  note r = terminal_resize_ok [OF ok, of lay cols rows, unfolded assms(2) fst_conv snd_conv]
  show ?thesis
  proof (cases r)
    case (Inl e)
    note c = r(3) [OF Inl]
    note v = same_but_caches_view [OF c]
    from v have tc: "terminal_cell s' = terminal_cell s" by (intro ext) (simp add: terminal_cell_def)
    from v have st: "core_store (core s') = core_store (core s)" by blast
    have "lead_utf8 s' = lead_utf8 s" unfolding lead_utf8_def tc st by (rule refl)
    then show ?thesis using Inl v tc same_but_caches_damage [OF c]
      by (simp add: terminal_cols_def terminal_rows_def terminal_cursor_def screen_cursor_def take_terminal_damage_def take_damage_def)
  next
    case (Inr u)
    have "core_ok (core s')" using r(1) by (simp add: terminal_ok_def)
    from current_grid [OF this] show ?thesis using Inr r(2)
      by (simp add: terminal_cols_def terminal_rows_def take_terminal_damage_def take_damage_def)
  qed
qed

theorem terminal_resize_atomic_witness:
  "terminal_cols (fst (terminal_resize layout64 0 5 sample_terminal)) = 4 \<and> terminal_cols (fst (terminal_resize layout64 4 3 sample_terminal)) = 4 \<and>
   terminal_rows (fst (terminal_resize layout64 4 3 sample_terminal)) = 3"
proof -
  have f: "Option.is_none (fault (core sample_terminal))" "terminal_cols sample_terminal = 4" by code_simp+
  then have "snd (terminal_resize layout64 0 5 sample_terminal) = Inl InvalidSize"
    by (simp add: terminal_resize_def core_prepare_resize_def Option.is_none_def split: option.splits)
  moreover have "snd (terminal_resize layout64 4 3 sample_terminal) = Inr ()" by code_simp
  ultimately show ?thesis
    using terminal_resize_atomic [OF sample_reachable [of sample_env] surjective_pairing, of layout64 0 5]
      terminal_resize_atomic [OF sample_reachable [of sample_env] surjective_pairing, of layout64 4 3] f by simp
qed

text \<open>
  C5 (terminal_fault_is_final): once a feed or the end of input has reported an error, every later
  feed and finish reports the same error and changes nothing; and a call that reports success
  leaves no fault recorded.
\<close>

theorem terminal_fault_is_final:
  assumes "feed_terminal env lay bs s = (s', r) \<or> finish_input env lay s = (s', r)"
  shows "case r of
      Inl e \<Rightarrow> feed_terminal env lay later s' = (s', Inl e) \<and> finish_input env lay s' = (s', Inl e) \<and>
        feed_reads env lay chunks s' = (s', Inl e)
    | Inr _ \<Rightarrow> fault (core s') = None"
proof (cases r)
  case (Inl e)
  then have f: "fault (core s') = Some e"
    using assms by (auto simp: feed_terminal_def finish_input_def fault_result_def Let_def case_prod_beta split: option.splits)
  then have "feed_terminal env lay later s' = (s', Inl e)" for later by (simp add: feed_terminal_def)
  moreover from this have "feed_reads env lay chunks s' = (s', Inl e)" using f by (induction chunks) (simp_all add: fault_result_def)
  ultimately show ?thesis using Inl f by (simp add: finish_input_def)
next
  case (Inr u)
  then show ?thesis
    using assms by (auto simp: feed_terminal_def finish_input_def fault_result_def Let_def case_prod_beta split: option.splits)
qed


definition nearly_exhausted :: terminal_state where
  "nearly_exhausted = sample_terminal\<lparr>core := (core sample_terminal)\<lparr>core_ids := \<lparr>next_id = None\<rparr>\<rparr>\<rparr>"

theorem terminal_fault_is_final_witness:
  "let r = feed_terminal sample_env layout64 [0x0a, 0x0a, 0x41] nearly_exhausted in
   snd r = Inl LineIdentityExhausted \<and> feed_terminal sample_env layout64 [0x42] (fst r) = (fst r, Inl LineIdentityExhausted)"
proof -
  let ?r = "feed_terminal sample_env layout64 [0x0a, 0x0a, 0x41] nearly_exhausted"
  have e: "snd ?r = Inl LineIdentityExhausted" by code_simp
  have "?r = (fst ?r, snd ?r)" by simp
  from terminal_fault_is_final [OF disjI1 [OF this], of "[0x42]" "[]"] e show ?thesis by (simp add: Let_def)
qed

text \<open>
  C38 (restore_keeps_active_unit): DECRC (\<open>ESC 8\<close>) and \<open>CSI u\<close> restore the same cursor and pen, but
  only \<open>CSI u\<close> ends the active unit: after \<open>ESC 8\<close> a combining mark is still appended to the cell
  the cursor has left.
\<close>

theorem restore_keeps_active_unit:
  assumes "fault t = None"
  shows "current (dispatch_esc lay 0x38 False t) = current (dispatch_csi lay ps None False 0x75 t) \<and>
    active_unit (dispatch_esc lay 0x38 False t) = active_unit t \<and>
    active_unit (dispatch_csi lay ps None False 0x75 t) = None"
proof -
  have "active_unit (fst (on_current f t)) = active_unit t" for f t by (simp add: on_current_def case_prod_beta Let_def)
  moreover have "current (fst (on_current f (invalidate_active_grapheme t))) = current (fst (on_current f t))" for f t
    by (simp add: on_current_def case_prod_beta Let_def) (simp add: invalidate_active_grapheme_def)
  ultimately show ?thesis using assms
    by (simp add: dispatch_esc_def dispatch_csi_def csi_command_def Let_def case_prod_beta) (simp add: invalidate_active_grapheme_def)
qed

definition one_letter :: terminal_core where
  "one_letter = perform sample_env layout64 (Print 0x62) (core sample_terminal)"

theorem restore_keeps_active_unit_witness:
  "map_option ag_col (active_unit (dispatch_esc layout64 0x38 False one_letter)) = Some 0 \<and>
   active_unit (dispatch_csi layout64 [] None False 0x75 one_letter) = None"
proof -
  have "Option.is_none (fault one_letter)" by code_simp
  then have f: "fault one_letter = None" by (simp add: Option.is_none_def split: option.splits)
  have "map_option ag_col (active_unit one_letter) = Some 0" by code_simp
  with restore_keeps_active_unit [OF f, of layout64 "[]"] show ?thesis by simp
qed

end
