(* ===== verification/Wire.thy ===== *)
theory Wire
  imports Prelude
begin

text \<open>
  The 24-byte frame envelope of the local protocol (\<open>src/crates/seyal-protocol/src/framing/envelope.rs\<close>)
  and the contract every payload codec of the protocol keeps.  Integers on the wire have a fixed
  width, so a field is a word of that width; an identifier is its \<open>u128\<close> (\<open>src/crates/seyal-core\<close>).
  A borrowed \<open>str\<close> is its bytes, which are well-formed UTF-8.
\<close>

named_theorems wire_simps \<open>computing with encoded fields\<close>
named_theorems wire_defs \<open>encoders, decoders and validators\<close>

type_synonym u16 = "16 word"
type_synonym u32 = "32 word"
type_synonym u64 = "64 word"
type_synonym u128 = "128 word"

section \<open>Little-endian fields\<close>

primrec le_digits :: "nat \<Rightarrow> nat \<Rightarrow> byte list" where
  "le_digits 0 x = []"
| "le_digits (Suc n) x = of_nat x # le_digits n (x div 256)"

primrec le_value :: "byte list \<Rightarrow> nat" where
  "le_value [] = 0"
| "le_value (b # bs) = unat b + 256 * le_value bs"

text \<open>\<open>to_le_bytes\<close> and \<open>from_le_bytes\<close> of the unsigned integer types.\<close>

definition to_le :: "'a::len word \<Rightarrow> byte list" where
  "to_le w = le_digits (LENGTH('a) div 8) (unat w)"

definition from_le :: "byte list \<Rightarrow> 'a::len word" where
  "from_le bs = of_nat (le_value bs)"

lemma zero_digits: "le_digits n 0 = replicate n 0"
  by (induction n) simp_all

lemma byte_less: "unat (b :: byte) < 256"
  using unsigned_less [of b] by simp

lemma length_le_digits [simp]: "length (le_digits n x) = n"
  by (induction n arbitrary: x) simp_all

lemma le_value_digits: "le_value (le_digits n x) = x mod 256 ^ n"
proof (induction n arbitrary: x)
  case (Suc n)
  have "unat (of_nat x :: byte) = x mod 256" by (simp add: unat_of_nat take_bit_eq_mod)
  then show ?case using Suc mod_mult2_eq [of x 256 "256 ^ n"] by simp
qed simp

lemma le_digits_value: "le_digits (length bs) (le_value bs) = bs"
proof (induction bs)
  case (Cons b bs)
  have b: "unat b < 256" by (rule byte_less)
  have "(of_nat (unat b + 256 * le_value bs) :: byte) = b"
  proof -
    have "(of_nat 256 :: byte) = 0" by (simp add: word_of_nat_eq_0_iff)
    then show ?thesis by (simp only: of_nat_add of_nat_mult) simp
  qed
  then show ?case using Cons b by (simp only: le_value.simps length_Cons le_digits.simps div_mult_self4) simp
qed simp

lemma le_value_bound: "le_value bs < 256 ^ length bs"
proof (induction bs)
  case (Cons b bs)
  have "unat b < 256" by (rule byte_less)
  then show ?case using Cons by simp
qed simp


lemma to_le_length: "length (to_le (w :: 'a::len word)) = LENGTH('a) div 8"
  by (simp add: to_le_def)

lemma from_to_le:
  assumes "8 dvd LENGTH('a)"
  shows "from_le (to_le w) = (w :: 'a::len word)"
proof -
  have "(256 :: nat) ^ (LENGTH('a) div 8) = 2 ^ LENGTH('a)"
    using assms power_mult [of "2 :: nat" 8 "LENGTH('a) div 8"] by simp
  moreover have "unat w < 2 ^ LENGTH('a)" by (rule unsigned_less)
  ultimately show ?thesis by (simp add: to_le_def from_le_def le_value_digits)
qed

lemma to_from_le:
  assumes "8 dvd LENGTH('a)" "length bs = LENGTH('a) div 8"
  shows "to_le (from_le bs :: 'a::len word) = bs"
proof -
  have "(256 :: nat) ^ length bs = 2 ^ LENGTH('a)"
    using assms power_mult [of "2 :: nat" 8 "LENGTH('a) div 8"] by simp
  then have "unat (of_nat (le_value bs) :: 'a word) = le_value bs"
    using le_value_bound [of bs] by (simp add: unat_of_nat take_bit_eq_mod)
  then show ?thesis using le_digits_value [of bs] assms(2) by (simp add: to_le_def from_le_def)
qed

lemma from_le_eq:
  assumes "8 dvd LENGTH('a)" "length bs = LENGTH('a) div 8"
  shows "from_le bs = (w :: 'a::len word) \<longleftrightarrow> bs = to_le w"
  using from_to_le [OF assms(1), of w] to_from_le [OF assms] by metis

section \<open>Framing errors\<close>

datatype framing_error =
    TruncatedHeader | InvalidMagic | NonzeroReserved | OversizedPayload | LengthOverflow
  | UnsupportedMajorVersion | UnsupportedMinorVersion | UnknownMessageType | TruncatedPayload
  | ExactLengthMismatch | MalformedPayload

type_synonym 'a wire = "framing_error + 'a"

definition is_fatal :: "framing_error \<Rightarrow> bool" where
  "is_fatal e \<longleftrightarrow> e \<noteq> UnknownMessageType"

text \<open>The \<open>?\<close> operator.\<close>

definition bind_wire :: "'a wire \<Rightarrow> ('a \<Rightarrow> 'b wire) \<Rightarrow> 'b wire" where
  "bind_wire r f = (case r of Inl e \<Rightarrow> Inl e | Inr x \<Rightarrow> f x)"

definition ok_or :: "framing_error \<Rightarrow> 'a option \<Rightarrow> 'a wire" where
  "ok_or e m = (case m of Some x \<Rightarrow> Inr x | None \<Rightarrow> Inl e)"

definition exact_len :: "byte list \<Rightarrow> nat \<Rightarrow> unit wire" where
  "exact_len bs expected = (if length bs \<noteq> expected then Inl ExactLengthMismatch else Inr ())"

datatype error_code =
    UnsupportedVersion | UnknownMessage | InvalidState | InvalidExecution | InvalidAttachment | StaleIdentity
  | PermissionDenied | ControllerBusy | CapacityExceeded | Backpressure | InvalidGeometry | DisplayUnavailable
  | MalformedPayloadCode | InternalFailure | InvalidWorkspace | UnsupportedLaunchProfile | LaunchPolicyRejected

primrec error_code_u16 :: "error_code \<Rightarrow> u16" where
  "error_code_u16 UnsupportedVersion = 1" | "error_code_u16 UnknownMessage = 2" | "error_code_u16 InvalidState = 3"
| "error_code_u16 InvalidExecution = 4" | "error_code_u16 InvalidAttachment = 5" | "error_code_u16 StaleIdentity = 6"
| "error_code_u16 PermissionDenied = 7" | "error_code_u16 ControllerBusy = 8" | "error_code_u16 CapacityExceeded = 9"
| "error_code_u16 Backpressure = 10" | "error_code_u16 InvalidGeometry = 11" | "error_code_u16 DisplayUnavailable = 12"
| "error_code_u16 MalformedPayloadCode = 13" | "error_code_u16 InternalFailure = 14" | "error_code_u16 InvalidWorkspace = 15"
| "error_code_u16 UnsupportedLaunchProfile = 16" | "error_code_u16 LaunchPolicyRejected = 17"

definition error_code_from_u16 :: "u16 \<Rightarrow> error_code option" where
  "error_code_from_u16 = map_of [(1, UnsupportedVersion), (2, UnknownMessage), (3, InvalidState), (4, InvalidExecution),
     (5, InvalidAttachment), (6, StaleIdentity), (7, PermissionDenied), (8, ControllerBusy), (9, CapacityExceeded),
     (10, Backpressure), (11, InvalidGeometry), (12, DisplayUnavailable), (13, MalformedPayloadCode), (14, InternalFailure),
     (15, InvalidWorkspace), (16, UnsupportedLaunchProfile), (17, LaunchPolicyRejected)]"

section \<open>The envelope\<close>

definition MAGIC :: "byte list" where
  "MAGIC = [0x53, 0x45, 0x59, 0x41, 0x4C, 0x49, 0x50, 0x43]"

definition HEADER_LEN :: nat where "HEADER_LEN = 24"
definition MAJOR :: u16 where "MAJOR = 1"
definition MINOR :: u16 where "MINOR = 0"
definition MAX_FRAME_PAYLOAD :: nat where "MAX_FRAME_PAYLOAD = 262144"
definition MAX_INPUT_BYTES :: nat where "MAX_INPUT_BYTES = 65536"
definition MAX_EXECUTION_LIST_ENTRIES :: nat where "MAX_EXECUTION_LIST_ENTRIES = 512"

record frame_header =
  fh_message_type :: u16
  fh_flags :: u16
  fh_payload_len :: u32

definition new_frame_header :: "u16 \<Rightarrow> u32 \<Rightarrow> frame_header" where
  "new_frame_header message_type payload_len = \<lparr>fh_message_type = message_type, fh_flags = 0, fh_payload_len = payload_len\<rparr>"

definition encode_header :: "frame_header \<Rightarrow> byte list" where
  "encode_header h = MAGIC @ to_le MAJOR @ to_le MINOR @ to_le (fh_message_type h) @ to_le (fh_flags h)
     @ to_le (fh_payload_len h) @ to_le (0 :: u32)"

text \<open>
  A payload length is at most \<open>MAX_FRAME_PAYLOAD\<close> when the final \<open>checked_add\<close> is reached, so its
  overflow branch is written with the bound of \<open>usize\<close>.
\<close>

definition decode_header :: "byte list \<Rightarrow> frame_header wire" where
  "decode_header bs =
    (if length bs < HEADER_LEN then Inl TruncatedHeader
     else if slice 0 8 bs \<noteq> MAGIC then Inl InvalidMagic
     else
       let major = from_le (slice 8 10 bs); minor = from_le (slice 10 12 bs);
           message_type = from_le (slice 12 14 bs); flags = from_le (slice 14 16 bs);
           payload_len = from_le (slice 16 20 bs); reserved = (from_le (slice 20 24 bs) :: u32)
       in if reserved \<noteq> 0 then Inl NonzeroReserved
          else if major \<noteq> MAJOR then Inl UnsupportedMajorVersion
          else if minor \<noteq> MINOR then Inl UnsupportedMinorVersion
          else if flags \<noteq> 0 then Inl MalformedPayload
          else if unat payload_len > MAX_FRAME_PAYLOAD then Inl OversizedPayload
          else if checked_add u64_max HEADER_LEN (unat payload_len) = None then Inl LengthOverflow
          else Inr \<lparr>fh_message_type = message_type, fh_flags = flags, fh_payload_len = payload_len\<rparr>)"

section \<open>Computing with encoded fields\<close>

lemma to_le_lengths [wire_simps, simp]:
  "length (to_le (a :: byte)) = 1" "length (to_le (b :: u16)) = 2" "length (to_le (c :: u32)) = 4"
  "length (to_le (d :: u64)) = 8" "length (to_le (e :: u128)) = 16"
  by (simp_all add: to_le_length)

lemma from_to_le_width [wire_simps, simp]:
  "from_le (to_le (b :: u16)) = b" "from_le (to_le (c :: u32)) = c" "from_le (to_le (d :: u64)) = d" "from_le (to_le (e :: u128)) = e"
  by (simp_all add: from_to_le)

lemma to_from_le_width [wire_simps]:
  "length bs = 2 \<Longrightarrow> to_le (from_le bs :: u16) = bs" "length bs = 4 \<Longrightarrow> to_le (from_le bs :: u32) = bs"
  "length bs = 8 \<Longrightarrow> to_le (from_le bs :: u64) = bs" "length bs = 16 \<Longrightarrow> to_le (from_le bs :: u128) = bs"
  by (simp_all add: to_from_le)

lemma length_MAGIC [wire_simps, simp]: "length MAGIC = 8"
  by (simp add: MAGIC_def)

lemma unat_of_nat_u16 [wire_simps]: "n < 65536 \<Longrightarrow> unat (of_nat n :: u16) = n"
  by (simp add: unat_of_nat take_bit_eq_mod)

lemma unat_of_nat_u32 [wire_simps]: "n < 4294967296 \<Longrightarrow> unat (of_nat n :: u32) = n"
  by (simp add: unat_of_nat take_bit_eq_mod)

lemma slice_zero [wire_simps, simp]: "slice a 0 xs = []"
  by (simp add: slice_def)

lemma slice_all [wire_simps]: "length xs \<le> b \<Longrightarrow> slice 0 b xs = xs"
  by (simp add: slice_def)

lemma slice_after [wire_simps]: "length xs \<le> a \<Longrightarrow> slice a b xs = []"
  by (simp add: slice_def)

lemma slice_append [wire_simps]: "slice a b (xs @ ys) = slice a b xs @ slice (a - length xs) (b - length xs) ys"
proof -
  have "b - a - (length xs - a) = b - length xs - (a - length xs)" by arith
  then show ?thesis by (simp add: slice_def)
qed

lemma slice_Cons [wire_simps]:
  "0 < a \<Longrightarrow> slice a b (x # xs) = slice (a - 1) (b - 1) xs" "0 < b \<Longrightarrow> slice 0 b (x # xs) = x # slice 0 (b - 1) xs"
  by (cases a; cases b; simp add: slice_def)+

lemmas nth_pieces [wire_simps] = nth_append nth_Cons'

lemma bind_wire_Inr [wire_simps, simp]:
  "bind_wire (Inr x) f = f x" "bind_wire (Inl e) f = Inl e"
  by (simp_all add: bind_wire_def)

lemma bind_wire_eq [wire_simps]: "bind_wire r f = Inr y \<longleftrightarrow> (\<exists>x. r = Inr x \<and> f x = Inr y)"
  by (cases r) simp_all

lemma ok_or_simps [wire_simps, simp]: "ok_or e (Some x) = Inr x" "ok_or e None = Inl e"
  by (simp_all add: ok_or_def)

lemma ok_or_eq [wire_simps]: "ok_or e m = Inr x \<longleftrightarrow> m = Some x"
  by (cases m) simp_all

lemma exact_len_eq [wire_simps]: "exact_len bs n = Inr u \<longleftrightarrow> length bs = n"
  by (simp add: exact_len_def)

lemma exact_len_ok [wire_simps]: "length bs = n \<Longrightarrow> exact_len bs n = Inr ()"
  by (simp add: exact_len_def)

lemma u32_length_prefix: "length b = 4 \<Longrightarrow> length c = unat (from_le b :: u32) \<Longrightarrow> to_le (of_nat (length c) :: u32) = b"
  by (simp add: wire_simps)

lemma u16_length_prefix: "length b = 2 \<Longrightarrow> length c = unat (from_le b :: u16) \<Longrightarrow> to_le (of_nat (length c) :: u16) = b"
  by (simp add: wire_simps)

lemma if_Inl_eq [wire_simps]: "(if c then Inl e else r) = Inr y \<longleftrightarrow> \<not> c \<and> r = Inr y"
  by simp

lemmas piece_simps = map_eq_Cons_conv from_le_eq Let_def

lemma length_one [wire_simps]: "length xs = Suc 0 \<longleftrightarrow> (\<exists>x. xs = [x])"
  by (simp add: length_Suc_conv)

lemma error_code_u16_iff [wire_simps]: "error_code_from_u16 v = Some e \<longleftrightarrow> v = error_code_u16 e"
  by (cases e) (auto simp: error_code_from_u16_def split: if_splits)

text \<open>A list whose length is known falls into pieces of the widths that add up to it.\<close>

lemma chop: "length bs = sum_list ns \<Longrightarrow> \<exists>xss. bs = concat xss \<and> map length xss = ns"
proof (induction ns arbitrary: bs)
  case (Cons n ns)
  have "length (drop n bs) = sum_list ns" using Cons.prems by simp
  from Cons.IH [OF this] obtain xss where x: "drop n bs = concat xss" "map length xss = ns" by blast
  have "bs = concat (take n bs # xss)" by (simp flip: x(1))
  moreover have "map length (take n bs # xss) = n # ns" using Cons.prems x(2) by simp
  ultimately show ?case by (intro exI [of _ "take n bs # xss"] conjI)
qed simp

lemma chop_prefix: "sum_list ns \<le> length bs \<Longrightarrow> \<exists>xss r. bs = concat xss @ r \<and> map length xss = ns"
  using chop [of "take (sum_list ns) bs" ns] by (metis append_take_drop_id length_take min.absorb2)

section \<open>The contract of a codec\<close>

text \<open>
  A message is valid when its encoder may be called on it.  Decoding the bytes of a valid message
  gives the message back and a decoder yields valid messages only.  A codec is strict when, in
  addition, bytes that decode are the one encoding of their message: no two byte strings stand
  for the same message.
\<close>

locale lenient_codec =
  fixes encode :: "'a \<Rightarrow> byte list" and decode :: "byte list \<Rightarrow> 'a wire" and valid :: "'a \<Rightarrow> bool"
  assumes decode_encode: "valid x \<Longrightarrow> decode (encode x) = Inr x"
    and decode_valid: "decode bs = Inr x \<Longrightarrow> valid x"
begin

lemma encode_injective: "valid x \<Longrightarrow> valid y \<Longrightarrow> encode x = encode y \<Longrightarrow> x = y"
  using decode_encode by (metis Inr_inject)

end

locale codec = lenient_codec +
  assumes encode_decode: "decode bs = Inr x \<Longrightarrow> encode x = bs"
begin

lemma decode_iff: "decode bs = Inr x \<longleftrightarrow> valid x \<and> bs = encode x"
  using decode_encode decode_valid encode_decode by blast

lemma decode_injective: "decode bs = Inr x \<Longrightarrow> decode bs' = Inr x \<Longrightarrow> bs = bs'"
  using encode_decode by metis

end

text \<open>A payload of fixed size is a codec when it is one on the pieces its fields cut it into.\<close>

lemma fixed_codecI:
  assumes "\<And>x. valid x \<Longrightarrow> decode (encode x) = Inr x"
    and len: "\<And>bs x. decode bs = Inr x \<Longrightarrow> length bs = sum_list ns"
    and sound: "\<And>xss x. map length xss = ns \<Longrightarrow> decode (concat xss) = Inr x \<Longrightarrow> valid x \<and> encode x = concat xss"
  shows "codec encode decode valid"
proof
  fix bs x assume d: "decode bs = Inr x"
  from chop [OF len [OF d]] obtain xss where "bs = concat xss" "map length xss = ns" by blast
  with sound [of xss x] d show "valid x" "encode x = bs" by simp_all
qed (rule assms(1))

definition header_valid :: "frame_header \<Rightarrow> bool" where
  "header_valid h \<longleftrightarrow> fh_flags h = 0 \<and> unat (fh_payload_len h) \<le> MAX_FRAME_PAYLOAD"

lemma decode_header_prefix: "HEADER_LEN \<le> length bs \<Longrightarrow> decode_header bs = decode_header (take HEADER_LEN bs)"
  by (simp add: decode_header_def HEADER_LEN_def slice_def take_drop min_def)

lemma header_roundtrip: "header_valid h \<Longrightarrow> decode_header (encode_header h) = Inr h"
  by (cases h) (simp add: header_valid_def decode_header_def encode_header_def HEADER_LEN_def MAX_FRAME_PAYLOAD_def
      checked_add_def Let_def wire_simps)

lemma header_canonical:
  assumes "decode_header bs = Inr h" "length bs = HEADER_LEN"
  shows "header_valid h \<and> encode_header h = bs"
  using assms chop [of bs "[8, 2, 2, 2, 2, 4, 4]"]
  by (auto simp: header_valid_def decode_header_def encode_header_def HEADER_LEN_def Let_def map_eq_Cons_conv wire_simps from_le_eq split: if_splits)

section \<open>Sequences of records\<close>

text \<open>
  The loop of the decoders of repeated records: \<open>n\<close> records of \<open>w\<close> bytes each, read at \<open>offset\<close>,
  \<open>offset + w\<close> and so on; the first error ends it.
\<close>

primrec read_items :: "(nat \<Rightarrow> byte list \<Rightarrow> 'a wire) \<Rightarrow> nat \<Rightarrow> nat \<Rightarrow> nat \<Rightarrow> byte list \<Rightarrow> 'a list wire" where
  "read_items dec w 0 offset bs = Inr []"
| "read_items dec w (Suc n) offset bs =
    bind_wire (dec offset bs) (\<lambda>x. bind_wire (read_items dec w n (offset + w) bs) (\<lambda>xs. Inr (x # xs)))"

text \<open>What such a loop needs of its record: a fixed width, and a codec that reads only the record.\<close>

locale item_codec =
  fixes enc :: "'a \<Rightarrow> byte list" and dec :: "nat \<Rightarrow> byte list \<Rightarrow> 'a wire" and w :: nat and valid :: "'a \<Rightarrow> bool"
  assumes length_enc: "length (enc x) = w"
    and dec_enc: "valid x \<Longrightarrow> dec (length pre) (pre @ enc x @ post) = Inr x"
    and dec_sound: "length xs = w \<Longrightarrow> dec (length pre) (pre @ xs @ post) = Inr x \<Longrightarrow> valid x \<and> enc x = xs"
begin

lemma length_items: "length (concat (map enc xs)) = length xs * w"
  by (induction xs) (simp_all add: length_enc)

lemma read_encoded:
  "list_all valid xs \<Longrightarrow> read_items dec w (length xs) (length pre) (pre @ concat (map enc xs) @ post) = Inr xs"
proof (induction xs arbitrary: pre)
  case (Cons x xs)
  from Cons.IH [of "pre @ enc x"] Cons.prems have "read_items dec w (length xs) (length pre + w) (pre @ enc x @ concat (map enc xs) @ post) = Inr xs"
    by (simp add: length_enc)
  moreover have "dec (length pre) (pre @ enc x @ concat (map enc xs) @ post) = Inr x" using Cons.prems dec_enc by simp
  ultimately show ?case by simp
qed simp

lemma read_sound:
  "length mid = n * w \<Longrightarrow> read_items dec w n (length pre) (pre @ mid @ post) = Inr xs \<Longrightarrow>
   length xs = n \<and> list_all valid xs \<and> concat (map enc xs) = mid"
proof (induction n arbitrary: pre mid xs)
  case (Suc n)
  define a where "a = take w mid"
  define b where "b = drop w mid"
  have m: "mid = a @ b" and l: "length a = w" "length b = n * w" using Suc.prems(1) by (simp_all add: a_def b_def)
  from Suc.prems(2) obtain x ys where
    x: "dec (length pre) (pre @ a @ b @ post) = Inr x" "read_items dec w n (length pre + w) (pre @ a @ b @ post) = Inr ys" "xs = x # ys"
    by (auto simp: m wire_simps)
  have "valid x \<and> enc x = a" using dec_sound [of a pre "b @ post" x] x(1) l(1) by simp
  moreover have "length ys = n \<and> list_all valid ys \<and> concat (map enc ys) = b"
    using Suc.IH [of b "pre @ a" ys] x(2) l by simp
  ultimately show ?case using x(3) m by simp
qed (simp add: wire_simps)

end

end
