(* ===== verification/Wire_Keys.thy ===== *)
theory Wire_Keys
  imports Wire
begin

text \<open>
  The fixed-size payloads of \<open>src/crates/seyal-protocol/src/pass7\<close> for keys and correlated resizes:
  \<open>TerminalKey\<close>, \<open>TerminalKeyV2\<close> (terminal_key.rs), \<open>ResizeRequest\<close> and \<open>ResizeResult\<close> (resize.rs).
  Each is shown to be a codec.
\<close>

unbundle bit_operations_syntax

section \<open>Terminal keys, version 1\<close>

datatype terminal_key_kind =
  TkEnter | TkTab | TkBackspace | TkEscape | TkArrowUp | TkArrowDown | TkArrowRight | TkArrowLeft | TkControlAscii

primrec terminal_key_kind_u16 :: "terminal_key_kind \<Rightarrow> u16" where
  "terminal_key_kind_u16 TkEnter = 1" | "terminal_key_kind_u16 TkTab = 2" | "terminal_key_kind_u16 TkBackspace = 3"
| "terminal_key_kind_u16 TkEscape = 4" | "terminal_key_kind_u16 TkArrowUp = 5" | "terminal_key_kind_u16 TkArrowDown = 6"
| "terminal_key_kind_u16 TkArrowRight = 7" | "terminal_key_kind_u16 TkArrowLeft = 8" | "terminal_key_kind_u16 TkControlAscii = 9"

definition terminal_key_kind_from_u16 :: "u16 \<Rightarrow> terminal_key_kind wire" where
  "terminal_key_kind_from_u16 v = ok_or MalformedPayload (map_of [(1, TkEnter), (2, TkTab), (3, TkBackspace), (4, TkEscape),
     (5, TkArrowUp), (6, TkArrowDown), (7, TkArrowRight), (8, TkArrowLeft), (9, TkControlAscii)] v)"

definition KEY_NONE :: u16 where "KEY_NONE = 0"
definition KEY_CONTROL :: u16 where "KEY_CONTROL = 1"

definition key_modifiers_from_bits :: "u16 \<Rightarrow> u16 wire" where
  "key_modifiers_from_bits bits =
    (if bits = 0 then Inr KEY_NONE else if bits = 1 then Inr KEY_CONTROL else Inl MalformedPayload)"

definition valid_control_ascii_scalar :: "u32 \<Rightarrow> bool" where
  "valid_control_ascii_scalar s \<longleftrightarrow> s = 0x20 \<or> s = 0x3f \<or> s = 0x40 \<or> (0x41 \<le> s \<and> s \<le> 0x5f)"

record terminal_key =
  tk_attachment_id :: u128
  tk_kind :: terminal_key_kind
  tk_modifiers :: u16
  tk_scalar :: u32

definition encode_terminal_key :: "terminal_key \<Rightarrow> byte list" where
  "encode_terminal_key k = to_le (tk_attachment_id k) @ to_le (terminal_key_kind_u16 (tk_kind k)) @ to_le (tk_modifiers k)
     @ to_le (tk_scalar k)"

definition validate_terminal_key :: "terminal_key \<Rightarrow> unit wire" where
  "validate_terminal_key k =
    (case tk_kind k of
       TkControlAscii \<Rightarrow>
         if tk_modifiers k \<noteq> KEY_CONTROL \<or> \<not> valid_control_ascii_scalar (tk_scalar k) then Inl MalformedPayload else Inr ()
     | _ \<Rightarrow> if tk_modifiers k \<noteq> KEY_NONE \<or> tk_scalar k \<noteq> 0 then Inl MalformedPayload else Inr ())"

definition decode_terminal_key :: "byte list \<Rightarrow> terminal_key wire" where
  "decode_terminal_key bs =
    bind_wire (exact_len bs 24) (\<lambda>_.
    bind_wire (terminal_key_kind_from_u16 (from_le (slice 16 18 bs))) (\<lambda>kind.
    bind_wire (key_modifiers_from_bits (from_le (slice 18 20 bs))) (\<lambda>mods.
    let value = \<lparr>tk_attachment_id = from_le (slice 0 16 bs), tk_kind = kind, tk_modifiers = mods,
                 tk_scalar = from_le (slice 20 24 bs)\<rparr>
    in bind_wire (validate_terminal_key value) (\<lambda>_. Inr value))))"

lemma terminal_key_kind_iff [wire_simps]:
  "terminal_key_kind_from_u16 v = Inr k \<longleftrightarrow> v = terminal_key_kind_u16 k" "terminal_key_kind_from_u16 (terminal_key_kind_u16 k) = Inr k"
  by (cases k; auto simp: terminal_key_kind_from_u16_def split: if_splits)+

lemma key_modifiers_iff [wire_simps]: "key_modifiers_from_bits v = Inr m \<longleftrightarrow> v = m \<and> (m = KEY_NONE \<or> m = KEY_CONTROL)"
  by (auto simp: key_modifiers_from_bits_def KEY_NONE_def KEY_CONTROL_def)

lemma terminal_key_modifiers_ok: "validate_terminal_key k = Inr () \<Longrightarrow> tk_modifiers k = KEY_NONE \<or> tk_modifiers k = KEY_CONTROL"
  by (auto simp: validate_terminal_key_def split: terminal_key_kind.splits if_splits)

interpretation terminal_key: codec encode_terminal_key decode_terminal_key "\<lambda>k. validate_terminal_key k = Inr ()"
  by (rule fixed_codecI [of _ _ _ "[16, 2, 2, 4]"]; case_tac x;
      auto simp: decode_terminal_key_def encode_terminal_key_def piece_simps wire_simps dest: terminal_key_modifiers_ok)

section \<open>Terminal keys, version 2\<close>

datatype key_v2_kind = K2Enter | K2Tab | K2Backspace | K2Escape | K2ArrowUp | K2ArrowDown | K2ArrowRight | K2ArrowLeft | K2Home | K2End | K2Insert | K2Delete | K2PageUp | K2PageDown | K2Function | K2Keypad | K2Ascii

primrec key_v2_kind_u16 :: "key_v2_kind \<Rightarrow> u16" where
  "key_v2_kind_u16 K2Enter = 1" | "key_v2_kind_u16 K2Tab = 2" | "key_v2_kind_u16 K2Backspace = 3"
| "key_v2_kind_u16 K2Escape = 4" | "key_v2_kind_u16 K2ArrowUp = 5" | "key_v2_kind_u16 K2ArrowDown = 6"
| "key_v2_kind_u16 K2ArrowRight = 7" | "key_v2_kind_u16 K2ArrowLeft = 8" | "key_v2_kind_u16 K2Home = 9"
| "key_v2_kind_u16 K2End = 10" | "key_v2_kind_u16 K2Insert = 11" | "key_v2_kind_u16 K2Delete = 12"
| "key_v2_kind_u16 K2PageUp = 13" | "key_v2_kind_u16 K2PageDown = 14" | "key_v2_kind_u16 K2Function = 15"
| "key_v2_kind_u16 K2Keypad = 16" | "key_v2_kind_u16 K2Ascii = 17"

definition key_v2_kind_from_u16 :: "u16 \<Rightarrow> key_v2_kind wire" where
  "key_v2_kind_from_u16 v = ok_or MalformedPayload (map_of [(1, K2Enter), (2, K2Tab), (3, K2Backspace), (4, K2Escape), (5, K2ArrowUp), (6, K2ArrowDown), (7, K2ArrowRight), (8, K2ArrowLeft), (9, K2Home), (10, K2End), (11, K2Insert), (12, K2Delete), (13, K2PageUp), (14, K2PageDown), (15, K2Function), (16, K2Keypad), (17, K2Ascii)] v)"

lemma key_v2_kind_iff [wire_simps]:
  "key_v2_kind_from_u16 v = Inr k \<longleftrightarrow> v = key_v2_kind_u16 k" "key_v2_kind_from_u16 (key_v2_kind_u16 k) = Inr k"
  by (cases k; auto simp: key_v2_kind_from_u16_def split: if_splits)+

text \<open>\<open>TerminalKeyV2Modifiers\<close> wraps its bits; both constructors refuse every bit above the third.\<close>

definition K2_SHIFT :: u16 where "K2_SHIFT = 1"
definition K2_ALT :: u16 where "K2_ALT = 2"
definition K2_CONTROL :: u16 where "K2_CONTROL = 4"

definition key_v2_modifiers_for_ffi :: "u16 \<Rightarrow> u16 option" where
  "key_v2_modifiers_for_ffi bits = (if bits AND NOT 7 \<noteq> 0 then None else Some bits)"

definition key_v2_modifiers_from_bits :: "u16 \<Rightarrow> u16 wire" where
  "key_v2_modifiers_from_bits bits = (if bits AND NOT 7 \<noteq> 0 then Inl MalformedPayload else Inr bits)"

datatype key_v2_event = K2Press | K2Repeat | K2Release

primrec key_v2_event_u8 :: "key_v2_event \<Rightarrow> byte" where
  "key_v2_event_u8 K2Press = 1" | "key_v2_event_u8 K2Repeat = 2" | "key_v2_event_u8 K2Release = 3"

definition key_v2_event_from_u8 :: "byte \<Rightarrow> key_v2_event wire" where
  "key_v2_event_from_u8 v = ok_or MalformedPayload (map_of [(1, K2Press), (2, K2Repeat), (3, K2Release)] v)"

lemma key_v2_event_iff [wire_simps]:
  "key_v2_event_from_u8 v = Inr k \<longleftrightarrow> v = key_v2_event_u8 k" "key_v2_event_from_u8 (key_v2_event_u8 k) = Inr k"
  by (cases k; auto simp: key_v2_event_from_u8_def split: if_splits)+

record terminal_key_v2 =
  k2_attachment_id :: u128
  k2_kind :: key_v2_kind
  k2_modifiers :: u16
  k2_value :: u32
  k2_event :: key_v2_event
  k2_shifted_ascii :: u32
  k2_action_id :: u32

definition KEY_V2_VERSION :: u16 where "KEY_V2_VERSION = 2"

definition encode_terminal_key_v2 :: "terminal_key_v2 \<Rightarrow> byte list" where
  "encode_terminal_key_v2 k = to_le (k2_attachment_id k) @ to_le (key_v2_kind_u16 (k2_kind k)) @ to_le (k2_modifiers k)
     @ to_le (k2_value k) @ [key_v2_event_u8 (k2_event k)] @ [0] @ to_le KEY_V2_VERSION @ to_le (k2_shifted_ascii k)
     @ to_le (k2_action_id k) @ to_le (0 :: u32)"

definition validate_terminal_key_v2 :: "terminal_key_v2 \<Rightarrow> unit wire" where
  "validate_terminal_key_v2 k =
    (if k2_action_id k = 0 then Inl MalformedPayload
     else case k2_kind k of
       K2Function \<Rightarrow>
         if \<not> (1 \<le> k2_value k \<and> k2_value k \<le> 12) \<or> k2_shifted_ascii k \<noteq> 0 then Inl MalformedPayload else Inr ()
     | K2Keypad \<Rightarrow> if \<not> k2_value k \<le> 16 \<or> k2_shifted_ascii k \<noteq> 0 then Inl MalformedPayload else Inr ()
     | K2Ascii \<Rightarrow>
         if \<not> (0x20 \<le> k2_value k \<and> k2_value k \<le> 0x7e) \<or> (0x41 \<le> k2_value k \<and> k2_value k \<le> 0x5a)
           \<or> k2_modifiers k AND (K2_ALT OR K2_CONTROL) = 0 then Inl MalformedPayload
         else if k2_modifiers k AND K2_SHIFT \<noteq> 0 then
           (if \<not> (0x20 \<le> k2_shifted_ascii k \<and> k2_shifted_ascii k \<le> 0x7e) then Inl MalformedPayload else Inr ())
         else if k2_shifted_ascii k \<noteq> 0 then Inl MalformedPayload else Inr ()
     | _ \<Rightarrow> if k2_value k \<noteq> 0 \<or> k2_shifted_ascii k \<noteq> 0 then Inl MalformedPayload else Inr ())"

definition decode_terminal_key_v2 :: "byte list \<Rightarrow> terminal_key_v2 wire" where
  "decode_terminal_key_v2 bs =
    bind_wire (exact_len bs 40) (\<lambda>_.
    if bs ! 25 \<noteq> 0 \<or> from_le (slice 26 28 bs) \<noteq> KEY_V2_VERSION \<or> from_le (slice 36 40 bs) \<noteq> (0 :: u32) then Inl MalformedPayload
    else
    bind_wire (key_v2_kind_from_u16 (from_le (slice 16 18 bs))) (\<lambda>kind.
    bind_wire (key_v2_modifiers_from_bits (from_le (slice 18 20 bs))) (\<lambda>mods.
    bind_wire (key_v2_event_from_u8 (bs ! 24)) (\<lambda>event.
    let value = \<lparr>k2_attachment_id = from_le (slice 0 16 bs), k2_kind = kind, k2_modifiers = mods,
                 k2_value = from_le (slice 20 24 bs), k2_event = event, k2_shifted_ascii = from_le (slice 28 32 bs),
                 k2_action_id = from_le (slice 32 36 bs)\<rparr>
    in bind_wire (validate_terminal_key_v2 value) (\<lambda>_. Inr value)))))"

text \<open>The modifier bits are an invariant of the type: every constructor establishes it.\<close>

definition key_v2_ok :: "terminal_key_v2 \<Rightarrow> bool" where
  "key_v2_ok k \<longleftrightarrow> validate_terminal_key_v2 k = Inr () \<and> k2_modifiers k AND NOT 7 = 0"

lemma key_v2_modifiers_iff [wire_simps]:
  "key_v2_modifiers_from_bits v = Inr m \<longleftrightarrow> v = m \<and> m AND NOT 7 = 0" "key_v2_modifiers_for_ffi v = Some m \<longleftrightarrow> v = m \<and> m AND NOT 7 = 0"
  by (auto simp: key_v2_modifiers_from_bits_def key_v2_modifiers_for_ffi_def)

interpretation terminal_key_v2: codec encode_terminal_key_v2 decode_terminal_key_v2 key_v2_ok
  by (rule fixed_codecI [of _ _ _ "[16, 2, 2, 4, 1, 1, 2, 4, 4, 4]"]; case_tac x;
      auto simp: decode_terminal_key_v2_def encode_terminal_key_v2_def key_v2_ok_def piece_simps wire_simps)

section \<open>Correlated resize\<close>

definition MAX_DISPLAY_ROWS :: u16 where "MAX_DISPLAY_ROWS = 256"
definition MAX_DISPLAY_COLUMNS :: u16 where "MAX_DISPLAY_COLUMNS = 512"

record resize_request =
  rq_attachment_id :: u128
  rq_request_id :: u64
  rq_rows :: u16
  rq_columns :: u16

definition encode_resize_request :: "resize_request \<Rightarrow> byte list" where
  "encode_resize_request r = to_le (rq_attachment_id r) @ to_le (rq_request_id r) @ to_le (rq_rows r) @ to_le (rq_columns r)
     @ to_le (0 :: u32)"

definition validate_resize_request :: "resize_request \<Rightarrow> unit wire" where
  "validate_resize_request r =
    (if rq_request_id r = 0 \<or> rq_rows r = 0 \<or> rq_columns r = 0 \<or> rq_rows r > MAX_DISPLAY_ROWS \<or> rq_columns r > MAX_DISPLAY_COLUMNS
     then Inl MalformedPayload else Inr ())"

definition decode_resize_request :: "byte list \<Rightarrow> resize_request wire" where
  "decode_resize_request bs =
    bind_wire (exact_len bs 32) (\<lambda>_.
    if from_le (slice 28 32 bs) \<noteq> (0 :: u32) then Inl MalformedPayload
    else
    let value = \<lparr>rq_attachment_id = from_le (slice 0 16 bs), rq_request_id = from_le (slice 16 24 bs),
                 rq_rows = from_le (slice 24 26 bs), rq_columns = from_le (slice 26 28 bs)\<rparr>
    in bind_wire (validate_resize_request value) (\<lambda>_. Inr value))"

interpretation resize_request: codec encode_resize_request decode_resize_request "\<lambda>r. validate_resize_request r = Inr ()"
  by (rule fixed_codecI [of _ _ _ "[16, 8, 2, 2, 4]"]; case_tac x;
      auto simp: decode_resize_request_def encode_resize_request_def piece_simps wire_simps)

datatype resize_result_code = ResizeApplied | ResizeError error_code

primrec resize_code_wire_value :: "resize_result_code \<Rightarrow> u16" where
  "resize_code_wire_value ResizeApplied = 0"
| "resize_code_wire_value (ResizeError e) = error_code_u16 e"

definition resize_code_from_u16 :: "u16 \<Rightarrow> resize_result_code wire" where
  "resize_code_from_u16 v =
    (if v = 0 then Inr ResizeApplied else ok_or MalformedPayload (map_option ResizeError (error_code_from_u16 v)))"

record resize_result =
  rr_attachment_id :: u128
  rr_request_id :: u64
  rr_result_code :: resize_result_code
  rr_detail_code :: u32
  rr_applied_generation :: u64

definition encode_resize_result :: "resize_result \<Rightarrow> byte list" where
  "encode_resize_result r = to_le (rr_attachment_id r) @ to_le (rr_request_id r) @ to_le (resize_code_wire_value (rr_result_code r))
     @ to_le (0 :: u16) @ to_le (rr_detail_code r) @ to_le (rr_applied_generation r)"

definition validate_resize_result :: "resize_result \<Rightarrow> unit wire" where
  "validate_resize_result r =
    (if rr_request_id r = 0 \<or> rr_detail_code r \<noteq> 0 then Inl MalformedPayload
     else case rr_result_code r of
       ResizeApplied \<Rightarrow> if rr_applied_generation r \<noteq> 0 then Inr () else Inl MalformedPayload
     | ResizeError _ \<Rightarrow> if rr_applied_generation r = 0 then Inr () else Inl MalformedPayload)"

definition decode_resize_result :: "byte list \<Rightarrow> resize_result wire" where
  "decode_resize_result bs =
    bind_wire (exact_len bs 40) (\<lambda>_.
    if from_le (slice 26 28 bs) \<noteq> (0 :: u16) then Inl MalformedPayload
    else
    bind_wire (resize_code_from_u16 (from_le (slice 24 26 bs))) (\<lambda>code.
    let value = \<lparr>rr_attachment_id = from_le (slice 0 16 bs), rr_request_id = from_le (slice 16 24 bs), rr_result_code = code,
                 rr_detail_code = from_le (slice 28 32 bs), rr_applied_generation = from_le (slice 32 40 bs)\<rparr>
    in bind_wire (validate_resize_result value) (\<lambda>_. Inr value)))"

lemma error_code_nonzero [wire_simps, simp]: "error_code_u16 e \<noteq> 0"
  by (cases e) simp_all

lemma resize_code_iff [wire_simps]:
  "resize_code_from_u16 v = Inr c \<longleftrightarrow> v = resize_code_wire_value c" "resize_code_from_u16 (resize_code_wire_value c) = Inr c"
  by (cases c; auto simp: resize_code_from_u16_def wire_simps)+

interpretation resize_result: codec encode_resize_result decode_resize_result "\<lambda>r. validate_resize_result r = Inr ()"
  by (rule fixed_codecI [of _ _ _ "[16, 8, 2, 2, 4, 8]"]; case_tac x;
      auto simp: decode_resize_result_def encode_resize_result_def piece_simps wire_simps)

end
