(* ===== verification/Wire_Control.thy ===== *)
theory Wire_Control
  imports Wire_Keys
begin

text \<open>
  The control payloads of \<open>src/crates/seyal-protocol/src/framing\<close>: hello, attach, input, selection,
  search, mouse, lifecycle and error messages (payload.rs) and the provisioning requests and
  results (execution.rs).  Each is shown to be a codec.
\<close>

section \<open>Hello\<close>

datatype role_kind = Observer | Controller

primrec role_kind_u8 :: "role_kind \<Rightarrow> byte" where
  "role_kind_u8 Observer = 0" | "role_kind_u8 Controller = 1"

definition role_kind_from_u8 :: "byte \<Rightarrow> role_kind wire" where
  "role_kind_from_u8 v = ok_or MalformedPayload (map_of [(0, Observer), (1, Controller)] v)"

lemma role_kind_iff [wire_simps]:
  "role_kind_from_u8 v = Inr k \<longleftrightarrow> v = role_kind_u8 k" "role_kind_from_u8 (role_kind_u8 k) = Inr k"
  by (cases k; auto simp: role_kind_from_u8_def split: if_splits)+

datatype lifecycle = LifeRunning | LifeTerminating | LifeFinalized

primrec lifecycle_u8 :: "lifecycle \<Rightarrow> byte" where
  "lifecycle_u8 LifeRunning = 0" | "lifecycle_u8 LifeTerminating = 1" | "lifecycle_u8 LifeFinalized = 2"

definition lifecycle_from_u8 :: "byte \<Rightarrow> lifecycle wire" where
  "lifecycle_from_u8 v = ok_or MalformedPayload (map_of [(0, LifeRunning), (1, LifeTerminating), (2, LifeFinalized)] v)"

lemma lifecycle_iff [wire_simps]:
  "lifecycle_from_u8 v = Inr k \<longleftrightarrow> v = lifecycle_u8 k" "lifecycle_from_u8 (lifecycle_u8 k) = Inr k"
  by (cases k; auto simp: lifecycle_from_u8_def split: if_splits)+

record client_hello =
  ch_client_capabilities :: u32

definition encode_client_hello :: "client_hello \<Rightarrow> byte list" where
  "encode_client_hello m = to_le (ch_client_capabilities m) @ to_le (0 :: u32)"

definition decode_client_hello :: "byte list \<Rightarrow> client_hello wire" where
  "decode_client_hello bs =
    bind_wire (exact_len bs 8) (\<lambda>_.
    if from_le (slice 4 8 bs) \<noteq> (0 :: u32) then Inl MalformedPayload
    else Inr \<lparr>ch_client_capabilities = from_le (slice 0 4 bs)\<rparr>)"

interpretation client_hello: codec encode_client_hello decode_client_hello "\<lambda>_. True"
  by (rule fixed_codecI [of _ _ _ "[4, 4]"]; case_tac x;
      auto simp: decode_client_hello_def encode_client_hello_def piece_simps wire_simps)

record server_hello =
  sh_runtime_id :: u128
  sh_server_capabilities :: u32
  sh_max_frame_payload :: u32
  sh_max_input_payload :: u32

definition encode_server_hello :: "server_hello \<Rightarrow> byte list" where
  "encode_server_hello m = to_le (sh_runtime_id m) @ to_le (sh_server_capabilities m) @ to_le (sh_max_frame_payload m)
     @ to_le (sh_max_input_payload m) @ to_le (0 :: u32)"

definition decode_server_hello :: "byte list \<Rightarrow> server_hello wire" where
  "decode_server_hello bs =
    bind_wire (exact_len bs 32) (\<lambda>_.
    if from_le (slice 28 32 bs) \<noteq> (0 :: u32) then Inl MalformedPayload
    else Inr \<lparr>sh_runtime_id = from_le (slice 0 16 bs), sh_server_capabilities = from_le (slice 16 20 bs),
              sh_max_frame_payload = from_le (slice 20 24 bs), sh_max_input_payload = from_le (slice 24 28 bs)\<rparr>)"

interpretation server_hello: codec encode_server_hello decode_server_hello "\<lambda>_. True"
  by (rule fixed_codecI [of _ _ _ "[16, 4, 4, 4, 4]"]; case_tac x;
      auto simp: decode_server_hello_def encode_server_hello_def piece_simps wire_simps)

section \<open>The list of executions\<close>

definition bool_u8 :: "bool \<Rightarrow> byte" where
  "bool_u8 b = (if b then 1 else 0)"

definition bool_from_u8 :: "byte \<Rightarrow> bool wire" where
  "bool_from_u8 v = (if v = 0 then Inr False else if v = 1 then Inr True else Inl MalformedPayload)"

lemma bool_u8_iff [wire_simps]: "bool_from_u8 v = Inr b \<longleftrightarrow> v = bool_u8 b" "bool_from_u8 (bool_u8 b) = Inr b"
  by (auto simp: bool_from_u8_def bool_u8_def)

record execution_entry =
  ee_execution_id :: u128
  ee_lifecycle :: lifecycle
  ee_has_controller :: bool
  ee_attachment_count :: u16

definition ENTRY_LEN :: nat where "ENTRY_LEN = 20"

definition encode_execution_entry :: "execution_entry \<Rightarrow> byte list" where
  "encode_execution_entry e = to_le (ee_execution_id e) @ [lifecycle_u8 (ee_lifecycle e)] @ [bool_u8 (ee_has_controller e)]
     @ to_le (ee_attachment_count e)"

definition decode_execution_entry :: "nat \<Rightarrow> byte list \<Rightarrow> execution_entry wire" where
  "decode_execution_entry offset bs =
    bind_wire (lifecycle_from_u8 (bs ! (offset + 16))) (\<lambda>life.
    bind_wire (bool_from_u8 (bs ! (offset + 17))) (\<lambda>ctl.
    Inr \<lparr>ee_execution_id = from_le (slice offset (offset + 16) bs), ee_lifecycle = life, ee_has_controller = ctl,
         ee_attachment_count = from_le (slice (offset + 18) (offset + 20) bs)\<rparr>))"

definition encode_execution_list :: "execution_entry list \<Rightarrow> byte list" where
  "encode_execution_list es = to_le (of_nat (length es) :: u16) @ to_le (0 :: u16) @ concat (map encode_execution_entry es)"

definition decode_execution_list :: "byte list \<Rightarrow> execution_entry list wire" where
  "decode_execution_list bs =
    (if length bs < 4 then Inl TruncatedPayload
     else
       let count = unat (from_le (slice 0 2 bs) :: u16)
       in if from_le (slice 2 4 bs) \<noteq> (0 :: u16) \<or> count > MAX_EXECUTION_LIST_ENTRIES then Inl MalformedPayload
          else bind_wire (exact_len bs (4 + count * ENTRY_LEN)) (\<lambda>_. read_items decode_execution_entry ENTRY_LEN count 4 bs))"

interpretation execution_entry: item_codec encode_execution_entry decode_execution_entry ENTRY_LEN "\<lambda>_. True"
proof
  fix x :: execution_entry and pre post :: "byte list"
  show "length (encode_execution_entry x) = ENTRY_LEN" by (simp add: encode_execution_entry_def ENTRY_LEN_def)
  show "decode_execution_entry (length pre) (pre @ encode_execution_entry x @ post) = Inr x"
    by (cases x) (simp add: decode_execution_entry_def encode_execution_entry_def wire_simps)
next
  fix xs pre post :: "byte list" and x assume l: "length xs = ENTRY_LEN" and d: "decode_execution_entry (length pre) (pre @ xs @ post) = Inr x"
  from l chop [of xs "[16, 1, 1, 2]"] d show "True \<and> encode_execution_entry x = xs"
    by (auto simp: decode_execution_entry_def encode_execution_entry_def ENTRY_LEN_def piece_simps wire_simps)
qed

definition execution_list_ok :: "execution_entry list \<Rightarrow> bool" where
  "execution_list_ok es \<longleftrightarrow> length es \<le> MAX_EXECUTION_LIST_ENTRIES"

interpretation execution_list: codec encode_execution_list decode_execution_list execution_list_ok
proof
  fix es assume v: "execution_list_ok es"
  let ?pre = "to_le (of_nat (length es) :: u16) @ to_le (0 :: u16)"
  have "read_items decode_execution_entry ENTRY_LEN (length es) 4 (encode_execution_list es) = Inr es"
    using execution_entry.read_encoded [of es ?pre "[]"] by (simp add: encode_execution_list_def list_all_iff)
  with v show "decode_execution_list (encode_execution_list es) = Inr es"
    by (simp add: decode_execution_list_def execution_list_ok_def MAX_EXECUTION_LIST_ENTRIES_def)
      (simp add: encode_execution_list_def execution_entry.length_items wire_simps)
next
  fix bs es assume d: "decode_execution_list bs = Inr es"
  then have "4 \<le> length bs" by (auto simp: decode_execution_list_def split: if_splits)
  then obtain a b c where bs: "bs = a @ b @ c" "length a = 2" "length b = 2"
    using chop_prefix [of "[2, 2]" bs] by (auto simp: map_eq_Cons_conv)
  define n where "n = unat (from_le a :: u16)"
  from d have n: "n \<le> MAX_EXECUTION_LIST_ENTRIES" "length c = n * ENTRY_LEN" "b = to_le (0 :: u16)"
    "read_items decode_execution_entry ENTRY_LEN n (length (a @ b)) ((a @ b) @ c @ []) = Inr es"
    by (auto simp: decode_execution_list_def bs n_def wire_simps piece_simps split: if_splits)
  from execution_entry.read_sound [OF n(2,4)] have es: "length es = n" "concat (map encode_execution_entry es) = c" by auto
  show "execution_list_ok es" using es(1) n(1) by (simp add: execution_list_ok_def)
  have "to_le (of_nat n :: u16) = a" using bs(2) by (simp add: n_def wire_simps)
  then show "encode_execution_list es = bs" using es n(3) bs(1) by (simp add: encode_execution_list_def)
qed

section \<open>Attachments\<close>

record attach =
  at_execution_id :: u128
  at_requested_role :: role_kind

definition encode_attach :: "attach \<Rightarrow> byte list" where
  "encode_attach m = to_le (at_execution_id m) @ [role_kind_u8 (at_requested_role m)] @ replicate 3 0"

definition decode_attach :: "byte list \<Rightarrow> attach wire" where
  "decode_attach bs =
    bind_wire (exact_len bs 20) (\<lambda>_.
    if slice 17 20 bs \<noteq> replicate 3 0 then Inl MalformedPayload
    else bind_wire (role_kind_from_u8 (bs ! 16)) (\<lambda>role.
      Inr \<lparr>at_execution_id = from_le (slice 0 16 bs), at_requested_role = role\<rparr>))"

interpretation attach: codec encode_attach decode_attach "\<lambda>_. True"
  by (rule fixed_codecI [of _ _ _ "[16, 1, 3]"]; case_tac x;
      auto simp: decode_attach_def encode_attach_def piece_simps wire_simps)

record attached =
  ad_execution_id :: u128
  ad_attachment_id :: u128
  ad_granted_role :: role_kind
  ad_current_generation :: u64

definition encode_attached :: "attached \<Rightarrow> byte list" where
  "encode_attached m = to_le (ad_execution_id m) @ to_le (ad_attachment_id m) @ [role_kind_u8 (ad_granted_role m)] @ replicate 7 0
     @ to_le (ad_current_generation m)"

definition decode_attached :: "byte list \<Rightarrow> attached wire" where
  "decode_attached bs =
    bind_wire (exact_len bs 48) (\<lambda>_.
    if slice 33 40 bs \<noteq> replicate 7 0 then Inl MalformedPayload
    else bind_wire (role_kind_from_u8 (bs ! 32)) (\<lambda>role.
      Inr \<lparr>ad_execution_id = from_le (slice 0 16 bs), ad_attachment_id = from_le (slice 16 32 bs), ad_granted_role = role,
           ad_current_generation = from_le (slice 40 48 bs)\<rparr>))"

interpretation attached: codec encode_attached decode_attached "\<lambda>_. True"
  by (rule fixed_codecI [of _ _ _ "[16, 16, 1, 7, 8]"]; case_tac x;
      auto simp: decode_attached_def encode_attached_def piece_simps wire_simps)

text \<open>\<open>Detach\<close>, \<open>Detached\<close> and \<open>Resync\<close>: one macro gives all three this payload.\<close>

record attachment_payload =
  ap_attachment_id :: u128

definition encode_attachment_payload :: "attachment_payload \<Rightarrow> byte list" where
  "encode_attachment_payload m = to_le (ap_attachment_id m)"

definition decode_attachment_payload :: "byte list \<Rightarrow> attachment_payload wire" where
  "decode_attachment_payload bs = bind_wire (exact_len bs 16) (\<lambda>_. Inr \<lparr>ap_attachment_id = from_le (slice 0 16 bs)\<rparr>)"

interpretation attachment_payload: codec encode_attachment_payload decode_attachment_payload "\<lambda>_. True"
  by (rule fixed_codecI [of _ _ _ "[16]"]; case_tac x;
      auto simp: decode_attachment_payload_def encode_attachment_payload_def piece_simps wire_simps)

record wire_resize =
  rz_attachment_id :: u128
  rz_rows :: u16
  rz_columns :: u16

definition encode_wire_resize :: "wire_resize \<Rightarrow> byte list" where
  "encode_wire_resize m = to_le (rz_attachment_id m) @ to_le (rz_rows m) @ to_le (rz_columns m)"

definition decode_wire_resize :: "byte list \<Rightarrow> wire_resize wire" where
  "decode_wire_resize bs = bind_wire (exact_len bs 20) (\<lambda>_.
    Inr \<lparr>rz_attachment_id = from_le (slice 0 16 bs), rz_rows = from_le (slice 16 18 bs), rz_columns = from_le (slice 18 20 bs)\<rparr>)"

interpretation wire_resize: codec encode_wire_resize decode_wire_resize "\<lambda>_. True"
  by (rule fixed_codecI [of _ _ _ "[16, 2, 2]"]; case_tac x;
      auto simp: decode_wire_resize_def encode_wire_resize_def piece_simps wire_simps)

section \<open>Input and search\<close>

record input_ref =
  in_attachment_id :: u128
  in_bytes :: "byte list"

definition INPUT_HEADER_LEN :: nat where "INPUT_HEADER_LEN = 20"

definition encode_input :: "input_ref \<Rightarrow> byte list" where
  "encode_input m = to_le (in_attachment_id m) @ to_le (of_nat (length (in_bytes m)) :: u32) @ in_bytes m"

definition decode_input :: "byte list \<Rightarrow> input_ref wire" where
  "decode_input bs =
    (if length bs < INPUT_HEADER_LEN then Inl TruncatedPayload
     else
       let byte_count = unat (from_le (slice 16 20 bs) :: u32)
       in if byte_count > MAX_INPUT_BYTES then Inl OversizedPayload
          else bind_wire (exact_len bs (INPUT_HEADER_LEN + byte_count)) (\<lambda>_.
            Inr \<lparr>in_attachment_id = from_le (slice 0 16 bs), in_bytes = drop 20 bs\<rparr>))"

definition input_ok :: "input_ref \<Rightarrow> bool" where
  "input_ok m \<longleftrightarrow> length (in_bytes m) \<le> MAX_INPUT_BYTES"

interpretation input: codec encode_input decode_input input_ok
proof
  fix m assume "input_ok m"
  then show "decode_input (encode_input m) = Inr m"
    by (cases m) (simp add: decode_input_def encode_input_def input_ok_def INPUT_HEADER_LEN_def MAX_INPUT_BYTES_def wire_simps)
next
  fix bs m assume d: "decode_input bs = Inr m"
  then have "20 \<le> length bs" by (auto simp: decode_input_def INPUT_HEADER_LEN_def split: if_splits)
  then obtain a b c where bs: "bs = a @ b @ c" "length a = 16" "length b = 4"
    using chop_prefix [of "[16, 4]" bs] by (auto simp: map_eq_Cons_conv)
  with d have m: "length c = unat (from_le b :: u32)" "length c \<le> MAX_INPUT_BYTES" "m = \<lparr>in_attachment_id = from_le a, in_bytes = c\<rparr>"
    by (auto simp: decode_input_def INPUT_HEADER_LEN_def wire_simps Let_def split: if_splits)
  then show "input_ok m" by (simp add: input_ok_def)
  show "encode_input m = bs" using m bs u32_length_prefix [OF bs(3) m(1)] by (simp add: encode_input_def wire_simps)
qed

record host_search =
  hs_attachment_id :: u128
  hs_forward :: bool
  hs_needle :: "byte list"

definition SEARCH_HEADER_LEN :: nat where "SEARCH_HEADER_LEN = 24"

definition encode_host_search :: "host_search \<Rightarrow> byte list" where
  "encode_host_search m = to_le (hs_attachment_id m) @ [bool_u8 (hs_forward m)] @ replicate 3 0
     @ to_le (of_nat (length (hs_needle m)) :: u32) @ hs_needle m"

definition decode_host_search :: "byte list \<Rightarrow> host_search wire" where
  "decode_host_search bs =
    (if length bs < SEARCH_HEADER_LEN then Inl TruncatedPayload
     else if slice 17 20 bs \<noteq> replicate 3 0 then Inl MalformedPayload
     else bind_wire (bool_from_u8 (bs ! 16)) (\<lambda>forward.
       let byte_count = unat (from_le (slice 20 24 bs) :: u32)
       in if byte_count > MAX_INPUT_BYTES then Inl OversizedPayload
          else bind_wire (exact_len bs (SEARCH_HEADER_LEN + byte_count)) (\<lambda>_.
            if from_utf8 (drop 24 bs) = None then Inl MalformedPayload
            else Inr \<lparr>hs_attachment_id = from_le (slice 0 16 bs), hs_forward = forward, hs_needle = drop 24 bs\<rparr>)))"

text \<open>A needle is a \<open>str\<close>: its bytes are well-formed UTF-8.\<close>

definition host_search_ok :: "host_search \<Rightarrow> bool" where
  "host_search_ok m \<longleftrightarrow> length (hs_needle m) \<le> MAX_INPUT_BYTES \<and> from_utf8 (hs_needle m) \<noteq> None"

interpretation host_search: codec encode_host_search decode_host_search host_search_ok
proof
  fix m assume "host_search_ok m"
  then show "decode_host_search (encode_host_search m) = Inr m"
    by (cases m) (auto simp: decode_host_search_def encode_host_search_def host_search_ok_def SEARCH_HEADER_LEN_def MAX_INPUT_BYTES_def Let_def wire_simps)
next
  fix bs m assume d: "decode_host_search bs = Inr m"
  then have "24 \<le> length bs" by (auto simp: decode_host_search_def SEARCH_HEADER_LEN_def split: if_splits)
  then obtain a x z b c where bs: "bs = a @ [x] @ z @ b @ c" "length a = 16" "length z = 3" "length b = 4"
    using chop_prefix [of "[16, 1, 3, 4]" bs] by (auto simp: map_eq_Cons_conv wire_simps)
  with d obtain f where m: "x = bool_u8 f" "z = replicate 3 0" "length c = unat (from_le b :: u32)" "length c \<le> MAX_INPUT_BYTES"
    "from_utf8 c \<noteq> None" "m = \<lparr>hs_attachment_id = from_le a, hs_forward = f, hs_needle = c\<rparr>"
    by (auto simp: decode_host_search_def SEARCH_HEADER_LEN_def wire_simps Let_def split: if_splits)
  then show "host_search_ok m" by (simp add: host_search_ok_def)
  show "encode_host_search m = bs" using m bs u32_length_prefix [OF bs(4) m(3)] by (simp add: encode_host_search_def wire_simps)
qed

section \<open>Selection and mouse\<close>

datatype host_selection_action = HsEnterCopyMode | HsExitCopyMode | HsToggleAnchor | HsToggleKind | HsYank | HsSetVisual | HsClear

primrec host_selection_action_u8 :: "host_selection_action \<Rightarrow> byte" where
  "host_selection_action_u8 HsEnterCopyMode = 0" | "host_selection_action_u8 HsExitCopyMode = 1" | "host_selection_action_u8 HsToggleAnchor = 2"
| "host_selection_action_u8 HsToggleKind = 3" | "host_selection_action_u8 HsYank = 4" | "host_selection_action_u8 HsSetVisual = 5"
| "host_selection_action_u8 HsClear = 6"

definition host_selection_action_from_u8 :: "byte \<Rightarrow> host_selection_action wire" where
  "host_selection_action_from_u8 v = ok_or MalformedPayload (map_of [(0, HsEnterCopyMode), (1, HsExitCopyMode), (2, HsToggleAnchor), (3, HsToggleKind), (4, HsYank), (5, HsSetVisual), (6, HsClear)] v)"

lemma host_selection_action_iff [wire_simps]:
  "host_selection_action_from_u8 v = Inr k \<longleftrightarrow> v = host_selection_action_u8 k" "host_selection_action_from_u8 (host_selection_action_u8 k) = Inr k"
  by (cases k; auto simp: host_selection_action_from_u8_def split: if_splits)+

record host_selection =
  sel_attachment_id :: u128
  sel_action :: host_selection_action
  sel_kind :: byte
  sel_start_col :: u16
  sel_start_row :: u16
  sel_end_col :: u16
  sel_end_row :: u16

definition encode_host_selection :: "host_selection \<Rightarrow> byte list" where
  "encode_host_selection m = to_le (sel_attachment_id m) @ [host_selection_action_u8 (sel_action m)] @ [sel_kind m]
     @ to_le (sel_start_col m) @ to_le (sel_start_row m) @ to_le (sel_end_col m) @ to_le (sel_end_row m) @ replicate 6 0"

definition decode_host_selection :: "byte list \<Rightarrow> host_selection wire" where
  "decode_host_selection bs =
    bind_wire (exact_len bs 32) (\<lambda>_.
    if slice 26 32 bs \<noteq> replicate 6 0 then Inl MalformedPayload
    else bind_wire (host_selection_action_from_u8 (bs ! 16)) (\<lambda>action.
      Inr \<lparr>sel_attachment_id = from_le (slice 0 16 bs), sel_action = action, sel_kind = bs ! 17,
           sel_start_col = from_le (slice 18 20 bs), sel_start_row = from_le (slice 20 22 bs),
           sel_end_col = from_le (slice 22 24 bs), sel_end_row = from_le (slice 24 26 bs)\<rparr>))"

interpretation host_selection: codec encode_host_selection decode_host_selection "\<lambda>_. True"
  by (rule fixed_codecI [of _ _ _ "[16, 1, 1, 2, 2, 2, 2, 6]"]; case_tac x;
      auto simp: decode_host_selection_def encode_host_selection_def piece_simps wire_simps)

datatype terminal_mouse_kind = TmPress | TmRelease | TmMove | TmWheel

primrec terminal_mouse_kind_u8 :: "terminal_mouse_kind \<Rightarrow> byte" where
  "terminal_mouse_kind_u8 TmPress = 1" | "terminal_mouse_kind_u8 TmRelease = 2" | "terminal_mouse_kind_u8 TmMove = 3"
| "terminal_mouse_kind_u8 TmWheel = 4"

definition terminal_mouse_kind_from_u8 :: "byte \<Rightarrow> terminal_mouse_kind wire" where
  "terminal_mouse_kind_from_u8 v = ok_or MalformedPayload (map_of [(1, TmPress), (2, TmRelease), (3, TmMove), (4, TmWheel)] v)"

lemma terminal_mouse_kind_iff [wire_simps]:
  "terminal_mouse_kind_from_u8 v = Inr k \<longleftrightarrow> v = terminal_mouse_kind_u8 k" "terminal_mouse_kind_from_u8 (terminal_mouse_kind_u8 k) = Inr k"
  by (cases k; auto simp: terminal_mouse_kind_from_u8_def split: if_splits)+

record terminal_mouse =
  tm_attachment_id :: u128
  tm_action_id :: u32
  tm_kind :: terminal_mouse_kind
  tm_button :: byte
  tm_modifiers :: u16
  tm_col :: u16
  tm_row :: u16

definition encode_terminal_mouse :: "terminal_mouse \<Rightarrow> byte list" where
  "encode_terminal_mouse m = to_le (tm_attachment_id m) @ to_le (tm_action_id m) @ [terminal_mouse_kind_u8 (tm_kind m)] @ [tm_button m]
     @ to_le (tm_modifiers m) @ to_le (tm_col m) @ to_le (tm_row m) @ replicate 4 0"

definition validate_terminal_mouse :: "terminal_mouse \<Rightarrow> unit wire" where
  "validate_terminal_mouse m =
    (if tm_action_id m = 0 \<or> tm_col m \<ge> 512 \<or> tm_row m \<ge> 256 then Inl MalformedPayload
     else
       let button_ok = (case tm_kind m of
             TmPress \<Rightarrow> tm_button m \<le> 2 | TmRelease \<Rightarrow> tm_button m \<le> 2 | TmMove \<Rightarrow> tm_button m \<le> 3
           | TmWheel \<Rightarrow> 64 \<le> tm_button m \<and> tm_button m \<le> 67)
       in if button_ok then Inr () else Inl MalformedPayload)"

definition decode_terminal_mouse :: "byte list \<Rightarrow> terminal_mouse wire" where
  "decode_terminal_mouse bs =
    bind_wire (exact_len bs 32) (\<lambda>_.
    if slice 28 32 bs \<noteq> replicate 4 0 then Inl MalformedPayload
    else
    bind_wire (terminal_mouse_kind_from_u8 (bs ! 20)) (\<lambda>kind.
    bind_wire (ok_or MalformedPayload (key_v2_modifiers_for_ffi (from_le (slice 22 24 bs)))) (\<lambda>mods.
    let value = \<lparr>tm_attachment_id = from_le (slice 0 16 bs), tm_action_id = from_le (slice 16 20 bs), tm_kind = kind,
                 tm_button = bs ! 21, tm_modifiers = mods, tm_col = from_le (slice 24 26 bs), tm_row = from_le (slice 26 28 bs)\<rparr>
    in bind_wire (validate_terminal_mouse value) (\<lambda>_. Inr value))))"

definition terminal_mouse_ok :: "terminal_mouse \<Rightarrow> bool" where
  "terminal_mouse_ok m \<longleftrightarrow> validate_terminal_mouse m = Inr () \<and> and (tm_modifiers m) (not 7) = 0"

interpretation terminal_mouse: codec encode_terminal_mouse decode_terminal_mouse terminal_mouse_ok
  by (rule fixed_codecI [of _ _ _ "[16, 4, 1, 1, 2, 2, 2, 4]"]; case_tac x;
      auto simp: decode_terminal_mouse_def encode_terminal_mouse_def terminal_mouse_ok_def piece_simps wire_simps)

section \<open>Lifecycle and errors\<close>

record lifecycle_message =
  lm_execution_id :: u128
  lm_lifecycle :: lifecycle

definition encode_lifecycle_message :: "lifecycle_message \<Rightarrow> byte list" where
  "encode_lifecycle_message m = to_le (lm_execution_id m) @ [lifecycle_u8 (lm_lifecycle m)] @ replicate 7 0"

definition decode_lifecycle_message :: "byte list \<Rightarrow> lifecycle_message wire" where
  "decode_lifecycle_message bs =
    bind_wire (exact_len bs 24) (\<lambda>_.
    if slice 17 24 bs \<noteq> replicate 7 0 then Inl MalformedPayload
    else bind_wire (lifecycle_from_u8 (bs ! 16)) (\<lambda>life.
      Inr \<lparr>lm_execution_id = from_le (slice 0 16 bs), lm_lifecycle = life\<rparr>))"

interpretation lifecycle_message: codec encode_lifecycle_message decode_lifecycle_message "\<lambda>_. True"
  by (rule fixed_codecI [of _ _ _ "[16, 1, 7]"]; case_tac x;
      auto simp: decode_lifecycle_message_def encode_lifecycle_message_def piece_simps wire_simps)

record error_message =
  em_error_code :: u16
  em_offending_message_type :: u16
  em_detail_code :: u32

definition encode_error_message :: "error_message \<Rightarrow> byte list" where
  "encode_error_message m = to_le (em_error_code m) @ to_le (em_offending_message_type m) @ to_le (em_detail_code m) @ to_le (0 :: u64)"

definition decode_error_message :: "byte list \<Rightarrow> error_message wire" where
  "decode_error_message bs =
    bind_wire (exact_len bs 16) (\<lambda>_.
    if from_le (slice 8 16 bs) \<noteq> (0 :: u64) then Inl MalformedPayload
    else Inr \<lparr>em_error_code = from_le (slice 0 2 bs), em_offending_message_type = from_le (slice 2 4 bs),
              em_detail_code = from_le (slice 4 8 bs)\<rparr>)"

interpretation error_message: codec encode_error_message decode_error_message "\<lambda>_. True"
  by (rule fixed_codecI [of _ _ _ "[2, 2, 4, 8]"]; case_tac x;
      auto simp: decode_error_message_def encode_error_message_def piece_simps wire_simps)

end
