(* ===== verification/Wire_Execution.thy ===== *)
theory Wire_Execution
  imports Wire_Control
begin

text \<open>
  Provisioning and disposition of executions (\<open>src/crates/seyal-protocol/src/framing/execution.rs\<close>)
  and the delivery controls and identity envelope of presentation frames (presentation.rs).
\<close>

section \<open>Creating an execution\<close>

record create_request =
  cr_workspace_id :: u128
  cr_request_id :: u64
  cr_launch_profile :: u16
  cr_rows :: u16
  cr_columns :: u16

definition encode_create_request :: "create_request \<Rightarrow> byte list" where
  "encode_create_request m = to_le (cr_workspace_id m) @ to_le (cr_request_id m) @ to_le (cr_launch_profile m) @ to_le (cr_rows m)
     @ to_le (cr_columns m) @ to_le (0 :: u16)"

definition validate_create_request :: "create_request \<Rightarrow> unit wire" where
  "validate_create_request m = (if cr_request_id m = 0 then Inl MalformedPayload else Inr ())"

definition decode_create_request :: "byte list \<Rightarrow> create_request wire" where
  "decode_create_request bs =
    bind_wire (exact_len bs 32) (\<lambda>_.
    if from_le (slice 30 32 bs) \<noteq> (0 :: u16) then Inl MalformedPayload
    else
    let value = \<lparr>cr_workspace_id = from_le (slice 0 16 bs), cr_request_id = from_le (slice 16 24 bs),
                 cr_launch_profile = from_le (slice 24 26 bs), cr_rows = from_le (slice 26 28 bs), cr_columns = from_le (slice 28 30 bs)\<rparr>
    in bind_wire (validate_create_request value) (\<lambda>_. Inr value))"

interpretation create_request: codec encode_create_request decode_create_request "\<lambda>m. validate_create_request m = Inr ()"
  by (rule fixed_codecI [of _ _ _ "[16, 8, 2, 2, 2, 2]"]; case_tac x;
      auto simp: decode_create_request_def encode_create_request_def piece_simps wire_simps)

datatype create_result_code = Created | CreateError error_code

primrec create_code_wire_value :: "create_result_code \<Rightarrow> u16" where
  "create_code_wire_value Created = 0"
| "create_code_wire_value (CreateError e) = error_code_u16 e"

definition create_code_from_u16 :: "u16 \<Rightarrow> create_result_code wire" where
  "create_code_from_u16 v =
    (if v = 0 then Inr Created else ok_or MalformedPayload (map_option CreateError (error_code_from_u16 v)))"

lemma create_code_iff [wire_simps]:
  "create_code_from_u16 v = Inr c \<longleftrightarrow> v = create_code_wire_value c" "create_code_from_u16 (create_code_wire_value c) = Inr c"
  by (cases c; auto simp: create_code_from_u16_def wire_simps)+

record create_result =
  cs_execution_id :: u128
  cs_request_id :: u64
  cs_result_code :: create_result_code
  cs_detail_code :: u32

definition encode_create_result :: "create_result \<Rightarrow> byte list" where
  "encode_create_result m = to_le (cs_execution_id m) @ to_le (cs_request_id m) @ to_le (create_code_wire_value (cs_result_code m))
     @ to_le (0 :: u16) @ to_le (cs_detail_code m)"

definition validate_create_result :: "create_result \<Rightarrow> unit wire" where
  "validate_create_result m =
    (if cs_request_id m = 0 \<or> cs_detail_code m \<noteq> 0 then Inl MalformedPayload
     else let zero = (to_le (cs_execution_id m) = replicate 16 0)
       in case cs_result_code m of
            Created \<Rightarrow> if \<not> zero then Inr () else Inl MalformedPayload
          | CreateError _ \<Rightarrow> if zero then Inr () else Inl MalformedPayload)"

definition decode_create_result :: "byte list \<Rightarrow> create_result wire" where
  "decode_create_result bs =
    bind_wire (exact_len bs 32) (\<lambda>_.
    if from_le (slice 26 28 bs) \<noteq> (0 :: u16) then Inl MalformedPayload
    else
    bind_wire (create_code_from_u16 (from_le (slice 24 26 bs))) (\<lambda>code.
    let value = \<lparr>cs_execution_id = from_le (slice 0 16 bs), cs_request_id = from_le (slice 16 24 bs), cs_result_code = code,
                 cs_detail_code = from_le (slice 28 32 bs)\<rparr>
    in bind_wire (validate_create_result value) (\<lambda>_. Inr value)))"

interpretation create_result: codec encode_create_result decode_create_result "\<lambda>m. validate_create_result m = Inr ()"
  by (rule fixed_codecI [of _ _ _ "[16, 8, 2, 2, 4]"]; case_tac x;
      auto simp: decode_create_result_def encode_create_result_def piece_simps wire_simps)

section \<open>Terminating an execution\<close>

record terminate_request =
  tr_attachment_id :: u128
  tr_execution_id :: u128
  tr_request_id :: u64

definition encode_terminate_request :: "terminate_request \<Rightarrow> byte list" where
  "encode_terminate_request m = to_le (tr_attachment_id m) @ to_le (tr_execution_id m) @ to_le (tr_request_id m)"

definition validate_terminate_request :: "terminate_request \<Rightarrow> unit wire" where
  "validate_terminate_request m = (if tr_request_id m = 0 then Inl MalformedPayload else Inr ())"

definition decode_terminate_request :: "byte list \<Rightarrow> terminate_request wire" where
  "decode_terminate_request bs =
    bind_wire (exact_len bs 40) (\<lambda>_.
    let value = \<lparr>tr_attachment_id = from_le (slice 0 16 bs), tr_execution_id = from_le (slice 16 32 bs),
                 tr_request_id = from_le (slice 32 40 bs)\<rparr>
    in bind_wire (validate_terminate_request value) (\<lambda>_. Inr value))"

interpretation terminate_request: codec encode_terminate_request decode_terminate_request "\<lambda>m. validate_terminate_request m = Inr ()"
  by (rule fixed_codecI [of _ _ _ "[16, 16, 8]"]; case_tac x;
      auto simp: decode_terminate_request_def encode_terminate_request_def piece_simps wire_simps)

datatype terminate_result_code = TerminationRequested | TerminateError error_code

primrec terminate_code_wire_value :: "terminate_result_code \<Rightarrow> u16" where
  "terminate_code_wire_value TerminationRequested = 0"
| "terminate_code_wire_value (TerminateError e) = error_code_u16 e"

definition terminate_code_from_u16 :: "u16 \<Rightarrow> terminate_result_code wire" where
  "terminate_code_from_u16 v =
    (if v = 0 then Inr TerminationRequested else ok_or MalformedPayload (map_option TerminateError (error_code_from_u16 v)))"

lemma terminate_code_iff [wire_simps]:
  "terminate_code_from_u16 v = Inr c \<longleftrightarrow> v = terminate_code_wire_value c" "terminate_code_from_u16 (terminate_code_wire_value c) = Inr c"
  by (cases c; auto simp: terminate_code_from_u16_def wire_simps)+

record terminate_result =
  ts_attachment_id :: u128
  ts_request_id :: u64
  ts_result_code :: terminate_result_code
  ts_detail_code :: u32

definition encode_terminate_result :: "terminate_result \<Rightarrow> byte list" where
  "encode_terminate_result m = to_le (ts_attachment_id m) @ to_le (ts_request_id m) @ to_le (terminate_code_wire_value (ts_result_code m))
     @ to_le (0 :: u16) @ to_le (ts_detail_code m)"

definition validate_terminate_result :: "terminate_result \<Rightarrow> unit wire" where
  "validate_terminate_result m = (if ts_request_id m = 0 \<or> ts_detail_code m \<noteq> 0 then Inl MalformedPayload else Inr ())"

definition decode_terminate_result :: "byte list \<Rightarrow> terminate_result wire" where
  "decode_terminate_result bs =
    bind_wire (exact_len bs 32) (\<lambda>_.
    if from_le (slice 26 28 bs) \<noteq> (0 :: u16) then Inl MalformedPayload
    else
    bind_wire (terminate_code_from_u16 (from_le (slice 24 26 bs))) (\<lambda>code.
    let value = \<lparr>ts_attachment_id = from_le (slice 0 16 bs), ts_request_id = from_le (slice 16 24 bs), ts_result_code = code,
                 ts_detail_code = from_le (slice 28 32 bs)\<rparr>
    in bind_wire (validate_terminate_result value) (\<lambda>_. Inr value)))"

interpretation terminate_result: codec encode_terminate_result decode_terminate_result "\<lambda>m. validate_terminate_result m = Inr ()"
  by (rule fixed_codecI [of _ _ _ "[16, 8, 2, 2, 4]"]; case_tac x;
      auto simp: decode_terminate_result_def encode_terminate_result_def piece_simps wire_simps)

section \<open>Minting a workspace\<close>

record mint_request =
  mr_request_id :: u64

definition encode_mint_request :: "mint_request \<Rightarrow> byte list" where
  "encode_mint_request m = to_le (mr_request_id m) @ to_le (0 :: u64)"

definition validate_mint_request :: "mint_request \<Rightarrow> unit wire" where
  "validate_mint_request m = (if mr_request_id m = 0 then Inl MalformedPayload else Inr ())"

definition decode_mint_request :: "byte list \<Rightarrow> mint_request wire" where
  "decode_mint_request bs =
    bind_wire (exact_len bs 16) (\<lambda>_.
    if from_le (slice 8 16 bs) \<noteq> (0 :: u64) then Inl MalformedPayload
    else
    let value = \<lparr>mr_request_id = from_le (slice 0 8 bs)\<rparr>
    in bind_wire (validate_mint_request value) (\<lambda>_. Inr value))"

interpretation mint_request: codec encode_mint_request decode_mint_request "\<lambda>m. validate_mint_request m = Inr ()"
  by (rule fixed_codecI [of _ _ _ "[8, 8]"]; case_tac x;
      auto simp: decode_mint_request_def encode_mint_request_def piece_simps wire_simps)

datatype mint_result_code = Minted | MintError error_code

primrec mint_code_wire_value :: "mint_result_code \<Rightarrow> u16" where
  "mint_code_wire_value Minted = 0"
| "mint_code_wire_value (MintError e) = error_code_u16 e"

definition mint_code_from_u16 :: "u16 \<Rightarrow> mint_result_code wire" where
  "mint_code_from_u16 v =
    (if v = 0 then Inr Minted else ok_or MalformedPayload (map_option MintError (error_code_from_u16 v)))"

lemma mint_code_iff [wire_simps]:
  "mint_code_from_u16 v = Inr c \<longleftrightarrow> v = mint_code_wire_value c" "mint_code_from_u16 (mint_code_wire_value c) = Inr c"
  by (cases c; auto simp: mint_code_from_u16_def wire_simps)+

record mint_result =
  ms_workspace_id :: u128
  ms_request_id :: u64
  ms_result_code :: mint_result_code

definition encode_mint_result :: "mint_result \<Rightarrow> byte list" where
  "encode_mint_result m = to_le (ms_workspace_id m) @ to_le (ms_request_id m) @ to_le (mint_code_wire_value (ms_result_code m))
     @ to_le (0 :: u16) @ to_le (0 :: u32)"

definition validate_mint_result :: "mint_result \<Rightarrow> unit wire" where
  "validate_mint_result m =
    (if ms_request_id m = 0 then Inl MalformedPayload
     else let zero = (ms_workspace_id m = 0)
       in case ms_result_code m of
            Minted \<Rightarrow> if \<not> zero then Inr () else Inl MalformedPayload
          | MintError _ \<Rightarrow> if zero then Inr () else Inl MalformedPayload)"

definition decode_mint_result :: "byte list \<Rightarrow> mint_result wire" where
  "decode_mint_result bs =
    bind_wire (exact_len bs 32) (\<lambda>_.
    if from_le (slice 26 28 bs) \<noteq> (0 :: u16) \<or> from_le (slice 28 32 bs) \<noteq> (0 :: u32) then Inl MalformedPayload
    else
    bind_wire (mint_code_from_u16 (from_le (slice 24 26 bs))) (\<lambda>code.
    let value = \<lparr>ms_workspace_id = from_le (slice 0 16 bs), ms_request_id = from_le (slice 16 24 bs), ms_result_code = code\<rparr>
    in bind_wire (validate_mint_result value) (\<lambda>_. Inr value)))"

interpretation mint_result: codec encode_mint_result decode_mint_result "\<lambda>m. validate_mint_result m = Inr ()"
  by (rule fixed_codecI [of _ _ _ "[16, 8, 2, 2, 4]"]; case_tac x;
      auto simp: decode_mint_result_def encode_mint_result_def piece_simps wire_simps)

section \<open>Delivery controls\<close>

record suspend_delivery =
  sd_attachment_id :: u128

definition encode_suspend_delivery :: "suspend_delivery \<Rightarrow> byte list" where
  "encode_suspend_delivery m = to_le (sd_attachment_id m) @ replicate 8 0"

definition decode_suspend_delivery :: "byte list \<Rightarrow> suspend_delivery wire" where
  "decode_suspend_delivery bs =
    bind_wire (exact_len bs 24) (\<lambda>_.
    if list_ex (\<lambda>b. b \<noteq> 0) (slice 16 24 bs) then Inl MalformedPayload
    else Inr \<lparr>sd_attachment_id = from_le (slice 0 16 bs)\<rparr>)"

lemma no_nonzero [wire_simps]: "list_ex (\<lambda>b. b \<noteq> (0 :: byte)) xs \<longleftrightarrow> xs \<noteq> replicate (length xs) 0"
  by (induction xs) auto

interpretation suspend_delivery: codec encode_suspend_delivery decode_suspend_delivery "\<lambda>_. True"
  by (rule fixed_codecI [of _ _ _ "[16, 8]"]; case_tac x;
      auto simp: decode_suspend_delivery_def encode_suspend_delivery_def piece_simps wire_simps)

record resume_delivery =
  rd_attachment_id :: u128
  rd_resume_sequence :: u64

definition encode_resume_delivery :: "resume_delivery \<Rightarrow> byte list" where
  "encode_resume_delivery m = to_le (rd_attachment_id m) @ to_le (rd_resume_sequence m)"

definition decode_resume_delivery :: "byte list \<Rightarrow> resume_delivery wire" where
  "decode_resume_delivery bs =
    bind_wire (exact_len bs 24) (\<lambda>_.
    let resume_sequence = from_le (slice 16 24 bs)
    in if resume_sequence = 0 then Inl MalformedPayload
       else Inr \<lparr>rd_attachment_id = from_le (slice 0 16 bs), rd_resume_sequence = resume_sequence\<rparr>)"

interpretation resume_delivery: codec encode_resume_delivery decode_resume_delivery "\<lambda>m. rd_resume_sequence m \<noteq> 0"
  by (rule fixed_codecI [of _ _ _ "[16, 8]"]; case_tac x;
      auto simp: decode_resume_delivery_def encode_resume_delivery_def piece_simps wire_simps)

end
