(* ===== verification/Wire_Session.thy ===== *)
theory Wire_Session
  imports Wire_Keys
begin

text \<open>
  Session bootstrap, composer and viewport payloads of \<open>src/crates/seyal-protocol/src/pass7\<close>:
  session_bootstrap.rs, composer.rs and viewport_line_ids.rs.
\<close>

section \<open>Session bootstrap\<close>

datatype block_scope = ScopeLocal | ScopeSession

primrec block_scope_u8 :: "block_scope \<Rightarrow> byte" where
  "block_scope_u8 ScopeLocal = 0" | "block_scope_u8 ScopeSession = 1"

definition block_scope_from_u8 :: "byte \<Rightarrow> block_scope wire" where
  "block_scope_from_u8 v = ok_or MalformedPayload (map_of [(0, ScopeLocal), (1, ScopeSession)] v)"

lemma block_scope_iff [wire_simps]:
  "block_scope_from_u8 v = Inr k \<longleftrightarrow> v = block_scope_u8 k" "block_scope_from_u8 (block_scope_u8 k) = Inr k"
  by (cases k; auto simp: block_scope_from_u8_def split: if_splits)+

datatype block_trust = LocalTrusted | SessionTrusted | Unverified

primrec block_trust_u8 :: "block_trust \<Rightarrow> byte" where
  "block_trust_u8 LocalTrusted = 0" | "block_trust_u8 SessionTrusted = 1" | "block_trust_u8 Unverified = 2"

definition block_trust_from_u8 :: "byte \<Rightarrow> block_trust wire" where
  "block_trust_from_u8 v = ok_or MalformedPayload (map_of [(0, LocalTrusted), (1, SessionTrusted), (2, Unverified)] v)"

lemma block_trust_iff [wire_simps]:
  "block_trust_from_u8 v = Inr k \<longleftrightarrow> v = block_trust_u8 k" "block_trust_from_u8 (block_trust_u8 k) = Inr k"
  by (cases k; auto simp: block_trust_from_u8_def split: if_splits)+

datatype input_target_class = TargetNone | TrustedShell | ForegroundProgram

primrec input_target_class_u8 :: "input_target_class \<Rightarrow> byte" where
  "input_target_class_u8 TargetNone = 0" | "input_target_class_u8 TrustedShell = 1" | "input_target_class_u8 ForegroundProgram = 2"

definition input_target_class_from_u8 :: "byte \<Rightarrow> input_target_class wire" where
  "input_target_class_from_u8 v = ok_or MalformedPayload (map_of [(0, TargetNone), (1, TrustedShell), (2, ForegroundProgram)] v)"

lemma input_target_class_iff [wire_simps]:
  "input_target_class_from_u8 v = Inr k \<longleftrightarrow> v = input_target_class_u8 k" "input_target_class_from_u8 (input_target_class_u8 k) = Inr k"
  by (cases k; auto simp: input_target_class_from_u8_def split: if_splits)+

datatype composer_target_mode = ModeUnavailable | ModeSubmit | ModeRelay

primrec composer_target_mode_u8 :: "composer_target_mode \<Rightarrow> byte" where
  "composer_target_mode_u8 ModeUnavailable = 0" | "composer_target_mode_u8 ModeSubmit = 1" | "composer_target_mode_u8 ModeRelay = 2"

definition composer_target_mode_from_u8 :: "byte \<Rightarrow> composer_target_mode wire" where
  "composer_target_mode_from_u8 v = ok_or MalformedPayload (map_of [(0, ModeUnavailable), (1, ModeSubmit), (2, ModeRelay)] v)"

lemma composer_target_mode_iff [wire_simps]:
  "composer_target_mode_from_u8 v = Inr k \<longleftrightarrow> v = composer_target_mode_u8 k" "composer_target_mode_from_u8 (composer_target_mode_u8 k) = Inr k"
  by (cases k; auto simp: composer_target_mode_from_u8_def split: if_splits)+

datatype composer_target_reason = ReasonNone | ReasonNotAtPrompt | ReasonAlternateScreen | ReasonNotController | ReasonNotFlow | ReasonBootstrapHold | ReasonNoKnownBlock | ReasonTerminated | ReasonUnsupported

primrec composer_target_reason_u8 :: "composer_target_reason \<Rightarrow> byte" where
  "composer_target_reason_u8 ReasonNone = 0" | "composer_target_reason_u8 ReasonNotAtPrompt = 1" | "composer_target_reason_u8 ReasonAlternateScreen = 2"
| "composer_target_reason_u8 ReasonNotController = 3" | "composer_target_reason_u8 ReasonNotFlow = 4" | "composer_target_reason_u8 ReasonBootstrapHold = 5"
| "composer_target_reason_u8 ReasonNoKnownBlock = 6" | "composer_target_reason_u8 ReasonTerminated = 7" | "composer_target_reason_u8 ReasonUnsupported = 8"

definition composer_target_reason_from_u8 :: "byte \<Rightarrow> composer_target_reason wire" where
  "composer_target_reason_from_u8 v = ok_or MalformedPayload (map_of [(0, ReasonNone), (1, ReasonNotAtPrompt), (2, ReasonAlternateScreen), (3, ReasonNotController), (4, ReasonNotFlow), (5, ReasonBootstrapHold), (6, ReasonNoKnownBlock), (7, ReasonTerminated), (8, ReasonUnsupported)] v)"

lemma composer_target_reason_iff [wire_simps]:
  "composer_target_reason_from_u8 v = Inr k \<longleftrightarrow> v = composer_target_reason_u8 k" "composer_target_reason_from_u8 (composer_target_reason_u8 k) = Inr k"
  by (cases k; auto simp: composer_target_reason_from_u8_def split: if_splits)+

datatype session_overlay = OverlayNone | OverlayCandidate | OverlayOffered | OverlayDeclined | OverlayArmed | OverlayDelivering | OverlayTrusted | OverlayFailed | OverlayEnded

primrec session_overlay_u8 :: "session_overlay \<Rightarrow> byte" where
  "session_overlay_u8 OverlayNone = 0" | "session_overlay_u8 OverlayCandidate = 1" | "session_overlay_u8 OverlayOffered = 2"
| "session_overlay_u8 OverlayDeclined = 3" | "session_overlay_u8 OverlayArmed = 4" | "session_overlay_u8 OverlayDelivering = 5"
| "session_overlay_u8 OverlayTrusted = 6" | "session_overlay_u8 OverlayFailed = 7" | "session_overlay_u8 OverlayEnded = 8"

definition session_overlay_from_u8 :: "byte \<Rightarrow> session_overlay wire" where
  "session_overlay_from_u8 v = ok_or MalformedPayload (map_of [(0, OverlayNone), (1, OverlayCandidate), (2, OverlayOffered), (3, OverlayDeclined), (4, OverlayArmed), (5, OverlayDelivering), (6, OverlayTrusted), (7, OverlayFailed), (8, OverlayEnded)] v)"

lemma session_overlay_iff [wire_simps]:
  "session_overlay_from_u8 v = Inr k \<longleftrightarrow> v = session_overlay_u8 k" "session_overlay_from_u8 (session_overlay_u8 k) = Inr k"
  by (cases k; auto simp: session_overlay_from_u8_def split: if_splits)+

datatype consent_decision = Decline | Accept | RequestSession

primrec consent_decision_u8 :: "consent_decision \<Rightarrow> byte" where
  "consent_decision_u8 Decline = 0" | "consent_decision_u8 Accept = 1" | "consent_decision_u8 RequestSession = 2"

definition consent_decision_from_u8 :: "byte \<Rightarrow> consent_decision wire" where
  "consent_decision_from_u8 v = ok_or MalformedPayload (map_of [(0, Decline), (1, Accept), (2, RequestSession)] v)"

lemma consent_decision_iff [wire_simps]:
  "consent_decision_from_u8 v = Inr k \<longleftrightarrow> v = consent_decision_u8 k" "consent_decision_from_u8 (consent_decision_u8 k) = Inr k"
  by (cases k; auto simp: consent_decision_from_u8_def split: if_splits)+

record session_offer =
  so_attachment_id :: u128
  so_execution_id :: u128
  so_host_block_id :: u64
  so_offer_generation :: u64
  so_presentation_epoch :: u64

definition encode_session_offer :: "session_offer \<Rightarrow> byte list" where
  "encode_session_offer m = to_le (so_attachment_id m) @ to_le (so_execution_id m) @ to_le (so_host_block_id m)
     @ to_le (so_offer_generation m) @ to_le (so_presentation_epoch m) @ to_le (0 :: u64)"

definition decode_session_offer :: "byte list \<Rightarrow> session_offer wire" where
  "decode_session_offer bs =
    bind_wire (exact_len bs 64) (\<lambda>_.
    if from_le (slice 56 64 bs) \<noteq> (0 :: u64) \<or> slice 0 16 bs = replicate 16 0 \<or> slice 16 32 bs = replicate 16 0 then Inl MalformedPayload
    else
    let host_block_id = from_le (slice 32 40 bs); offer_generation = from_le (slice 40 48 bs)
    in if host_block_id = 0 \<or> offer_generation = 0 then Inl MalformedPayload
       else Inr \<lparr>so_attachment_id = from_le (slice 0 16 bs), so_execution_id = from_le (slice 16 32 bs), so_host_block_id = host_block_id,
                 so_offer_generation = offer_generation, so_presentation_epoch = from_le (slice 48 56 bs)\<rparr>)"

definition session_offer_ok :: "session_offer \<Rightarrow> bool" where
  "session_offer_ok m \<longleftrightarrow> so_attachment_id m \<noteq> 0 \<and> so_execution_id m \<noteq> 0 \<and> so_host_block_id m \<noteq> 0 \<and> so_offer_generation m \<noteq> 0"

lemma zero_bytes [wire_simps]:
  "to_le (w :: u128) = replicate 16 0 \<longleftrightarrow> w = 0" "length bs = 16 \<Longrightarrow> from_le bs = (0 :: u128) \<longleftrightarrow> bs = replicate 16 0"
proof -
  have z: "to_le (0 :: u128) = replicate 16 0" by (simp add: to_le_def zero_digits)
  have "to_le (w :: u128) = to_le (0 :: u128) \<Longrightarrow> w = 0" by (drule arg_cong [where f = "from_le :: _ \<Rightarrow> u128"]) simp
  then show "to_le (w :: u128) = replicate 16 0 \<longleftrightarrow> w = 0" using z by auto
  show "length bs = 16 \<Longrightarrow> from_le bs = (0 :: u128) \<longleftrightarrow> bs = replicate 16 0" unfolding z [symmetric] by (rule from_le_eq) simp_all
qed

interpretation session_offer: codec encode_session_offer decode_session_offer session_offer_ok
  by (rule fixed_codecI [of _ _ _ "[16, 16, 8, 8, 8, 8]"]; case_tac x;
      auto simp: decode_session_offer_def encode_session_offer_def session_offer_ok_def map_eq_Cons_conv Let_def wire_simps from_le_eq)

record session_consent =
  sc_attachment_id :: u128
  sc_execution_id :: u128
  sc_host_block_id :: u64
  sc_offer_generation :: u64
  sc_presentation_epoch :: u64
  sc_decision :: consent_decision

definition encode_session_consent :: "session_consent \<Rightarrow> byte list" where
  "encode_session_consent m = to_le (sc_attachment_id m) @ to_le (sc_execution_id m) @ to_le (sc_host_block_id m)
     @ to_le (sc_offer_generation m) @ to_le (sc_presentation_epoch m) @ [consent_decision_u8 (sc_decision m)] @ replicate 7 0"

definition decode_session_consent :: "byte list \<Rightarrow> session_consent wire" where
  "decode_session_consent bs =
    bind_wire (exact_len bs 64) (\<lambda>_.
    if slice 57 64 bs \<noteq> replicate 7 0 \<or> slice 0 16 bs = replicate 16 0 \<or> slice 16 32 bs = replicate 16 0 then Inl MalformedPayload
    else
    let host_block_id = from_le (slice 32 40 bs); offer_generation = from_le (slice 40 48 bs)
    in bind_wire (consent_decision_from_u8 (bs ! 56)) (\<lambda>decision.
       if host_block_id = 0 then Inl MalformedPayload
       else if (case decision of RequestSession \<Rightarrow> offer_generation \<noteq> 0 | Accept \<Rightarrow> offer_generation = 0 | Decline \<Rightarrow> offer_generation = 0)
       then Inl MalformedPayload
       else Inr \<lparr>sc_attachment_id = from_le (slice 0 16 bs), sc_execution_id = from_le (slice 16 32 bs), sc_host_block_id = host_block_id,
                 sc_offer_generation = offer_generation, sc_presentation_epoch = from_le (slice 48 56 bs), sc_decision = decision\<rparr>))"

definition session_consent_ok :: "session_consent \<Rightarrow> bool" where
  "session_consent_ok m \<longleftrightarrow> sc_attachment_id m \<noteq> 0 \<and> sc_execution_id m \<noteq> 0 \<and> sc_host_block_id m \<noteq> 0 \<and>
     (sc_decision m = RequestSession \<longleftrightarrow> sc_offer_generation m = 0)"

interpretation session_consent: codec encode_session_consent decode_session_consent session_consent_ok
  by (rule fixed_codecI [of _ _ _ "[16, 16, 8, 8, 8, 1, 7]"]; case_tac x;
      auto simp: decode_session_consent_def encode_session_consent_def session_consent_ok_def map_eq_Cons_conv Let_def wire_simps from_le_eq
        split: consent_decision.splits if_splits)

record session_status =
  st_attachment_id :: u128
  st_execution_id :: u128
  st_host_block_id :: u64
  st_overlay :: session_overlay
  st_revision :: u64

definition encode_session_status :: "session_status \<Rightarrow> byte list" where
  "encode_session_status m = to_le (st_attachment_id m) @ to_le (st_execution_id m) @ to_le (st_host_block_id m)
     @ [session_overlay_u8 (st_overlay m)] @ replicate 7 0 @ to_le (st_revision m)"

definition decode_session_status :: "byte list \<Rightarrow> session_status wire" where
  "decode_session_status bs =
    bind_wire (exact_len bs 56) (\<lambda>_.
    if slice 41 48 bs \<noteq> replicate 7 0 \<or> slice 0 16 bs = replicate 16 0 \<or> slice 16 32 bs = replicate 16 0 then Inl MalformedPayload
    else
    let revision = from_le (slice 48 56 bs)
    in if revision = 0 then Inl MalformedPayload
       else bind_wire (session_overlay_from_u8 (bs ! 40)) (\<lambda>overlay.
         Inr \<lparr>st_attachment_id = from_le (slice 0 16 bs), st_execution_id = from_le (slice 16 32 bs),
              st_host_block_id = from_le (slice 32 40 bs), st_overlay = overlay, st_revision = revision\<rparr>))"

definition session_status_ok :: "session_status \<Rightarrow> bool" where
  "session_status_ok m \<longleftrightarrow> st_attachment_id m \<noteq> 0 \<and> st_execution_id m \<noteq> 0 \<and> st_revision m \<noteq> 0"

interpretation session_status: codec encode_session_status decode_session_status session_status_ok
  by (rule fixed_codecI [of _ _ _ "[16, 16, 8, 1, 7, 8]"]; case_tac x;
      auto simp: decode_session_status_def encode_session_status_def session_status_ok_def map_eq_Cons_conv Let_def wire_simps from_le_eq)

record composer_target =
  ct_attachment_id :: u128
  ct_target :: input_target_class
  ct_scope :: block_scope
  ct_mode :: composer_target_mode
  ct_reason :: composer_target_reason
  ct_block_id :: u64
  ct_target_generation :: u64
  ct_revision :: u64

definition encode_composer_target :: "composer_target \<Rightarrow> byte list" where
  "encode_composer_target m = to_le (ct_attachment_id m) @ [input_target_class_u8 (ct_target m)] @ [block_scope_u8 (ct_scope m)]
     @ [composer_target_mode_u8 (ct_mode m)] @ [composer_target_reason_u8 (ct_reason m)] @ replicate 4 0
     @ to_le (ct_block_id m) @ to_le (ct_target_generation m) @ to_le (ct_revision m)"

definition decode_composer_target :: "byte list \<Rightarrow> composer_target wire" where
  "decode_composer_target bs =
    bind_wire (exact_len bs 48) (\<lambda>_.
    if slice 0 16 bs = replicate 16 0 then Inl MalformedPayload
    else
    let target_generation = from_le (slice 32 40 bs); revision = from_le (slice 40 48 bs)
    in if target_generation = 0 \<or> revision = 0 then Inl MalformedPayload
       else
       bind_wire (composer_target_mode_from_u8 (bs ! 18)) (\<lambda>mode.
       bind_wire (composer_target_reason_from_u8 (bs ! 19)) (\<lambda>reason.
       if mode \<noteq> ModeUnavailable \<and> reason \<noteq> ReasonNone then Inl MalformedPayload
       else
       bind_wire (input_target_class_from_u8 (bs ! 16)) (\<lambda>target.
       bind_wire (block_scope_from_u8 (bs ! 17)) (\<lambda>scope.
       Inr \<lparr>ct_attachment_id = from_le (slice 0 16 bs), ct_target = target, ct_scope = scope, ct_mode = mode, ct_reason = reason,
            ct_block_id = from_le (slice 24 32 bs), ct_target_generation = target_generation, ct_revision = revision\<rparr>)))))"

definition composer_target_ok :: "composer_target \<Rightarrow> bool" where
  "composer_target_ok m \<longleftrightarrow> ct_attachment_id m \<noteq> 0 \<and> ct_target_generation m \<noteq> 0 \<and> ct_revision m \<noteq> 0 \<and>
     (ct_mode m = ModeUnavailable \<or> ct_reason m = ReasonNone)"

text \<open>The only payload whose reserved bytes are not checked: the decoder is lenient.\<close>

interpretation composer_target: lenient_codec encode_composer_target decode_composer_target composer_target_ok
proof
  fix m assume "composer_target_ok m"
  then show "decode_composer_target (encode_composer_target m) = Inr m"
    by (cases m) (auto simp: decode_composer_target_def encode_composer_target_def composer_target_ok_def Let_def wire_simps)
next
  fix bs m assume "decode_composer_target bs = Inr m"
  then show "composer_target_ok m"
    using chop [of bs "[16, 1, 1, 1, 1, 4, 8, 8, 8]"]
    by (auto simp: decode_composer_target_def composer_target_ok_def map_eq_Cons_conv Let_def wire_simps from_le_eq)
qed

definition encode_scope_trust :: "block_scope \<Rightarrow> block_trust \<Rightarrow> byte list" where
  "encode_scope_trust scope trust = [block_scope_u8 scope, block_trust_u8 trust, 1, 0]"

definition decode_scope_trust :: "byte list \<Rightarrow> (block_scope \<times> block_trust) wire" where
  "decode_scope_trust bs =
    (if length bs \<noteq> 4 \<or> bs ! 2 \<noteq> 1 \<or> bs ! 3 \<noteq> 0 then Inl MalformedPayload
     else bind_wire (block_scope_from_u8 (bs ! 0)) (\<lambda>scope.
       bind_wire (block_trust_from_u8 (bs ! 1)) (\<lambda>trust. Inr (scope, trust))))"

lemma scope_trust_iff [wire_simps]:
  "decode_scope_trust bs = Inr (scope, trust) \<longleftrightarrow> bs = encode_scope_trust scope trust"
  "decode_scope_trust (encode_scope_trust scope trust) = Inr (scope, trust)" "length (encode_scope_trust scope trust) = 4"
proof -
  show "decode_scope_trust (encode_scope_trust scope trust) = Inr (scope, trust)" "length (encode_scope_trust scope trust) = 4"
    by (simp_all add: decode_scope_trust_def encode_scope_trust_def wire_simps)
  then show "decode_scope_trust bs = Inr (scope, trust) \<longleftrightarrow> bs = encode_scope_trust scope trust"
    using chop [of bs "[1, 1, 1, 1]"] by (auto simp: decode_scope_trust_def encode_scope_trust_def map_eq_Cons_conv wire_simps)
qed

end
