(* ===== verification/Wire_Composer.thy ===== *)
theory Wire_Composer
  imports Wire_Session
begin

text \<open>
  Composer admission and status (\<open>src/crates/seyal-protocol/src/pass7/composer.rs\<close>) and the line
  identities of the viewport (viewport_line_ids.rs).
\<close>

section \<open>Composer status and result\<close>

datatype composer_eligibility = EligAvailable | EligBusy | EligUnsupported

primrec composer_eligibility_u8 :: "composer_eligibility \<Rightarrow> byte" where
  "composer_eligibility_u8 EligAvailable = 0" | "composer_eligibility_u8 EligBusy = 1" | "composer_eligibility_u8 EligUnsupported = 2"

definition composer_eligibility_from_u8 :: "byte \<Rightarrow> composer_eligibility wire" where
  "composer_eligibility_from_u8 v = ok_or MalformedPayload (map_of [(0, EligAvailable), (1, EligBusy), (2, EligUnsupported)] v)"

lemma composer_eligibility_iff [wire_simps]:
  "composer_eligibility_from_u8 v = Inr k \<longleftrightarrow> v = composer_eligibility_u8 k" "composer_eligibility_from_u8 (composer_eligibility_u8 k) = Inr k"
  by (cases k; auto simp: composer_eligibility_from_u8_def split: if_splits)+

record composer_status =
  cst_attachment_id :: u128
  cst_eligibility :: composer_eligibility
  cst_revision :: u64

definition encode_composer_status :: "composer_status \<Rightarrow> byte list" where
  "encode_composer_status m = to_le (cst_attachment_id m) @ [composer_eligibility_u8 (cst_eligibility m)] @ replicate 7 0
     @ to_le (cst_revision m)"

definition decode_composer_status :: "byte list \<Rightarrow> composer_status wire" where
  "decode_composer_status bs =
    bind_wire (exact_len bs 32) (\<lambda>_.
    if slice 17 24 bs \<noteq> replicate 7 0 then Inl MalformedPayload
    else bind_wire (composer_eligibility_from_u8 (bs ! 16)) (\<lambda>eligibility.
      Inr \<lparr>cst_attachment_id = from_le (slice 0 16 bs), cst_eligibility = eligibility, cst_revision = from_le (slice 24 32 bs)\<rparr>))"

interpretation composer_status: codec encode_composer_status decode_composer_status "\<lambda>_. True"
  by (rule fixed_codecI [of _ _ _ "[16, 1, 7, 8]"]; case_tac x;
      auto simp: decode_composer_status_def encode_composer_status_def piece_simps wire_simps)

datatype composer_result_code = CrAccepted | CrBusy | CrUnsupported | CrBackpressure | CrInvalid

primrec composer_result_code_u8 :: "composer_result_code \<Rightarrow> byte" where
  "composer_result_code_u8 CrAccepted = 0" | "composer_result_code_u8 CrBusy = 1" | "composer_result_code_u8 CrUnsupported = 2"
| "composer_result_code_u8 CrBackpressure = 3" | "composer_result_code_u8 CrInvalid = 4"

definition composer_result_code_from_u8 :: "byte \<Rightarrow> composer_result_code wire" where
  "composer_result_code_from_u8 v = ok_or MalformedPayload (map_of [(0, CrAccepted), (1, CrBusy), (2, CrUnsupported), (3, CrBackpressure), (4, CrInvalid)] v)"

lemma composer_result_code_iff [wire_simps]:
  "composer_result_code_from_u8 v = Inr k \<longleftrightarrow> v = composer_result_code_u8 k" "composer_result_code_from_u8 (composer_result_code_u8 k) = Inr k"
  by (cases k; auto simp: composer_result_code_from_u8_def split: if_splits)+

record composer_result =
  cre_attachment_id :: u128
  cre_code :: composer_result_code
  cre_block_id :: u64
  cre_request_id :: u64

definition encode_composer_result :: "composer_result \<Rightarrow> byte list" where
  "encode_composer_result m = to_le (cre_attachment_id m) @ [composer_result_code_u8 (cre_code m)] @ replicate 7 0
     @ to_le (cre_block_id m) @ to_le (cre_request_id m)"

definition decode_composer_result :: "byte list \<Rightarrow> composer_result wire" where
  "decode_composer_result bs =
    bind_wire (exact_len bs 40) (\<lambda>_.
    if slice 17 24 bs \<noteq> replicate 7 0 then Inl MalformedPayload
    else bind_wire (composer_result_code_from_u8 (bs ! 16)) (\<lambda>code.
      Inr \<lparr>cre_attachment_id = from_le (slice 0 16 bs), cre_code = code, cre_block_id = from_le (slice 24 32 bs),
           cre_request_id = from_le (slice 32 40 bs)\<rparr>))"

interpretation composer_result: codec encode_composer_result decode_composer_result "\<lambda>_. True"
  by (rule fixed_codecI [of _ _ _ "[16, 1, 7, 8, 8]"]; case_tac x;
      auto simp: decode_composer_result_def encode_composer_result_def piece_simps wire_simps)

section \<open>Composer commands\<close>

definition MAX_COMPOSER_COMMAND_BYTES :: nat where "MAX_COMPOSER_COMMAND_BYTES = 16384"

record composer_command =
  cc_attachment_id :: u128
  cc_request_id :: u64
  cc_command :: "byte list"

definition encode_composer_command :: "composer_command \<Rightarrow> byte list" where
  "encode_composer_command m = to_le (cc_attachment_id m) @ to_le (cc_request_id m) @ to_le (of_nat (length (cc_command m)) :: u32)
     @ to_le (0 :: u32) @ cc_command m"

definition decode_composer_command :: "byte list \<Rightarrow> composer_command wire" where
  "decode_composer_command bs =
    (if length bs < 32 then Inl TruncatedPayload
     else
       let request_id = from_le (slice 16 24 bs); declared = unat (from_le (slice 24 28 bs) :: u32)
       in if request_id = 0 \<or> from_le (slice 28 32 bs) \<noteq> (0 :: u32) \<or> declared = 0 \<or> declared > MAX_COMPOSER_COMMAND_BYTES
             \<or> length bs \<noteq> 32 + declared then Inl MalformedPayload
          else if from_utf8 (drop 32 bs) = None then Inl MalformedPayload
          else Inr \<lparr>cc_attachment_id = from_le (slice 0 16 bs), cc_request_id = request_id, cc_command = drop 32 bs\<rparr>)"

definition composer_command_ok :: "composer_command \<Rightarrow> bool" where
  "composer_command_ok m \<longleftrightarrow> cc_request_id m \<noteq> 0 \<and> cc_command m \<noteq> [] \<and> length (cc_command m) \<le> MAX_COMPOSER_COMMAND_BYTES \<and>
     from_utf8 (cc_command m) \<noteq> None"

interpretation composer_command: codec encode_composer_command decode_composer_command composer_command_ok
proof
  fix m assume "composer_command_ok m"
  then show "decode_composer_command (encode_composer_command m) = Inr m"
    by (cases m) (auto simp: decode_composer_command_def encode_composer_command_def composer_command_ok_def MAX_COMPOSER_COMMAND_BYTES_def
        Let_def wire_simps)
next
  fix bs m assume d: "decode_composer_command bs = Inr m"
  then have "32 \<le> length bs" by (auto simp: decode_composer_command_def split: if_splits)
  then obtain a i b z c where bs: "bs = a @ i @ b @ z @ c" "length a = 16" "length i = 8" "length b = 4" "length z = 4"
    using chop_prefix [of "[16, 8, 4, 4]" bs] by (auto simp: map_eq_Cons_conv)
  with d have m: "from_le i \<noteq> (0 :: u64)" "z = to_le (0 :: u32)" "length c = unat (from_le b :: u32)" "c \<noteq> []"
    "length c \<le> MAX_COMPOSER_COMMAND_BYTES" "from_utf8 c \<noteq> None" "m = \<lparr>cc_attachment_id = from_le a, cc_request_id = from_le i, cc_command = c\<rparr>"
    by (auto simp: decode_composer_command_def wire_simps Let_def from_le_eq split: if_splits)
  then show "composer_command_ok m" by (simp add: composer_command_ok_def)
  show "encode_composer_command m = bs" using m bs u32_length_prefix [OF bs(4) m(3)] by (simp add: encode_composer_command_def wire_simps)
qed

text \<open>The fenced form, used when session bootstrap was negotiated, carries the target generation as well.\<close>

definition encode_fenced :: "composer_command \<times> u64 \<Rightarrow> byte list" where
  "encode_fenced mg = (case mg of (m, target_generation) \<Rightarrow>
     to_le (cc_attachment_id m) @ to_le (cc_request_id m) @ to_le target_generation @ to_le (of_nat (length (cc_command m)) :: u32)
     @ to_le (0 :: u32) @ cc_command m)"

definition decode_fenced :: "byte list \<Rightarrow> (composer_command \<times> u64) wire" where
  "decode_fenced bs =
    (if length bs < 40 then Inl TruncatedPayload
     else
       let request_id = from_le (slice 16 24 bs); target_generation = from_le (slice 24 32 bs);
           declared = unat (from_le (slice 32 36 bs) :: u32)
       in if request_id = 0 \<or> target_generation = 0 \<or> from_le (slice 36 40 bs) \<noteq> (0 :: u32) \<or> declared = 0
             \<or> declared > MAX_COMPOSER_COMMAND_BYTES \<or> length bs \<noteq> 40 + declared then Inl MalformedPayload
          else if from_utf8 (drop 40 bs) = None then Inl MalformedPayload
          else Inr (\<lparr>cc_attachment_id = from_le (slice 0 16 bs), cc_request_id = request_id, cc_command = drop 40 bs\<rparr>, target_generation))"

interpretation fenced: codec encode_fenced decode_fenced "\<lambda>(m, g). composer_command_ok m \<and> g \<noteq> 0"
proof
  fix mg :: "composer_command \<times> u64" assume "case mg of (m, g) \<Rightarrow> composer_command_ok m \<and> g \<noteq> 0"
  then show "decode_fenced (encode_fenced mg) = Inr mg"
    by (cases mg; cases "fst mg") (auto simp: decode_fenced_def encode_fenced_def composer_command_ok_def MAX_COMPOSER_COMMAND_BYTES_def
        Let_def wire_simps)
next
  fix bs mg assume d: "decode_fenced bs = Inr mg"
  then have "40 \<le> length bs" by (auto simp: decode_fenced_def split: if_splits)
  then obtain a i g b z c where bs: "bs = a @ i @ g @ b @ z @ c" "length a = 16" "length i = 8" "length g = 8" "length b = 4" "length z = 4"
    using chop_prefix [of "[16, 8, 8, 4, 4]" bs] by (auto simp: map_eq_Cons_conv)
  with d have m: "from_le i \<noteq> (0 :: u64)" "from_le g \<noteq> (0 :: u64)" "z = to_le (0 :: u32)" "length c = unat (from_le b :: u32)" "c \<noteq> []"
    "length c \<le> MAX_COMPOSER_COMMAND_BYTES" "from_utf8 c \<noteq> None"
    "mg = (\<lparr>cc_attachment_id = from_le a, cc_request_id = from_le i, cc_command = c\<rparr>, from_le g)"
    by (auto simp: decode_fenced_def wire_simps Let_def from_le_eq split: if_splits)
  then show "case mg of (m, g) \<Rightarrow> composer_command_ok m \<and> g \<noteq> 0" by (simp add: composer_command_ok_def)
  show "encode_fenced mg = bs" using m bs u32_length_prefix [OF bs(5) m(4)] by (simp add: encode_fenced_def wire_simps)
qed

section \<open>Line identities of the viewport\<close>

record viewport_line_ids =
  vl_generation :: u64
  vl_line_ids :: "u64 list"

definition VIEWPORT_HEADER_LEN :: nat where "VIEWPORT_HEADER_LEN = 12"

text \<open>
  The scan of \<open>validate\<close>: \<open>run\<close> is the identity of the current run of equal rows, \<open>closed\<close> the
  identities of the runs that have ended.
\<close>

fun scan_runs :: "u64 list \<Rightarrow> u64 option \<Rightarrow> u64 list \<Rightarrow> bool" where
  "scan_runs closed run [] = True"
| "scan_runs closed run (i # ids) =
    (if run = Some i then scan_runs closed run ids
     else
       let closed' = (case run of Some ended \<Rightarrow> ended # closed | None \<Rightarrow> closed)
       in i \<notin> set closed' \<and> scan_runs closed' (Some i) ids)"

definition validate_viewport :: "viewport_line_ids \<Rightarrow> unit wire" where
  "validate_viewport m =
    (if vl_generation m = 0 then Inl MalformedPayload
     else if vl_line_ids m = [] \<or> length (vl_line_ids m) > unat MAX_DISPLAY_ROWS then Inl MalformedPayload
     else if 0 \<in> set (vl_line_ids m) then Inl MalformedPayload
     else if scan_runs [] None (vl_line_ids m) then Inr () else Inl MalformedPayload)"

definition encode_viewport :: "viewport_line_ids \<Rightarrow> byte list" where
  "encode_viewport m = to_le (vl_generation m) @ to_le (of_nat (length (vl_line_ids m)) :: u16) @ to_le (0 :: u16)
     @ concat (map to_le (vl_line_ids m))"

definition decode_line_id :: "nat \<Rightarrow> byte list \<Rightarrow> u64 wire" where
  "decode_line_id offset bs =
    (let i = from_le (slice offset (offset + 8) bs) in if i = 0 then Inl MalformedPayload else Inr i)"

definition decode_viewport :: "byte list \<Rightarrow> viewport_line_ids wire" where
  "decode_viewport bs =
    (if length bs < VIEWPORT_HEADER_LEN then Inl TruncatedPayload
     else
       let generation = from_le (slice 0 8 bs); row_count = (from_le (slice 8 10 bs) :: u16); reserved = (from_le (slice 10 12 bs) :: u16)
       in if reserved \<noteq> 0 then Inl MalformedPayload
          else if row_count = 0 \<or> row_count > MAX_DISPLAY_ROWS then Inl MalformedPayload
          else if length bs \<noteq> VIEWPORT_HEADER_LEN + unat row_count * 8 then Inl ExactLengthMismatch
          else bind_wire (read_items decode_line_id 8 (unat row_count) VIEWPORT_HEADER_LEN bs) (\<lambda>ids.
            let message = \<lparr>vl_generation = generation, vl_line_ids = ids\<rparr>
            in bind_wire (validate_viewport message) (\<lambda>_. Inr message)))"

text \<open>The scan accepts exactly the sequences in which equal identities are neighbours.\<close>

lemma scan_runs_Some:
  "scan_runs closed (Some j) ids \<longleftrightarrow> distinct (remdups_adj (j # ids)) \<and> set (tl (remdups_adj (j # ids))) \<inter> set closed = {}"
proof (induction ids arbitrary: closed j)
  case (Cons i ids)
  show ?case
  proof (cases "i = j")
    case False
    obtain T where r: "remdups_adj (i # ids) = i # T"
      using hd_remdups_adj [of "i # ids"] by (cases "remdups_adj (i # ids)") auto
    have q: "remdups_adj (j # i # ids) = j # i # T" using False r by simp
    have "scan_runs closed (Some j) (i # ids) \<longleftrightarrow> i \<notin> set (j # closed) \<and> scan_runs (j # closed) (Some i) ids" using False by simp
    then show ?thesis using False Cons.IH [of "j # closed" i] unfolding r q by auto
  qed (simp add: Cons.IH)
qed simp

lemma scan_runs_exact: "scan_runs [] None ids \<longleftrightarrow> distinct (remdups_adj ids)"
proof (cases ids)
  case (Cons i js)
  then show ?thesis using scan_runs_Some [of "[]" i js] by simp
qed simp

interpretation line_id_item: item_codec "to_le :: u64 \<Rightarrow> byte list" decode_line_id 8 "\<lambda>i. i \<noteq> 0"
  by unfold_locales (auto simp: decode_line_id_def Let_def wire_simps split: if_splits)

interpretation viewport: codec encode_viewport decode_viewport "\<lambda>m. validate_viewport m = Inr ()"
proof
  fix m assume v: "validate_viewport m = Inr ()"
  obtain g ids where m: "m = \<lparr>vl_generation = g, vl_line_ids = ids\<rparr>" by (cases m)
  let ?pre = "to_le g @ to_le (of_nat (length ids) :: u16) @ to_le (0 :: u16)"
  have ids: "ids \<noteq> []" "length ids \<le> 256" "list_all (\<lambda>i. i \<noteq> 0) ids"
    using v by (auto simp: m validate_viewport_def MAX_DISPLAY_ROWS_def list_all_iff split: if_splits)
  have "read_items decode_line_id 8 (length ids) 12 (encode_viewport m) = Inr ids"
    using line_id_item.read_encoded [OF ids(3), of ?pre "[]"] by (simp add: encode_viewport_def m)
  moreover have "(of_nat (length ids) :: u16) \<noteq> 0" "(of_nat (length ids) :: u16) \<le> MAX_DISPLAY_ROWS" "unat (of_nat (length ids) :: u16) = length ids"
    using ids(1,2) by (simp_all add: word_le_nat_alt word_of_nat_eq_0_iff MAX_DISPLAY_ROWS_def wire_simps) (auto dest: dvd_imp_le)
  ultimately show "decode_viewport (encode_viewport m) = Inr m" using v
    by (simp add: decode_viewport_def VIEWPORT_HEADER_LEN_def Let_def) (simp add: encode_viewport_def m line_id_item.length_items wire_simps)
next
  fix bs m assume d: "decode_viewport bs = Inr m"
  then have "12 \<le> length bs" by (auto simp: decode_viewport_def VIEWPORT_HEADER_LEN_def split: if_splits)
  then obtain a b z c where bs: "bs = a @ b @ z @ c" "length a = 8" "length b = 2" "length z = 2"
    using chop_prefix [of "[8, 2, 2]" bs] by (auto simp: map_eq_Cons_conv)
  define n where "n = unat (from_le b :: u16)"
  from d obtain ids where n: "z = to_le (0 :: u16)" "length c = n * 8"
    "read_items decode_line_id 8 n (length (a @ b @ z)) ((a @ b @ z) @ c @ []) = Inr ids" "m = \<lparr>vl_generation = from_le a, vl_line_ids = ids\<rparr>"
    "validate_viewport m = Inr ()"
    by (auto simp: decode_viewport_def VIEWPORT_HEADER_LEN_def bs n_def wire_simps piece_simps split: if_splits)
  show "validate_viewport m = Inr ()" by (rule n(5))
  from line_id_item.read_sound [OF n(2,3)] have "length ids = n" "concat (map to_le ids) = c" by auto
  moreover have "to_le (of_nat n :: u16) = b" using bs(3) by (simp add: n_def wire_simps)
  ultimately show "encode_viewport m = bs" using n(1,4) bs by (simp add: encode_viewport_def wire_simps)
qed

end
