(* ===== verification/Wire_Blocks.thy ===== *)
theory Wire_Blocks
  imports Wire_Composer
begin

text \<open>
  The replacement timeline of command blocks, in its legacy and its session schema
  (\<open>src/crates/seyal-protocol/src/pass7/command_blocks.rs\<close>).  An \<open>i32\<close> exit status is its 32 bits.
\<close>

unbundle bit_operations_syntax

section \<open>Records\<close>

definition MAX_COMMAND_BLOCK_RECORDS :: nat where "MAX_COMMAND_BLOCK_RECORDS = 128"
definition CANVAS_FLOOR_FLAG :: byte where "CANVAS_FLOOR_FLAG = 1"
definition TIMELINE_HEADER_LEN :: nat where "TIMELINE_HEADER_LEN = 16"
definition RECORD_HEADER_LEN :: nat where "RECORD_HEADER_LEN = 36"
definition SCOPE_TRUST_LEN :: nat where "SCOPE_TRUST_LEN = 4"
definition TIMELINE_SCHEMA_SESSION :: u16 where "TIMELINE_SCHEMA_SESSION = 1"

datatype command_block_state = BlockRunning | BlockCompleted "u32 option"

record command_block =
  cb_id :: u64
  cb_command :: "byte list"
  cb_start_line :: u64
  cb_end_line :: "u64 option"
  cb_state :: command_block_state
  cb_flags :: byte
  cb_scope :: block_scope
  cb_trust :: block_trust

record block_timeline =
  bt_revision :: u64
  bt_records :: "command_block list"

fun state_fields :: "command_block_state \<Rightarrow> byte \<times> u32" where
  "state_fields BlockRunning = (0, 0)"
| "state_fields (BlockCompleted (Some code)) = (1, code)"
| "state_fields (BlockCompleted None) = (2, 0)"

text \<open>The fixed part of a record, the same in both schemas.\<close>

definition record_header :: "command_block \<Rightarrow> byte list" where
  "record_header r = to_le (cb_id r) @ to_le (cb_start_line r) @ to_le (case cb_end_line r of Some e \<Rightarrow> e | None \<Rightarrow> 0)
     @ [fst (state_fields (cb_state r))] @ [cb_flags r] @ replicate 2 0 @ to_le (snd (state_fields (cb_state r)))
     @ to_le (of_nat (length (cb_command r)) :: u16) @ to_le (0 :: u16)"

definition encode_record :: "command_block \<Rightarrow> byte list wire" where
  "encode_record r =
    (if cb_command r = [] \<or> length (cb_command r) > MAX_COMPOSER_COMMAND_BYTES \<or> cb_scope r \<noteq> ScopeLocal \<or> cb_trust r \<noteq> LocalTrusted
     then Inl MalformedPayload
     else if cb_flags r AND NOT CANVAS_FLOOR_FLAG \<noteq> 0 then Inl MalformedPayload
     else Inr (record_header r @ cb_command r))"

definition encode_session_record :: "command_block \<Rightarrow> byte list wire" where
  "encode_session_record r =
    (if cb_command r = [] \<or> length (cb_command r) > MAX_COMPOSER_COMMAND_BYTES then Inl MalformedPayload
     else if cb_flags r AND NOT CANVAS_FLOOR_FLAG \<noteq> 0 then Inl MalformedPayload
     else Inr (record_header r @ encode_scope_trust (cb_scope r) (cb_trust r) @ cb_command r))"

text \<open>The encoding loop: the frame bound is checked after every record.\<close>

fun encode_records :: "(command_block \<Rightarrow> byte list wire) \<Rightarrow> byte list \<Rightarrow> command_block list \<Rightarrow> byte list wire" where
  "encode_records enc out [] = Inr out"
| "encode_records enc out (r # rs) =
    bind_wire (enc r) (\<lambda>bs. if length (out @ bs) > MAX_FRAME_PAYLOAD then Inl OversizedPayload else encode_records enc (out @ bs) rs)"

definition timeline_header :: "u16 \<Rightarrow> block_timeline \<Rightarrow> byte list" where
  "timeline_header schema t = to_le (bt_revision t) @ to_le (of_nat (length (bt_records t)) :: u16) @ to_le schema @ to_le (0 :: u32)"

definition try_encode_timeline :: "block_timeline \<Rightarrow> byte list wire" where
  "try_encode_timeline t =
    (if length (bt_records t) > MAX_COMMAND_BLOCK_RECORDS then Inl OversizedPayload
     else encode_records encode_record (timeline_header 0 t) (bt_records t))"

definition try_encode_session_timeline :: "block_timeline \<Rightarrow> byte list wire" where
  "try_encode_session_timeline t =
    (if length (bt_records t) > MAX_COMMAND_BLOCK_RECORDS then Inl OversizedPayload
     else encode_records encode_session_record (timeline_header TIMELINE_SCHEMA_SESSION t) (bt_records t))"

section \<open>Decoding\<close>

definition block_state_of :: "byte \<Rightarrow> u64 \<Rightarrow> u64 \<Rightarrow> u32 \<Rightarrow> (u64 option \<times> command_block_state) wire" where
  "block_state_of tag start_line end_raw exit_status =
    (if tag = 0 \<and> end_raw = 0 \<and> exit_status = 0 then Inr (None, BlockRunning)
     else if tag = 1 \<and> end_raw \<ge> start_line then Inr (Some end_raw, BlockCompleted (Some exit_status))
     else if tag = 2 \<and> end_raw \<ge> start_line \<and> exit_status = 0 then Inr (Some end_raw, BlockCompleted None)
     else Inl MalformedPayload)"

text \<open>
  One record at \<open>offset\<close>, with the offset after it.  \<open>extra\<close> is the number of bytes between the
  fixed part and the command, and \<open>marks\<close> reads scope and trust from them.
\<close>

definition decode_record_with ::
  "nat \<Rightarrow> (byte list \<Rightarrow> (block_scope \<times> block_trust) wire) \<Rightarrow> nat \<Rightarrow> byte list \<Rightarrow> (nat \<times> command_block) wire"
where
  "decode_record_with extra marks offset bs =
    (if offset + (RECORD_HEADER_LEN + extra) > length bs then Inl TruncatedPayload
     else
       let bid = from_le (slice offset (offset + 8) bs); start_line = from_le (slice (offset + 8) (offset + 16) bs);
           end_raw = from_le (slice (offset + 16) (offset + 24) bs); state_tag = bs ! (offset + 24); flags = bs ! (offset + 25)
       in if flags AND NOT CANVAS_FLOOR_FLAG \<noteq> 0 \<or> slice (offset + 26) (offset + 28) bs \<noteq> replicate 2 0
             \<or> from_le (slice (offset + 30) (offset + 32) bs) \<noteq> (0 :: u16) then Inl MalformedPayload
          else
            let exit_status = from_le (slice (offset + 28) (offset + 32) bs);
                command_len = unat (from_le (slice (offset + 32) (offset + 34) bs) :: u16)
            in if command_len = 0 \<or> command_len > MAX_COMPOSER_COMMAND_BYTES \<or> from_le (slice (offset + 34) (offset + 36) bs) \<noteq> (0 :: u16)
               then Inl MalformedPayload
               else bind_wire (marks (slice (offset + 36) (offset + 36 + extra) bs)) (\<lambda>(scope, trust).
                 let command_start = offset + RECORD_HEADER_LEN + extra; command_end = command_start + command_len
                 in if command_end > length bs then Inl TruncatedPayload
                    else if from_utf8 (slice command_start command_end bs) = None then Inl MalformedPayload
                    else bind_wire (block_state_of state_tag start_line end_raw exit_status) (\<lambda>(end_line, state).
                      if bid = 0 \<or> start_line = 0 then Inl MalformedPayload
                      else Inr (command_end, \<lparr>cb_id = bid, cb_command = slice command_start command_end bs, cb_start_line = start_line,
                             cb_end_line = end_line, cb_state = state, cb_flags = flags, cb_scope = scope, cb_trust = trust\<rparr>))))"

definition decode_record :: "nat \<Rightarrow> byte list \<Rightarrow> (nat \<times> command_block) wire" where
  "decode_record = decode_record_with 0 (\<lambda>_. Inr (ScopeLocal, LocalTrusted))"

definition decode_session_record :: "nat \<Rightarrow> byte list \<Rightarrow> (nat \<times> command_block) wire" where
  "decode_session_record = decode_record_with SCOPE_TRUST_LEN decode_scope_trust"

fun decode_records ::
  "(nat \<Rightarrow> byte list \<Rightarrow> (nat \<times> command_block) wire) \<Rightarrow> nat \<Rightarrow> nat \<Rightarrow> byte list \<Rightarrow> (nat \<times> command_block list) wire"
where
  "decode_records dec 0 offset bs = Inr (offset, [])"
| "decode_records dec (Suc n) offset bs =
    bind_wire (dec offset bs) (\<lambda>(offset', r). bind_wire (decode_records dec n offset' bs) (\<lambda>(e, rs). Inr (e, r # rs)))"

definition decode_timeline_with ::
  "u16 \<Rightarrow> (nat \<Rightarrow> byte list \<Rightarrow> (nat \<times> command_block) wire) \<Rightarrow> byte list \<Rightarrow> block_timeline wire"
where
  "decode_timeline_with schema dec bs =
    (if length bs > MAX_FRAME_PAYLOAD then Inl OversizedPayload
     else if length bs < TIMELINE_HEADER_LEN then Inl TruncatedPayload
     else
       let revision = from_le (slice 0 8 bs); count = unat (from_le (slice 8 10 bs) :: u16)
       in if from_le (slice 10 12 bs) \<noteq> schema \<or> from_le (slice 12 16 bs) \<noteq> (0 :: u32) \<or> count > MAX_COMMAND_BLOCK_RECORDS
          then Inl MalformedPayload
          else bind_wire (decode_records dec count TIMELINE_HEADER_LEN bs) (\<lambda>(offset, records).
            if offset \<noteq> length bs then Inl ExactLengthMismatch
            else Inr \<lparr>bt_revision = revision, bt_records = records\<rparr>))"

definition decode_timeline :: "byte list \<Rightarrow> block_timeline wire" where
  "decode_timeline = decode_timeline_with 0 decode_record"

definition decode_session_timeline :: "byte list \<Rightarrow> block_timeline wire" where
  "decode_session_timeline = decode_timeline_with TIMELINE_SCHEMA_SESSION decode_session_record"

section \<open>One record\<close>

text \<open>
  What a record has to satisfy to survive the trip.  The bound on the exit status is not a rule of
  the protocol: the decoder reads the upper half of the status as a reserved field.
\<close>

definition state_ok :: "command_block \<Rightarrow> bool" where
  "state_ok r \<longleftrightarrow> (case cb_state r of
     BlockRunning \<Rightarrow> cb_end_line r = None
   | BlockCompleted _ \<Rightarrow> \<exists>e. cb_end_line r = Some e \<and> cb_start_line r \<le> e)"

definition exit_small :: "command_block \<Rightarrow> bool" where
  "exit_small r \<longleftrightarrow> unat (snd (state_fields (cb_state r))) < 65536"

definition block_ok :: "command_block \<Rightarrow> bool" where
  "block_ok r \<longleftrightarrow> cb_id r \<noteq> 0 \<and> cb_start_line r \<noteq> 0 \<and> from_utf8 (cb_command r) \<noteq> None \<and> state_ok r"

lemma le_digits_add: "le_digits (a + b) x = le_digits a x @ le_digits b (x div 256 ^ a)"
  by (induction a arbitrary: x) (simp_all add: div_mult2_eq)

lemma upper_half_zero: "from_le (slice 2 4 (to_le (c :: u32))) = (0 :: u16) \<longleftrightarrow> unat c < 65536"
proof -
  have c: "unat c < 4294967296" using unsigned_less [of c] by simp
  then have q: "unat c div 65536 < 65536" by (simp add: less_mult_imp_div_less)
  have "to_le c = le_digits (2 + 2) (unat c)" by (simp add: to_le_def)
  then have "slice 2 4 (to_le c) = le_digits 2 (unat c div 65536)" by (simp only: le_digits_add) (simp add: wire_simps)
  then have "from_le (slice 2 4 (to_le c)) = (of_nat (unat c div 65536) :: u16)"
    using q by (simp add: from_le_def le_value_digits)
  moreover have "(of_nat (unat c div 65536) :: u16) = 0 \<longleftrightarrow> unat c div 65536 = 0"
    using q by (auto simp: word_of_nat_eq_0_iff dest: dvd_imp_le)
  ultimately show ?thesis by (simp add: div_eq_0_iff)
qed

lemma block_state_iff:
  "block_state_of tag start_line end_raw code = Inr (end_line, state) \<longleftrightarrow>
   (tag, code) = state_fields state \<and> end_raw = (case end_line of Some e \<Rightarrow> e | None \<Rightarrow> 0) \<and>
   (case state of BlockRunning \<Rightarrow> end_line = None | BlockCompleted _ \<Rightarrow> \<exists>e. end_line = Some e \<and> start_line \<le> e)"
  by (cases state rule: state_fields.cases) (auto simp: block_state_of_def split: option.splits)

lemma length_record_header [wire_simps]: "length (record_header r) = 36"
  by (simp add: record_header_def)

lemma decode_encoded_record:
  assumes "block_ok r" "exit_small r" "cb_command r \<noteq> []" "length (cb_command r) \<le> MAX_COMPOSER_COMMAND_BYTES" "cb_flags r AND NOT CANVAS_FLOOR_FLAG = 0"
    and m: "length m = extra" "marks m = Inr (cb_scope r, cb_trust r)"
  shows "decode_record_with extra marks (length pre) (pre @ record_header r @ m @ cb_command r @ post) =
    Inr (length pre + length (record_header r @ m @ cb_command r), r)"
proof -
  let ?c = "snd (state_fields (cb_state r))"
  have u: "from_le (slice 2 4 (to_le ?c)) = (0 :: u16)" using assms(2) by (simp add: exit_small_def upper_half_zero)
  have l: "length (cb_command r) < 65536" using assms(4) by (simp add: MAX_COMPOSER_COMMAND_BYTES_def)
  have st: "block_state_of (fst (state_fields (cb_state r))) (cb_start_line r) (case cb_end_line r of Some e \<Rightarrow> e | None \<Rightarrow> 0) ?c =
    Inr (cb_end_line r, cb_state r)" using assms(1) unfolding block_state_iff by (simp add: block_ok_def state_ok_def)
  show ?thesis using assms u l st
    by (cases r) (auto simp: decode_record_with_def record_header_def RECORD_HEADER_LEN_def block_ok_def Let_def wire_simps)
qed

lemma slice_from_start: "slice 0 n xs = take n xs"
  by (simp add: slice_def)

lemma decode_record_sound:
  assumes "decode_record_with extra marks (length pre) (pre @ rest) = Inr (e, r)"
  shows "\<exists>m post. rest = record_header r @ m @ cb_command r @ post \<and> length m = extra \<and> marks m = Inr (cb_scope r, cb_trust r) \<and>
    e = length pre + length (record_header r @ m @ cb_command r) \<and> block_ok r \<and> exit_small r \<and> cb_command r \<noteq> [] \<and>
    length (cb_command r) \<le> MAX_COMPOSER_COMMAND_BYTES \<and> cb_flags r AND NOT CANVAS_FLOOR_FLAG = 0"
proof -
  from assms have "36 + extra \<le> length rest" by (auto simp: decode_record_with_def RECORD_HEADER_LEN_def split: if_splits)
  then obtain i a b t f z x y l w m c where rest: "rest = i @ a @ b @ [t] @ [f] @ z @ (x @ y) @ l @ w @ m @ c"
    and len: "length i = 8" "length a = 8" "length b = 8" "length z = 2" "length x = 2" "length y = 2" "length l = 2" "length w = 2" "length m = extra"
    using chop_prefix [of "[8, 8, 8, 1, 1, 2, 2, 2, 2, 2, extra]" rest] by (auto simp: map_eq_Cons_conv wire_simps)
  define n where "n = unat (from_le l :: u16)"
  from assms obtain el st where d: "f AND NOT CANVAS_FLOOR_FLAG = 0" "z = replicate 2 0" "from_le y = (0 :: u16)" "n \<noteq> 0" "n \<le> MAX_COMPOSER_COMMAND_BYTES"
    "w = to_le (0 :: u16)" "marks m = Inr (cb_scope r, cb_trust r)" "n \<le> length c" "from_utf8 (take n c) \<noteq> None"
    "block_state_of t (from_le a) (from_le b) (from_le (x @ y)) = Inr (el, st)" "from_le i \<noteq> (0 :: u64)" "from_le a \<noteq> (0 :: u64)"
    "e = length pre + 36 + extra + n"
    "r = \<lparr>cb_id = from_le i, cb_command = take n c, cb_start_line = from_le a, cb_end_line = el, cb_state = st, cb_flags = f,
          cb_scope = cb_scope r, cb_trust = cb_trust r\<rparr>"
    by (auto simp: decode_record_with_def RECORD_HEADER_LEN_def rest len n_def wire_simps from_le_eq slice_from_start Let_def split: if_splits prod.splits)
  have st: "(t, from_le (x @ y)) = state_fields st" "from_le b = (case el of Some e \<Rightarrow> e | None \<Rightarrow> 0)"
    "case st of BlockRunning \<Rightarrow> el = None | BlockCompleted _ \<Rightarrow> \<exists>e. el = Some e \<and> from_le a \<le> e"
    using d(10) unfolding block_state_iff by blast+
  have xy: "to_le (from_le (x @ y) :: u32) = x @ y" using len by (simp add: wire_simps)
  have "from_le (slice 2 4 (to_le (from_le (x @ y) :: u32))) = (0 :: u16)" unfolding xy using d(3) len by (simp add: wire_simps)
  then have small: "unat (from_le (x @ y) :: u32) < 65536" by (simp only: upper_half_zero)
  have sel: "cb_id r = from_le i" "cb_command r = take n c" "cb_start_line r = from_le a" "cb_end_line r = el" "cb_state r = st" "cb_flags r = f"
    using arg_cong [OF d(14), of cb_id] arg_cong [OF d(14), of cb_command] arg_cong [OF d(14), of cb_start_line]
      arg_cong [OF d(14), of cb_end_line] arg_cong [OF d(14), of cb_state] arg_cong [OF d(14), of cb_flags] by simp_all
  have tf: "fst (state_fields st) = t" "snd (state_fields st) = from_le (x @ y)" by (simp_all flip: st(1))
  have ln: "length (take n c) = n" "to_le (of_nat n :: u16) = l" using d(8) len(7) by (simp_all add: n_def wire_simps)
  have "record_header r = i @ a @ b @ [t] @ [f] @ z @ (x @ y) @ l @ w"
    unfolding record_header_def sel tf st(2) [symmetric] xy ln using len d(2,6) by (simp add: wire_simps)
  then have "rest = record_header r @ m @ cb_command r @ drop n c" unfolding rest sel by simp
  moreover have "block_ok r" "exit_small r"
    unfolding block_ok_def state_ok_def exit_small_def sel tf using d(9,11,12) st(3) small by simp_all
  moreover have "e = length pre + length (record_header r @ m @ cb_command r)" "cb_command r \<noteq> []" "length (cb_command r) \<le> MAX_COMPOSER_COMMAND_BYTES"
    "cb_flags r AND NOT CANVAS_FLOOR_FLAG = 0" using d len(9) ln by (auto simp: sel length_record_header)
  ultimately show ?thesis using d(7) len(9) by blast
qed

section \<open>The timeline\<close>

text \<open>
  What the two loops need of a record's encoder and decoder: a record that may travel is read
  back, and a record that is read was written by the encoder.
\<close>

locale record_codec =
  fixes enc :: "command_block \<Rightarrow> byte list wire" and dec :: "nat \<Rightarrow> byte list \<Rightarrow> (nat \<times> command_block) wire" and ok :: "command_block \<Rightarrow> bool"
  assumes dec_enc: "ok r \<Longrightarrow> enc r = Inr bs \<Longrightarrow> dec (length pre) (pre @ bs @ post) = Inr (length pre + length bs, r)"
    and enc_dec: "dec (length pre) (pre @ rest) = Inr (e, r) \<Longrightarrow>
      ok r \<and> (\<exists>bs post. rest = bs @ post \<and> enc r = Inr bs \<and> e = length pre + length bs)"
begin

lemma encode_records_prefix: "encode_records enc out rs = Inr bs \<Longrightarrow> \<exists>body. bs = out @ body \<and> (rs \<noteq> [] \<longrightarrow> length bs \<le> MAX_FRAME_PAYLOAD)"
proof (induction rs arbitrary: out)
  case (Cons r rs)
  then obtain b where b: "enc r = Inr b" "length (out @ b) \<le> MAX_FRAME_PAYLOAD" "encode_records enc (out @ b) rs = Inr bs"
    by (auto simp: wire_simps split: if_splits)
  from Cons.IH [OF b(3)] obtain body where "bs = (out @ b) @ body" "rs \<noteq> [] \<longrightarrow> length bs \<le> MAX_FRAME_PAYLOAD" by blast
  with b(2,3) show ?case by (cases rs) auto
qed simp

lemma decode_encoded:
  "list_all ok rs \<Longrightarrow> encode_records enc out rs = Inr bs \<Longrightarrow> decode_records dec (length rs) (length out) bs = Inr (length bs, rs)"
proof (induction rs arbitrary: out)
  case (Cons r rs)
  then obtain b where b: "enc r = Inr b" "encode_records enc (out @ b) rs = Inr bs"
    by (auto simp: wire_simps split: if_splits)
  from encode_records_prefix [OF b(2)] obtain body where bs: "bs = out @ b @ body" by auto
  have "dec (length out) bs = Inr (length out + length b, r)" using Cons.prems(1) dec_enc [OF _ b(1)] by (simp add: bs)
  with Cons.IH [OF _ b(2)] Cons.prems(1) show ?case by simp
qed simp

lemma encode_decoded:
  assumes "length (pre @ rest) \<le> MAX_FRAME_PAYLOAD"
  shows "decode_records dec n (length pre) (pre @ rest) = Inr (length (pre @ rest), rs) \<Longrightarrow>
    list_all ok rs \<and> length rs = n \<and> encode_records enc pre rs = Inr (pre @ rest)"
  using assms
proof (induction n arbitrary: pre rest rs)
  case (Suc n)
  then obtain e r rs' where d: "dec (length pre) (pre @ rest) = Inr (e, r)" "decode_records dec n e (pre @ rest) = Inr (length (pre @ rest), rs')"
    "rs = r # rs'" by (auto simp: wire_simps split: prod.splits)
  from enc_dec [OF d(1)] obtain b post where b: "ok r" "rest = b @ post" "enc r = Inr b" "e = length (pre @ b)" by auto
  have "decode_records dec n (length (pre @ b)) ((pre @ b) @ post) = Inr (length ((pre @ b) @ post), rs')" using d(2) b by simp
  from Suc.IH [OF this] Suc.prems(2) have "list_all ok rs' \<and> length rs' = n \<and> encode_records enc (pre @ b) rs' = Inr ((pre @ b) @ post)"
    by (simp add: b(2))
  then show ?case using b d(3) Suc.prems(2) by simp
qed simp

lemma timeline_decodes:
  assumes "length (bt_records t) \<le> MAX_COMMAND_BLOCK_RECORDS" "encode_records enc (timeline_header schema t) (bt_records t) = Inr bs"
    "list_all ok (bt_records t)"
  shows "decode_timeline_with schema dec bs = Inr t"
proof -
  let ?h = "timeline_header schema t"
  have h: "length ?h = TIMELINE_HEADER_LEN" by (simp add: timeline_header_def TIMELINE_HEADER_LEN_def)
  from encode_records_prefix [OF assms(2)] obtain body where b: "bs = ?h @ body" "bt_records t \<noteq> [] \<longrightarrow> length bs \<le> MAX_FRAME_PAYLOAD" by blast
  then have l: "length bs \<le> MAX_FRAME_PAYLOAD"
    using assms(2) h by (cases "bt_records t = []") (auto simp: TIMELINE_HEADER_LEN_def MAX_FRAME_PAYLOAD_def)
  have d: "decode_records dec (length (bt_records t)) TIMELINE_HEADER_LEN bs = Inr (length bs, bt_records t)"
    using decode_encoded [OF assms(3,2)] h by simp
  have n: "unat (of_nat (length (bt_records t)) :: u16) = length (bt_records t)"
    using assms(1) by (simp add: MAX_COMMAND_BLOCK_RECORDS_def wire_simps)
  have f: "from_le (slice 0 8 bs) = bt_revision t" "from_le (slice 8 10 bs) = (of_nat (length (bt_records t)) :: u16)"
    "from_le (slice 10 12 bs) = schema" "from_le (slice 12 16 bs) = (0 :: u32)"
    by (simp_all add: b(1) timeline_header_def wire_simps)
  have "\<not> length bs < TIMELINE_HEADER_LEN" using b(1) h by simp
  then show ?thesis unfolding decode_timeline_with_def Let_def f n d using l assms(1) by simp
qed

lemma timeline_encodes:
  assumes "decode_timeline_with schema dec bs = Inr t"
  shows "list_all ok (bt_records t) \<and> length (bt_records t) \<le> MAX_COMMAND_BLOCK_RECORDS \<and>
    encode_records enc (timeline_header schema t) (bt_records t) = Inr bs"
proof -
  from assms have "16 \<le> length bs" "length bs \<le> MAX_FRAME_PAYLOAD" by (auto simp: decode_timeline_with_def TIMELINE_HEADER_LEN_def split: if_splits)
  then obtain a b c d body where bs: "bs = (a @ b @ c @ d) @ body" "length a = 8" "length b = 2" "length c = 2" "length d = 4"
    using chop_prefix [of "[8, 2, 2, 4]" bs] by (auto simp: map_eq_Cons_conv)
  define n where "n = unat (from_le b :: u16)"
  from assms have r: "c = to_le schema" "d = to_le (0 :: u32)" "n \<le> MAX_COMMAND_BLOCK_RECORDS" "bt_revision t = from_le a"
    "decode_records dec n TIMELINE_HEADER_LEN bs = Inr (length bs, bt_records t)"
    by (auto simp: decode_timeline_with_def bs n_def wire_simps from_le_eq Let_def split: if_splits prod.splits)
  have h: "length (a @ b @ c @ d) = TIMELINE_HEADER_LEN" using bs by (simp add: TIMELINE_HEADER_LEN_def)
  have "decode_records dec n (length (a @ b @ c @ d)) ((a @ b @ c @ d) @ body) = Inr (length ((a @ b @ c @ d) @ body), bt_records t)"
    unfolding h bs(1) [symmetric] by (rule r(5))
  from encode_decoded [OF _ this] \<open>length bs \<le> MAX_FRAME_PAYLOAD\<close> have e: "list_all ok (bt_records t)" "length (bt_records t) = n"
    "encode_records enc (a @ b @ c @ d) (bt_records t) = Inr bs" by (auto simp: bs(1))
  have "timeline_header schema t = a @ b @ c @ d" unfolding timeline_header_def e(2) r(4) using r(1,2) bs by (simp add: n_def wire_simps)
  then show ?thesis using e r(3) by simp
qed

end

interpretation legacy_record: record_codec encode_record decode_record "\<lambda>r. block_ok r \<and> exit_small r"
proof
  fix r bs pre post assume "block_ok r \<and> exit_small r" "encode_record r = Inr bs"
  then show "decode_record (length pre) (pre @ bs @ post) = Inr (length pre + length bs, r)"
    using decode_encoded_record [of r "[]" 0 "\<lambda>_. Inr (ScopeLocal, LocalTrusted)" pre post]
    by (auto simp: decode_record_def encode_record_def split: if_splits)
next
  fix pre rest e r assume "decode_record (length pre) (pre @ rest) = Inr (e, r)"
  from decode_record_sound [OF this [unfolded decode_record_def]]
  show "(block_ok r \<and> exit_small r) \<and> (\<exists>bs post. rest = bs @ post \<and> encode_record r = Inr bs \<and> e = length pre + length bs)"
    by (auto simp: encode_record_def)
qed

interpretation session_record: record_codec encode_session_record decode_session_record "\<lambda>r. block_ok r \<and> exit_small r"
proof
  fix r bs pre post assume "block_ok r \<and> exit_small r" "encode_session_record r = Inr bs"
  then show "decode_session_record (length pre) (pre @ bs @ post) = Inr (length pre + length bs, r)"
    using decode_encoded_record [of r "encode_scope_trust (cb_scope r) (cb_trust r)" SCOPE_TRUST_LEN decode_scope_trust pre post]
    by (auto simp: decode_session_record_def encode_session_record_def SCOPE_TRUST_LEN_def wire_simps split: if_splits)
next
  fix pre rest e r assume "decode_session_record (length pre) (pre @ rest) = Inr (e, r)"
  from decode_record_sound [OF this [unfolded decode_session_record_def]]
  show "(block_ok r \<and> exit_small r) \<and> (\<exists>bs post. rest = bs @ post \<and> encode_session_record r = Inr bs \<and> e = length pre + length bs)"
    by (auto simp: encode_session_record_def wire_simps)
qed

lemma timeline_decode_iff:
  "decode_timeline bs = Inr t \<longleftrightarrow> try_encode_timeline t = Inr bs \<and> list_all (\<lambda>r. block_ok r \<and> exit_small r) (bt_records t)"
  unfolding decode_timeline_def try_encode_timeline_def if_Inl_eq not_less
  using legacy_record.timeline_decodes [of t 0 bs] legacy_record.timeline_encodes [of 0 bs t] by blast

lemma session_timeline_decode_iff:
  "decode_session_timeline bs = Inr t \<longleftrightarrow>
     try_encode_session_timeline t = Inr bs \<and> list_all (\<lambda>r. block_ok r \<and> exit_small r) (bt_records t)"
  unfolding decode_session_timeline_def try_encode_session_timeline_def if_Inl_eq not_less
  using session_record.timeline_decodes [of t TIMELINE_SCHEMA_SESSION bs] session_record.timeline_encodes [of TIMELINE_SCHEMA_SESSION bs t]
  by blast

text \<open>
  C20 (block_timeline_codec): in both schemas, bytes decode to a timeline exactly when they are its
  encoding and every record is well formed: its identities are not zero, its command is UTF-8, its
  end line agrees with its state, and its exit status fits in sixteen bits.
\<close>

theorem block_timeline_codec:
  "(decode_timeline bs = Inr t \<longleftrightarrow>
      try_encode_timeline t = Inr bs \<and> list_all (\<lambda>r. block_ok r \<and> exit_small r) (bt_records t)) \<and>
   (decode_session_timeline bs = Inr t \<longleftrightarrow>
      try_encode_session_timeline t = Inr bs \<and> list_all (\<lambda>r. block_ok r \<and> exit_small r) (bt_records t))"
  using timeline_decode_iff session_timeline_decode_iff by blast

text \<open>Both encoders write the same fixed part first, so equal bytes carry equal lengths and states.\<close>

lemma count_inject:
  assumes "to_le (of_nat m :: u16) = to_le (of_nat n :: u16)" "m < 65536" "n < 65536"
  shows "m = n"
proof -
  have "from_le (to_le w) = w" for w :: u16 by (rule from_to_le) simp
  then have "(of_nat m :: u16) = of_nat n" using assms(1) by metis
  then show ?thesis using assms(2,3) unat_of_nat_u16 by metis
qed

lemma record_header_inject:
  assumes "record_header r @ x = record_header r' @ x'" "length (cb_command r) < 65536" "length (cb_command r') < 65536"
  shows "length (cb_command r) = length (cb_command r') \<and> state_fields (cb_state r) = state_fields (cb_state r')"
proof -
  have h: "record_header r = record_header r'" using assms(1) by (simp add: length_record_header)
  have e: "fst (state_fields (cb_state r)) = fst (state_fields (cb_state r'))"
    "to_le (snd (state_fields (cb_state r))) = to_le (snd (state_fields (cb_state r')))"
    "to_le (of_nat (length (cb_command r)) :: u16) = to_le (of_nat (length (cb_command r')) :: u16)"
    using h by (simp_all add: record_header_def)
  have u: "from_le (to_le w) = w" for w :: u32 by (rule from_to_le) simp
  have "snd (state_fields (cb_state r)) = snd (state_fields (cb_state r'))"
    using e(2) u by metis
  then show ?thesis using e(1) count_inject [OF e(3) assms(2,3)] by (simp add: prod_eq_iff)
qed

locale framed_record = record_codec +
  assumes same_frame: "enc r = Inr b \<Longrightarrow> enc r' = Inr b' \<Longrightarrow> b @ p = b' @ p' \<Longrightarrow>
    length b = length b' \<and> state_fields (cb_state r) = state_fields (cb_state r')"
begin

lemma encoded_states:
  "encode_records enc out rs = Inr bs \<Longrightarrow> encode_records enc out rs' = Inr bs \<Longrightarrow> length rs = length rs' \<Longrightarrow>
     map (state_fields \<circ> cb_state) rs = map (state_fields \<circ> cb_state) rs'"
proof (induction rs arbitrary: out rs')
  case (Cons r rs)
  then obtain r' rs1 where rs': "rs' = r' # rs1" by (cases rs') auto
  obtain b b' where b: "enc r = Inr b" "encode_records enc (out @ b) rs = Inr bs"
    "enc r' = Inr b'" "encode_records enc (out @ b') rs1 = Inr bs"
    using Cons.prems(1,2) by (auto simp: rs' wire_simps split: if_splits)
  obtain p p' where p: "bs = (out @ b) @ p" "bs = (out @ b') @ p'"
    using encode_records_prefix [OF b(2)] encode_records_prefix [OF b(4)] by blast
  then have e: "b @ p = b' @ p'" by simp
  from same_frame [OF b(1,3) e] have s: "length b = length b'" "state_fields (cb_state r) = state_fields (cb_state r')" by blast+
  then have "b = b'" using e by simp
  then show ?case using Cons.IH [OF b(2), of rs1] b(4) s(2) Cons.prems(3) rs' by simp
qed simp

lemma decoded_states:
  assumes "length (bt_records t) \<le> MAX_COMMAND_BLOCK_RECORDS" "encode_records enc (timeline_header schema t) (bt_records t) = Inr bs"
    "decode_timeline_with schema dec bs = Inr t'"
  shows "map (state_fields \<circ> cb_state) (bt_records t) = map (state_fields \<circ> cb_state) (bt_records t') \<and> list_all ok (bt_records t')"
proof -
  note d = timeline_encodes [OF assms(3)]
  obtain p p' where p: "bs = timeline_header schema t @ p" "bs = timeline_header schema t' @ p'"
    using encode_records_prefix [OF assms(2)] encode_records_prefix d by blast
  have "length (timeline_header schema t) = length (timeline_header schema t')" by (simp add: timeline_header_def)
  then have h: "timeline_header schema t = timeline_header schema t'" using p by simp
  then have "to_le (of_nat (length (bt_records t)) :: u16) = to_le (of_nat (length (bt_records t')) :: u16)"
    by (simp add: timeline_header_def)
  then have "length (bt_records t) = length (bt_records t')"
    using assms(1) d by (intro count_inject) (simp_all add: MAX_COMMAND_BLOCK_RECORDS_def)
  with encoded_states [OF assms(2), of "bt_records t'"] d h show ?thesis by simp
qed

end


interpretation legacy_frame: framed_record encode_record decode_record "\<lambda>r. block_ok r \<and> exit_small r"
proof
  fix r b r' b' p p' assume e: "encode_record r = Inr b" "encode_record r' = Inr b'" "b @ p = b' @ p'"
  then have "b = record_header r @ cb_command r" "b' = record_header r' @ cb_command r'" "length (cb_command r) < 65536" "length (cb_command r') < 65536"
    by (auto simp: encode_record_def MAX_COMPOSER_COMMAND_BYTES_def split: if_splits)
  with e(3) record_header_inject [of r "cb_command r @ p" r' "cb_command r' @ p'"]
  show "length b = length b' \<and> state_fields (cb_state r) = state_fields (cb_state r')" by (simp add: length_record_header)
qed

interpretation session_frame: framed_record encode_session_record decode_session_record "\<lambda>r. block_ok r \<and> exit_small r"
proof
  let ?m = "\<lambda>r. encode_scope_trust (cb_scope r) (cb_trust r)"
  fix r b r' b' p p' assume e: "encode_session_record r = Inr b" "encode_session_record r' = Inr b'" "b @ p = b' @ p'"
  then have "b = record_header r @ ?m r @ cb_command r" "b' = record_header r' @ ?m r' @ cb_command r'"
    "length (cb_command r) < 65536" "length (cb_command r') < 65536"
    by (auto simp: encode_session_record_def MAX_COMPOSER_COMMAND_BYTES_def split: if_splits)
  with e(3) record_header_inject [of r "?m r @ cb_command r @ p" r' "?m r' @ cb_command r' @ p'"]
  show "length b = length b' \<and> state_fields (cb_state r) = state_fields (cb_state r')" by (simp add: length_record_header wire_simps)
qed

lemma small_states:
  assumes "map (state_fields \<circ> cb_state) rs = map (state_fields \<circ> cb_state) rs'" "list_all exit_small rs'"
  shows "list_all exit_small rs"
proof -
  have "list_all exit_small xs \<longleftrightarrow> list_all (\<lambda>f. unat (snd f) < 65536) (map (state_fields \<circ> cb_state) xs)" for xs
    by (simp add: list_all_iff exit_small_def)
  with assms show ?thesis by metis
qed

text \<open>
  C34 (block_exit_status_rejected): in both schemas, if a timeline encodes and one of its records
  has an exit status that does not fit in sixteen bits, such as -1, the decoder of that schema
  rejects the bytes.
\<close>

theorem block_exit_status_rejected:
  assumes "\<not> list_all exit_small (bt_records t)"
  shows "(try_encode_timeline t = Inr bs \<longrightarrow> (\<exists>e. decode_timeline bs = Inl e)) \<and>
    (try_encode_session_timeline t = Inr bs' \<longrightarrow> (\<exists>e. decode_session_timeline bs' = Inl e))"
proof (intro conjI impI)
  have all: "list_all exit_small xs" if "list_all (\<lambda>r. block_ok r \<and> exit_small r) xs" for xs
    using that by (simp add: list_all_iff)
  show "\<exists>e. decode_timeline bs = Inl e" if "try_encode_timeline t = Inr bs"
  proof (cases "decode_timeline bs")
    case (Inr t')
    then show ?thesis
      using that assms legacy_frame.decoded_states [of t 0 bs t'] small_states all
      by (auto simp: try_encode_timeline_def decode_timeline_def split: if_splits)
  qed simp
  show "\<exists>e. decode_session_timeline bs' = Inl e" if "try_encode_session_timeline t = Inr bs'"
  proof (cases "decode_session_timeline bs'")
    case (Inr t')
    then show ?thesis
      using that assms session_frame.decoded_states [of t TIMELINE_SCHEMA_SESSION bs' t'] small_states all
      by (auto simp: try_encode_session_timeline_def decode_session_timeline_def split: if_splits)
  qed simp
qed

definition failed_timeline :: block_timeline where
  "failed_timeline = \<lparr>bt_revision = 7, bt_records = [\<lparr>cb_id = 1, cb_command = [0x6c, 0x73], cb_start_line = 3, cb_end_line = Some 4,
     cb_state = BlockCompleted (Some (- 1)), cb_flags = 0, cb_scope = ScopeLocal, cb_trust = LocalTrusted\<rparr>]\<rparr>"

theorem block_exit_status_rejected_witness:
  "\<exists>bs bs' e e'. try_encode_timeline failed_timeline = Inr bs \<and> decode_timeline bs = Inl e \<and>
     try_encode_session_timeline failed_timeline = Inr bs' \<and> decode_session_timeline bs' = Inl e'"
proof -
  have small: "\<not> list_all exit_small (bt_records failed_timeline)"
    by (simp add: exit_small_def failed_timeline_def unsigned_minus_1_eq_mask mask_eq_exp_minus_1)
  have "\<exists>bs. try_encode_timeline failed_timeline = Inr bs" "\<exists>bs. try_encode_session_timeline failed_timeline = Inr bs"
    by (simp_all add: try_encode_timeline_def try_encode_session_timeline_def encode_record_def encode_session_record_def failed_timeline_def
        MAX_COMMAND_BLOCK_RECORDS_def MAX_COMPOSER_COMMAND_BYTES_def MAX_FRAME_PAYLOAD_def timeline_header_def wire_simps)
  then obtain bs bs' where "try_encode_timeline failed_timeline = Inr bs" "try_encode_session_timeline failed_timeline = Inr bs'" by blast
  then show ?thesis using block_exit_status_rejected [OF small, of bs bs'] by blast
qed

end
