(* ===== verification/Wire_History.thy ===== *)
theory Wire_History
  imports Wire_Session
begin

text \<open>
  History range requests and snapshots (\<open>src/crates/seyal-protocol/src/pass7/history.rs\<close>): the codecs,
  the packing of text into cells with a shared sidecar, and the operations that cut a snapshot
  down to the frame.  Row iterators are lists.
\<close>

unbundle bit_operations_syntax

section \<open>Requests\<close>

definition MAX_HISTORY_RANGE_LINES :: nat where "MAX_HISTORY_RANGE_LINES = 512"
definition MAX_HISTORY_RANGE_CELLS :: nat where "MAX_HISTORY_RANGE_CELLS = 131072"
definition MAX_HISTORY_RANGE_BYTES :: nat where "MAX_HISTORY_RANGE_BYTES = 196608"
definition MAX_HISTORY_SIDECAR_BYTES :: nat where "MAX_HISTORY_SIDECAR_BYTES = 65536"
definition MAX_HISTORY_GRAPHEME_BYTES :: nat where "MAX_HISTORY_GRAPHEME_BYTES = 8192"
definition CONTINUATION_FLAG :: u16 where "CONTINUATION_FLAG = 8"
definition WIDTH_SHIFT :: nat where "WIDTH_SHIFT = 4"
definition WIDTH_MASK :: u16 where "WIDTH_MASK = 0x30"
definition SIDECAR_FLAG :: u16 where "SIDECAR_FLAG = 0x80"

record range_request =
  hr_attachment_id :: u128
  hr_request_id :: u64
  hr_block_id :: u64
  hr_start_line :: u64
  hr_end_line :: u64
  hr_max_lines :: u16
  hr_max_cells :: u32
  hr_start_unit :: u32

definition encode_range_request :: "range_request \<Rightarrow> byte list" where
  "encode_range_request m = to_le (hr_attachment_id m) @ to_le (hr_request_id m) @ to_le (hr_block_id m) @ to_le (hr_start_line m)
     @ to_le (hr_end_line m) @ to_le (hr_max_lines m) @ replicate 2 0 @ to_le (hr_max_cells m) @ to_le (hr_start_unit m) @ replicate 4 0"

definition decode_range_request :: "byte list \<Rightarrow> range_request wire" where
  "decode_range_request bs =
    bind_wire (exact_len bs 64) (\<lambda>_.
    let request_id = from_le (slice 16 24 bs); block_id = from_le (slice 24 32 bs);
        start_line = from_le (slice 32 40 bs); end_line = from_le (slice 40 48 bs)
    in if slice 50 52 bs \<noteq> replicate 2 0 \<or> slice 60 64 bs \<noteq> replicate 4 0 \<or> request_id = 0 \<or> block_id = 0 \<or> start_line = 0
          \<or> end_line < start_line then Inl MalformedPayload
       else
         let max_lines = from_le (slice 48 50 bs); max_cells = from_le (slice 52 56 bs); start_unit = from_le (slice 56 60 bs)
         in if max_lines = 0 \<or> unat max_lines > MAX_HISTORY_RANGE_LINES \<or> max_cells = 0 \<or> unat max_cells > MAX_HISTORY_RANGE_CELLS
            then Inl MalformedPayload
            else Inr \<lparr>hr_attachment_id = from_le (slice 0 16 bs), hr_request_id = request_id, hr_block_id = block_id,
                      hr_start_line = start_line, hr_end_line = end_line, hr_max_lines = max_lines, hr_max_cells = max_cells,
                      hr_start_unit = start_unit\<rparr>)"

definition range_request_ok :: "range_request \<Rightarrow> bool" where
  "range_request_ok m \<longleftrightarrow> hr_request_id m \<noteq> 0 \<and> hr_block_id m \<noteq> 0 \<and> hr_start_line m \<noteq> 0 \<and> hr_start_line m \<le> hr_end_line m \<and>
     hr_max_lines m \<noteq> 0 \<and> unat (hr_max_lines m) \<le> MAX_HISTORY_RANGE_LINES \<and> hr_max_cells m \<noteq> 0 \<and> unat (hr_max_cells m) \<le> MAX_HISTORY_RANGE_CELLS"

interpretation range_request: codec encode_range_request decode_range_request range_request_ok
  by (rule fixed_codecI [of _ _ _ "[16, 8, 8, 8, 8, 2, 2, 4, 4, 4]"]; case_tac x;
      auto simp: decode_range_request_def encode_range_request_def range_request_ok_def piece_simps wire_simps not_less)

section \<open>Cells\<close>

datatype range_status = RangeComplete | RangeTruncated | RangeStale | RangeUnsupported

primrec range_status_u8 :: "range_status \<Rightarrow> byte" where
  "range_status_u8 RangeComplete = 0" | "range_status_u8 RangeTruncated = 1" | "range_status_u8 RangeStale = 2"
| "range_status_u8 RangeUnsupported = 3"

definition range_status_from_u8 :: "byte \<Rightarrow> range_status wire" where
  "range_status_from_u8 v = ok_or MalformedPayload (map_of [(0, RangeComplete), (1, RangeTruncated), (2, RangeStale), (3, RangeUnsupported)] v)"

lemma range_status_iff [wire_simps]:
  "range_status_from_u8 v = Inr k \<longleftrightarrow> v = range_status_u8 k" "range_status_from_u8 (range_status_u8 k) = Inr k"
  by (cases k; auto simp: range_status_from_u8_def split: if_splits)+

record history_cell =
  hc_scalar :: u32
  hc_foreground :: u32
  hc_background :: u32
  hc_flags :: u16
  hc_reserved :: u16

record history_row =
  hrow_line_id :: u64
  hrow_cells :: "history_cell list"

definition encoded_row_len :: "history_row \<Rightarrow> nat" where
  "encoded_row_len r = sat_add u64_max 16 (sat_mul u64_max (length (hrow_cells r)) 16)"

definition style_only :: "u16 \<Rightarrow> u16" where
  "style_only flags = flags AND NOT (SIDECAR_FLAG OR CONTINUATION_FLAG OR WIDTH_MASK)"

text \<open>
  \<open>HistoryCell::from_text\<close>, with the sidecar after the call.  A text of one scalar stays inline; any
  other text goes to the sidecar behind its length.
\<close>

definition cell_from_text :: "scalar list \<Rightarrow> u32 \<Rightarrow> u32 \<Rightarrow> u16 \<Rightarrow> byte list \<Rightarrow> byte list \<times> history_cell wire" where
  "cell_from_text txt fgc bgc style_flags sidecar =
    (let style = style_only style_flags in
     case txt of
       [] \<Rightarrow> (sidecar, Inr \<lparr>hc_scalar = 0, hc_foreground = fgc, hc_background = bgc, hc_flags = style, hc_reserved = 0\<rparr>)
     | scalar # more_scalars \<Rightarrow>
         let multi = (more_scalars \<noteq> [] \<or> length (string_bytes txt) \<noteq> len_utf8 scalar)
         in if \<not> multi
            then (sidecar, Inr \<lparr>hc_scalar = of_nat scalar, hc_foreground = fgc, hc_background = bgc, hc_flags = style, hc_reserved = 0\<rparr>)
            else
              let utf = string_bytes txt
              in if length utf > MAX_HISTORY_GRAPHEME_BYTES
                    \<or> sat_add u64_max (sat_add u64_max (length sidecar) 2) (length utf) > MAX_HISTORY_SIDECAR_BYTES
                    \<or> length sidecar > u16_max
                 then (sidecar, Inl OversizedPayload)
                 else (sidecar @ to_le (of_nat (length utf) :: u16) @ utf,
                       Inr \<lparr>hc_scalar = of_nat scalar, hc_foreground = fgc, hc_background = bgc, hc_flags = style OR SIDECAR_FLAG,
                            hc_reserved = of_nat (length sidecar)\<rparr>))"

definition sidecar_utf8 :: "history_cell \<Rightarrow> byte list \<Rightarrow> byte list option wire" where
  "sidecar_utf8 c sidecar =
    (if hc_flags c AND SIDECAR_FLAG = 0 then (if hc_reserved c \<noteq> 0 then Inl MalformedPayload else Inr None)
     else
       let start = unat (hc_reserved c); len_end = start + 2
       in if len_end > length sidecar then Inl MalformedPayload
          else
            let len = unat (from_le (slice start len_end sidecar) :: u16)
            in if len = 0 \<or> len > MAX_HISTORY_GRAPHEME_BYTES then Inl MalformedPayload
               else if len_end + len > length sidecar then Inl MalformedPayload
               else if from_utf8 (slice len_end (len_end + len) sidecar) = None then Inl MalformedPayload
               else Inr (Some (slice len_end (len_end + len) sidecar)))"

definition with_cell_metrics :: "history_cell \<Rightarrow> byte \<Rightarrow> bool \<Rightarrow> history_cell" where
  "with_cell_metrics c width continuation =
    (let flags = hc_flags c AND NOT (CONTINUATION_FLAG OR WIDTH_MASK)
     in if continuation then c\<lparr>hc_flags := flags OR CONTINUATION_FLAG\<rparr>
        else c\<lparr>hc_flags := flags OR push_bit WIDTH_SHIFT (ucast (max 1 (min 3 width)))\<rparr>)"

definition hc_is_continuation :: "history_cell \<Rightarrow> bool" where
  "hc_is_continuation c \<longleftrightarrow> hc_flags c AND CONTINUATION_FLAG \<noteq> 0"

definition history_cell_width :: "history_cell \<Rightarrow> byte" where
  "history_cell_width c = ucast (drop_bit WIDTH_SHIFT (hc_flags c AND WIDTH_MASK))"

section \<open>Packing rows\<close>

record source_cell =
  src_text :: "scalar list"
  src_width :: byte
  src_continuation :: bool
  src_foreground :: u32
  src_background :: u32
  src_style_flags :: u16

fun pack_cells :: "byte list \<Rightarrow> source_cell list \<Rightarrow> history_cell list \<times> byte list \<times> bool" where
  "pack_cells sidecar [] = ([], sidecar, False)"
| "pack_cells sidecar (c # cs) =
    (if src_continuation c then
       let packed = with_cell_metrics \<lparr>hc_scalar = 0, hc_foreground = src_foreground c, hc_background = src_background c,
             hc_flags = style_only (src_style_flags c), hc_reserved = 0\<rparr> (src_width c) True;
           (ps, sidecar', truncated) = pack_cells sidecar cs
       in (packed # ps, sidecar', truncated)
     else
       case cell_from_text (src_text c) (src_foreground c) (src_background c) (src_style_flags c) sidecar of
         (sidecar', Inr packed) \<Rightarrow>
           let (ps, sidecar'', truncated) = pack_cells sidecar' cs
           in (with_cell_metrics packed (src_width c) False # ps, sidecar'', truncated)
       | (sidecar', Inl e) \<Rightarrow> ([], sidecar', True))"

fun pack_rows :: "byte list \<Rightarrow> (u64 \<times> source_cell list) list \<Rightarrow> history_row list \<times> byte list \<times> bool" where
  "pack_rows sidecar [] = ([], sidecar, False)"
| "pack_rows sidecar ((line_id, cs) # rows) =
    (let (wire_cells, sidecar', truncated) = pack_cells sidecar cs;
         here = (if wire_cells \<noteq> [] then [\<lparr>hrow_line_id = line_id, hrow_cells = wire_cells\<rparr>] else [])
     in if truncated then (here, sidecar', True)
        else let (rest, sidecar'', t) = pack_rows sidecar' rows in (here @ rest, sidecar'', t))"

definition pack_source_rows :: "(u64 \<times> source_cell list) list \<Rightarrow> history_row list \<times> byte list \<times> bool" where
  "pack_source_rows rows = pack_rows [] rows"

section \<open>Snapshots\<close>

record range_snapshot =
  hs_request_id :: u64
  hs_block_id :: u64
  hs_revision :: u64
  hs_status :: range_status
  hs_rows :: "history_row list"
  hs_sidecar :: "byte list"

definition SNAPSHOT_HEADER_LEN :: nat where "SNAPSHOT_HEADER_LEN = 32"

fun admit_loop :: "nat \<Rightarrow> nat \<Rightarrow> nat \<Rightarrow> nat \<Rightarrow> history_row list \<Rightarrow> history_row list \<times> bool" where
  "admit_loop max_lines n cell_budget used [] = ([], False)"
| "admit_loop max_lines n cell_budget used (row # rows) =
    (if max_lines = 0 \<or> n \<ge> max_lines then ([], True)
     else if length (hrow_cells row) > cell_budget then ([], True)
     else if sat_add u64_max used (encoded_row_len row) > min MAX_HISTORY_RANGE_BYTES MAX_FRAME_PAYLOAD then ([], True)
     else
       let (out, truncated) = admit_loop max_lines (n + 1) (cell_budget - length (hrow_cells row)) (sat_add u64_max used (encoded_row_len row)) rows
       in (row # out, truncated))"

definition admit_rows :: "history_row list \<Rightarrow> nat \<Rightarrow> nat \<Rightarrow> nat \<Rightarrow> history_row list \<times> bool" where
  "admit_rows rows max_lines max_cells sidecar_len =
    admit_loop max_lines 0 max_cells (sat_add u64_max SNAPSHOT_HEADER_LEN sidecar_len) rows"

definition encode_cell :: "history_cell \<Rightarrow> byte list" where
  "encode_cell c = to_le (hc_scalar c) @ to_le (hc_foreground c) @ to_le (hc_background c) @ to_le (hc_flags c) @ to_le (hc_reserved c)"

definition encode_row :: "history_row \<Rightarrow> byte list" where
  "encode_row r = to_le (hrow_line_id r) @ to_le (of_nat (length (hrow_cells r)) :: u32) @ to_le (0 :: u32) @ concat (map encode_cell (hrow_cells r))"

fun check_cells :: "byte list \<Rightarrow> history_cell list \<Rightarrow> unit wire" where
  "check_cells sidecar [] = Inr ()"
| "check_cells sidecar (c # cs) = bind_wire (sidecar_utf8 c sidecar) (\<lambda>_. check_cells sidecar cs)"

fun encode_rows :: "nat \<Rightarrow> byte list \<Rightarrow> history_row list \<Rightarrow> byte list wire" where
  "encode_rows sidecar_len out [] = Inr out"
| "encode_rows sidecar_len out (r # rs) =
    (if hrow_line_id r = 0 \<or> length (hrow_cells r) > u32_max then Inl MalformedPayload
     else
       let out' = out @ encode_row r
       in if length out' + sidecar_len > MAX_FRAME_PAYLOAD \<or> length out' + sidecar_len > MAX_HISTORY_RANGE_BYTES then Inl OversizedPayload
          else encode_rows sidecar_len out' rs)"

definition snapshot_header :: "range_snapshot \<Rightarrow> byte list" where
  "snapshot_header s = to_le (hs_request_id s) @ to_le (hs_block_id s) @ to_le (hs_revision s) @ [range_status_u8 (hs_status s)] @ [0]
     @ to_le (of_nat (length (hs_rows s)) :: u16) @ to_le (of_nat (length (hs_sidecar s)) :: u32)"

definition all_cells :: "history_row list \<Rightarrow> history_cell list" where
  "all_cells rows = concat (map hrow_cells rows)"

definition try_encode_snapshot :: "range_snapshot \<Rightarrow> byte list wire" where
  "try_encode_snapshot s =
    (if length (hs_rows s) > MAX_HISTORY_RANGE_LINES \<or> length (all_cells (hs_rows s)) > MAX_HISTORY_RANGE_CELLS
        \<or> length (hs_sidecar s) > MAX_HISTORY_SIDECAR_BYTES then Inl OversizedPayload
     else
       bind_wire (check_cells (hs_sidecar s) (all_cells (hs_rows s))) (\<lambda>_.
       bind_wire (encode_rows (length (hs_sidecar s)) (snapshot_header s) (hs_rows s)) (\<lambda>out.
       let out' = out @ hs_sidecar s
       in if length out' > MAX_FRAME_PAYLOAD \<or> length out' > MAX_HISTORY_RANGE_BYTES then Inl OversizedPayload else Inr out')))"

definition trim_sidecar_to_rows :: "range_snapshot \<Rightarrow> range_snapshot" where
  "trim_sidecar_to_rows s =
    (let end_of = (\<lambda>c. let start = unat (hc_reserved c) in
           if hc_flags c AND SIDECAR_FLAG = 0 \<or> start + 2 > length (hs_sidecar s) then 0
           else start + 2 + unat (from_le (slice start (start + 2) (hs_sidecar s)) :: u16))
     in s\<lparr>hs_sidecar := take (fold (\<lambda>c e. max e (end_of c)) (all_cells (hs_rows s)) 0) (hs_sidecar s)\<rparr>)"

text \<open>One step of the safety net: the last unit of the last row goes, or the last row.\<close>

definition drop_last_unit :: "history_cell list \<Rightarrow> history_cell list" where
  "drop_last_unit cs = butlast (rev (dropWhile hc_is_continuation (rev cs)))"

definition shrink_for_encode :: "range_snapshot \<Rightarrow> range_snapshot \<times> bool" where
  "shrink_for_encode s =
    (if \<not> isl (try_encode_snapshot s) then (s, False)
     else if hs_rows s = [] then (s, False)
     else
       let row = last (hs_rows s); cs = drop_last_unit (hrow_cells row);
           rows = (if hrow_cells row = [] \<or> cs = [] then butlast (hs_rows s) else butlast (hs_rows s) @ [row\<lparr>hrow_cells := cs\<rparr>])
       in ((trim_sidecar_to_rows (s\<lparr>hs_rows := rows\<rparr>))\<lparr>hs_status := RangeTruncated\<rparr>, True))"

definition lead_count :: "history_row list \<Rightarrow> u32" where
  "lead_count rows = of_nat (length (filter (\<lambda>c. \<not> hc_is_continuation c) (all_cells rows)))"

section \<open>Decoding a snapshot\<close>

definition decode_cell :: "nat \<Rightarrow> byte list \<Rightarrow> history_cell wire" where
  "decode_cell offset bs = Inr \<lparr>hc_scalar = from_le (slice offset (offset + 4) bs), hc_foreground = from_le (slice (offset + 4) (offset + 8) bs),
     hc_background = from_le (slice (offset + 8) (offset + 12) bs), hc_flags = from_le (slice (offset + 12) (offset + 14) bs),
     hc_reserved = from_le (slice (offset + 14) (offset + 16) bs)\<rparr>"

text \<open>The row loop, with the offset after the rows.\<close>

fun decode_rows :: "nat \<Rightarrow> nat \<Rightarrow> nat \<Rightarrow> nat \<Rightarrow> byte list \<Rightarrow> (nat \<times> history_row list) wire" where
  "decode_rows 0 row_bytes_end total_cells offset bs = Inr (offset, [])"
| "decode_rows (Suc n) row_bytes_end total_cells offset bs =
    (if offset + 16 > row_bytes_end then Inl TruncatedPayload
     else
       let line_id = from_le (slice offset (offset + 8) bs); cells = unat (from_le (slice (offset + 8) (offset + 12) bs) :: u32)
       in if line_id = 0 \<or> slice (offset + 12) (offset + 16) bs \<noteq> replicate 4 0 then Inl MalformedPayload
          else if total_cells + cells > MAX_HISTORY_RANGE_CELLS then Inl OversizedPayload
          else
            let cells_end = offset + 16 + cells * 16
            in if cells_end > row_bytes_end then Inl TruncatedPayload
               else
                 bind_wire (read_items decode_cell 16 cells (offset + 16) bs) (\<lambda>values.
                 bind_wire (decode_rows n row_bytes_end (total_cells + cells) cells_end bs) (\<lambda>(e, rows).
                 Inr (e, \<lparr>hrow_line_id = line_id, hrow_cells = values\<rparr> # rows))))"

definition decode_snapshot :: "byte list \<Rightarrow> range_snapshot wire" where
  "decode_snapshot bs =
    (if length bs > MAX_FRAME_PAYLOAD \<or> length bs > MAX_HISTORY_RANGE_BYTES then Inl OversizedPayload
     else if length bs < SNAPSHOT_HEADER_LEN \<or> bs ! 25 \<noteq> 0 then Inl MalformedPayload
     else
       let sidecar_len = unat (from_le (slice 28 32 bs) :: u32)
       in if sidecar_len > MAX_HISTORY_SIDECAR_BYTES then Inl OversizedPayload
          else if sidecar_len > length bs then Inl MalformedPayload
          else
            let row_bytes_end = length bs - sidecar_len
            in if row_bytes_end < SNAPSHOT_HEADER_LEN then Inl TruncatedPayload
               else
                 bind_wire (range_status_from_u8 (bs ! 24)) (\<lambda>status.
                 let count = unat (from_le (slice 26 28 bs) :: u16)
                 in if count > MAX_HISTORY_RANGE_LINES then Inl MalformedPayload
                    else bind_wire (decode_rows count row_bytes_end 0 SNAPSHOT_HEADER_LEN bs) (\<lambda>(offset, rows).
                      if offset \<noteq> row_bytes_end \<or> offset + sidecar_len \<noteq> length bs then Inl ExactLengthMismatch
                      else
                        let snapshot = \<lparr>hs_request_id = from_le (slice 0 8 bs), hs_block_id = from_le (slice 8 16 bs),
                              hs_revision = from_le (slice 16 24 bs), hs_status = status, hs_rows = rows,
                              hs_sidecar = slice offset (offset + sidecar_len) bs\<rparr>
                        in bind_wire (check_cells (hs_sidecar snapshot) (all_cells rows)) (\<lambda>_. Inr snapshot))))"

section \<open>The snapshot codec\<close>

interpretation history_cell: item_codec encode_cell decode_cell 16 "\<lambda>_. True"
proof
  fix x :: history_cell and pre post :: "byte list"
  show "length (encode_cell x) = 16" by (simp add: encode_cell_def)
  show "decode_cell (length pre) (pre @ encode_cell x @ post) = Inr x"
    by (cases x) (simp add: decode_cell_def encode_cell_def wire_simps)
next
  fix xs pre post :: "byte list" and x assume "length xs = 16" "decode_cell (length pre) (pre @ xs @ post) = Inr x"
  then show "True \<and> encode_cell x = xs" using chop [of xs "[4, 4, 4, 2, 2]"]
    by (auto simp: decode_cell_def encode_cell_def piece_simps wire_simps)
qed

definition row_ok :: "history_row \<Rightarrow> bool" where
  "row_ok r \<longleftrightarrow> hrow_line_id r \<noteq> 0 \<and> length (hrow_cells r) \<le> u32_max"

lemma length_encode_row: "length (encode_row r) = 16 + length (hrow_cells r) * 16"
  by (simp add: encode_row_def history_cell.length_items)

lemma encode_rows_iff:
  "encode_rows n out rs = Inr bs \<longleftrightarrow>
     list_all row_ok rs \<and> bs = out @ concat (map encode_row rs) \<and> (rs \<noteq> [] \<longrightarrow> length bs + n \<le> MAX_HISTORY_RANGE_BYTES)"
proof (induction rs arbitrary: out)
  case (Cons r rs)
  have m: "MAX_HISTORY_RANGE_BYTES < MAX_FRAME_PAYLOAD" by (simp add: MAX_HISTORY_RANGE_BYTES_def MAX_FRAME_PAYLOAD_def)
  have "encode_rows n out (r # rs) = Inr bs \<longleftrightarrow> row_ok r \<and> length (out @ encode_row r) + n \<le> MAX_HISTORY_RANGE_BYTES \<and>
    encode_rows n (out @ encode_row r) rs = Inr bs"
    using m by (auto simp: row_ok_def Let_def not_less)
  also have "\<dots> \<longleftrightarrow> list_all row_ok (r # rs) \<and> bs = out @ concat (map encode_row (r # rs)) \<and> length bs + n \<le> MAX_HISTORY_RANGE_BYTES"
    unfolding Cons.IH by (cases rs) auto
  finally show ?case by simp
qed auto

lemma check_cells_iff: "check_cells sidecar cs = Inr u \<longleftrightarrow> list_all (\<lambda>c. \<not> isl (sidecar_utf8 c sidecar)) cs"
proof (induction cs)
  case (Cons c cs)
  then show ?case by (cases "sidecar_utf8 c sidecar") simp_all
qed simp

lemma decode_encoded_rows:
  "list_all row_ok rs \<Longrightarrow> tot + length (all_cells rs) \<le> MAX_HISTORY_RANGE_CELLS \<Longrightarrow>
   length pre + length (concat (map encode_row rs)) \<le> E \<Longrightarrow>
   decode_rows (length rs) E tot (length pre) (pre @ concat (map encode_row rs) @ post) =
     Inr (length pre + length (concat (map encode_row rs)), rs)"
proof (induction rs arbitrary: pre tot)
  case (Cons r rs)
  obtain i cs where r: "r = \<lparr>hrow_line_id = i, hrow_cells = cs\<rparr>" by (cases r)
  let ?rest = "concat (map encode_row rs) @ post"
  let ?h = "to_le i @ to_le (of_nat (length cs) :: u32) @ to_le (0 :: u32)"
  have n: "unat (of_nat (length cs) :: u32) = length cs" using Cons.prems(1) by (simp add: r row_ok_def wire_simps)
  have z: "to_le (0 :: u32) = replicate 4 0" by (simp add: to_le_def zero_digits)
  have bs: "pre @ concat (map encode_row (r # rs)) @ post = (pre @ ?h) @ concat (map encode_cell cs) @ ?rest" by (simp add: encode_row_def r)
  have items: "read_items decode_cell 16 (length cs) (length pre + 16) (pre @ concat (map encode_row (r # rs)) @ post) = Inr cs"
    using history_cell.read_encoded [of cs "pre @ ?h" ?rest] unfolding bs by (simp add: list_all_iff)
  have rest: "decode_rows (length rs) E (tot + length cs) (length pre + 16 + length cs * 16) (pre @ concat (map encode_row (r # rs)) @ post) =
    Inr (length pre + length (concat (map encode_row (r # rs))), rs)"
    using Cons.IH [of "tot + length cs" "pre @ encode_row r"] Cons.prems
    by (simp add: all_cells_def r length_encode_row add.assoc)
  have f: "from_le (slice (length pre) (length pre + 8) (pre @ concat (map encode_row (r # rs)) @ post)) = i"
    "from_le (slice (length pre + 8) (length pre + 12) (pre @ concat (map encode_row (r # rs)) @ post)) = (of_nat (length cs) :: u32)"
    "slice (length pre + 12) (length pre + 16) (pre @ concat (map encode_row (r # rs)) @ post) = replicate 4 0"
    unfolding bs using z by (simp_all add: wire_simps)
  have lr: "length (concat (map encode_row (r # rs))) = 16 + length cs * 16 + length (concat (map encode_row rs))"
    by (simp add: length_encode_row r)
  have b: "\<not> length pre + 16 > E" "\<not> length pre + 16 + length cs * 16 > E" "\<not> tot + length cs > MAX_HISTORY_RANGE_CELLS" "i \<noteq> 0"
    using Cons.prems lr by (auto simp: all_cells_def r row_ok_def)
  show ?case unfolding length_Cons decode_rows.simps Let_def f n items rest using b by (simp add: r)
qed simp

lemma decode_rows_sound:
  "decode_rows n (length pre + length mid) tot (length pre) (pre @ mid @ post) = Inr (e, rs) \<Longrightarrow> tot \<le> MAX_HISTORY_RANGE_CELLS \<Longrightarrow>
   length rs = n \<and> list_all row_ok rs \<and> tot + length (all_cells rs) \<le> MAX_HISTORY_RANGE_CELLS \<and>
   (\<exists>mid'. mid = concat (map encode_row rs) @ mid') \<and> e = length pre + length (concat (map encode_row rs))"
proof (induction n arbitrary: pre mid tot rs e)
  case (Suc n)
  from Suc.prems(1) have "16 \<le> length mid" by (auto simp: Let_def split: if_splits)
  then obtain a b z c where mid: "mid = a @ b @ z @ c" "length a = 8" "length b = 4" "length z = 4"
    using chop_prefix [of "[8, 4, 4]" mid] by (auto simp: map_eq_Cons_conv)
  define k where "k = unat (from_le b :: u32)"
  let ?pre = "pre @ a @ b @ z"
  have lp: "length ?pre = length pre + 16" using mid by simp
  from Suc.prems(1) obtain cs e' rs' where d: "from_le a \<noteq> (0 :: u64)" "z = replicate 4 0" "tot + k \<le> MAX_HISTORY_RANGE_CELLS" "k * 16 \<le> length c"
    "read_items decode_cell 16 k (length pre + 16) (pre @ mid @ post) = Inr cs"
    "decode_rows n (length pre + length mid) (tot + k) (length pre + 16 + k * 16) (pre @ mid @ post) = Inr (e', rs')"
    "e = e'" "rs = \<lparr>hrow_line_id = from_le a, hrow_cells = cs\<rparr> # rs'"
    by (auto simp: Let_def mid k_def wire_simps not_less split: if_splits prod.splits)
  define c1 where "c1 = take (k * 16) c"
  define c2 where "c2 = drop (k * 16) c"
  have c: "c = c1 @ c2" "length c1 = k * 16" using d(4) by (simp_all add: c1_def c2_def)
  have "read_items decode_cell 16 k (length ?pre) (?pre @ c1 @ (c2 @ post)) = Inr cs" using d(5) lp by (simp add: mid c)
  from history_cell.read_sound [OF c(2) this] have cs: "length cs = k" "concat (map encode_cell cs) = c1" by auto
  let ?r = "\<lparr>hrow_line_id = from_le a, hrow_cells = cs\<rparr>"
  have kb: "to_le (of_nat k :: u32) = b" using mid(3) by (simp add: k_def wire_simps)
  have "to_le (0 :: u32) = replicate 4 0" by (simp add: to_le_def zero_digits)
  then have er: "encode_row ?r = a @ b @ z @ c1" using mid(2) d(2) kb cs by (simp add: encode_row_def wire_simps)
  have ok: "row_ok ?r" using d(1,3) cs(1) by (simp add: row_ok_def MAX_HISTORY_RANGE_CELLS_def)
  have "decode_rows n (length (?pre @ c1) + length c2) (tot + k) (length (?pre @ c1)) ((?pre @ c1) @ c2 @ post) = Inr (e', rs')"
    using d(6) c(2) lp mid by (simp add: c(1) add.assoc)
  from Suc.IH [OF this d(3)] obtain m' where ih: "length rs' = n" "list_all row_ok rs'" "tot + k + length (all_cells rs') \<le> MAX_HISTORY_RANGE_CELLS"
    "c2 = concat (map encode_row rs') @ m'" "e' = length (?pre @ c1) + length (concat (map encode_row rs'))" by auto
  have "mid = concat (map encode_row rs) @ m'" unfolding d(8) using er ih(4) by (simp add: mid c(1))
  moreover have "e = length pre + length (concat (map encode_row rs))" unfolding d(8) d(7) ih(5) using er by simp
  ultimately show ?case using ih ok d(8) cs(1) by (simp add: all_cells_def)
qed (simp add: all_cells_def)

lemma length_snapshot_header: "length (snapshot_header s) = SNAPSHOT_HEADER_LEN"
  by (simp add: snapshot_header_def SNAPSHOT_HEADER_LEN_def)

lemma try_encode_iff:
  "try_encode_snapshot s = Inr bs \<longleftrightarrow>
     length (hs_rows s) \<le> MAX_HISTORY_RANGE_LINES \<and> length (all_cells (hs_rows s)) \<le> MAX_HISTORY_RANGE_CELLS \<and>
     length (hs_sidecar s) \<le> MAX_HISTORY_SIDECAR_BYTES \<and> list_all (\<lambda>c. \<not> isl (sidecar_utf8 c (hs_sidecar s))) (all_cells (hs_rows s)) \<and>
     list_all row_ok (hs_rows s) \<and> bs = snapshot_header s @ concat (map encode_row (hs_rows s)) @ hs_sidecar s \<and>
     length bs \<le> MAX_HISTORY_RANGE_BYTES"
proof -
  have "MAX_HISTORY_RANGE_BYTES < MAX_FRAME_PAYLOAD" by (simp add: MAX_HISTORY_RANGE_BYTES_def MAX_FRAME_PAYLOAD_def)
  then have m: "length ys > MAX_FRAME_PAYLOAD \<or> length ys > MAX_HISTORY_RANGE_BYTES \<longleftrightarrow> \<not> length ys \<le> MAX_HISTORY_RANGE_BYTES" for ys :: "byte list"
    by auto
  show ?thesis unfolding try_encode_snapshot_def if_Inl_eq bind_wire_eq check_cells_iff encode_rows_iff Let_def m
    by auto
qed

lemma snapshot_decodes:
  assumes "try_encode_snapshot s = Inr bs"
  shows "decode_snapshot bs = Inr s"
proof -
  from assms have e: "length (hs_rows s) \<le> MAX_HISTORY_RANGE_LINES" "length (all_cells (hs_rows s)) \<le> MAX_HISTORY_RANGE_CELLS"
     "length (hs_sidecar s) \<le> MAX_HISTORY_SIDECAR_BYTES" "list_all (\<lambda>c. \<not> isl (sidecar_utf8 c (hs_sidecar s))) (all_cells (hs_rows s))"
     "list_all row_ok (hs_rows s)" "bs = snapshot_header s @ concat (map encode_row (hs_rows s)) @ hs_sidecar s"
     "length bs \<le> MAX_HISTORY_RANGE_BYTES" unfolding try_encode_iff by blast+
  let ?E = "length bs - length (hs_sidecar s)"
  have h: "length (snapshot_header s) = 32" by (simp add: length_snapshot_header SNAPSHOT_HEADER_LEN_def)
  have E: "?E = 32 + length (concat (map encode_row (hs_rows s)))" using e(6) h by simp
  have rows: "decode_rows (length (hs_rows s)) ?E 0 32 bs = Inr (?E, hs_rows s)"
    using decode_encoded_rows [of "hs_rows s" 0 "snapshot_header s" ?E "hs_sidecar s"] e(2,5) unfolding E h e(6) by (simp add: h)
  have n: "unat (of_nat (length (hs_rows s)) :: u16) = length (hs_rows s)" "unat (of_nat (length (hs_sidecar s)) :: u32) = length (hs_sidecar s)"
    using e(1,3) by (simp_all add: MAX_HISTORY_RANGE_LINES_def MAX_HISTORY_SIDECAR_BYTES_def wire_simps)
  have f: "bs ! 25 = 0" "range_status_from_u8 (bs ! 24) = Inr (hs_status s)" "unat (from_le (slice 28 32 bs) :: u32) = length (hs_sidecar s)"
    "unat (from_le (slice 26 28 bs) :: u16) = length (hs_rows s)"
    "from_le (slice 0 8 bs) = hs_request_id s" "from_le (slice 8 16 bs) = hs_block_id s" "from_le (slice 16 24 bs) = hs_revision s"
    using n by (simp_all add: e(6) snapshot_header_def wire_simps)
  have side: "slice ?E (?E + length (hs_sidecar s)) bs = hs_sidecar s" unfolding E by (simp add: e(6) h slice_def)
  have c: "check_cells (hs_sidecar s) (all_cells (hs_rows s)) = Inr ()" unfolding check_cells_iff by (rule e(4))
  have b: "\<not> (length bs > MAX_FRAME_PAYLOAD \<or> length bs > MAX_HISTORY_RANGE_BYTES)" "\<not> (length bs < SNAPSHOT_HEADER_LEN \<or> bs ! 25 \<noteq> 0)"
    "\<not> length (hs_sidecar s) > MAX_HISTORY_SIDECAR_BYTES" "\<not> length (hs_sidecar s) > length bs" "\<not> ?E < SNAPSHOT_HEADER_LEN"
    "\<not> length (hs_rows s) > MAX_HISTORY_RANGE_LINES" "?E + length (hs_sidecar s) = length bs"
    using e h E f(1) by (simp_all add: MAX_HISTORY_RANGE_BYTES_def MAX_FRAME_PAYLOAD_def SNAPSHOT_HEADER_LEN_def)
  show "decode_snapshot bs = Inr s"
    unfolding decode_snapshot_def Let_def f using b rows side c by (simp add: SNAPSHOT_HEADER_LEN_def)
qed

lemma snapshot_encodes:
  assumes d: "decode_snapshot bs = Inr s"
  shows "try_encode_snapshot s = Inr bs"
proof -
  from d have "32 \<le> length bs" by (auto simp: decode_snapshot_def SNAPSHOT_HEADER_LEN_def split: if_splits)
  then obtain a b c x y n l body where bs: "bs = (a @ b @ c @ [x] @ [y] @ n @ l) @ body"
    "length a = 8" "length b = 8" "length c = 8" "length n = 2" "length l = 4"
    using chop_prefix [of "[8, 8, 8, 1, 1, 2, 4]" bs] by (auto simp: map_eq_Cons_conv wire_simps)
  let ?h = "a @ b @ c @ [x] @ [y] @ n @ l"
  define k where "k = unat (from_le n :: u16)"
  define q where "q = unat (from_le l :: u32)"
  have hl: "length ?h = 32" using bs by simp
  from d have g: "length bs \<le> MAX_HISTORY_RANGE_BYTES" "y = 0" "q \<le> MAX_HISTORY_SIDECAR_BYTES" "q \<le> length body"
    "range_status_from_u8 x = Inr (hs_status s)" "k \<le> MAX_HISTORY_RANGE_LINES"
    "decode_rows k (length bs - q) 0 32 bs = Inr (length bs - q, hs_rows s)"
    "hs_request_id s = from_le a" "hs_block_id s = from_le b" "hs_revision s = from_le c" "hs_sidecar s = slice (length bs - q) (length bs - q + q) bs"
    "check_cells (hs_sidecar s) (all_cells (hs_rows s)) = Inr ()"
    by (auto simp: decode_snapshot_def SNAPSHOT_HEADER_LEN_def bs k_def q_def wire_simps Let_def not_less split: if_splits prod.splits)
  define mid where "mid = take (length body - q) body"
  define side where "side = drop (length body - q) body"
  have body: "body = mid @ side" "length side = q" using g(4) by (simp_all add: mid_def side_def)
  have E: "length bs - q = length ?h + length mid" using body bs by simp
  have sd: "hs_sidecar s = side" unfolding g(11) E by (simp add: bs(1) body slice_def)
  have "decode_rows k (length ?h + length mid) 0 (length ?h) (?h @ mid @ side) = Inr (length ?h + length mid, hs_rows s)"
    using g(7) unfolding E hl by (simp add: bs(1) body)
  from decode_rows_sound [OF this] obtain m' where r: "length (hs_rows s) = k" "list_all row_ok (hs_rows s)"
    "length (all_cells (hs_rows s)) \<le> MAX_HISTORY_RANGE_CELLS" "mid = concat (map encode_row (hs_rows s)) @ m'"
    "length mid = length (concat (map encode_row (hs_rows s)))" by auto
  have mid: "mid = concat (map encode_row (hs_rows s))" using r(4,5) by simp
  have st: "x = range_status_u8 (hs_status s)" using g(5) by (simp add: wire_simps)
  have "to_le (of_nat k :: u16) = n" "to_le (of_nat q :: u32) = l" using bs by (simp_all add: k_def q_def wire_simps)
  then have "snapshot_header s = ?h" unfolding snapshot_header_def r(1) g(8-10) sd body(2) using bs g(2) st by (simp add: wire_simps)
  then have "bs = snapshot_header s @ concat (map encode_row (hs_rows s)) @ hs_sidecar s" by (simp add: bs(1) body(1) mid sd)
  then show "try_encode_snapshot s = Inr bs"
    unfolding try_encode_iff using r g(1,3,6,12) body(2) sd by (simp add: check_cells_iff)
qed

text \<open>
  C21 (history_snapshot_codec): bytes decode to a history snapshot exactly when they are what the
  encoder writes for it.  So a snapshot that can be encoded arrives unchanged, and the decoder
  accepts neither a count, a length, an identity nor a sidecar offset that the encoder could not
  have written.
\<close>

theorem history_snapshot_codec: "decode_snapshot bs = Inr s \<longleftrightarrow> try_encode_snapshot s = Inr bs"
  using snapshot_decodes snapshot_encodes by blast

end
