(* ===== verification/Wire_Message.thy ===== *)
theory Wire_Message
  imports Wire_Keys Wire_Control Wire_Execution Wire_Session Wire_Composer Wire_Blocks Wire_History
begin

text \<open>
  The message layer of the wire protocol (\<open>framing/message.rs\<close>) and the presentation envelope
  (\<open>framing/presentation.rs\<close>).  The constructors of \<open>MessageType\<close> carry the prefix \<open>Ty\<close>, those of
  \<open>Message\<close> the prefix \<open>Msg\<close>, because the source gives both enums the same names.  The source has no
  encoder for \<open>Message\<close>: a sender calls the payload encoder of the type it sends and hands the bytes to
  \<open>encode_frame\<close>; \<open>message_payload\<close> names that encoder for every message.
\<close>

section \<open>Message types\<close>

datatype (plugins only: code size) message_type =
    TyClientHello | TyServerHello | TyListExecutions | TyExecutionList | TyAttach | TyAttached | TyDetach | TyDetached
  | TyInput | TyResize | TyResync | TyDisplaySnapshot | TyDisplayDelta | TyLifecycle | TyError | TyGoodbye
  | TyTerminalKey | TyResizeRequest | TyResizeResult | TyComposerCommand | TyBlockTimeline | TyComposerResult
  | TyComposerStatus | TyHistoryRangeRequest | TyHistoryRangeSnapshot | TyDisplaySnapshotV2 | TyDisplayDeltaV2
  | TyTerminalKeyV2 | TyPaste | TyHostSelection | TyCopiedText | TyHostSearch | TyTerminalMouse | TyViewportLineIds
  | TyCreateExecutionRequest | TyCreateExecutionResult | TyTerminateExecutionRequest | TyTerminateExecutionResult
  | TySuspendDelivery | TyResumeDelivery | TySessionOffer | TySessionConsent | TySessionStatus | TyComposerTarget
  | TyMintWorkspaceRequest | TyMintWorkspaceResult

primrec message_type_u16 :: "message_type \<Rightarrow> u16" where
  "message_type_u16 TyClientHello = 1" | "message_type_u16 TyServerHello = 2"
| "message_type_u16 TyListExecutions = 3" | "message_type_u16 TyExecutionList = 4" | "message_type_u16 TyAttach = 5"
| "message_type_u16 TyAttached = 6" | "message_type_u16 TyDetach = 7" | "message_type_u16 TyDetached = 8"
| "message_type_u16 TyInput = 9" | "message_type_u16 TyResize = 10" | "message_type_u16 TyResync = 11"
| "message_type_u16 TyDisplaySnapshot = 12" | "message_type_u16 TyDisplayDelta = 13"
| "message_type_u16 TyLifecycle = 14" | "message_type_u16 TyError = 15" | "message_type_u16 TyGoodbye = 16"
| "message_type_u16 TyTerminalKey = 17" | "message_type_u16 TyResizeRequest = 18"
| "message_type_u16 TyResizeResult = 19" | "message_type_u16 TyComposerCommand = 20"
| "message_type_u16 TyBlockTimeline = 21" | "message_type_u16 TyComposerResult = 22"
| "message_type_u16 TyComposerStatus = 23" | "message_type_u16 TyHistoryRangeRequest = 24"
| "message_type_u16 TyHistoryRangeSnapshot = 25" | "message_type_u16 TyDisplaySnapshotV2 = 27"
| "message_type_u16 TyDisplayDeltaV2 = 28" | "message_type_u16 TyTerminalKeyV2 = 29" | "message_type_u16 TyPaste = 30"
| "message_type_u16 TyHostSelection = 31" | "message_type_u16 TyCopiedText = 32"
| "message_type_u16 TyHostSearch = 33" | "message_type_u16 TyTerminalMouse = 34"
| "message_type_u16 TyViewportLineIds = 35" | "message_type_u16 TyCreateExecutionRequest = 36"
| "message_type_u16 TyCreateExecutionResult = 37" | "message_type_u16 TyTerminateExecutionRequest = 38"
| "message_type_u16 TyTerminateExecutionResult = 39" | "message_type_u16 TySuspendDelivery = 40"
| "message_type_u16 TyResumeDelivery = 41" | "message_type_u16 TySessionOffer = 42"
| "message_type_u16 TySessionConsent = 43" | "message_type_u16 TySessionStatus = 44"
| "message_type_u16 TyComposerTarget = 45" | "message_type_u16 TyMintWorkspaceRequest = 46"
| "message_type_u16 TyMintWorkspaceResult = 47"

definition message_type_from_u16 :: "u16 \<Rightarrow> message_type option" where
  "message_type_from_u16 v = map_of
    [(1, TyClientHello), (2, TyServerHello), (3, TyListExecutions), (4, TyExecutionList), (5, TyAttach),
     (6, TyAttached), (7, TyDetach), (8, TyDetached), (9, TyInput), (10, TyResize), (11, TyResync),
     (12, TyDisplaySnapshot), (13, TyDisplayDelta), (14, TyLifecycle), (15, TyError), (16, TyGoodbye),
     (17, TyTerminalKey), (18, TyResizeRequest), (19, TyResizeResult), (20, TyComposerCommand), (21, TyBlockTimeline),
     (22, TyComposerResult), (23, TyComposerStatus), (24, TyHistoryRangeRequest), (25, TyHistoryRangeSnapshot),
     (27, TyDisplaySnapshotV2), (28, TyDisplayDeltaV2), (29, TyTerminalKeyV2), (30, TyPaste), (31, TyHostSelection),
     (32, TyCopiedText), (33, TyHostSearch), (34, TyTerminalMouse), (35, TyViewportLineIds),
     (36, TyCreateExecutionRequest), (37, TyCreateExecutionResult), (38, TyTerminateExecutionRequest),
     (39, TyTerminateExecutionResult), (40, TySuspendDelivery), (41, TyResumeDelivery), (42, TySessionOffer),
     (43, TySessionConsent), (44, TySessionStatus), (45, TyComposerTarget), (46, TyMintWorkspaceRequest),
     (47, TyMintWorkspaceResult)] v"

lemma message_type_u16_inject: "message_type_from_u16 (message_type_u16 k) = Some k"
  by (cases k) (simp_all add: message_type_from_u16_def)

lemma message_type_from_u16_iff: "message_type_from_u16 v = Some k \<longleftrightarrow> v = message_type_u16 k"
proof
  assume "message_type_from_u16 v = Some k"
  from map_of_SomeD [OF this [unfolded message_type_from_u16_def]] show "v = message_type_u16 k" by auto
qed (simp add: message_type_u16_inject)

section \<open>Messages\<close>

datatype (plugins only: code size) message =
    MsgClientHello client_hello | MsgServerHello server_hello | MsgListExecutions
  | MsgExecutionList "execution_entry list" | MsgAttach attach | MsgAttached attached | MsgDetach attachment_payload
  | MsgDetached attachment_payload | MsgInput input_ref | MsgResize wire_resize | MsgResync attachment_payload
  | MsgDisplaySnapshot "byte list" | MsgDisplayDelta "byte list" | MsgLifecycle lifecycle_message
  | MsgError error_message | MsgGoodbye | MsgTerminalKey terminal_key | MsgResizeRequest resize_request
  | MsgResizeResult resize_result | MsgComposerCommand composer_command | MsgBlockTimeline block_timeline
  | MsgComposerResult composer_result | MsgComposerStatus composer_status | MsgHistoryRangeRequest range_request
  | MsgHistoryRangeSnapshot range_snapshot | MsgDisplaySnapshotV2 "byte list" | MsgDisplayDeltaV2 "byte list"
  | MsgTerminalKeyV2 terminal_key_v2 | MsgPaste input_ref | MsgHostSelection host_selection | MsgCopiedText input_ref
  | MsgHostSearch host_search | MsgTerminalMouse terminal_mouse | MsgViewportLineIds viewport_line_ids
  | MsgCreateExecutionRequest create_request | MsgCreateExecutionResult create_result
  | MsgTerminateExecutionRequest terminate_request | MsgTerminateExecutionResult terminate_result
  | MsgSuspendDelivery suspend_delivery | MsgResumeDelivery resume_delivery | MsgSessionOffer session_offer
  | MsgSessionConsent session_consent | MsgSessionStatus session_status | MsgComposerTarget composer_target
  | MsgMintWorkspaceRequest mint_request | MsgMintWorkspaceResult mint_result

definition decode_payload :: "message_type \<Rightarrow> byte list \<Rightarrow> message wire" where
  "decode_payload kind payload = (case kind of
      TyClientHello \<Rightarrow> bind_wire (decode_client_hello payload) (Inr \<circ> MsgClientHello)
    | TyServerHello \<Rightarrow> bind_wire (decode_server_hello payload) (Inr \<circ> MsgServerHello)
    | TyListExecutions \<Rightarrow> if payload \<noteq> [] then Inl ExactLengthMismatch else Inr MsgListExecutions
    | TyExecutionList \<Rightarrow> bind_wire (decode_execution_list payload) (Inr \<circ> MsgExecutionList)
    | TyAttach \<Rightarrow> bind_wire (decode_attach payload) (Inr \<circ> MsgAttach)
    | TyAttached \<Rightarrow> bind_wire (decode_attached payload) (Inr \<circ> MsgAttached)
    | TyDetach \<Rightarrow> bind_wire (decode_attachment_payload payload) (Inr \<circ> MsgDetach)
    | TyDetached \<Rightarrow> bind_wire (decode_attachment_payload payload) (Inr \<circ> MsgDetached)
    | TyInput \<Rightarrow> bind_wire (decode_input payload) (Inr \<circ> MsgInput)
    | TyResize \<Rightarrow> bind_wire (decode_wire_resize payload) (Inr \<circ> MsgResize)
    | TyResync \<Rightarrow> bind_wire (decode_attachment_payload payload) (Inr \<circ> MsgResync)
    | TyDisplaySnapshot \<Rightarrow> Inr (MsgDisplaySnapshot payload)
    | TyDisplayDelta \<Rightarrow> Inr (MsgDisplayDelta payload)
    | TyLifecycle \<Rightarrow> bind_wire (decode_lifecycle_message payload) (Inr \<circ> MsgLifecycle)
    | TyError \<Rightarrow> bind_wire (decode_error_message payload) (Inr \<circ> MsgError)
    | TyGoodbye \<Rightarrow> if payload \<noteq> [] then Inl ExactLengthMismatch else Inr MsgGoodbye
    | TyTerminalKey \<Rightarrow> bind_wire (decode_terminal_key payload) (Inr \<circ> MsgTerminalKey)
    | TyResizeRequest \<Rightarrow> bind_wire (decode_resize_request payload) (Inr \<circ> MsgResizeRequest)
    | TyResizeResult \<Rightarrow> bind_wire (decode_resize_result payload) (Inr \<circ> MsgResizeResult)
    | TyComposerCommand \<Rightarrow> bind_wire (decode_composer_command payload) (Inr \<circ> MsgComposerCommand)
    | TyBlockTimeline \<Rightarrow> bind_wire (decode_timeline payload) (Inr \<circ> MsgBlockTimeline)
    | TyComposerResult \<Rightarrow> bind_wire (decode_composer_result payload) (Inr \<circ> MsgComposerResult)
    | TyComposerStatus \<Rightarrow> bind_wire (decode_composer_status payload) (Inr \<circ> MsgComposerStatus)
    | TyHistoryRangeRequest \<Rightarrow> bind_wire (decode_range_request payload) (Inr \<circ> MsgHistoryRangeRequest)
    | TyHistoryRangeSnapshot \<Rightarrow> bind_wire (decode_snapshot payload) (Inr \<circ> MsgHistoryRangeSnapshot)
    | TyDisplaySnapshotV2 \<Rightarrow> Inr (MsgDisplaySnapshotV2 payload)
    | TyDisplayDeltaV2 \<Rightarrow> Inr (MsgDisplayDeltaV2 payload)
    | TyTerminalKeyV2 \<Rightarrow> bind_wire (decode_terminal_key_v2 payload) (Inr \<circ> MsgTerminalKeyV2)
    | TyPaste \<Rightarrow> bind_wire (decode_input payload) (Inr \<circ> MsgPaste)
    | TyHostSelection \<Rightarrow> bind_wire (decode_host_selection payload) (Inr \<circ> MsgHostSelection)
    | TyCopiedText \<Rightarrow> bind_wire (decode_input payload) (Inr \<circ> MsgCopiedText)
    | TyHostSearch \<Rightarrow> bind_wire (decode_host_search payload) (Inr \<circ> MsgHostSearch)
    | TyTerminalMouse \<Rightarrow> bind_wire (decode_terminal_mouse payload) (Inr \<circ> MsgTerminalMouse)
    | TyViewportLineIds \<Rightarrow> bind_wire (decode_viewport payload) (Inr \<circ> MsgViewportLineIds)
    | TyCreateExecutionRequest \<Rightarrow> bind_wire (decode_create_request payload) (Inr \<circ> MsgCreateExecutionRequest)
    | TyCreateExecutionResult \<Rightarrow> bind_wire (decode_create_result payload) (Inr \<circ> MsgCreateExecutionResult)
    | TyTerminateExecutionRequest \<Rightarrow> bind_wire (decode_terminate_request payload) (Inr \<circ> MsgTerminateExecutionRequest)
    | TyTerminateExecutionResult \<Rightarrow> bind_wire (decode_terminate_result payload) (Inr \<circ> MsgTerminateExecutionResult)
    | TySuspendDelivery \<Rightarrow> bind_wire (decode_suspend_delivery payload) (Inr \<circ> MsgSuspendDelivery)
    | TyResumeDelivery \<Rightarrow> bind_wire (decode_resume_delivery payload) (Inr \<circ> MsgResumeDelivery)
    | TySessionOffer \<Rightarrow> bind_wire (decode_session_offer payload) (Inr \<circ> MsgSessionOffer)
    | TySessionConsent \<Rightarrow> bind_wire (decode_session_consent payload) (Inr \<circ> MsgSessionConsent)
    | TySessionStatus \<Rightarrow> bind_wire (decode_session_status payload) (Inr \<circ> MsgSessionStatus)
    | TyComposerTarget \<Rightarrow> bind_wire (decode_composer_target payload) (Inr \<circ> MsgComposerTarget)
    | TyMintWorkspaceRequest \<Rightarrow> bind_wire (decode_mint_request payload) (Inr \<circ> MsgMintWorkspaceRequest)
    | TyMintWorkspaceResult \<Rightarrow> bind_wire (decode_mint_result payload) (Inr \<circ> MsgMintWorkspaceResult))"

definition decode_message :: "frame_header \<Rightarrow> byte list \<Rightarrow> message wire" where
  "decode_message header payload =
    (if length payload \<noteq> unat (fh_payload_len header) then Inl ExactLengthMismatch
     else bind_wire (ok_or UnknownMessageType (message_type_from_u16 (fh_message_type header))) (\<lambda>kind. decode_payload kind payload))"

definition encode_frame :: "message_type \<Rightarrow> byte list \<Rightarrow> byte list" where
  "encode_frame kind payload = encode_header (new_frame_header (message_type_u16 kind) (of_nat (length payload))) @ payload"

text \<open>A whole frame is read by its header first and then by the payload behind it.\<close>

definition read_frame :: "byte list \<Rightarrow> message wire" where
  "read_frame frame = bind_wire (decode_header frame) (\<lambda>header. decode_message header (drop HEADER_LEN frame))"

section \<open>What a message says\<close>

text \<open>The type a message travels under, the payload a sender writes for it and the rules its fields obey.\<close>

primrec message_kind :: "message \<Rightarrow> message_type" where
  "message_kind (MsgClientHello m) = TyClientHello"
| "message_kind (MsgServerHello m) = TyServerHello"
| "message_kind MsgListExecutions = TyListExecutions"
| "message_kind (MsgExecutionList m) = TyExecutionList"
| "message_kind (MsgAttach m) = TyAttach"
| "message_kind (MsgAttached m) = TyAttached"
| "message_kind (MsgDetach m) = TyDetach"
| "message_kind (MsgDetached m) = TyDetached"
| "message_kind (MsgInput m) = TyInput"
| "message_kind (MsgResize m) = TyResize"
| "message_kind (MsgResync m) = TyResync"
| "message_kind (MsgDisplaySnapshot m) = TyDisplaySnapshot"
| "message_kind (MsgDisplayDelta m) = TyDisplayDelta"
| "message_kind (MsgLifecycle m) = TyLifecycle"
| "message_kind (MsgError m) = TyError"
| "message_kind MsgGoodbye = TyGoodbye"
| "message_kind (MsgTerminalKey m) = TyTerminalKey"
| "message_kind (MsgResizeRequest m) = TyResizeRequest"
| "message_kind (MsgResizeResult m) = TyResizeResult"
| "message_kind (MsgComposerCommand m) = TyComposerCommand"
| "message_kind (MsgBlockTimeline m) = TyBlockTimeline"
| "message_kind (MsgComposerResult m) = TyComposerResult"
| "message_kind (MsgComposerStatus m) = TyComposerStatus"
| "message_kind (MsgHistoryRangeRequest m) = TyHistoryRangeRequest"
| "message_kind (MsgHistoryRangeSnapshot m) = TyHistoryRangeSnapshot"
| "message_kind (MsgDisplaySnapshotV2 m) = TyDisplaySnapshotV2"
| "message_kind (MsgDisplayDeltaV2 m) = TyDisplayDeltaV2"
| "message_kind (MsgTerminalKeyV2 m) = TyTerminalKeyV2"
| "message_kind (MsgPaste m) = TyPaste"
| "message_kind (MsgHostSelection m) = TyHostSelection"
| "message_kind (MsgCopiedText m) = TyCopiedText"
| "message_kind (MsgHostSearch m) = TyHostSearch"
| "message_kind (MsgTerminalMouse m) = TyTerminalMouse"
| "message_kind (MsgViewportLineIds m) = TyViewportLineIds"
| "message_kind (MsgCreateExecutionRequest m) = TyCreateExecutionRequest"
| "message_kind (MsgCreateExecutionResult m) = TyCreateExecutionResult"
| "message_kind (MsgTerminateExecutionRequest m) = TyTerminateExecutionRequest"
| "message_kind (MsgTerminateExecutionResult m) = TyTerminateExecutionResult"
| "message_kind (MsgSuspendDelivery m) = TySuspendDelivery"
| "message_kind (MsgResumeDelivery m) = TyResumeDelivery"
| "message_kind (MsgSessionOffer m) = TySessionOffer"
| "message_kind (MsgSessionConsent m) = TySessionConsent"
| "message_kind (MsgSessionStatus m) = TySessionStatus"
| "message_kind (MsgComposerTarget m) = TyComposerTarget"
| "message_kind (MsgMintWorkspaceRequest m) = TyMintWorkspaceRequest"
| "message_kind (MsgMintWorkspaceResult m) = TyMintWorkspaceResult"

primrec message_payload :: "message \<Rightarrow> byte list wire" where
  "message_payload (MsgClientHello m) = Inr (encode_client_hello m)"
| "message_payload (MsgServerHello m) = Inr (encode_server_hello m)"
| "message_payload MsgListExecutions = Inr []"
| "message_payload (MsgExecutionList m) = Inr (encode_execution_list m)"
| "message_payload (MsgAttach m) = Inr (encode_attach m)"
| "message_payload (MsgAttached m) = Inr (encode_attached m)"
| "message_payload (MsgDetach m) = Inr (encode_attachment_payload m)"
| "message_payload (MsgDetached m) = Inr (encode_attachment_payload m)"
| "message_payload (MsgInput m) = Inr (encode_input m)"
| "message_payload (MsgResize m) = Inr (encode_wire_resize m)"
| "message_payload (MsgResync m) = Inr (encode_attachment_payload m)"
| "message_payload (MsgDisplaySnapshot m) = Inr m"
| "message_payload (MsgDisplayDelta m) = Inr m"
| "message_payload (MsgLifecycle m) = Inr (encode_lifecycle_message m)"
| "message_payload (MsgError m) = Inr (encode_error_message m)"
| "message_payload MsgGoodbye = Inr []"
| "message_payload (MsgTerminalKey m) = Inr (encode_terminal_key m)"
| "message_payload (MsgResizeRequest m) = Inr (encode_resize_request m)"
| "message_payload (MsgResizeResult m) = Inr (encode_resize_result m)"
| "message_payload (MsgComposerCommand m) = Inr (encode_composer_command m)"
| "message_payload (MsgBlockTimeline m) = try_encode_timeline m"
| "message_payload (MsgComposerResult m) = Inr (encode_composer_result m)"
| "message_payload (MsgComposerStatus m) = Inr (encode_composer_status m)"
| "message_payload (MsgHistoryRangeRequest m) = Inr (encode_range_request m)"
| "message_payload (MsgHistoryRangeSnapshot m) = try_encode_snapshot m"
| "message_payload (MsgDisplaySnapshotV2 m) = Inr m"
| "message_payload (MsgDisplayDeltaV2 m) = Inr m"
| "message_payload (MsgTerminalKeyV2 m) = Inr (encode_terminal_key_v2 m)"
| "message_payload (MsgPaste m) = Inr (encode_input m)"
| "message_payload (MsgHostSelection m) = Inr (encode_host_selection m)"
| "message_payload (MsgCopiedText m) = Inr (encode_input m)"
| "message_payload (MsgHostSearch m) = Inr (encode_host_search m)"
| "message_payload (MsgTerminalMouse m) = Inr (encode_terminal_mouse m)"
| "message_payload (MsgViewportLineIds m) = Inr (encode_viewport m)"
| "message_payload (MsgCreateExecutionRequest m) = Inr (encode_create_request m)"
| "message_payload (MsgCreateExecutionResult m) = Inr (encode_create_result m)"
| "message_payload (MsgTerminateExecutionRequest m) = Inr (encode_terminate_request m)"
| "message_payload (MsgTerminateExecutionResult m) = Inr (encode_terminate_result m)"
| "message_payload (MsgSuspendDelivery m) = Inr (encode_suspend_delivery m)"
| "message_payload (MsgResumeDelivery m) = Inr (encode_resume_delivery m)"
| "message_payload (MsgSessionOffer m) = Inr (encode_session_offer m)"
| "message_payload (MsgSessionConsent m) = Inr (encode_session_consent m)"
| "message_payload (MsgSessionStatus m) = Inr (encode_session_status m)"
| "message_payload (MsgComposerTarget m) = Inr (encode_composer_target m)"
| "message_payload (MsgMintWorkspaceRequest m) = Inr (encode_mint_request m)"
| "message_payload (MsgMintWorkspaceResult m) = Inr (encode_mint_result m)"

definition message_ok :: "message \<Rightarrow> bool" where
  "message_ok msg \<longleftrightarrow> (case msg of
      MsgExecutionList m \<Rightarrow> execution_list_ok m
    | MsgInput m \<Rightarrow> input_ok m
    | MsgTerminalKey m \<Rightarrow> validate_terminal_key m = Inr ()
    | MsgResizeRequest m \<Rightarrow> validate_resize_request m = Inr ()
    | MsgResizeResult m \<Rightarrow> validate_resize_result m = Inr ()
    | MsgComposerCommand m \<Rightarrow> composer_command_ok m
    | MsgBlockTimeline m \<Rightarrow> list_all (\<lambda>r. block_ok r \<and> exit_small r) (bt_records m)
    | MsgHistoryRangeRequest m \<Rightarrow> range_request_ok m
    | MsgTerminalKeyV2 m \<Rightarrow> key_v2_ok m
    | MsgPaste m \<Rightarrow> input_ok m
    | MsgCopiedText m \<Rightarrow> input_ok m
    | MsgHostSearch m \<Rightarrow> host_search_ok m
    | MsgTerminalMouse m \<Rightarrow> terminal_mouse_ok m
    | MsgViewportLineIds m \<Rightarrow> validate_viewport m = Inr ()
    | MsgCreateExecutionRequest m \<Rightarrow> validate_create_request m = Inr ()
    | MsgCreateExecutionResult m \<Rightarrow> validate_create_result m = Inr ()
    | MsgTerminateExecutionRequest m \<Rightarrow> validate_terminate_request m = Inr ()
    | MsgTerminateExecutionResult m \<Rightarrow> validate_terminate_result m = Inr ()
    | MsgResumeDelivery m \<Rightarrow> rd_resume_sequence m \<noteq> 0
    | MsgSessionOffer m \<Rightarrow> session_offer_ok m
    | MsgSessionConsent m \<Rightarrow> session_consent_ok m
    | MsgSessionStatus m \<Rightarrow> session_status_ok m
    | MsgComposerTarget m \<Rightarrow> composer_target_ok m
    | MsgMintWorkspaceRequest m \<Rightarrow> validate_mint_request m = Inr ()
    | MsgMintWorkspaceResult m \<Rightarrow> validate_mint_result m = Inr ()
    | _ \<Rightarrow> True)"

lemma message_kind_iff:
  "message_kind msg = TyClientHello \<longleftrightarrow> (\<exists>m. msg = MsgClientHello m)"
  "message_kind msg = TyServerHello \<longleftrightarrow> (\<exists>m. msg = MsgServerHello m)"
  "message_kind msg = TyListExecutions \<longleftrightarrow> msg = MsgListExecutions"
  "message_kind msg = TyExecutionList \<longleftrightarrow> (\<exists>m. msg = MsgExecutionList m)"
  "message_kind msg = TyAttach \<longleftrightarrow> (\<exists>m. msg = MsgAttach m)"
  "message_kind msg = TyAttached \<longleftrightarrow> (\<exists>m. msg = MsgAttached m)"
  "message_kind msg = TyDetach \<longleftrightarrow> (\<exists>m. msg = MsgDetach m)"
  "message_kind msg = TyDetached \<longleftrightarrow> (\<exists>m. msg = MsgDetached m)"
  "message_kind msg = TyInput \<longleftrightarrow> (\<exists>m. msg = MsgInput m)"
  "message_kind msg = TyResize \<longleftrightarrow> (\<exists>m. msg = MsgResize m)"
  "message_kind msg = TyResync \<longleftrightarrow> (\<exists>m. msg = MsgResync m)"
  "message_kind msg = TyDisplaySnapshot \<longleftrightarrow> (\<exists>m. msg = MsgDisplaySnapshot m)"
  "message_kind msg = TyDisplayDelta \<longleftrightarrow> (\<exists>m. msg = MsgDisplayDelta m)"
  "message_kind msg = TyLifecycle \<longleftrightarrow> (\<exists>m. msg = MsgLifecycle m)"
  "message_kind msg = TyError \<longleftrightarrow> (\<exists>m. msg = MsgError m)"
  "message_kind msg = TyGoodbye \<longleftrightarrow> msg = MsgGoodbye"
  "message_kind msg = TyTerminalKey \<longleftrightarrow> (\<exists>m. msg = MsgTerminalKey m)"
  "message_kind msg = TyResizeRequest \<longleftrightarrow> (\<exists>m. msg = MsgResizeRequest m)"
  "message_kind msg = TyResizeResult \<longleftrightarrow> (\<exists>m. msg = MsgResizeResult m)"
  "message_kind msg = TyComposerCommand \<longleftrightarrow> (\<exists>m. msg = MsgComposerCommand m)"
  "message_kind msg = TyBlockTimeline \<longleftrightarrow> (\<exists>m. msg = MsgBlockTimeline m)"
  "message_kind msg = TyComposerResult \<longleftrightarrow> (\<exists>m. msg = MsgComposerResult m)"
  "message_kind msg = TyComposerStatus \<longleftrightarrow> (\<exists>m. msg = MsgComposerStatus m)"
  "message_kind msg = TyHistoryRangeRequest \<longleftrightarrow> (\<exists>m. msg = MsgHistoryRangeRequest m)"
  "message_kind msg = TyHistoryRangeSnapshot \<longleftrightarrow> (\<exists>m. msg = MsgHistoryRangeSnapshot m)"
  "message_kind msg = TyDisplaySnapshotV2 \<longleftrightarrow> (\<exists>m. msg = MsgDisplaySnapshotV2 m)"
  "message_kind msg = TyDisplayDeltaV2 \<longleftrightarrow> (\<exists>m. msg = MsgDisplayDeltaV2 m)"
  "message_kind msg = TyTerminalKeyV2 \<longleftrightarrow> (\<exists>m. msg = MsgTerminalKeyV2 m)"
  "message_kind msg = TyPaste \<longleftrightarrow> (\<exists>m. msg = MsgPaste m)"
  "message_kind msg = TyHostSelection \<longleftrightarrow> (\<exists>m. msg = MsgHostSelection m)"
  "message_kind msg = TyCopiedText \<longleftrightarrow> (\<exists>m. msg = MsgCopiedText m)"
  "message_kind msg = TyHostSearch \<longleftrightarrow> (\<exists>m. msg = MsgHostSearch m)"
  "message_kind msg = TyTerminalMouse \<longleftrightarrow> (\<exists>m. msg = MsgTerminalMouse m)"
  "message_kind msg = TyViewportLineIds \<longleftrightarrow> (\<exists>m. msg = MsgViewportLineIds m)"
  "message_kind msg = TyCreateExecutionRequest \<longleftrightarrow> (\<exists>m. msg = MsgCreateExecutionRequest m)"
  "message_kind msg = TyCreateExecutionResult \<longleftrightarrow> (\<exists>m. msg = MsgCreateExecutionResult m)"
  "message_kind msg = TyTerminateExecutionRequest \<longleftrightarrow> (\<exists>m. msg = MsgTerminateExecutionRequest m)"
  "message_kind msg = TyTerminateExecutionResult \<longleftrightarrow> (\<exists>m. msg = MsgTerminateExecutionResult m)"
  "message_kind msg = TySuspendDelivery \<longleftrightarrow> (\<exists>m. msg = MsgSuspendDelivery m)"
  "message_kind msg = TyResumeDelivery \<longleftrightarrow> (\<exists>m. msg = MsgResumeDelivery m)"
  "message_kind msg = TySessionOffer \<longleftrightarrow> (\<exists>m. msg = MsgSessionOffer m)"
  "message_kind msg = TySessionConsent \<longleftrightarrow> (\<exists>m. msg = MsgSessionConsent m)"
  "message_kind msg = TySessionStatus \<longleftrightarrow> (\<exists>m. msg = MsgSessionStatus m)"
  "message_kind msg = TyComposerTarget \<longleftrightarrow> (\<exists>m. msg = MsgComposerTarget m)"
  "message_kind msg = TyMintWorkspaceRequest \<longleftrightarrow> (\<exists>m. msg = MsgMintWorkspaceRequest m)"
  "message_kind msg = TyMintWorkspaceResult \<longleftrightarrow> (\<exists>m. msg = MsgMintWorkspaceResult m)"
  by (cases msg; simp)+

lemma bind_Inr_comp: "bind_wire a (Inr \<circ> f) = Inr y \<longleftrightarrow> (\<exists>x. a = Inr x \<and> y = f x)"
  by (auto simp: bind_wire_def split: sum.splits)

lemmas payload_codecs =
  client_hello.decode_iff server_hello.decode_iff execution_list.decode_iff attach.decode_iff attached.decode_iff
  attachment_payload.decode_iff input.decode_iff wire_resize.decode_iff lifecycle_message.decode_iff
  error_message.decode_iff terminal_key.decode_iff resize_request.decode_iff resize_result.decode_iff
  composer_command.decode_iff composer_result.decode_iff composer_status.decode_iff range_request.decode_iff
  terminal_key_v2.decode_iff host_selection.decode_iff host_search.decode_iff terminal_mouse.decode_iff
  viewport.decode_iff create_request.decode_iff create_result.decode_iff terminate_request.decode_iff
  terminate_result.decode_iff suspend_delivery.decode_iff resume_delivery.decode_iff session_offer.decode_iff
  session_consent.decode_iff session_status.decode_iff mint_request.decode_iff mint_result.decode_iff

lemma snapshot_payload: "decode_snapshot bs = Inr s \<longleftrightarrow> try_encode_snapshot s = Inr bs"
  using snapshot_decodes snapshot_encodes by blast

lemma decode_payload_exact:
  assumes "kind \<noteq> TyComposerTarget"
  shows "decode_payload kind payload = Inr msg \<longleftrightarrow> message_kind msg = kind \<and> message_ok msg \<and> message_payload msg = Inr payload"
  using assms
  by (cases kind; simp only: decode_payload_def message_type.case message_kind_iff bind_Inr_comp payload_codecs snapshot_payload timeline_decode_iff)
    (auto simp: message_ok_def)

lemma decode_target_payload:
  "decode_payload TyComposerTarget payload = Inr msg \<longleftrightarrow> (\<exists>m. decode_composer_target payload = Inr m \<and> msg = MsgComposerTarget m)"
  by (simp add: decode_payload_def bind_Inr_comp)

lemma decode_payload_sound:
  assumes "decode_payload kind payload = Inr msg"
  shows "message_kind msg = kind \<and> message_ok msg"
  using assms decode_payload_exact [of kind payload msg] composer_target.decode_valid
  by (cases "kind = TyComposerTarget") (auto simp: decode_target_payload message_ok_def)

lemma decode_payload_complete:
  assumes "message_ok msg" "message_payload msg = Inr payload"
  shows "decode_payload (message_kind msg) payload = Inr msg"
  using assms decode_payload_exact [of "message_kind msg" payload msg] composer_target.decode_encode
  by (cases "message_kind msg = TyComposerTarget") (auto simp: decode_target_payload message_ok_def message_kind_iff)

section \<open>Frames\<close>

text \<open>A frame that carries \<open>payload\<close> under the type number \<open>t\<close>.\<close>

definition frame_of :: "u16 \<Rightarrow> byte list \<Rightarrow> byte list" where
  "frame_of t payload = encode_header (new_frame_header t (of_nat (length payload))) @ payload"

lemma encode_frame_of: "encode_frame kind payload = frame_of (message_type_u16 kind) payload"
  by (simp add: encode_frame_def frame_of_def)

lemma length_encode_header: "length (encode_header h) = HEADER_LEN"
  by (simp add: encode_header_def HEADER_LEN_def)

lemma payload_of_frame: "drop HEADER_LEN (frame_of t payload) = payload" "length (frame_of t payload) = HEADER_LEN + length payload"
  by (simp_all add: frame_of_def length_encode_header)

lemma header_of_frame:
  assumes "length payload \<le> MAX_FRAME_PAYLOAD"
  shows "decode_header (frame_of t payload) = Inr (new_frame_header t (of_nat (length payload)))"
    and "unat (fh_payload_len (new_frame_header t (of_nat (length payload)))) = length payload"
proof -
  from assms show n: "unat (fh_payload_len (new_frame_header t (of_nat (length payload)))) = length payload"
    by (simp add: new_frame_header_def MAX_FRAME_PAYLOAD_def wire_simps)
  have "header_valid (new_frame_header t (of_nat (length payload)))"
    using n assms by (simp add: header_valid_def) (simp add: new_frame_header_def)
  moreover have "take HEADER_LEN (frame_of t payload) = encode_header (new_frame_header t (of_nat (length payload)))"
    by (simp add: frame_of_def length_encode_header)
  ultimately show "decode_header (frame_of t payload) = Inr (new_frame_header t (of_nat (length payload)))"
    using header_roundtrip by (subst decode_header_prefix) (simp_all add: payload_of_frame)
qed

lemma complete_frame:
  assumes "decode_header f = Inr h" "length f = HEADER_LEN + unat (fh_payload_len h)"
  shows "f = frame_of (fh_message_type h) (drop HEADER_LEN f)" "length (drop HEADER_LEN f) \<le> MAX_FRAME_PAYLOAD"
proof -
  have "decode_header (take HEADER_LEN f) = Inr h" using assms decode_header_prefix [of f] by simp
  from header_canonical [OF this] assms(2) have h: "header_valid h" "encode_header h = take HEADER_LEN f" by simp_all
  have "new_frame_header (fh_message_type h) (of_nat (length f - HEADER_LEN)) = h"
    using h(1) assms(2) by (cases h) (simp add: new_frame_header_def header_valid_def)
  then show "f = frame_of (fh_message_type h) (drop HEADER_LEN f)"
    using h(2) by (simp add: frame_of_def)
  show "length (drop HEADER_LEN f) \<le> MAX_FRAME_PAYLOAD" using h(1) assms(2) by (simp add: header_valid_def)
qed

lemma short_frame: "decode_header f = Inr h \<Longrightarrow> HEADER_LEN \<le> length f"
  by (auto simp: decode_header_def split: if_splits)

lemma read_frame_iff:
  "read_frame f = Inr msg \<longleftrightarrow>
    (\<exists>kind payload. f = encode_frame kind payload \<and> length payload \<le> MAX_FRAME_PAYLOAD \<and> decode_payload kind payload = Inr msg)"
proof
  assume "read_frame f = Inr msg"
  then obtain h kind where h: "decode_header f = Inr h" and l: "length (drop HEADER_LEN f) = unat (fh_payload_len h)"
    and k: "fh_message_type h = message_type_u16 kind" and d: "decode_payload kind (drop HEADER_LEN f) = Inr msg"
    by (auto simp: read_frame_def decode_message_def bind_wire_eq ok_or_def message_type_from_u16_iff split: if_splits option.splits)
  have "length f = HEADER_LEN + unat (fh_payload_len h)" using l short_frame [OF h] by simp
  from complete_frame [OF h this] d show "\<exists>kind payload. f = encode_frame kind payload \<and> length payload \<le> MAX_FRAME_PAYLOAD \<and> decode_payload kind payload = Inr msg"
    unfolding encode_frame_of k by metis
next
  assume "\<exists>kind payload. f = encode_frame kind payload \<and> length payload \<le> MAX_FRAME_PAYLOAD \<and> decode_payload kind payload = Inr msg"
  then show "read_frame f = Inr msg"
    using header_of_frame by (auto simp: read_frame_def decode_message_def encode_frame_of payload_of_frame new_frame_header_def
        bind_wire_def ok_or_def message_type_u16_inject)
qed

text \<open>
  C18 (frame_codec): reading a frame gives a message exactly when the frame is the one a sender
  writes for it.  Every message whose fields obey the rules of its type and whose payload fits is
  read back unchanged, and for every type but the composer target a frame that is read was written
  by that encoder: no reserved byte, length, count or flag of it is ignored.
\<close>

theorem frame_codec:
  "(message_ok msg \<and> message_payload msg = Inr payload \<and> length payload \<le> MAX_FRAME_PAYLOAD \<longrightarrow>
     read_frame (encode_frame (message_kind msg) payload) = Inr msg) \<and>
   (read_frame frame = Inr msg \<and> message_kind msg \<noteq> TyComposerTarget \<longrightarrow>
     (\<exists>payload. message_payload msg = Inr payload \<and> frame = encode_frame (message_kind msg) payload))"
  using decode_payload_complete [of msg payload] decode_payload_sound decode_payload_exact
  unfolding read_frame_iff by metis

definition attach_example :: attach where
  "attach_example = \<lparr>at_execution_id = 77, at_requested_role = Controller\<rparr>"

lemma attach_example_payload: "length (encode_attach attach_example) \<le> MAX_FRAME_PAYLOAD"
  by (simp add: encode_attach_def MAX_FRAME_PAYLOAD_def)

lemma attach_example_frame: "read_frame (encode_frame TyAttach (encode_attach attach_example)) = Inr (MsgAttach attach_example)"
  unfolding read_frame_iff using attach_example_payload decode_payload_complete [of "MsgAttach attach_example"]
  by (auto simp: message_ok_def)

theorem frame_codec_witness:
  "read_frame (encode_frame TyAttach (encode_attach attach_example)) = Inr (MsgAttach attach_example) \<and>
   (\<exists>payload. message_payload (MsgAttach attach_example) = Inr payload \<and>
      encode_frame TyAttach (encode_attach attach_example) = encode_frame TyAttach payload)"
  using frame_codec [of "MsgAttach attach_example" "encode_attach attach_example" "encode_frame TyAttach (encode_attach attach_example)"]
    attach_example_payload by (simp add: message_ok_def)

text \<open>
  C19 (frames_are_well_typed): a frame that is read carries the type number of its message in its
  header, stays within the frame bound, and the message obeys the rules of its type.
\<close>

theorem frames_are_well_typed:
  assumes "read_frame frame = Inr msg"
  shows "message_ok msg \<and> length frame \<le> HEADER_LEN + MAX_FRAME_PAYLOAD \<and>
    decode_header frame = Inr (new_frame_header (message_type_u16 (message_kind msg)) (of_nat (length frame - HEADER_LEN)))"
proof -
  from assms obtain kind payload where f: "frame = encode_frame kind payload" "length payload \<le> MAX_FRAME_PAYLOAD"
    "decode_payload kind payload = Inr msg"
    unfolding read_frame_iff by blast
  from decode_payload_sound [OF f(3)] header_of_frame(1) [OF f(2), of "message_type_u16 kind"] f(1,2) show ?thesis
    by (simp add: encode_frame_of payload_of_frame)
qed

theorem frames_are_well_typed_witness:
  "decode_header (encode_frame TyAttach (encode_attach attach_example)) =
     Inr (new_frame_header 5 (of_nat (length (encode_attach attach_example))))"
  using frames_are_well_typed [OF attach_example_frame] by (simp add: encode_frame_of payload_of_frame)

section \<open>The presentation envelope\<close>

record presentation_envelope =
  pe_attachment_id :: u128
  pe_resume_sequence :: u64
  pe_payload :: "byte list"

definition PREFIX_LEN :: nat where "PREFIX_LEN = 24"

definition is_presentation_message :: "u16 \<Rightarrow> bool" where
  "is_presentation_message t \<longleftrightarrow> t \<in> {12, 13, 21, 26, 27, 28, 35}"

definition envelope_presentation_frame :: "byte list \<Rightarrow> u128 \<Rightarrow> u64 \<Rightarrow> byte list wire" where
  "envelope_presentation_frame frame attachment_id resume_sequence =
    (if length frame < HEADER_LEN then Inl TruncatedHeader
     else bind_wire (decode_header (take HEADER_LEN frame)) (\<lambda>header.
       let payload_len = unat (fh_payload_len header)
       in if length frame \<noteq> HEADER_LEN + payload_len then Inl ExactLengthMismatch
          else if \<not> is_presentation_message (fh_message_type header) then Inl MalformedPayload
          else bind_wire (ok_or LengthOverflow (checked_add u64_max payload_len PREFIX_LEN)) (\<lambda>new_payload_len.
            if new_payload_len > MAX_FRAME_PAYLOAD then Inl OversizedPayload
            else Inr (encode_header (new_frame_header (fh_message_type header) (of_nat new_payload_len))
                   @ to_le attachment_id @ to_le resume_sequence @ drop HEADER_LEN frame))))"

definition decode_presentation_envelope :: "byte list \<Rightarrow> presentation_envelope wire" where
  "decode_presentation_envelope frame =
    (if length frame < HEADER_LEN then Inl TruncatedHeader
     else bind_wire (decode_header (take HEADER_LEN frame)) (\<lambda>header.
       let payload_len = unat (fh_payload_len header)
       in if length frame \<noteq> HEADER_LEN + payload_len then Inl ExactLengthMismatch
          else if \<not> is_presentation_message (fh_message_type header) then Inl MalformedPayload
          else if payload_len < PREFIX_LEN then Inl TruncatedPayload
          else
            let payload = drop HEADER_LEN frame
            in Inr \<lparr>pe_attachment_id = from_le (slice 0 16 payload), pe_resume_sequence = from_le (slice 16 24 payload),
                    pe_payload = drop PREFIX_LEN payload\<rparr>))"

lemma decode_header_take: "HEADER_LEN \<le> length f \<Longrightarrow> decode_header (take HEADER_LEN f) = decode_header f"
  by (simp add: decode_header_prefix [symmetric])

lemma enveloped_frame:
  assumes "length payload \<le> MAX_FRAME_PAYLOAD"
  shows "envelope_presentation_frame (frame_of t payload) a s =
    (if \<not> is_presentation_message t then Inl MalformedPayload
     else if length payload + PREFIX_LEN > MAX_FRAME_PAYLOAD then Inl OversizedPayload
     else Inr (frame_of t (to_le a @ to_le s @ payload)))"
proof -
  have "HEADER_LEN \<le> length (frame_of t payload)" by (simp add: payload_of_frame)
  with header_of_frame [OF assms, of t] assms show ?thesis
    by (simp add: envelope_presentation_frame_def decode_header_take payload_of_frame bind_wire_def ok_or_def checked_add_def Let_def
        MAX_FRAME_PAYLOAD_def PREFIX_LEN_def frame_of_def [of t "to_le a @ to_le s @ payload"])
      (simp add: new_frame_header_def add.commute)
qed

lemma opened_frame:
  assumes "length payload + PREFIX_LEN \<le> MAX_FRAME_PAYLOAD" "is_presentation_message t"
  shows "decode_presentation_envelope (frame_of t (to_le a @ to_le s @ payload)) =
    Inr \<lparr>pe_attachment_id = a, pe_resume_sequence = s, pe_payload = payload\<rparr>"
proof -
  let ?p = "to_le a @ to_le s @ payload"
  have l: "length ?p \<le> MAX_FRAME_PAYLOAD" using assms(1) by (simp add: PREFIX_LEN_def)
  have "HEADER_LEN \<le> length (frame_of t ?p)" by (simp add: payload_of_frame)
  with header_of_frame [OF l, of t] assms show ?thesis
    by (simp add: decode_presentation_envelope_def decode_header_take payload_of_frame bind_wire_def Let_def PREFIX_LEN_def wire_simps)
      (simp add: new_frame_header_def)
qed

lemma envelope_complete:
  assumes "envelope_presentation_frame (frame_of t payload) a s = Inr out"
  shows "length payload + PREFIX_LEN \<le> MAX_FRAME_PAYLOAD" "is_presentation_message t" "out = frame_of t (to_le a @ to_le s @ payload)"
proof -
  from assms obtain h where h: "decode_header (frame_of t payload) = Inr h" "length (frame_of t payload) = HEADER_LEN + unat (fh_payload_len h)"
    by (auto simp: envelope_presentation_frame_def bind_wire_eq Let_def decode_header_take split: if_splits)
  have "length payload \<le> MAX_FRAME_PAYLOAD" using complete_frame(2) [OF h] by (simp add: payload_of_frame)
  from assms [unfolded enveloped_frame [OF this]]
  show "length payload + PREFIX_LEN \<le> MAX_FRAME_PAYLOAD" "is_presentation_message t" "out = frame_of t (to_le a @ to_le s @ payload)"
    by (auto split: if_splits)
qed

lemma envelope_opens:
  assumes "decode_presentation_envelope f = Inr e"
  obtains t where "is_presentation_message t" "length (pe_payload e) + PREFIX_LEN \<le> MAX_FRAME_PAYLOAD"
    "f = frame_of t (to_le (pe_attachment_id e) @ to_le (pe_resume_sequence e) @ pe_payload e)"
proof -
  let ?p = "drop HEADER_LEN f"
  from assms obtain h where h: "decode_header f = Inr h" "length f = HEADER_LEN + unat (fh_payload_len h)"
    and t: "is_presentation_message (fh_message_type h)" "PREFIX_LEN \<le> unat (fh_payload_len h)"
    and e: "e = \<lparr>pe_attachment_id = from_le (slice 0 16 ?p), pe_resume_sequence = from_le (slice 16 24 ?p), pe_payload = drop PREFIX_LEN ?p\<rparr>"
    by (auto simp: decode_presentation_envelope_def bind_wire_eq Let_def decode_header_take split: if_splits)
  have "PREFIX_LEN \<le> length ?p" using h(2) t(2) by simp
  then have "to_le (pe_attachment_id e) = take 16 ?p" "to_le (pe_resume_sequence e) = take 8 (drop 16 ?p)" "pe_payload e = drop 8 (drop 16 ?p)"
    unfolding e by (simp_all add: PREFIX_LEN_def slice_def to_from_le_width drop_take)
  then have q: "to_le (pe_attachment_id e) @ to_le (pe_resume_sequence e) @ pe_payload e = ?p"
    by (simp only: append_take_drop_id)
  from \<open>PREFIX_LEN \<le> length ?p\<close> have "length (pe_payload e) + PREFIX_LEN = length ?p" unfolding e by (simp add: PREFIX_LEN_def)
  with complete_frame(2) [OF h] have "length (pe_payload e) + PREFIX_LEN \<le> MAX_FRAME_PAYLOAD" by simp
  then show ?thesis by (rule that [OF t(1) _ complete_frame(1) [OF h, folded q]])
qed

text \<open>
  C22 (presentation_envelope_roundtrip): opening an envelope gives an attachment, a resume sequence
  and a payload exactly when the envelope was made with them from a frame with that payload, and a
  frame is put into an envelope exactly when it is a presentation frame and the prefix still fits;
  the envelope keeps its message type.
\<close>

theorem presentation_envelope_roundtrip:
  "(decode_presentation_envelope out = Inr e \<longleftrightarrow>
      (\<exists>t. envelope_presentation_frame (frame_of t (pe_payload e)) (pe_attachment_id e) (pe_resume_sequence e) = Inr out)) \<and>
   (envelope_presentation_frame (frame_of t payload) a s = Inr out' \<longleftrightarrow>
      is_presentation_message t \<and> length payload + PREFIX_LEN \<le> MAX_FRAME_PAYLOAD \<and>
      out' = frame_of t (to_le a @ to_le s @ payload))"
proof -
  have made: "envelope_presentation_frame (frame_of t payload) a s = Inr out' \<longleftrightarrow>
      is_presentation_message t \<and> length payload + PREFIX_LEN \<le> MAX_FRAME_PAYLOAD \<and> out' = frame_of t (to_le a @ to_le s @ payload)"
    for t payload a s out'
    using envelope_complete [of t payload a s out'] enveloped_frame [of payload t a s] by auto
  have "decode_presentation_envelope out = Inr e" if "is_presentation_message t" "length (pe_payload e) + PREFIX_LEN \<le> MAX_FRAME_PAYLOAD"
    "out = frame_of t (to_le (pe_attachment_id e) @ to_le (pe_resume_sequence e) @ pe_payload e)" for t
    using opened_frame [OF that(2,1)] that(3) by simp
  then show ?thesis unfolding made using envelope_opens [of out e] by blast
qed

end
