(* ===== verification/Spec2Isabelle.thy ===== *)
theory Spec2Isabelle
  imports Vt_Parser Damage Line_Ids Grapheme_Store Cells Wrap_Index Eviction_Index History_Content
    History_Truncate Resize_Copy Terminal_Feed Wire_Message
begin

text \<open>
  A verification development for the terminal core of Seyal (\<open>src/crates/seyal-terminal\<close>) and for
  its wire protocol (\<open>src/crates/seyal-protocol\<close>).

  The program.  Bytes of a pseudo-terminal enter the escape-sequence parser (\<open>parser.rs\<close>), which
  emits actions.  The terminal state (\<open>terminal/\<close>) interprets them on a grid of cells (\<open>screen/\<close>);
  texts that do not fit one scalar live in a bounded payload store (\<open>grapheme_store.rs\<close>); changed
  rows are reported through a damage tracker (\<open>damage.rs\<close>).  Every row that scrolls off the primary
  screen becomes a line with a fresh identity (\<open>line.rs\<close>) of the retained history (\<open>history/\<close>), which
  seals lines into segments, evicts the oldest ones at a byte cap while remembering their
  identities, answers queries by anchor, and lays its units out again for any width.  Clients talk
  to the terminal in frames with a fixed header and one payload codec per message type.

  Theories and sources of the terminal.
  \<^item> \<open>Prelude\<close>: machine integers with saturating and checked operations, slices of a flat grid,
    UTF-8 encoding and decoding, strict and lossy.
  \<^item> \<open>Vt_Parser\<close>: \<open>parser.rs\<close>; state machine as a total step function, chunk independence, bounds,
    UTF-8 round trip, resynchronisation, delivery of OSC strings.
  \<^item> \<open>Damage\<close>: \<open>damage.rs\<close>; every mutated row is covered by the damage taken.
  \<^item> \<open>Line_Ids\<close>: \<open>line.rs\<close> and \<open>error.rs\<close>; identities are fresh and exhaustion is an error.
  \<^item> \<open>Grapheme_Store\<close>: \<open>grapheme_store.rs\<close>; budget invariant and lookup after insert.
  \<^item> \<open>Cells\<close>: \<open>cell.rs\<close>, \<open>color.rs\<close>, \<open>style.rs\<close>, \<open>cursor.rs\<close>, \<open>modes.rs\<close>, \<open>width.rs\<close>,
    \<open>active_grapheme.rs\<close>.
  \<^item> \<open>History_Types\<close>: \<open>history/types.rs\<close>.
  \<^item> \<open>Wrap\<close>, \<open>Wrap_Occupancy\<close>, \<open>Wrap_Index\<close>: \<open>history/wrap.rs\<close>; the accelerated column computation
    and the compacted index are equivalent to a unit-by-unit specification on grids of up to 256
    columns, and what the index answers beyond them.
  \<^item> \<open>Eviction\<close>, \<open>Eviction_Index\<close>: the evicted-identity index of \<open>history/eviction.rs\<close>, refined
    against the set of evicted identities.
  \<^item> \<open>History\<close>, \<open>History_Query\<close>, \<open>History_Content\<close>: \<open>history/store.rs\<close>, \<open>history/query.rs\<close>,
    \<open>history/reflow.rs\<close> and what the store holds after any appends.  \<open>History_Truncate\<close> shows that
    the segment loop of \<open>truncate_from\<close> returns and what it leaves; \<open>History_Widths\<close> that the store
    never holds a unit of a width the screen cannot show.
  \<^item> \<open>Screen\<close>, \<open>Screen_Ok\<close>, \<open>Screen_Units\<close>, \<open>Screen_Edits\<close>: \<open>screen/mod.rs\<close> and \<open>screen/ops.rs\<close>; every
    operation keeps the grid well formed and reports a mutation that covers what it changed, which
    operations keep wide units whole, and which ones do not.
  \<^item> \<open>Screen_History\<close>: a row that scrolls off reaches the history with its text.
  \<^item> \<open>Screen_Resize\<close>, \<open>Resize_Copy\<close>: \<open>screen/resize.rs\<close>, its prepare and commit phases and the cells
    a resize keeps.
  \<^item> \<open>Replies\<close>: \<open>protocol_reply.rs\<close>, \<open>mouse.rs\<close>, \<open>presentation.rs\<close>; every report is read back.
  \<^item> \<open>Selection\<close>: \<open>selection.rs\<close>; copied text, pasting, search stepping and copy mode.
  \<^item> \<open>Terminal\<close>, \<open>Terminal_Ok\<close>, \<open>Terminal_Resize\<close>, \<open>Terminal_Feed\<close>: \<open>terminal/state.rs\<close>,
    \<open>terminal/mod.rs\<close>, \<open>terminal/resize.rs\<close> and \<open>terminal/vt/\<close>; the invariant of the whole terminal
    over any sequence of host calls, sound damage, independence of read sizes, atomic resizing and
    final faults.

  Theories and sources of the protocol.
  \<^item> \<open>Wire\<close>: little-endian integers, the frame header (\<open>framing/envelope.rs\<close>).
  \<^item> \<open>Wire_Keys\<close>, \<open>Wire_Control\<close>, \<open>Wire_Execution\<close>, \<open>Wire_Session\<close>, \<open>Wire_Composer\<close>: the payloads of
    \<open>framing/payload.rs\<close>, \<open>framing/execution.rs\<close> and \<open>pass7/\<close>, each encoder inverted by its decoder.
  \<^item> \<open>Wire_Blocks\<close>, \<open>Wire_History\<close>: \<open>pass7/command_blocks.rs\<close> and \<open>pass7/history.rs\<close>; bytes decode
    exactly when they are an encoding of a well-formed value.
  \<^item> \<open>Wire_Message\<close>: \<open>framing/message.rs\<close> and \<open>framing/presentation.rs\<close>; the codec of whole frames.

  Contracts.  The locales \<open>canvas_op\<close> and \<open>screen_op\<close> are what the dispatcher relies on in an editing
  operation, \<open>codec\<close>, \<open>lenient_codec\<close>, \<open>item_codec\<close>, \<open>record_codec\<close> and \<open>framed_record\<close> what a frame or a
  list of records relies on in the codec of its parts; each is interpreted on the operations or
  codecs of the source.

  Conventions.  A byte is an 8-bit word; in the terminal theories u16, u32, u64 and usize are
  naturals with the saturating, checked or wrapping operation of the source written out at its
  width, in the protocol theories they are words; a scalar value is a natural.  A fallible operation
  returns a sum with the error on the left.  An early return inside a loop is a recursion with a sum
  result.  Interior mutability is explicit: functions that fill a cache return the updated value.

  Parameters.  The Unicode width tables and the grapheme segmentation (third-party crates) are the
  record \<open>unicode_env\<close>; sizes of Rust types and the capacity growth of vectors are the record
  \<open>layout\<close>.  The theorems hold for every value of them unless a hypothesis is named.

  Fuel.  \<open>truncate_segments\<close> is the only loop on fuel and returns \<open>None\<close> when it runs out.  One turn
  more than there are segments always suffices, because a segment that is filled again while the
  loop runs lies before the cut and stops it (\<open>truncate_loop_terminates\<close>); this is the fuel
  \<open>truncate_from\<close> gives it, so its \<open>None\<close> branch is never taken.

  Not modelled: operating-system I/O, the runtime's socket server, the display payloads and their
  renderer, the client and the agent crates, and the macOS application.
\<close>

end
